(* ===== verification/GoPrelude.thy ===== *)
theory GoPrelude
  imports Main "HOL-Library.Word" "HOL-Library.Char_ord" "HOL-Library.List_Lexorder"
begin

text \<open>
  What every component of the development shares.
  \<^item> Errors as values: a Go function that returns \<open>(T, error)\<close> is a function into
    \<open>goerror + T\<close>; \<open>Err\<close> carries the text of the error, \<open>Panic\<close> a run-time panic.
  \<^item> The part of Go's standard library the sources use on strings and integers:
    \<open>strings.Trim\<close>, \<open>TrimSpace\<close>, \<open>ToLower\<close>, \<open>Split\<close>, \<open>HasPrefix\<close>, \<open>Contains\<close>,
    \<open>strconv.Atoi\<close>, \<open>strconv.ParseUint\<close>, \<open>Itoa\<close>, truncating division and the sort
    functions. A Go string is a byte string, so it is a \<open>string\<close> here.
  \<^item> JSON values as \<open>encoding/json\<close> decodes them into an \<open>any\<close> with \<open>UseNumber\<close>.
  \<^item> The collections \<open>go_simps\<close> (unfolding of the library functions on concrete inputs)
    and \<open>go_splits\<close> facts used by the component proofs.
\<close>

named_theorems go_simps

section \<open>Errors\<close>

datatype goerror = Err string | Panic string

type_synonym 'a res = "goerror + 'a"

abbreviation fail :: "string \<Rightarrow> 'a res" where
  "fail msg \<equiv> Inl (Err msg)"

text \<open>Sequencing of two fallible calls: the second runs only when the first succeeds.\<close>

definition res_bind :: "'a res \<Rightarrow> ('a \<Rightarrow> 'b res) \<Rightarrow> 'b res" where
  "res_bind r f = (case r of Inl e \<Rightarrow> Inl e | Inr x \<Rightarrow> f x)"

lemma res_bind_simps [simp]:
  "res_bind (Inl e) f = Inl e"
  "res_bind (Inr x) f = f x"
  by (simp_all add: res_bind_def)

lemma res_bind_Inr_iff: "res_bind r f = Inr y \<longleftrightarrow> (\<exists>x. r = Inr x \<and> f x = Inr y)"
  by (cases r) auto

text \<open>An early return: \<open>if c { return ..., errors.New(msg) }\<close> followed by the rest.\<close>

abbreviation reject_if :: "bool \<Rightarrow> string \<Rightarrow> 'a res \<Rightarrow> 'a res" where
  "reject_if c msg rest \<equiv> (if c then fail msg else rest)"

definition is_ok :: "'a res \<Rightarrow> bool" where
  "is_ok r = (case r of Inl _ \<Rightarrow> False | Inr _ \<Rightarrow> True)"

lemma is_ok_simps [simp]: "\<not> is_ok (Inl e)" "is_ok (Inr x)"
  by (simp_all add: is_ok_def)

section \<open>Integers\<close>

text \<open>Go's \<open>/\<close> on signed integers truncates towards zero.\<close>

definition go_quot :: "int \<Rightarrow> int \<Rightarrow> int" where
  "go_quot a b = sgn a * sgn b * (\<bar>a\<bar> div \<bar>b\<bar>)"

lemma go_quot_nonneg [simp]: "0 \<le> a \<Longrightarrow> 0 < b \<Longrightarrow> go_quot a b = a div b"
  by (cases "a = 0") (simp_all add: go_quot_def)

lemma go_quot_round:
  assumes "0 < b" "0 < go_quot a b * b"
  shows "0 < a" and "go_quot a b * b \<le> a" and "a < go_quot a b * b + b"
proof -
  have pos: "0 < a"
  proof (rule ccontr)
    assume "\<not> 0 < a"
    then have "go_quot a b \<le> 0"
      using assms(1) pos_imp_zdiv_nonneg_iff [of b "\<bar>a\<bar>"]
      by (auto simp: go_quot_def sgn_if)
    with assms show False by (simp add: zero_less_mult_iff)
  qed
  then have q: "go_quot a b = a div b" using assms(1) by simp
  have e: "a div b * b + a mod b = a" by simp
  have m: "0 \<le> a mod b" "a mod b < b" using assms(1) by simp_all
  show "0 < a" by (rule pos)
  show "go_quot a b * b \<le> a" unfolding q using e m by linarith
  show "a < go_quot a b * b + b" unfolding q using e m by linarith
qed

definition max_int64 :: int where
  "max_int64 = 9223372036854775807"

definition min_int64 :: int where
  "min_int64 = -9223372036854775808"

section \<open>Strings\<close>

definition is_digit_char :: "char \<Rightarrow> bool" where
  "is_digit_char c \<longleftrightarrow> CHR ''0'' \<le> c \<and> c \<le> CHR ''9''"

definition digit_of :: "char \<Rightarrow> int" where
  "digit_of c = int (of_char c) - 48"

definition lower_char :: "char \<Rightarrow> char" where
  "lower_char c = (if CHR ''A'' \<le> c \<and> c \<le> CHR ''Z'' then char_of (of_char c + 32 :: nat) else c)"

text \<open>\<open>strings.ToLower\<close> on ASCII text; bytes outside \<open>A..Z\<close> are left alone.\<close>

definition ToLower :: "string \<Rightarrow> string" where
  "ToLower s = map lower_char s"

definition EqualFold :: "string \<Rightarrow> string \<Rightarrow> bool" where
  "EqualFold a b \<longleftrightarrow> ToLower a = ToLower b"

definition is_space_char :: "char \<Rightarrow> bool" where
  "is_space_char c \<longleftrightarrow> c \<in> {CHR '' '', CHR 0x09, CHR 0x0A, CHR 0x0B, CHR 0x0C, CHR 0x0D}"

text \<open>Trim every byte that satisfies \<open>p\<close> from both ends.\<close>

definition trim_by :: "(char \<Rightarrow> bool) \<Rightarrow> string \<Rightarrow> string" where
  "trim_by p s = rev (dropWhile p (rev (dropWhile p s)))"

definition TrimSpace :: "string \<Rightarrow> string" where
  "TrimSpace s = trim_by is_space_char s"

definition Trim :: "string \<Rightarrow> string \<Rightarrow> string" where
  "Trim s cutset = trim_by (\<lambda>c. c \<in> set cutset) s"

lemma dropWhile_Nil_iff: "dropWhile p xs = [] \<longleftrightarrow> (\<forall>x\<in>set xs. p x)"
  by (induction xs) auto

lemma trim_by_Nil_iff: "trim_by p s = [] \<longleftrightarrow> (\<forall>c\<in>set s. p c)"
proof
  assume "trim_by p s = []"
  then have all: "\<forall>c\<in>set (dropWhile p s). p c"
    by (simp add: trim_by_def dropWhile_Nil_iff)
  have "dropWhile p s = []"
  proof (rule ccontr)
    assume ne: "dropWhile p s \<noteq> []"
    then have "\<not> p (hd (dropWhile p s))" by (rule hd_dropWhile)
    with ne all show False by auto
  qed
  then show "\<forall>c\<in>set s. p c" by (simp only: dropWhile_Nil_iff)
next
  assume "\<forall>c\<in>set s. p c"
  then have "dropWhile p s = []" by (simp only: dropWhile_Nil_iff)
  then show "trim_by p s = []" unfolding trim_by_def by (simp only: rev.simps dropWhile.simps)
qed

lemma Trim_Nil_iff: "Trim s cutset = [] \<longleftrightarrow> set s \<subseteq> set cutset"
  by (auto simp: Trim_def trim_by_Nil_iff)

text \<open>\<open>strings.Split\<close> with a one-byte separator: never an empty list.\<close>

fun Split1 :: "string \<Rightarrow> char \<Rightarrow> string list" where
  "Split1 [] sep = [[]]"
| "Split1 (c # cs) sep =
     (if c = sep then [] # Split1 cs sep
      else case Split1 cs sep of [] \<Rightarrow> [[c]] | w # ws \<Rightarrow> (c # w) # ws)"

lemma Split1_not_Nil [simp]: "Split1 s sep \<noteq> []"
  by (cases s) (auto split: list.splits)

fun join1 :: "string list \<Rightarrow> char \<Rightarrow> string" where
  "join1 [] sep = []"
| "join1 [w] sep = w"
| "join1 (w # ws) sep = w @ sep # join1 ws sep"

lemma join1_Split1: "join1 (Split1 s sep) sep = s"
proof (induction s)
  case Nil
  then show ?case by simp
next
  case (Cons c s)
  obtain w ws where sp: "Split1 s sep = w # ws"
    by (cases "Split1 s sep") auto
  then show ?case using Cons by (cases ws) auto
qed

definition Contains :: "string \<Rightarrow> string \<Rightarrow> bool" where
  "Contains s sub \<longleftrightarrow> (\<exists>i \<in> set [0..<Suc (length s)]. take (length sub) (drop i s) = sub)"

definition HasPrefix :: "string \<Rightarrow> string \<Rightarrow> bool" where
  "HasPrefix s p \<longleftrightarrow> take (length p) s = p"

fun digits_val :: "int \<Rightarrow> string \<Rightarrow> int" where
  "digits_val acc [] = acc"
| "digits_val acc (c # cs) = digits_val (acc * 10 + digit_of c) cs"

definition all_digits :: "string \<Rightarrow> bool" where
  "all_digits s \<longleftrightarrow> s \<noteq> [] \<and> list_all is_digit_char s"

text \<open>\<open>strconv.Atoi\<close> and \<open>strconv.ParseUint(s, 10, bits)\<close>: \<open>None\<close> on a syntax or range error.\<close>

definition Atoi :: "string \<Rightarrow> int option" where
  "Atoi s =
     (let neg = (s \<noteq> [] \<and> hd s = CHR ''-'');
          body = (if s \<noteq> [] \<and> (hd s = CHR ''-'' \<or> hd s = CHR ''+'') then tl s else s)
      in if \<not> all_digits body then None
         else let v = (if neg then - digits_val 0 body else digits_val 0 body)
              in if min_int64 \<le> v \<and> v \<le> max_int64 then Some v else None)"

definition ParseUint :: "string \<Rightarrow> nat \<Rightarrow> int option" where
  "ParseUint s bits =
     (if \<not> all_digits s then None
      else if digits_val 0 s < 2 ^ bits then Some (digits_val 0 s) else None)"

function Itoa_pos :: "int \<Rightarrow> string" where
  "Itoa_pos n = (if n < 10 then [char_of (nat (48 + n))] else Itoa_pos (n div 10) @ [char_of (nat (48 + n mod 10))])"
  by pat_completeness auto
termination
  by (relation "measure nat") auto

declare Itoa_pos.simps [simp del]

definition Itoa :: "int \<Rightarrow> string" where
  "Itoa i = (if i < 0 then CHR ''-'' # Itoa_pos (- i) else Itoa_pos i)"

lemma digit_of_nonneg: "is_digit_char c \<Longrightarrow> 0 \<le> digit_of c \<and> digit_of c \<le> 9"
  by (auto simp: is_digit_char_def digit_of_def less_eq_char_def)

lemma digits_val_nonneg: "0 \<le> acc \<Longrightarrow> list_all is_digit_char s \<Longrightarrow> acc \<le> digits_val acc s"
proof (induction s arbitrary: acc)
  case Nil
  then show ?case by simp
next
  case (Cons c s)
  then have d: "0 \<le> digit_of c" using digit_of_nonneg [of c] by simp
  with Cons.prems have "acc \<le> acc * 10 + digit_of c" by linarith
  moreover have "acc * 10 + digit_of c \<le> digits_val (acc * 10 + digit_of c) s"
    using Cons.IH [of "acc * 10 + digit_of c"] Cons.prems d by simp
  ultimately show ?case by simp
qed

lemma Atoi_digits:
  assumes "all_digits s"
  shows "Atoi s = (if digits_val 0 s \<le> max_int64 then Some (digits_val 0 s) else None)"
proof -
  obtain c cs where s: "s = c # cs" using assms by (cases s) (auto simp: all_digits_def)
  have dc: "is_digit_char c" using assms by (simp add: s all_digits_def)
  then have "c \<noteq> CHR ''-''" "c \<noteq> CHR ''+''"
    by (auto simp: is_digit_char_def less_eq_char_def)
  moreover have "0 \<le> digits_val 0 s"
    using digits_val_nonneg [of 0 s] assms by (simp add: all_digits_def)
  ultimately show ?thesis
    using assms by (auto simp: Atoi_def s Let_def min_int64_def)
qed

lemma digits_val_append: "digits_val acc (xs @ ys) = digits_val (digits_val acc xs) ys"
  by (induction xs arbitrary: acc) auto

lemma digit_char:
  assumes "0 \<le> d" "d < (10::int)"
  shows "is_digit_char (char_of (nat (48 + d))) \<and> digit_of (char_of (nat (48 + d))) = d"
proof -
  have "list_all (\<lambda>d. is_digit_char (char_of (nat (48 + d))) \<and> digit_of (char_of (nat (48 + d))) = d) [0..9]"
    by code_simp
  then show ?thesis using assms by (simp add: list_all_iff)
qed

lemma Itoa_pos_digits:
  "0 \<le> n \<Longrightarrow> list_all is_digit_char (Itoa_pos n) \<and> digits_val 0 (Itoa_pos n) = n \<and> Itoa_pos n \<noteq> []
     \<and> (n < 10 \<longrightarrow> length (Itoa_pos n) = 1) \<and> (0 < n \<longrightarrow> digit_of (hd (Itoa_pos n)) \<noteq> 0)"
proof (induction n rule: Itoa_pos.induct)
  case (1 n)
  show ?case
  proof (cases "n < 10")
    case True
    then show ?thesis using 1(2) digit_char [of n] by (simp add: Itoa_pos.simps [of n])
  next
    case False
    have "0 \<le> n div 10" "0 < n div 10" "0 \<le> n mod 10" "n mod 10 < 10" using False 1(2) by auto
    then show ?thesis using 1(1) [OF False] digit_char [of "n mod 10"] False
      by (simp add: Itoa_pos.simps [of n] digits_val_append)
  qed
qed

lemma Atoi_Itoa:
  assumes "min_int64 \<le> n" "n \<le> max_int64"
  shows "Atoi (Itoa n) = Some n"
proof (cases "n < 0")
  case True
  then show ?thesis using Itoa_pos_digits [of "- n"] assms
    by (simp add: Itoa_def Atoi_def all_digits_def)
next
  case False
  then have "all_digits (Itoa_pos n)" using Itoa_pos_digits [of n] by (simp add: all_digits_def)
  then show ?thesis using False Itoa_pos_digits [of n] assms by (simp add: Itoa_def Atoi_digits)
qed

lemma ParseUint_Some:
  "ParseUint s bits = Some n \<Longrightarrow> all_digits s \<and> n = digits_val 0 s \<and> 0 \<le> n \<and> n < 2 ^ bits"
  using digits_val_nonneg [of 0 s] by (auto simp: ParseUint_def all_digits_def split: if_splits)

section \<open>Maps\<close>

text \<open>
  A Go map is an association list with distinct keys. \<open>m[k] = v\<close> is \<open>map_put\<close>, \<open>delete(m, k)\<close> is
  \<open>map_del\<close>, \<open>len(m)\<close> is \<open>length\<close>.
\<close>

definition map_put :: "'k \<Rightarrow> 'v \<Rightarrow> ('k \<times> 'v) list \<Rightarrow> ('k \<times> 'v) list" where
  "map_put k v m = (k, v) # filter (\<lambda>kv. fst kv \<noteq> k) m"

definition map_del :: "'k \<Rightarrow> ('k \<times> 'v) list \<Rightarrow> ('k \<times> 'v) list" where
  "map_del k m = filter (\<lambda>kv. fst kv \<noteq> k) m"

lemma map_of_filter_key: "map_of (filter (\<lambda>kv. fst kv \<noteq> k) m) = (map_of m)(k := None)"
  by (induction m) auto

lemma map_of_map_put [simp]: "map_of (map_put k v m) = (map_of m)(k \<mapsto> v)"
  by (simp add: map_put_def map_of_filter_key)

lemma map_of_map_del [simp]: "map_of (map_del k m) = (map_of m)(k := None)"
  by (simp add: map_del_def map_of_filter_key)

lemma distinct_filter_keys: "distinct (map fst m) \<Longrightarrow> distinct (map fst (filter P m))"
  by (induction m) auto

lemma distinct_map_put [simp]: "distinct (map fst m) \<Longrightarrow> distinct (map fst (map_put k v m))"
  by (auto simp: map_put_def distinct_filter_keys)

lemma distinct_map_del [simp]: "distinct (map fst m) \<Longrightarrow> distinct (map fst (map_del k m))"
  by (simp add: map_del_def distinct_filter_keys)

lemma map_of_filter_distinct:
  "distinct (map fst m) \<Longrightarrow>
   map_of (filter P m) k = (case map_of m k of None \<Rightarrow> None | Some v \<Rightarrow> if P (k, v) then Some v else None)"
  by (induction m) (auto split: option.splits simp: map_of_eq_None_iff rev_image_eqI)

lemma filter_absent_key: "map_of m k = None \<Longrightarrow> filter (\<lambda>kv. fst kv \<noteq> k) m = m"
  by (induction m) (auto split: if_splits)

lemma length_map_put_absent: "map_of m k = None \<Longrightarrow> length (map_put k v m) = Suc (length m)"
  by (simp add: map_put_def filter_absent_key)

lemma length_filter_present: "map_of m k \<noteq> None \<Longrightarrow> length (filter (\<lambda>kv. fst kv \<noteq> k) m) < length m"
  by (induction m) (auto simp: le_imp_less_Suc split: if_splits)

lemma length_map_put_present: "map_of m k \<noteq> None \<Longrightarrow> length (map_put k v m) \<le> length m"
  using length_filter_present [of m k] by (simp add: map_put_def Suc_le_eq)

section \<open>JSON values\<close>

text \<open>
  A decoded JSON value. Numbers keep their text, as \<open>json.Number\<close> does; an object is the
  list of its members in document order.
\<close>

datatype json = JNull | JBool bool | JNum string | JStr string | JArr "json list"
  | JObj "(string \<times> json) list"

type_synonym jobject = "(string \<times> json) list"

text \<open>\<open>m[key]\<close> on a \<open>map[string]any\<close>: an absent key reads as \<open>nil\<close>, here \<open>None\<close>.\<close>

abbreviation jget :: "jobject \<Rightarrow> string \<Rightarrow> json option" where
  "jget m key \<equiv> map_of m key"

text \<open>
  \<open>a == b\<close> on two interface values. Comparing two maps or two slices panics; values of
  different dynamic types are unequal.
\<close>

fun iface_uncomparable :: "json option \<Rightarrow> json option \<Rightarrow> bool" where
  "iface_uncomparable (Some (JArr _)) (Some (JArr _)) = True"
| "iface_uncomparable (Some (JObj _)) (Some (JObj _)) = True"
| "iface_uncomparable _ _ = False"

text \<open>A JSON \<open>null\<close> decodes to \<open>nil\<close>, the same interface value as an absent key.\<close>

definition iface_norm :: "json option \<Rightarrow> json option" where
  "iface_norm a = (if a = Some JNull then None else a)"

definition iface_eq :: "json option \<Rightarrow> json option \<Rightarrow> bool" where
  "iface_eq a b \<longleftrightarrow> iface_norm a = iface_norm b"

section \<open>Sorting\<close>

text \<open>
  \<open>sort.SliceStable(xs, less)\<close>: stable insertion by a \<open>less\<close> predicate. The interface a
  comparison function has to meet is the locale \<open>strict_weak_less\<close>; the facts about the
  sorted slice are proved once inside it.
\<close>

fun insert_stable :: "('a \<Rightarrow> 'a \<Rightarrow> bool) \<Rightarrow> 'a \<Rightarrow> 'a list \<Rightarrow> 'a list" where
  "insert_stable lt x [] = [x]"
| "insert_stable lt x (y # ys) =
     (if lt y x then y # insert_stable lt x ys else x # y # ys)"

fun SliceStable :: "('a \<Rightarrow> 'a \<Rightarrow> bool) \<Rightarrow> 'a list \<Rightarrow> 'a list" where
  "SliceStable lt [] = []"
| "SliceStable lt (x # xs) = insert_stable lt x (SliceStable lt xs)"

lemma set_insert_stable [simp]: "set (insert_stable lt x ys) = insert x (set ys)"
  by (induction ys) auto

lemma set_SliceStable [simp]: "set (SliceStable lt xs) = set xs"
  by (induction xs) auto

lemma length_insert_stable [simp]: "length (insert_stable lt x ys) = Suc (length ys)"
  by (induction ys) auto

lemma length_SliceStable [simp]: "length (SliceStable lt xs) = length xs"
  by (induction xs) auto

lemma distinct_insert_stable: "distinct (insert_stable lt x ys) \<longleftrightarrow> x \<notin> set ys \<and> distinct ys"
  by (induction ys) auto

lemma distinct_SliceStable [simp]: "distinct (SliceStable lt xs) = distinct xs"
  by (induction xs) (auto simp: distinct_insert_stable)

lemma SliceStable_Nil_iff [simp]: "SliceStable lt xs = [] \<longleftrightarrow> xs = []"
  by (metis length_SliceStable length_0_conv)

locale strict_weak_less =
  fixes lt :: "'a \<Rightarrow> 'a \<Rightarrow> bool"
  assumes less_asym: "lt a b \<Longrightarrow> \<not> lt b a"
    and less_neg_trans: "\<not> lt a b \<Longrightarrow> \<not> lt b c \<Longrightarrow> \<not> lt a c"
begin

lemma sorted_insert_stable:
  "sorted_wrt (\<lambda>a b. \<not> lt b a) ys \<Longrightarrow> sorted_wrt (\<lambda>a b. \<not> lt b a) (insert_stable lt x ys)"
proof (induction ys)
  case Nil
  then show ?case by simp
next
  case (Cons y ys)
  then show ?case
    by (auto dest: less_asym) (use less_neg_trans in blast)
qed

lemma sorted_SliceStable: "sorted_wrt (\<lambda>a b. \<not> lt b a) (SliceStable lt xs)"
  by (induction xs) (auto intro: sorted_insert_stable)

lemma SliceStable_hd_minimal:
  assumes "x \<in> set xs"
  shows "\<not> lt x (hd (SliceStable lt xs))"
proof (cases "SliceStable lt xs")
  case Nil
  then show ?thesis using assms by simp
next
  case (Cons y ys)
  have "x \<in> insert y (set ys)" using assms Cons set_SliceStable [of lt xs] by auto
  moreover have "\<forall>z\<in>set ys. \<not> lt z y"
    using sorted_SliceStable [of xs] Cons by simp
  moreover have "\<not> lt y y" using less_asym by blast
  ultimately show ?thesis using Cons by auto
qed

end

text \<open>The bytewise order of Go strings (and every linear order) is such a comparison.\<close>

interpretation linorder_less: strict_weak_less "(<) :: 'a::linorder \<Rightarrow> 'a \<Rightarrow> bool"
  by unfold_locales auto

end
