(* ===== verification/Netip.thy ===== *)
theory Netip
  imports GoPrelude
begin

text \<open>
  The part of Go's \<open>net/netip\<close> that the policies rely on: addresses, \<open>ParseAddr\<close> and the
  classification predicates. An IPv4 address holds 4 byte values, an IPv6 address 16 byte
  values and a zone (the empty string for none). These definitions model the standard library,
  so none of them is mapped to a file of the repository.
\<close>

datatype addr = V4 "int list" | V6 "int list" string

fun Is4 :: "addr \<Rightarrow> bool" where
  "Is4 (V4 _) = True"
| "Is4 (V6 _ _) = False"

fun Is6 :: "addr \<Rightarrow> bool" where
  "Is6 (V4 _) = False"
| "Is6 (V6 _ _) = True"

fun Zone :: "addr \<Rightarrow> string" where
  "Zone (V4 _) = []"
| "Zone (V6 _ z) = z"

definition mapped_prefix :: "int list" where
  "mapped_prefix = replicate 10 0 @ [255, 255]"

fun Is4In6 :: "addr \<Rightarrow> bool" where
  "Is4In6 (V4 _) = False"
| "Is4In6 (V6 bs _) = (take 12 bs = mapped_prefix)"

fun Unmap :: "addr \<Rightarrow> addr" where
  "Unmap (V4 bs) = V4 bs"
| "Unmap (V6 bs z) = (if take 12 bs = mapped_prefix then V4 (drop 12 bs) else V6 bs z)"

text \<open>Byte \<open>i\<close> of an address; every address value has 4 or 16 of them.\<close>

definition byte_at :: "int list \<Rightarrow> nat \<Rightarrow> int" where
  "byte_at bs i = (if i < length bs then bs ! i else 0)"

fun IsPrivate :: "addr \<Rightarrow> bool" where
  "IsPrivate (V4 bs) = (byte_at bs 0 = 10
     \<or> (byte_at bs 0 = 172 \<and> byte_at bs 1 div 16 = 1)
     \<or> (byte_at bs 0 = 192 \<and> byte_at bs 1 = 168))"
| "IsPrivate (V6 bs _) =
     (if take 12 bs = mapped_prefix
      then (byte_at bs 12 = 10 \<or> (byte_at bs 12 = 172 \<and> byte_at bs 13 div 16 = 1)
            \<or> (byte_at bs 12 = 192 \<and> byte_at bs 13 = 168))
      else byte_at bs 0 div 2 = 126)"

fun IsLoopback :: "addr \<Rightarrow> bool" where
  "IsLoopback (V4 bs) = (byte_at bs 0 = 127)"
| "IsLoopback (V6 bs _) =
     (if take 12 bs = mapped_prefix then byte_at bs 12 = 127 else bs = replicate 15 0 @ [1])"

fun IsLinkLocalUnicast :: "addr \<Rightarrow> bool" where
  "IsLinkLocalUnicast (V4 bs) = (byte_at bs 0 = 169 \<and> byte_at bs 1 = 254)"
| "IsLinkLocalUnicast (V6 bs _) =
     (if take 12 bs = mapped_prefix then byte_at bs 12 = 169 \<and> byte_at bs 13 = 254
      else byte_at bs 0 = 254 \<and> byte_at bs 1 div 64 = 2)"

fun IsMulticast :: "addr \<Rightarrow> bool" where
  "IsMulticast (V4 bs) = (byte_at bs 0 div 16 = 14)"
| "IsMulticast (V6 bs _) =
     (if take 12 bs = mapped_prefix then byte_at bs 12 div 16 = 14 else byte_at bs 0 = 255)"

fun IsUnspecified :: "addr \<Rightarrow> bool" where
  "IsUnspecified (V4 bs) = (bs = replicate 4 0)"
| "IsUnspecified (V6 bs z) = (bs = replicate 16 0 \<and> z = [])"

text \<open>
  \<open>IsGlobalUnicast\<close>: neither IPv4 nor IPv6 unspecified, not the IPv4 broadcast address, not
  loopback, multicast or link-local. It also holds of private addresses. An address with a zone is not the
  unspecified one, since the comparison of two addresses includes the zone.
\<close>

fun IsGlobalUnicast :: "addr \<Rightarrow> bool" where
  "IsGlobalUnicast (V4 bs) = (bs \<noteq> replicate 4 0 \<and> bs \<noteq> replicate 4 255
     \<and> \<not> IsLoopback (V4 bs) \<and> \<not> IsMulticast (V4 bs) \<and> \<not> IsLinkLocalUnicast (V4 bs))"
| "IsGlobalUnicast (V6 bs z) =
     (if take 12 bs = mapped_prefix
      then drop 12 bs \<noteq> replicate 4 0 \<and> drop 12 bs \<noteq> replicate 4 255
        \<and> \<not> IsLoopback (V6 bs z) \<and> \<not> IsMulticast (V6 bs z) \<and> \<not> IsLinkLocalUnicast (V6 bs z)
      else \<not> IsUnspecified (V6 bs z)
        \<and> \<not> IsLoopback (V6 bs z) \<and> \<not> IsMulticast (V6 bs z) \<and> \<not> IsLinkLocalUnicast (V6 bs z))"

section \<open>Parsing\<close>

definition v4_field :: "string \<Rightarrow> int option" where
  "v4_field s =
     (if \<not> all_digits s \<or> length s > 3 \<or> (length s > 1 \<and> hd s = CHR ''0'') then None
      else if digits_val 0 s \<le> 255 then Some (digits_val 0 s) else None)"

definition parse_v4_fields :: "string \<Rightarrow> int list option" where
  "parse_v4_fields s =
     (case map v4_field (Split1 s CHR ''.'') of
        [Some a, Some b, Some c, Some d] \<Rightarrow> Some [a, b, c, d]
      | _ \<Rightarrow> None)"

definition hex_digit :: "char \<Rightarrow> int option" where
  "hex_digit c =
     (let n = int (of_char c) in
      if 48 \<le> n \<and> n \<le> 57 then Some (n - 48)
      else if 97 \<le> n \<and> n \<le> 102 then Some (n - 87)
      else if 65 \<le> n \<and> n \<le> 70 then Some (n - 55) else None)"

fun hex_val :: "int \<Rightarrow> string \<Rightarrow> int" where
  "hex_val acc [] = acc"
| "hex_val acc (c # cs) = (case hex_digit c of None \<Rightarrow> acc | Some d \<Rightarrow> hex_val (acc * 16 + d) cs)"

definition hex_prefix :: "string \<Rightarrow> string" where
  "hex_prefix s = takeWhile (\<lambda>c. hex_digit c \<noteq> None) s"

text \<open>
  The loop over the colon-separated groups: \<open>ip\<close> holds the bytes read so far (its length is the
  loop's \<open>i\<close>), \<open>ell\<close> the position of \<open>::\<close>, \<open>s\<close> the unread text. The result is the bytes,
  the position of \<open>::\<close> and the unread text at the end of the loop.
\<close>

function v6_loop :: "int list \<Rightarrow> nat option \<Rightarrow> string \<Rightarrow> (int list \<times> nat option \<times> string) option" where
  "v6_loop ip ell s =
     (if length ip \<ge> 16 then Some (ip, ell, s)
      else let h = hex_prefix s; off = length h; rest = drop off s in
        if off > 4 \<or> off = 0 then None
        else if rest \<noteq> [] \<and> hd rest = CHR ''.'' then
          (if (ell = None \<and> length ip \<noteq> 12) \<or> length ip + 4 > 16 then None
           else case parse_v4_fields s of None \<Rightarrow> None | Some q \<Rightarrow> Some (ip @ q, ell, []))
        else let ip' = ip @ [hex_val 0 h div 256, hex_val 0 h mod 256] in
          if rest = [] then Some (ip', ell, [])
          else if hd rest \<noteq> CHR '':'' \<or> length rest = 1 then None
          else let s' = tl rest in
            if hd s' = CHR '':'' then
              (if ell \<noteq> None then None
               else if tl s' = [] then Some (ip', Some (length ip'), [])
               else v6_loop ip' (Some (length ip')) (tl s'))
            else v6_loop ip' ell s')"
  by pat_completeness auto
termination
  by (relation "measure (\<lambda>(ip, ell, s). 16 - length ip)") auto

declare v6_loop.simps [simp del]

definition finish_v6 :: "string \<Rightarrow> (int list \<times> nat option \<times> string) option \<Rightarrow> addr option" where
  "finish_v6 zone r =
     (case r of None \<Rightarrow> None
      | Some (ip, ell, s) \<Rightarrow>
          if s \<noteq> [] then None
          else if length ip < 16 then
            (case ell of None \<Rightarrow> None
             | Some e \<Rightarrow> Some (V6 (take e ip @ replicate (16 - length ip) 0 @ drop e ip) zone))
          else if ell \<noteq> None then None
          else Some (V6 ip zone))"

definition parse_v6 :: "string \<Rightarrow> addr option" where
  "parse_v6 inp =
     (let s = takeWhile (\<lambda>c. c \<noteq> CHR ''%'') inp;
          has_zone = CHR ''%'' \<in> set inp;
          zone = drop (Suc (length s)) inp
      in if has_zone \<and> zone = [] then None
         else if take 2 s = ''::'' then
           (if length s = 2 then Some (V6 (replicate 16 0) zone)
            else finish_v6 zone (v6_loop [] (Some 0) (drop 2 s)))
         else finish_v6 zone (v6_loop [] None s))"

fun ParseAddr_scan :: "string \<Rightarrow> string \<Rightarrow> addr option" where
  "ParseAddr_scan whole [] = None"
| "ParseAddr_scan whole (c # cs) =
     (if c = CHR ''.'' then map_option V4 (parse_v4_fields whole)
      else if c = CHR '':'' then parse_v6 whole
      else if c = CHR ''%'' then None
      else ParseAddr_scan whole cs)"

definition ParseAddr :: "string \<Rightarrow> addr option" where
  "ParseAddr s = ParseAddr_scan s s"

lemma parse_v4_fields_length: "parse_v4_fields s = Some q \<Longrightarrow> length q = 4"
  by (auto simp: parse_v4_fields_def split: list.splits option.splits)

text \<open>\<open>net.ParseIP\<close>: no zone. An IPv4 address and the IPv6 address that maps it are the same \<open>net.IP\<close>.\<close>

definition ParseIP :: "string \<Rightarrow> addr option" where
  "ParseIP s = (case ParseAddr s of None \<Rightarrow> None | Some ip \<Rightarrow> if Zone ip = [] then Some (Unmap ip) else None)"

section \<open>Printing\<close>

definition hex_low :: "int \<Rightarrow> char" where
  "hex_low n = (if n < 10 then char_of (nat (48 + n)) else char_of (nat (87 + n)))"

definition hex_group :: "int \<Rightarrow> string" where
  "hex_group x =
     (if x < 16 then [hex_low x]
      else if x < 256 then [hex_low (x div 16), hex_low (x mod 16)]
      else if x < 4096 then [hex_low (x div 256), hex_low (x div 16 mod 16), hex_low (x mod 16)]
      else [hex_low (x div 4096), hex_low (x div 256 mod 16), hex_low (x div 16 mod 16), hex_low (x mod 16)])"

fun pair_groups :: "int list \<Rightarrow> int list" where
  "pair_groups (a # b # bs) = (a * 256 + b) # pair_groups bs"
| "pair_groups _ = []"

text \<open>The longest run of at least two zero groups, the first one of that length: start and end.\<close>

definition zero_run :: "int list \<Rightarrow> nat \<times> nat" where
  "zero_run gs =
     foldl (\<lambda>(s, e) i. let l = length (takeWhile (\<lambda>x. x = 0) (drop i gs)) in
              if l \<ge> 2 \<and> l > e - s then (i, i + l) else (s, e))
       (255, 255) [0..<8]"

definition v6_text :: "int list \<Rightarrow> string" where
  "v6_text gs =
     (let (s, e) = zero_run gs in
      if s = 255 then join1 (map hex_group gs) CHR '':''
      else join1 (map hex_group (take s gs)) CHR '':'' @ ''::'' @ join1 (map hex_group (drop e gs)) CHR '':'')"

definition v4_text :: "int list \<Rightarrow> string" where
  "v4_text bs = join1 (map Itoa bs) CHR ''.''"

fun addr_String :: "addr \<Rightarrow> string" where
  "addr_String (V4 bs) = v4_text bs"
| "addr_String (V6 bs z) =
     (if take 12 bs = mapped_prefix then ''::ffff:'' @ v4_text (drop 12 bs) else v6_text (pair_groups bs))
     @ (if z = [] then [] else CHR ''%'' # z)"

lemma addr_String_examples:
  "map_option addr_String (ParseAddr ''192.0.2.60'') = Some ''192.0.2.60''"
  "map_option addr_String (ParseAddr ''2001:DB8:0:0:1:0:0:1'') = Some ''2001:db8::1:0:0:1''"
  "map_option addr_String (ParseAddr ''::'') = Some ''::''"
  by code_simp+

end
