(* ===== verification/AwgPolicy.thy ===== *)
theory AwgPolicy
  imports Netip
begin

text \<open>
  \<^verbatim>\<open>src/internal/awgpolicy\<close>: validation of the AmneziaWG obfuscation parameters
  (\<^verbatim>\<open>parameters.go\<close>), the datagram envelope of a WireGuard/AmneziaWG endpoint
  (\<^verbatim>\<open>packet_envelope.go\<close>) and the reader that computes it from a compiled endpoint and its
  optional Start Layer (\<^verbatim>\<open>packet_graph.go\<close>).
  A \<open>map[string]string\<close> is an association list with distinct keys; the Go map has no order,
  and no result below depends on the order of the list.
\<close>

type_synonym gomap = "(string \<times> string) list"

text \<open>\<open>m[key]\<close> on a \<open>map[string]string\<close>: the empty string for an absent key.\<close>

definition sget :: "gomap \<Rightarrow> string \<Rightarrow> string" where
  "sget m key = (case map_of m key of None \<Rightarrow> [] | Some v \<Rightarrow> v)"

section \<open>Parameters\<close>

definition Type :: string where
  "Type = ''routervpn-amneziawg''"

definition IsMode :: "string \<Rightarrow> bool" where
  "IsMode mode \<longleftrightarrow> mode = ''awg2-fast'' \<or> mode = ''awg2-strong''"

definition WireGuardFamily :: "string \<Rightarrow> bool" where
  "WireGuardFamily mode \<longleftrightarrow> mode = ''wg'' \<or> IsMode mode"

definition boundedNumber :: "string \<Rightarrow> int \<Rightarrow> int \<Rightarrow> int res" where
  "boundedNumber text low high =
     reject_if (text = [] \<or> Trim text ''0123456789'' \<noteq> []) ''invalid bounded integer''
     (case Atoi text of
        None \<Rightarrow> fail ''integer outside native bound''
      | Some n \<Rightarrow> reject_if (n < low \<or> n > high) ''integer outside native bound'' (Inr n))"

definition size_keys :: "string list" where
  "size_keys = [''jc'', ''jmin'', ''jmax'', ''s1'', ''s2'', ''s3'', ''s4'']"

definition header_keys :: "string list" where
  "header_keys = [''h1'', ''h2'', ''h3'', ''h4'']"

definition IsParameter :: "string \<Rightarrow> bool" where
  "IsParameter key \<longleftrightarrow> key \<in> set [''jc'', ''jmin'', ''jmax'', ''s1'', ''s2'', ''s3'', ''s4'',
     ''h1'', ''h2'', ''h3'', ''h4'']"

text \<open>The loop that fills \<open>values\<close>: one bounded number per size key, in order.\<close>

fun parameter_values :: "gomap \<Rightarrow> string list \<Rightarrow> (string \<times> int) list \<Rightarrow> (string \<times> int) list res" where
  "parameter_values p [] values = Inr values"
| "parameter_values p (key # keys) values =
     (case boundedNumber (sget p key) 0 (if key = ''jc'' then 128 else 1280) of
        Inl _ \<Rightarrow> fail ''AmneziaWG noise or padding exceeds its bounded native budget''
      | Inr n \<Rightarrow> parameter_values p keys (values @ [(key, n)]))"

fun header_bounds :: "string list \<Rightarrow> int list res" where
  "header_bounds [] = Inr []"
| "header_bounds (text # rest) =
     reject_if (text = [] \<or> Trim text ''0123456789'' \<noteq> []) ''invalid AmneziaWG header range''
     (case ParseUint text 32 of
        None \<Rightarrow> fail ''AmneziaWG headers must not masquerade as ordinary WireGuard''
      | Some n \<Rightarrow> reject_if (n \<le> 4) ''AmneziaWG headers must not masquerade as ordinary WireGuard''
          (res_bind (header_bounds rest) (\<lambda>ns. Inr (n # ns))))"

definition header_range :: "string \<Rightarrow> (int \<times> int) res" where
  "header_range text =
     (let parts = Split1 text CHR ''-'' in
      reject_if (length parts < 1 \<or> length parts > 2) ''invalid AmneziaWG header range''
      (res_bind (header_bounds parts) (\<lambda>bounds.
         let lo = bounds ! 0; hi = (if length parts = 1 then lo else bounds ! 1) in
         reject_if (hi < lo) ''reversed AmneziaWG header range'' (Inr (lo, hi)))))"

definition ranges_overlap :: "int \<times> int \<Rightarrow> int \<times> int \<Rightarrow> bool" where
  "ranges_overlap bounds other \<longleftrightarrow> fst bounds \<le> snd other \<and> fst other \<le> snd bounds"

fun header_ranges :: "gomap \<Rightarrow> string list \<Rightarrow> (int \<times> int) list \<Rightarrow> (int \<times> int) list res" where
  "header_ranges p [] ranges = Inr ranges"
| "header_ranges p (key # keys) ranges =
     res_bind (header_range (sget p key)) (\<lambda>bounds.
       reject_if (list_ex (ranges_overlap bounds) ranges) ''AmneziaWG header ranges overlap''
       (header_ranges p keys (ranges @ [bounds])))"

definition uapi_line :: "gomap \<Rightarrow> string \<Rightarrow> string" where
  "uapi_line p key = key @ ''='' @ sget p key @ [CHR 0x0A]"

definition value_of :: "(string \<times> int) list \<Rightarrow> string \<Rightarrow> int" where
  "value_of values key = (case map_of values key of None \<Rightarrow> 0 | Some n \<Rightarrow> n)"

definition ParametersUAPI :: "gomap \<Rightarrow> string res" where
  "ParametersUAPI p =
     reject_if (length p \<noteq> 11) ''native AmneziaWG requires its complete generated obfuscation policy''
     (reject_if (\<not> list_all (\<lambda>kv. IsParameter (fst kv)) p) ''unowned AmneziaWG parameter''
     (res_bind (parameter_values p size_keys []) (\<lambda>values.
      reject_if (value_of values ''jmin'' > value_of values ''jmax''
          \<or> value_of values ''s1'' + 148 = value_of values ''s2'' + 92)
        ''inconsistent AmneziaWG padding sizes''
      (res_bind (header_ranges p header_keys []) (\<lambda>_.
       Inr (concat (map (uapi_line p) (sort (map fst p)))))))))"

section \<open>Packet envelope\<close>

record PacketEnvelope =
  DataOverhead :: int
  ControlMax :: int

text \<open>
  The closure \<open>n\<close> of \<open>Envelope\<close> drops the error of \<open>Atoi\<close>; it runs only on parameters that
  \<open>ParametersUAPI\<close> accepted, whose size fields all parse.
\<close>

definition param_int :: "gomap \<Rightarrow> string \<Rightarrow> int" where
  "param_int p key = (case Atoi (sget p key) of None \<Rightarrow> 0 | Some v \<Rightarrow> v)"

definition Envelope :: "gomap option \<Rightarrow> bool \<Rightarrow> int \<Rightarrow> PacketEnvelope res" where
  "Envelope parameters carrierIPv6 layerOverhead =
     reject_if (layerOverhead < 0 \<or> layerOverhead > 2048) ''packet layer envelope outside bound''
     (let ipUDP = (if carrierIPv6 then 48 else 28);
          finish = (\<lambda>padding control. Inr \<lparr>DataOverhead = ipUDP + 32 + padding + layerOverhead,
                                           ControlMax = ipUDP + control + layerOverhead\<rparr>)
      in case parameters of
           None \<Rightarrow> finish 0 148
         | Some p \<Rightarrow> res_bind (ParametersUAPI p) (\<lambda>_.
             let n = param_int p;
                 control = max (max (148 + n ''s1'') (92 + n ''s2'')) (64 + n ''s3'')
             in finish (n ''s4'') (if n ''jc'' > 0 then max control (n ''jmax'') else control)))"

definition Capacity :: "PacketEnvelope \<Rightarrow> int \<Rightarrow> int \<Rightarrow> bool \<Rightarrow> int res" where
  "Capacity e entryMTU requested fixed =
     reject_if (entryMTU < 1280 \<or> entryMTU > 9000 \<or> requested < 1280 \<or> requested > 9000
         \<or> DataOverhead e < 60 \<or> DataOverhead e > 4096 \<or> ControlMax e < 176 \<or> ControlMax e > 4096)
       ''invalid captured packet capacity''
     (reject_if (ControlMax e > entryMTU)
       ''entry cannot carry captured packet handshake or control envelope''
     (let limit = go_quot (entryMTU - DataOverhead e) 16 * 16 in
      reject_if (limit < 1280 \<or> fixed \<and> requested > limit)
        ''captured nested packet MTU does not fit its entry''
      (Inr (min requested limit))))"

section \<open>Envelope of a compiled endpoint\<close>

text \<open>
  Strict base64 (\<open>base64.StdEncoding.Strict()\<close>): the length of the decoded bytes. Carriage
  returns and newlines are skipped, padding is required and the unused bits must be zero.
\<close>

definition b64_digit :: "char \<Rightarrow> int option" where
  "b64_digit c =
     (let n = int (of_char c) in
      if 65 \<le> n \<and> n \<le> 90 then Some (n - 65)
      else if 97 \<le> n \<and> n \<le> 122 then Some (n - 71)
      else if 48 \<le> n \<and> n \<le> 57 then Some (n + 4)
      else if n = 43 then Some 62 else if n = 47 then Some 63 else None)"

fun b64_quads :: "string \<Rightarrow> nat option" where
  "b64_quads [] = Some 0"
| "b64_quads [a, b, c, d] =
     (case (b64_digit a, b64_digit b) of
        (Some x, Some y) \<Rightarrow>
          (if c = CHR ''='' \<and> d = CHR ''='' then (if y mod 16 = 0 then Some 1 else None)
           else case b64_digit c of
             None \<Rightarrow> None
           | Some z \<Rightarrow> (if d = CHR ''='' then (if z mod 4 = 0 then Some 2 else None)
                        else if b64_digit d = None then None else Some 3))
      | _ \<Rightarrow> None)"
| "b64_quads (a # b # c # d # rest) =
     (if b64_digit a = None \<or> b64_digit b = None \<or> b64_digit c = None \<or> b64_digit d = None then None
      else map_option (\<lambda>n. n + 3) (b64_quads rest))"
| "b64_quads _ = None"

definition b64_strict_length :: "string \<Rightarrow> nat option" where
  "b64_strict_length s = b64_quads (filter (\<lambda>c. c \<noteq> CHR 0x0A \<and> c \<noteq> CHR 0x0D) s)"

text \<open>The value of \<open>v.(string)\<close> on an interface value: \<open>None\<close> when the assertion fails.\<close>

definition as_string :: "json option \<Rightarrow> string option" where
  "as_string v = (case v of Some (JStr s) \<Rightarrow> Some s | _ \<Rightarrow> None)"

definition as_object :: "json option \<Rightarrow> jobject option" where
  "as_object v = (case v of Some (JObj m) \<Rightarrow> Some m | _ \<Rightarrow> None)"

definition as_array :: "json option \<Rightarrow> json list option" where
  "as_array v = (case v of Some (JArr xs) \<Rightarrow> Some xs | _ \<Rightarrow> None)"

definition bad_envelope :: string where
  "bad_envelope = ''packet envelope requires an exact WG/AWG peer and Start Layer''"

text \<open>A literal address: parses, has no zone and is not IPv4-in-IPv6.\<close>

definition literal_addr :: "json option \<Rightarrow> addr res" where
  "literal_addr v =
     (case as_string v of
        None \<Rightarrow> fail bad_envelope
      | Some s \<Rightarrow> (case ParseAddr s of
          None \<Rightarrow> fail bad_envelope
        | Some ip \<Rightarrow> reject_if (Zone ip \<noteq> [] \<or> Is4In6 ip) bad_envelope (Inr ip)))"

definition endpoint_peer :: "jobject \<Rightarrow> jobject res" where
  "endpoint_peer endpoint =
     (case as_array (jget endpoint ''peers'') of
        Some [peer] \<Rightarrow> (case as_object (Some peer) of None \<Rightarrow> fail bad_envelope | Some m \<Rightarrow> Inr m)
      | _ \<Rightarrow> fail bad_envelope)"

fun string_members :: "jobject \<Rightarrow> gomap option" where
  "string_members [] = Some []"
| "string_members ((k, v) # rest) =
     (case (as_string (Some v), string_members rest) of
        (Some s, Some m) \<Rightarrow> Some ((k, s) # m)
      | _ \<Rightarrow> None)"

definition endpoint_params :: "jobject \<Rightarrow> gomap option res" where
  "endpoint_params endpoint =
     (if jget endpoint ''type'' = Some (JStr Type) then
        (case as_object (jget endpoint ''amnezia'') of
           None \<Rightarrow> fail bad_envelope
         | Some raw \<Rightarrow> (case string_members raw of
             None \<Rightarrow> fail bad_envelope
           | Some m \<Rightarrow> Inr (Some m)))
      else Inr None)"

definition layer_keys :: "jobject \<Rightarrow> string list res" where
  "layer_keys layer =
     (case as_string (jget layer ''password'') of
        None \<Rightarrow> fail bad_envelope
      | Some password \<Rightarrow>
          (let keys = Split1 password CHR '':'' in
           reject_if (length keys > 64) bad_envelope
           (reject_if (\<not> list_all (\<lambda>s. b64_strict_length s = Some 32) keys) bad_envelope (Inr keys))))"

definition layer_envelope :: "jobject \<Rightarrow> jobject \<Rightarrow> addr \<Rightarrow> (addr \<times> int) res" where
  "layer_envelope endpoint layer ip =
     reject_if (jget layer ''type'' \<noteq> Some (JStr ''shadowsocks'')
           \<and> jget layer ''type'' \<noteq> Some (JStr ''routervpn-aes-xor'')
         \<or> jget layer ''method'' \<noteq> Some (JStr ''2022-blake3-aes-256-gcm'')) bad_envelope
     (if iface_uncomparable (jget endpoint ''detour'') (jget layer ''tag'')
      then Inl (Panic ''comparing uncomparable type'')
      else reject_if (\<not> iface_eq (jget endpoint ''detour'') (jget layer ''tag'')) bad_envelope
       (res_bind (literal_addr (jget layer ''server'')) (\<lambda>carrier.
        res_bind (layer_keys layer) (\<lambda>keys.
        let addressBytes = (if Is6 ip then 19 else 7) in
        Inr (carrier, max (43 + addressBytes + 16 * (int (length keys) - 1)) (51 + addressBytes))))))"

definition EndpointEnvelope :: "jobject option \<Rightarrow> jobject option \<Rightarrow> PacketEnvelope res" where
  "EndpointEnvelope endpoint layer =
     (case endpoint of None \<Rightarrow> fail bad_envelope
      | Some ep \<Rightarrow>
        reject_if (jget ep ''type'' \<noteq> Some (JStr ''wireguard'') \<and> jget ep ''type'' \<noteq> Some (JStr Type))
          bad_envelope
        (res_bind (endpoint_peer ep) (\<lambda>peer.
         res_bind (literal_addr (jget peer ''address'')) (\<lambda>ip.
         res_bind (endpoint_params ep) (\<lambda>params.
         case layer of
           None \<Rightarrow> Envelope params (Is6 ip) 0
         | Some l \<Rightarrow> res_bind (layer_envelope ep l ip) (\<lambda>(carrier, layerBytes).
             Envelope params (Is6 carrier) layerBytes))))))"

section \<open>What an accepted policy guarantees\<close>

lemma boundedNumber_Inr:
  assumes "boundedNumber text low high = Inr n"
  shows "all_digits text \<and> Atoi text = Some n \<and> low \<le> n \<and> n \<le> high"
proof -
  have t: "text \<noteq> []" "Trim text ''0123456789'' = []"
    using assms by (auto simp: boundedNumber_def split: if_splits)
  have "list_all is_digit_char text"
    using t(2) unfolding Trim_Nil_iff list_all_iff
    by (auto simp: is_digit_char_def less_eq_char_def)
  with t(1) show ?thesis
    using assms by (auto simp: boundedNumber_def all_digits_def split: if_splits option.splits)
qed

lemma parameter_values_Inr:
  assumes "parameter_values p keys acc = Inr values"
  shows "values = acc @ map (\<lambda>k. (k, param_int p k)) keys"
    and "\<forall>k\<in>set keys. all_digits (sget p k) \<and> 0 \<le> param_int p k
           \<and> param_int p k \<le> (if k = ''jc'' then 128 else 1280)"
  using assms
proof (induction keys arbitrary: acc)
  case (Cons k ks)
  {
    case 1
    then obtain n where n: "boundedNumber (sget p k) 0 (if k = ''jc'' then 128 else 1280) = Inr n"
      and rest: "parameter_values p ks (acc @ [(k, n)]) = Inr values"
      by (auto split: sum.splits)
    have "param_int p k = n" using boundedNumber_Inr [OF n] by (simp add: param_int_def)
    then show ?case using Cons.IH(1) [OF rest] by simp
  next
    case 2
    then obtain n where n: "boundedNumber (sget p k) 0 (if k = ''jc'' then 128 else 1280) = Inr n"
      and rest: "parameter_values p ks (acc @ [(k, n)]) = Inr values"
      by (auto split: sum.splits)
    have "param_int p k = n" using boundedNumber_Inr [OF n] by (simp add: param_int_def)
    then show ?case using boundedNumber_Inr [OF n] Cons.IH(2) [OF rest] by simp
  }
qed simp_all

lemma header_bounds_Inr:
  "header_bounds parts = Inr ns \<Longrightarrow>
   length ns = length parts \<and> (\<forall>n\<in>set ns. 4 < n \<and> n < 2 ^ 32) \<and> (\<forall>t\<in>set parts. all_digits t)"
  by (induction parts arbitrary: ns)
    (auto simp: res_bind_Inr_iff dest!: ParseUint_Some split: if_splits option.splits)

lemma header_range_Inr:
  assumes "header_range text = Inr (lo, hi)"
  shows "4 < lo \<and> lo \<le> hi \<and> hi < 2 ^ 32"
proof -
  obtain ns where ns: "header_bounds (Split1 text CHR ''-'') = Inr ns"
    and lo: "lo = ns ! 0"
    and hi: "hi = (if length (Split1 text CHR ''-'') = 1 then lo else ns ! 1)"
    and ge: "lo \<le> hi"
    and two: "length (Split1 text CHR ''-'') \<le> 2"
    using assms by (auto simp: header_range_def Let_def res_bind_Inr_iff split: if_splits)
  have one: "1 \<le> length (Split1 text CHR ''-'')"
    by (simp add: Suc_le_eq)
  note len = one two
  have b: "length ns = length (Split1 text CHR ''-'')" "\<forall>n\<in>set ns. 4 < n \<and> n < 2 ^ 32"
    using header_bounds_Inr [OF ns] by auto
  have "lo \<in> set ns" using lo b(1) len(1) by (auto intro: nth_mem)
  moreover have "hi \<in> set ns"
  proof (cases "length (Split1 text CHR ''-'') = 1")
    case True
    then show ?thesis using hi \<open>lo \<in> set ns\<close> by simp
  next
    case False
    then have "1 < length ns" using b(1) len by linarith
    then show ?thesis using hi False by (auto intro: nth_mem)
  qed
  ultimately show ?thesis using b(2) ge by blast
qed

text \<open>Every accepted list of ranges extends the accumulator with pairwise disjoint ranges.\<close>

lemma header_ranges_Inr:
  "header_ranges p keys acc = Inr ranges \<Longrightarrow>
   \<exists>new. ranges = acc @ new \<and> map Inr new = map (\<lambda>k. header_range (sget p k)) keys
     \<and> (sorted_wrt (\<lambda>a b. \<not> ranges_overlap b a) acc
          \<longrightarrow> sorted_wrt (\<lambda>a b. \<not> ranges_overlap b a) (acc @ new))"
proof (induction keys arbitrary: acc)
  case Nil
  then show ?case by simp
next
  case (Cons k ks)
  then obtain b where b: "header_range (sget p k) = Inr b"
    and no: "\<not> list_ex (ranges_overlap b) acc"
    and rest: "header_ranges p ks (acc @ [b]) = Inr ranges"
    by (auto simp: res_bind_Inr_iff split: if_splits)
  obtain new where new: "ranges = (acc @ [b]) @ new"
    "map Inr new = map (\<lambda>k. header_range (sget p k)) ks"
    "sorted_wrt (\<lambda>a b. \<not> ranges_overlap b a) (acc @ [b]) \<longrightarrow>
     sorted_wrt (\<lambda>a b. \<not> ranges_overlap b a) ((acc @ [b]) @ new)"
    using Cons.IH [OF rest] by blast
  have "sorted_wrt (\<lambda>a b. \<not> ranges_overlap b a) acc \<Longrightarrow>
        sorted_wrt (\<lambda>a b. \<not> ranges_overlap b a) (acc @ [b])"
    using no by (auto simp: sorted_wrt_append list_ex_iff)
  with new b show ?case by (intro exI [of _ "b # new"]) auto
qed

lemma ParametersUAPI_Inr:
  assumes "ParametersUAPI p = Inr out"
  shows "length p = 11"
    and "\<forall>kv\<in>set p. IsParameter (fst kv)"
    and "\<forall>k\<in>set size_keys. all_digits (sget p k) \<and> 0 \<le> param_int p k
           \<and> param_int p k \<le> (if k = ''jc'' then 128 else 1280)"
    and "param_int p ''jmin'' \<le> param_int p ''jmax''"
    and "param_int p ''s1'' + 148 \<noteq> param_int p ''s2'' + 92"
    and "\<exists>ranges. header_ranges p header_keys [] = Inr ranges"
    and "out = concat (map (uapi_line p) (sort (map fst p)))"
proof -
  obtain vals ranges where v: "parameter_values p size_keys [] = Inr vals"
    and c: "\<not> (value_of vals ''jmin'' > value_of vals ''jmax''
          \<or> value_of vals ''s1'' + 148 = value_of vals ''s2'' + 92)"
    and r: "header_ranges p header_keys [] = Inr ranges"
    and o: "out = concat (map (uapi_line p) (sort (map fst p)))"
    and l: "length p = 11" "list_all (\<lambda>kv. IsParameter (fst kv)) p"
    using assms by (auto simp: ParametersUAPI_def res_bind_Inr_iff split: if_splits)
  have vals: "vals = map (\<lambda>k. (k, param_int p k)) size_keys"
    using parameter_values_Inr(1) [OF v] by simp
  show "length p = 11" "\<forall>kv\<in>set p. IsParameter (fst kv)"
    using l by (simp_all add: list_all_iff)
  show "\<forall>k\<in>set size_keys. all_digits (sget p k) \<and> 0 \<le> param_int p k
           \<and> param_int p k \<le> (if k = ''jc'' then 128 else 1280)"
    by (rule parameter_values_Inr(2) [OF v])
  show "param_int p ''jmin'' \<le> param_int p ''jmax''"
    "param_int p ''s1'' + 148 \<noteq> param_int p ''s2'' + 92"
    using c by (auto simp: vals value_of_def size_keys_def)
  show "\<exists>ranges. header_ranges p header_keys [] = Inr ranges" using r by blast
  show "out = concat (map (uapi_line p) (sort (map fst p)))" by (rule o)
qed

text \<open>The size fields of accepted parameters, one fact per key.\<close>

lemma accepted_sizes:
  assumes "ParametersUAPI p = Inr out"
  shows "0 \<le> param_int p ''jc'' \<and> param_int p ''jc'' \<le> 128"
    and "0 \<le> param_int p ''jmin'' \<and> param_int p ''jmax'' \<le> 1280"
    and "0 \<le> param_int p ''s1'' \<and> param_int p ''s1'' \<le> 1280"
    and "0 \<le> param_int p ''s2'' \<and> param_int p ''s2'' \<le> 1280"
    and "0 \<le> param_int p ''s3'' \<and> param_int p ''s3'' \<le> 1280"
    and "0 \<le> param_int p ''s4'' \<and> param_int p ''s4'' \<le> 1280"
  using ParametersUAPI_Inr(3) [OF assms] by (simp_all add: size_keys_def)

text \<open>
  C2. Accepted AmneziaWG parameters give every message type its own header values: each of the
  four header ranges parses to \<open>lo..hi\<close> with \<open>4 < lo \<le> hi < 2^32\<close>, so none can be taken for
  an ordinary WireGuard message type (1 to 4), and no value lies in two of them; initiation and
  response messages also differ in size after padding.
\<close>

theorem awg_headers_unambiguous:
  assumes "ParametersUAPI p = Inr out"
    and "i < 4" and "j < 4" and "i \<noteq> j"
  shows "\<exists>a b c d. header_range (sget p (header_keys ! i)) = Inr (a, b)
           \<and> header_range (sget p (header_keys ! j)) = Inr (c, d)
           \<and> 4 < a \<and> a \<le> b \<and> b < 2 ^ 32 \<and> 4 < c \<and> c \<le> d \<and> d < 2 ^ 32
           \<and> (\<forall>x. \<not> (a \<le> x \<and> x \<le> b \<and> c \<le> x \<and> x \<le> d))
           \<and> param_int p ''s1'' + 148 \<noteq> param_int p ''s2'' + 92"
proof -
  obtain ranges where r: "header_ranges p header_keys [] = Inr ranges"
    using ParametersUAPI_Inr(6) [OF assms(1)] by blast
  have m: "map Inr ranges = map (\<lambda>k. header_range (sget p k)) header_keys"
    and s: "sorted_wrt (\<lambda>a b. \<not> ranges_overlap b a) ranges"
    using header_ranges_Inr [OF r] by auto
  have len: "length ranges = 4"
    using arg_cong [OF m, of length] by (simp add: header_keys_def)
  have nth: "header_range (sget p (header_keys ! k)) = Inr (ranges ! k)" if "k < 4" for k
  proof -
    have "length header_keys = 4" by (simp add: header_keys_def)
    then show ?thesis using arg_cong [OF m, of "\<lambda>xs. xs ! k"] that len by simp
  qed
  have dis: "\<not> ranges_overlap (ranges ! l) (ranges ! k)" if "k < l" "l < 4" for k l
    using s that len by (simp add: sorted_wrt_iff_nth_less)
  obtain a b c d where ab: "ranges ! i = (a, b)" and cd: "ranges ! j = (c, d)"
    by (metis surj_pair)
  have "b < c \<or> d < a"
    using dis [of i j] dis [of j i] assms(2-4) ab cd
    by (cases "i < j") (auto simp: ranges_overlap_def)
  moreover have "4 < a \<and> a \<le> b \<and> b < 2 ^ 32" "4 < c \<and> c \<le> d \<and> d < 2 ^ 32"
    using header_range_Inr [of "sget p (header_keys ! i)" a b]
      header_range_Inr [of "sget p (header_keys ! j)" c d] nth assms(2,3) ab cd by auto
  ultimately show ?thesis
    using nth [OF assms(2)] nth [OF assms(3)] ab cd ParametersUAPI_Inr(5) [OF assms(1)]
    by (intro exI [of _ a] exI [of _ b] exI [of _ c] exI [of _ d]) auto
qed

definition sample_awg :: gomap where
  "sample_awg = [(''jc'', ''4''), (''jmin'', ''40''), (''jmax'', ''70''), (''s1'', ''15''),
     (''s2'', ''20''), (''s3'', ''25''), (''s4'', ''8''), (''h1'', ''100-110''), (''h2'', ''200''),
     (''h3'', ''300-400''), (''h4'', ''4294967295'')]"

lemma sample_awg_ok:
  "ParametersUAPI sample_awg = Inr (concat (map (uapi_line sample_awg) (sort (map fst sample_awg))))"
  by code_simp

theorem awg_headers_unambiguous_witness:
  "\<exists>a b c d. header_range (sget sample_awg (header_keys ! 0)) = Inr (a, b)
     \<and> header_range (sget sample_awg (header_keys ! 2)) = Inr (c, d)
     \<and> 4 < a \<and> a \<le> b \<and> b < 2 ^ 32 \<and> 4 < c \<and> c \<le> d \<and> d < 2 ^ 32
     \<and> (\<forall>x. \<not> (a \<le> x \<and> x \<le> b \<and> c \<le> x \<and> x \<le> d))
     \<and> param_int sample_awg ''s1'' + 148 \<noteq> param_int sample_awg ''s2'' + 92"
  using awg_headers_unambiguous [OF sample_awg_ok, of 0 2] by simp

section \<open>The UAPI text\<close>

text \<open>A reader of the \<open>key=value\<close> lines, used only to state what the text says.\<close>

definition read_uapi :: "string \<Rightarrow> gomap" where
  "read_uapi out = map (\<lambda>l. (takeWhile (\<lambda>c. c \<noteq> CHR ''='') l, drop 1 (dropWhile (\<lambda>c. c \<noteq> CHR ''='') l)))
     (butlast (Split1 out CHR 0x0A))"

lemma Split1_append: "sep \<notin> set l \<Longrightarrow> Split1 (l @ sep # rest) sep = l # Split1 rest sep"
  by (induction l) auto

lemma Split1_lines:
  "\<forall>k\<in>set ks. sep \<notin> set (f k) \<Longrightarrow> butlast (Split1 (concat (map (\<lambda>k. f k @ [sep]) ks)) sep) = map f ks"
  by (induction ks) (auto simp: Split1_append)

lemma Split1_chars: "c \<in> set s \<Longrightarrow> c = sep \<or> (\<exists>w\<in>set (Split1 s sep). c \<in> set w)"
proof (induction s)
  case Nil
  then show ?case by simp
next
  case (Cons x s)
  obtain w ws where sp: "Split1 s sep = w # ws" by (cases "Split1 s sep") auto
  with Cons show ?case by auto
qed

lemma all_digits_char: "all_digits t \<Longrightarrow> c \<in> set t \<Longrightarrow> c \<noteq> CHR 0x0A \<and> c \<noteq> CHR ''=''"
  by (auto simp: all_digits_def list_all_iff is_digit_char_def less_eq_char_def)

lemma header_range_chars:
  assumes "header_range s = Inr b" and "c \<in> set s"
  shows "c \<noteq> CHR 0x0A"
proof -
  obtain ns where "header_bounds (Split1 s CHR ''-'') = Inr ns"
    using assms(1) by (auto simp: header_range_def Let_def res_bind_Inr_iff split: if_splits)
  then have d: "\<forall>t\<in>set (Split1 s CHR ''-''). all_digits t" using header_bounds_Inr by blast
  from Split1_chars [OF assms(2), of "CHR ''-''"] d show ?thesis
    by (auto dest: all_digits_char)
qed

lemma accepted_key_chars:
  assumes "ParametersUAPI p = Inr out" and "k \<in> fst ` set p"
  shows "CHR 0x0A \<notin> set (k @ ''='' @ sget p k)" and "CHR ''='' \<notin> set k"
proof -
  have k: "k \<in> set size_keys \<or> k \<in> set header_keys"
    using ParametersUAPI_Inr(2) [OF assms(1)] assms(2)
    by (auto simp: IsParameter_def size_keys_def header_keys_def)
  obtain ranges where r: "header_ranges p header_keys [] = Inr ranges"
    using ParametersUAPI_Inr(6) [OF assms(1)] by blast
  have m: "map Inr ranges = map (\<lambda>k. header_range (sget p k)) header_keys"
    using header_ranges_Inr [OF r] by auto
  have "CHR 0x0A \<notin> set (sget p k)"
  proof (cases "k \<in> set size_keys")
    case True
    then show ?thesis using ParametersUAPI_Inr(3) [OF assms(1)] all_digits_char by blast
  next
    case False
    then have "header_range (sget p k) \<in> set (map Inr ranges)" using k m by auto
    then obtain b where "header_range (sget p k) = Inr b" by auto
    then show ?thesis using header_range_chars by blast
  qed
  moreover have "CHR 0x0A \<notin> set k" "CHR ''='' \<notin> set k"
    using k by (auto simp: size_keys_def header_keys_def)
  ultimately show "CHR 0x0A \<notin> set (k @ ''='' @ sget p k)" "CHR ''='' \<notin> set k" by auto
qed

lemma read_line: "CHR ''='' \<notin> set k \<Longrightarrow>
   (takeWhile (\<lambda>c. c \<noteq> CHR ''='') (k @ ''='' @ v), drop 1 (dropWhile (\<lambda>c. c \<noteq> CHR ''='') (k @ ''='' @ v))) = (k, v)"
  by (auto simp: takeWhile_append dropWhile_append)

lemma read_uapi_accepted:
  assumes "ParametersUAPI p = Inr out"
  shows "read_uapi out = map (\<lambda>k. (k, sget p k)) (sort (map fst p))"
proof -
  have out: "out = concat (map (\<lambda>k. (k @ ''='' @ sget p k) @ [CHR 0x0A]) (sort (map fst p)))"
    using ParametersUAPI_Inr(7) [OF assms] by (simp add: uapi_line_def [abs_def])
  have "butlast (Split1 out CHR 0x0A) = map (\<lambda>k. k @ ''='' @ sget p k) (sort (map fst p))"
    unfolding out by (rule Split1_lines) (use accepted_key_chars(1) [OF assms] in auto)
  then show ?thesis
    unfolding read_uapi_def
    by (simp del: append.simps) (use accepted_key_chars(2) [OF assms] read_line in auto)
qed

text \<open>
  C3. The UAPI text of accepted parameters says exactly what the parameters say: reading its
  \<open>key=value\<close> lines gives back the same map, the keys come out sorted and each exactly once. No
  parameter value can smuggle a second line into the configuration of the native device.
\<close>

theorem awg_uapi_roundtrip:
  assumes "distinct (map fst p)" and "ParametersUAPI p = Inr out"
  shows "map_of (read_uapi out) = map_of p \<and> sorted (map fst (read_uapi out))
    \<and> distinct (map fst (read_uapi out)) \<and> set (map fst (read_uapi out)) = set (map fst p)"
proof -
  note r = read_uapi_accepted [OF assms(2)]
  have "map_of (map (\<lambda>k. (k, sget p k)) (sort (map fst p))) k = map_of p k" for k
    using map_of_eq_None_iff [of p k]
    by (cases "map_of p k") (auto simp: map_of_map_restrict restrict_map_def sget_def)
  then have "map_of (read_uapi out) = map_of p" unfolding r by blast
  moreover have "map fst (read_uapi out) = sort (map fst p)" unfolding r by (simp add: comp_def)
  ultimately show ?thesis using assms(1) by simp
qed

theorem awg_uapi_roundtrip_witness:
  "map_of (read_uapi (concat (map (uapi_line sample_awg) (sort (map fst sample_awg))))) = map_of sample_awg"
  using awg_uapi_roundtrip [OF _ sample_awg_ok] by (simp add: sample_awg_def)

section \<open>Capacity\<close>

text \<open>A transport message pads its plaintext to a multiple of 16 bytes.\<close>

definition padded16 :: "int \<Rightarrow> int" where
  "padded16 n = (n + 15) div 16 * 16"

lemma padded16_mono: "m \<le> n \<Longrightarrow> padded16 m \<le> padded16 n"
  by (simp add: padded16_def zdiv_mono1)

lemma padded16_ge: "n \<le> padded16 n"
  unfolding padded16_def by presburger

lemma padded16_multiple: "n mod 16 = 0 \<Longrightarrow> padded16 n = n"
  unfolding padded16_def by presburger

text \<open>
  The contract of a packet envelope: what an owner of a nested tunnel may rely on when
  \<open>Capacity\<close> grants it an MTU.
\<close>

locale packet_capacity =
  fixes overhead :: "'e \<Rightarrow> int"
    and control :: "'e \<Rightarrow> int"
    and cap :: "'e \<Rightarrow> int \<Rightarrow> int \<Rightarrow> bool \<Rightarrow> int res"
  assumes cap_fits: "cap e entry req fixed = Inr m \<Longrightarrow> overhead e + padded16 m \<le> entry"
    and cap_control: "cap e entry req fixed = Inr m \<Longrightarrow> control e \<le> entry"
    and cap_range: "cap e entry req fixed = Inr m \<Longrightarrow> 1280 \<le> m \<and> m \<le> req \<and> req \<le> 9000"
    and cap_fixed: "cap e entry req True = Inr m \<Longrightarrow> m = req"
begin

lemma datagram_fits: "cap e entry req fixed = Inr m \<Longrightarrow> n \<le> m \<Longrightarrow> overhead e + padded16 n \<le> entry"
  using cap_fits padded16_mono [of n m] by fastforce

text \<open>Two nested tunnels: a plaintext the inner one accepts fits the outermost interface.\<close>

lemma nested_datagram_fits:
  assumes "cap outer entry r1 f1 = Inr m1" and "cap inner m1 r2 f2 = Inr m2" and "n \<le> m2"
  shows "overhead outer + padded16 (overhead inner + padded16 n) \<le> entry"
  using datagram_fits [OF assms(1)] datagram_fits [OF assms(2,3)] by blast

end

lemma Capacity_Inr:
  assumes "Capacity e entry req fixed = Inr m"
  shows "m = min req (go_quot (entry - DataOverhead e) 16 * 16)"
    and "1280 \<le> go_quot (entry - DataOverhead e) 16 * 16"
    and "fixed \<longrightarrow> req \<le> go_quot (entry - DataOverhead e) 16 * 16"
    and "ControlMax e \<le> entry" and "1280 \<le> req" and "req \<le> 9000"
  using assms by (auto simp: Capacity_def Let_def split: if_splits)

lemma Capacity_limit:
  assumes "Capacity e entry req fixed = Inr m"
  shows "DataOverhead e + go_quot (entry - DataOverhead e) 16 * 16 \<le> entry"
    and "entry < DataOverhead e + go_quot (entry - DataOverhead e) 16 * 16 + 16"
  using go_quot_round [of 16 "entry - DataOverhead e"] Capacity_Inr(2) [OF assms] by auto

interpretation awg: packet_capacity DataOverhead ControlMax Capacity
proof
  fix e entry req fixed m
  assume c: "Capacity e entry req fixed = Inr m"
  have "padded16 m \<le> padded16 (go_quot (entry - DataOverhead e) 16 * 16)"
    using Capacity_Inr(1) [OF c] by (intro padded16_mono) simp
  also have "\<dots> = go_quot (entry - DataOverhead e) 16 * 16" by (simp add: padded16_multiple)
  finally show "DataOverhead e + padded16 m \<le> entry" using Capacity_limit(1) [OF c] by linarith
  show "ControlMax e \<le> entry" by (rule Capacity_Inr(4) [OF c])
  show "1280 \<le> m \<and> m \<le> req \<and> req \<le> 9000" using Capacity_Inr [OF c] by auto
next
  fix e entry req m
  assume c: "Capacity e entry req True = Inr m"
  then show "m = req" using Capacity_Inr [OF c] by auto
qed

section \<open>The envelope covers every datagram\<close>

text \<open>
  The sizes of the control datagrams an endpoint can emit: handshake initiation, response and
  cookie with their padding, and, when junk packets are enabled, any size the junk policy allows.
\<close>

definition control_datagram :: "gomap option \<Rightarrow> int \<Rightarrow> bool" where
  "control_datagram ps n =
     (case ps of
        None \<Rightarrow> n \<in> {148, 92, 64}
      | Some p \<Rightarrow> n \<in> {148 + param_int p ''s1'', 92 + param_int p ''s2'', 64 + param_int p ''s3''}
          \<or> (0 < param_int p ''jc'' \<and> param_int p ''jmin'' \<le> n \<and> n \<le> param_int p ''jmax''))"

definition ip_udp_bytes :: "bool \<Rightarrow> int" where
  "ip_udp_bytes v6 = (if v6 then 48 else 28)"

definition data_padding :: "gomap option \<Rightarrow> int" where
  "data_padding ps = (case ps of None \<Rightarrow> 0 | Some p \<Rightarrow> param_int p ''s4'')"

lemma Envelope_Inr:
  assumes "Envelope ps v6 layer = Inr e"
  shows "0 \<le> layer \<and> layer \<le> 2048"
    and "DataOverhead e = ip_udp_bytes v6 + 32 + data_padding ps + layer"
    and "control_datagram ps n \<Longrightarrow> ip_udp_bytes v6 + n + layer \<le> ControlMax e"
    and "ip_udp_bytes v6 + 148 \<le> ControlMax e \<and> ControlMax e \<le> 48 + 1428 + 2048"
    and "0 \<le> data_padding ps \<and> data_padding ps \<le> 1280"
proof -
  show "0 \<le> layer \<and> layer \<le> 2048"
    using assms by (auto simp: Envelope_def split: if_splits)
  show "DataOverhead e = ip_udp_bytes v6 + 32 + data_padding ps + layer"
    using assms by (auto simp: Envelope_def Let_def ip_udp_bytes_def data_padding_def res_bind_Inr_iff
        split: if_splits option.splits)
  show "control_datagram ps n \<Longrightarrow> ip_udp_bytes v6 + n + layer \<le> ControlMax e"
    using assms by (auto simp: Envelope_def Let_def ip_udp_bytes_def control_datagram_def
        res_bind_Inr_iff split: if_splits option.splits)
  have "Envelope ps v6 layer = Inr e \<Longrightarrow> ip_udp_bytes v6 + 148 \<le> ControlMax e
      \<and> ControlMax e \<le> 48 + 1428 + 2048 \<and> 0 \<le> data_padding ps \<and> data_padding ps \<le> 1280"
  proof (cases ps)
    case None
    then show "Envelope ps v6 layer = Inr e \<Longrightarrow> ?thesis"
      by (auto simp: Envelope_def Let_def ip_udp_bytes_def data_padding_def split: if_splits)
  next
    case (Some p)
    assume "Envelope ps v6 layer = Inr e"
    moreover from this Some obtain out where "ParametersUAPI p = Inr out"
      by (auto simp: Envelope_def Let_def res_bind_Inr_iff split: if_splits)
    note accepted_sizes [OF this]
    ultimately show ?thesis using Some
      by (auto simp: Envelope_def Let_def ip_udp_bytes_def data_padding_def res_bind_Inr_iff
          split: if_splits)
  qed
  with assms show "ip_udp_bytes v6 + 148 \<le> ControlMax e \<and> ControlMax e \<le> 48 + 1428 + 2048"
    "0 \<le> data_padding ps \<and> data_padding ps \<le> 1280" by blast+
qed

text \<open>
  C1. An MTU granted by \<open>Capacity\<close> on an \<open>Envelope\<close> is safe and as large as possible. Every
  control datagram of the endpoint, with its IP and UDP headers and its layer overhead, fits the
  entry interface; every plaintext up to the granted MTU still fits after padding; the grant lies
  between 1280 and the requested MTU, is the request itself when it is fixed, and when an automatic
  request is reduced the next larger plaintext would not fit.
\<close>

theorem envelope_capacity_sound:
  assumes "Envelope ps v6 layer = Inr e" and "Capacity e entry req fixed = Inr m"
  shows "(\<forall>n. control_datagram ps n \<longrightarrow> ip_udp_bytes v6 + n + layer \<le> entry)
    \<and> (\<forall>n \<le> m. ip_udp_bytes v6 + 32 + data_padding ps + layer + padded16 n \<le> entry)
    \<and> 1280 \<le> m \<and> m \<le> req \<and> (fixed \<longrightarrow> m = req)
    \<and> (m < req \<longrightarrow> entry < ip_udp_bytes v6 + 32 + data_padding ps + layer + padded16 (m + 1))"
proof -
  have ov: "DataOverhead e = ip_udp_bytes v6 + 32 + data_padding ps + layer"
    by (rule Envelope_Inr(2) [OF assms(1)])
  have ctl: "\<forall>n. control_datagram ps n \<longrightarrow> ip_udp_bytes v6 + n + layer \<le> entry"
    using Envelope_Inr(3) [OF assms(1)] awg.cap_control [OF assms(2)] by fastforce
  have dat: "\<forall>n \<le> m. ip_udp_bytes v6 + 32 + data_padding ps + layer + padded16 n \<le> entry"
    using awg.datagram_fits [OF assms(2)] ov by simp
  have tight: "entry < DataOverhead e + padded16 (m + 1)" if "m < req"
  proof -
    have m: "m = go_quot (entry - DataOverhead e) 16 * 16"
      using Capacity_Inr(1) [OF assms(2)] that by auto
    have "padded16 (m + 1) = m + 16" unfolding m padded16_def by simp
    then show ?thesis using Capacity_limit(2) [OF assms(2)] m by simp
  qed
  show ?thesis
    using ctl dat tight ov awg.cap_range [OF assms(2)] awg.cap_fixed [of e entry req m] assms(2)
    by auto
qed

lemma sample_envelope:
  "Envelope (Some sample_awg) False 0 = Inr \<lparr>DataOverhead = 68, ControlMax = 191\<rparr>"
  by code_simp

theorem envelope_capacity_sound_witness:
  "control_datagram (Some sample_awg) 70 \<and> ip_udp_bytes False + 70 + 0 \<le> (1500 :: int)
   \<and> 68 + padded16 1424 \<le> (1500 :: int)"
proof -
  have c: "Capacity \<lparr>DataOverhead = 68, ControlMax = 191\<rparr> 1500 1500 False = Inr 1424"
    by (simp add: Capacity_def Let_def)
  have d: "control_datagram (Some sample_awg) 70" by code_simp
  have p: "data_padding (Some sample_awg) = 8" by code_simp
  show ?thesis
    using envelope_capacity_sound [OF sample_envelope c] d p by (auto simp: ip_udp_bytes_def)
qed

lemma EndpointEnvelope_from_Envelope:
  "EndpointEnvelope ep layer = Inr e \<Longrightarrow> \<exists>ps v6 bytes. Envelope ps v6 bytes = Inr e"
  by (auto simp: EndpointEnvelope_def res_bind_Inr_iff split: option.splits if_splits) blast+

lemma EndpointEnvelope_bounds:
  assumes "EndpointEnvelope ep layer = Inr e"
  shows "60 \<le> DataOverhead e \<and> DataOverhead e \<le> 4096 \<and> 176 \<le> ControlMax e \<and> ControlMax e \<le> 4096"
proof -
  obtain ps v6 bytes where e: "Envelope ps v6 bytes = Inr e"
    using EndpointEnvelope_from_Envelope [OF assms] by blast
  show ?thesis
    using Envelope_Inr(1) [OF e] Envelope_Inr(2) [OF e] Envelope_Inr(4) [OF e] Envelope_Inr(5) [OF e]
    by (auto simp: ip_udp_bytes_def split: if_splits)
qed

text \<open>
  Whatever endpoint and Start Layer \<open>EndpointEnvelope\<close> accepts, its envelope lies inside the
  bounds \<open>Capacity\<close> checks, so \<open>Capacity\<close> reports an invalid capacity only for an entry or a
  requested MTU outside 1280 to 9000.
\<close>

theorem endpoint_envelope_in_capacity_bounds:
  assumes "EndpointEnvelope ep layer = Inr e"
  shows "60 \<le> DataOverhead e \<and> DataOverhead e \<le> 4096 \<and> 176 \<le> ControlMax e \<and> ControlMax e \<le> 4096
    \<and> (Capacity e entry req fixed = fail ''invalid captured packet capacity''
       \<longleftrightarrow> entry < 1280 \<or> entry > 9000 \<or> req < 1280 \<or> req > 9000)"
  using EndpointEnvelope_bounds [OF assms] by (auto simp: Capacity_def Let_def)

text \<open>
  Nested tunnels compose: when an outer endpoint is granted an MTU on its entry interface and an
  inner endpoint is granted one on the outer tunnel, every plaintext of the inner tunnel, wrapped
  twice and padded twice, fits the entry interface, and so do the control datagrams of both.
\<close>

theorem nested_tunnels_fit:
  assumes "EndpointEnvelope ep1 layer1 = Inr outer" and "EndpointEnvelope ep2 layer2 = Inr inner"
    and "Capacity outer entry r1 f1 = Inr m1" and "Capacity inner m1 r2 f2 = Inr m2" and "n \<le> m2"
  shows "DataOverhead outer + padded16 (DataOverhead inner + padded16 n) \<le> entry
    \<and> ControlMax outer \<le> entry \<and> DataOverhead outer + padded16 (ControlMax inner) \<le> entry
    \<and> m2 < m1 \<and> m1 < entry"
proof -
  have o: "60 \<le> DataOverhead outer" and i: "60 \<le> DataOverhead inner"
    using EndpointEnvelope_bounds assms(1,2) by blast+
  have "DataOverhead outer + padded16 (ControlMax inner) \<le> entry"
    using awg.datagram_fits [OF assms(3)] awg.cap_control [OF assms(4)] by blast
  moreover have "m2 < m1" "m1 < entry"
    using awg.cap_fits [OF assms(4)] awg.cap_fits [OF assms(3)] padded16_ge [of m2] padded16_ge [of m1] o i
    by linarith+
  ultimately show ?thesis
    using awg.nested_datagram_fits [OF assms(3,4,5)] awg.cap_control [OF assms(3)] by blast
qed

definition sample_peer :: jobject where
  "sample_peer = [(''address'', JStr ''198.51.100.7'')]"

definition sample_endpoint :: jobject where
  "sample_endpoint = [(''type'', JStr ''wireguard''), (''tag'', JStr ''exit''), (''mtu'', JNum ''1280''),
     (''peers'', JArr [JObj sample_peer]), (''detour'', JStr ''layer'')]"

definition sample_layer :: jobject where
  "sample_layer = [(''type'', JStr ''shadowsocks''), (''tag'', JStr ''layer''),
     (''method'', JStr ''2022-blake3-aes-256-gcm''), (''server'', JStr ''203.0.113.9''),
     (''password'', JStr ''AAAAAAAAAAAAAAAAAAAAAAAAAAAAAAAAAAAAAAAAAAA='')]"

lemma sample_endpoint_ok:
  "EndpointEnvelope (Some sample_endpoint) (Some sample_layer) = Inr \<lparr>DataOverhead = 118, ControlMax = 234\<rparr>"
  by code_simp

theorem endpoint_envelope_in_capacity_bounds_witness:
  "Capacity \<lparr>DataOverhead = 118, ControlMax = 234\<rparr> 1200 1280 True = fail ''invalid captured packet capacity''"
  using endpoint_envelope_in_capacity_bounds [OF sample_endpoint_ok, of 1200 1280 True] by simp

theorem nested_tunnels_fit_witness:
  "118 + padded16 (118 + padded16 1280) \<le> (1600 :: int)"
proof -
  let ?e = "\<lparr>DataOverhead = 118, ControlMax = 234\<rparr>"
  have c1: "Capacity ?e 1600 1500 False = Inr 1472" by (simp add: Capacity_def Let_def)
  have c2: "Capacity ?e 1472 1280 True = Inr 1280" by (simp add: Capacity_def Let_def)
  show ?thesis
    using nested_tunnels_fit [OF sample_endpoint_ok sample_endpoint_ok c1 c2, of 1280] by simp
qed

end
