(* ===== verification/MtuProbe.thy ===== *)
theory MtuProbe
  imports Netip Complex_Main
begin

text \<open>
  \<^verbatim>\<open>src/internal/mtuprobe/packet.go\<close>: the authenticated MTU test datagrams (\<open>Request\<close>,
  \<open>Reply\<close>, \<open>ValidateReply\<close>) and the token bucket \<open>Limiter\<close> in front of the private sink.
  Bytes are \<open>8 word\<close>; a Unix time is an \<open>int64\<close>, here a \<open>64 word\<close> read with \<open>sint\<close>.
  HMAC-SHA256 is the parameter \<open>mac key message\<close>; the only fact assumed of it is that a MAC has
  32 bytes. \<open>rand.Read\<close> is the parameter \<open>rand\<close>, which fills a buffer of the given size or fails.
  The limiter's credits are \<open>float64\<close>: every float operation is rounded by the parameter
  \<open>rnd\<close>, so the theorems hold for IEEE rounding and for exact arithmetic (\<open>rnd = id\<close>).
  An instant is a number of nanoseconds.
\<close>

type_synonym byte = "8 word"

section \<open>Datagrams\<close>

definition HeaderBytes :: nat where
  "HeaderBytes = 68"

definition MaxBytes :: nat where
  "MaxBytes = 9000"

definition maxPeers :: nat where
  "maxPeers = 128"

definition magic :: "byte list" where
  "magic = [82, 86, 77, 84, 85, 48, 50, 0]"

definition ErrInvalid :: string where
  "ErrInvalid = ''invalid or unauthenticated private MTU datagram''"

definition string_bytes :: "string \<Rightarrow> byte list" where
  "string_bytes s = map (\<lambda>c. word_of_nat (of_char c)) s"

text \<open>The runes of \<open>node\<close> are compared with ASCII ranges only, so bytes decide.\<close>

definition validIdentity :: "string \<Rightarrow> string \<Rightarrow> bool" where
  "validIdentity token node \<longleftrightarrow>
     \<not> (token = [] \<or> length token > 4096
        \<or> CHR 0x0D \<in> set token \<or> CHR 0x0A \<in> set token \<or> CHR 0x00 \<in> set token
        \<or> length node \<noteq> 64)
     \<and> list_all (\<lambda>ch. \<not> ((ch < CHR ''0'' \<or> ch > CHR ''9'') \<and> (ch < CHR ''a'' \<or> ch > CHR ''f''))) node"

type_synonym mac_fun = "byte list \<Rightarrow> byte list \<Rightarrow> byte list"

definition signature :: "mac_fun \<Rightarrow> byte list \<Rightarrow> string \<Rightarrow> string \<Rightarrow> byte list" where
  "signature mac packet token node =
     mac (string_bytes token)
       (string_bytes (''router-vpn-mtu-probe-v2'' @ [CHR 0x00] @ node @ [CHR 0x00])
        @ take 36 packet @ drop HeaderBytes packet)"

definition Recognized :: "byte list \<Rightarrow> bool" where
  "Recognized packet \<longleftrightarrow> length packet \<ge> length magic \<and> take (length magic) packet = magic"

text \<open>\<open>copy(dst[lo:hi], src)\<close>: writes at most \<open>hi - lo\<close> bytes from \<open>lo\<close> on.\<close>

definition go_copy :: "byte list \<Rightarrow> nat \<Rightarrow> nat \<Rightarrow> byte list \<Rightarrow> byte list" where
  "go_copy dst lo hi src =
     (let n = min (hi - lo) (length src) in take lo dst @ take n src @ drop (lo + n) dst)"

definition be16 :: "nat \<Rightarrow> byte list" where
  "be16 n = [word_of_nat (n div 256), word_of_nat n]"

definition un_be16 :: "byte list \<Rightarrow> nat" where
  "un_be16 bs = unat (bs ! 0) * 256 + unat (bs ! 1)"

definition be64 :: "64 word \<Rightarrow> byte list" where
  "be64 w = map (\<lambda>i. word_of_int (uint w div 256 ^ i)) [7, 6, 5, 4, 3, 2, 1, 0]"

definition un_be64 :: "byte list \<Rightarrow> 64 word" where
  "un_be64 bs = foldl (\<lambda>acc b. acc * 256 + ucast b) 0 bs"

definition Request :: "mac_fun \<Rightarrow> (nat \<Rightarrow> byte list res) \<Rightarrow> int \<Rightarrow> string \<Rightarrow> string \<Rightarrow> 64 word \<Rightarrow> byte list res" where
  "Request mac rand sz token node now =
     reject_if (sz < int HeaderBytes \<or> sz > int MaxBytes \<or> \<not> validIdentity token node) ErrInvalid
     (res_bind (rand (nat sz)) (\<lambda>packet.
       let packet = go_copy packet 0 (length packet) magic;
           packet = packet[8 := 0];
           packet = packet[9 := 2];
           packet = go_copy packet 10 12 (be16 (nat sz));
           packet = go_copy packet 12 20 (be64 now)
       in Inr (go_copy packet 36 68 (signature mac packet token node))))"

definition Reply :: "mac_fun \<Rightarrow> byte list \<Rightarrow> string \<Rightarrow> string \<Rightarrow> 64 word \<Rightarrow> byte list res" where
  "Reply mac packet token node now =
     reject_if (\<not> Recognized packet \<or> length packet < HeaderBytes \<or> length packet > MaxBytes
         \<or> packet ! 8 \<noteq> 0 \<or> packet ! 9 \<noteq> 2
         \<or> un_be16 (take 2 (drop 10 packet)) \<noteq> length packet \<or> \<not> validIdentity token node) ErrInvalid
     (let w = un_be64 (take 8 (drop 12 packet)); stamp = now in
      reject_if (sint w < sint (stamp - 15) \<or> sint w > sint (stamp + 2)
          \<or> take 32 (drop 36 packet) \<noteq> signature mac packet token node) ErrInvalid
      (let reply = packet[8 := 1] in
       Inr (go_copy reply 36 68 (signature mac reply token node))))"

definition ValidateReply :: "mac_fun \<Rightarrow> byte list \<Rightarrow> byte list \<Rightarrow> string \<Rightarrow> string \<Rightarrow> 64 word \<Rightarrow> unit res" where
  "ValidateReply mac request reply token node now =
     res_bind (Reply mac request token node now) (\<lambda>expected.
       reject_if (length reply \<noteq> length expected \<or> reply \<noteq> expected) ErrInvalid (Inr ()))"

section \<open>Limiter\<close>

record bucket =
  bucket_at :: int
  credits :: rat

type_synonym limiter = "(addr \<times> bucket) list"

text \<open>\<open>now.Sub(t)\<close> saturates at the range of \<open>time.Duration\<close>.\<close>

definition time_sub :: "int \<Rightarrow> int \<Rightarrow> int" where
  "time_sub a b = max min_int64 (min max_int64 (a - b))"

text \<open>\<open>Duration.Seconds()\<close>: whole seconds plus the fraction, as floats.\<close>

definition Seconds :: "(rat \<Rightarrow> rat) \<Rightarrow> int \<Rightarrow> rat" where
  "Seconds rnd d =
     (let sec = go_quot d 1000000000; nsec = d - sec * 1000000000 in
      rnd (of_int sec + rnd (of_int nsec / 1000000000)))"

definition refill :: "(rat \<Rightarrow> rat) \<Rightarrow> int \<Rightarrow> bucket \<Rightarrow> bucket" where
  "refill rnd now v =
     (let elapsed = Seconds rnd (time_sub now (bucket_at v)) in
      if elapsed > 0 then
        let c = rnd (credits v + rnd (elapsed * 32)) in
        v\<lparr>credits := (if c > 64 then 64 else c), bucket_at := now\<rparr>
      else v)"

text \<open>
  \<open>Allow\<close>: the zero \<open>netip.Addr\<close>, which is not valid, is \<open>None\<close>. The result is the new state of
  \<open>entries\<close> and the answer.
\<close>

definition peer_eligible :: "addr \<Rightarrow> bool" where
  "peer_eligible peer \<longleftrightarrow>
     \<not> (Zone peer \<noteq> [] \<or> (\<not> IsPrivate peer \<and> \<not> IsLoopback peer) \<or> IsUnspecified peer)"

definition Allow :: "(rat \<Rightarrow> rat) \<Rightarrow> limiter \<Rightarrow> addr option \<Rightarrow> int \<Rightarrow> limiter \<times> bool" where
  "Allow rnd l peer now =
     (case map_option Unmap peer of
        None \<Rightarrow> (l, False)
      | Some peer \<Rightarrow>
          if \<not> peer_eligible peer then (l, False)
          else
            let admit = (\<lambda>l value.
                  let value = refill rnd now value;
                      allowed = credits value \<ge> 1;
                      value = (if allowed then value\<lparr>credits := rnd (credits value - 1)\<rparr> else value)
                  in (map_put peer value l, allowed))
            in case map_of l peer of
                 Some value \<Rightarrow> admit l value
               | None \<Rightarrow>
                   let l' = (if length l \<ge> maxPeers
                             then filter (\<lambda>(_, b). \<not> time_sub now (bucket_at b) > 30000000000) l else l)
                   in if length l' \<ge> maxPeers then (l', False)
                      else admit l' \<lparr>bucket_at = now, credits = 64\<rparr>)"

section \<open>Byte order\<close>

lemma un_be16_be16: "n < 65536 \<Longrightarrow> un_be16 (be16 n) = n"
  by (simp add: un_be16_def be16_def unat_word_ariths unat_of_nat take_bit_eq_mod)

lemma length_be [simp]: "length (be16 n) = 2" "length (be64 w) = 8"
  by (simp_all add: be16_def be64_def)

text \<open>Reading big-endian digits back: one more byte extends the residue by one place.\<close>

fun be_digits :: "int \<Rightarrow> nat \<Rightarrow> int list" where
  "be_digits x 0 = []"
| "be_digits x (Suc n) = (x div 256 ^ n mod 256) # be_digits x n"

lemma foldl_be_digits:
  "foldl (\<lambda>acc b. acc * 256 + b) acc (be_digits x n) = acc * 256 ^ n + x mod 256 ^ n"
proof (induction n arbitrary: acc)
  case 0
  then show ?case by simp
next
  case (Suc n)
  have "x mod 256 ^ Suc n = 256 ^ n * (x div 256 ^ n mod 256) + x mod 256 ^ n"
    using zmod_zmult2_eq [of 256 x "256 ^ n"] by (simp add: mult.commute)
  then show ?case using Suc by (simp add: algebra_simps)
qed

lemma byte_of_int: "ucast (word_of_int x :: byte) = (word_of_int (x mod 256) :: 64 word)"
proof -
  have "ucast (word_of_int x :: byte) = (word_of_int (uint (word_of_int x :: byte)) :: 64 word)" by simp
  then show ?thesis by (simp add: uint_word_of_int)
qed

lemma foldl_word_of_int:
  "foldl (\<lambda>acc b. acc * 256 + ucast b) (word_of_int a :: 64 word) (map (\<lambda>x. word_of_int x :: byte) xs)
   = word_of_int (foldl (\<lambda>acc b. acc * 256 + b) a (map (\<lambda>x. x mod 256) xs))"
proof (induction xs arbitrary: a)
  case Nil
  then show ?case by simp
next
  case (Cons x xs)
  have "word_of_int a * 256 + ucast (word_of_int x :: byte) = (word_of_int (a * 256 + x mod 256) :: 64 word)"
    by (simp add: byte_of_int)
  then show ?case using Cons [of "a * 256 + x mod 256"] by simp
qed

lemma un_be64_be64: "un_be64 (be64 w) = w"
proof -
  let ?ds = "map (\<lambda>i. uint w div 256 ^ i) [7, 6, 5, 4, 3, 2, 1, 0]"
  have dig: "map (\<lambda>x. x mod 256) ?ds = be_digits (uint w) 8"
    by (simp add: numeral_eq_Suc)
  have be: "be64 w = map (\<lambda>x. word_of_int x :: byte) ?ds" by (simp only: be64_def map_map comp_def)
  have "un_be64 (be64 w) = word_of_int (foldl (\<lambda>acc b. acc * 256 + b) 0 (map (\<lambda>x. x mod 256) ?ds))"
    unfolding un_be64_def be using foldl_word_of_int [of 0 ?ds] by (simp only: of_int_0)
  also have "\<dots> = word_of_int (uint w mod 256 ^ 8)"
    unfolding dig foldl_be_digits by simp
  also have "uint w mod 256 ^ 8 = uint w" using uint_bounded [of w] by simp
  finally show ?thesis by simp
qed

section \<open>The layout of a datagram\<close>

text \<open>A datagram seen as its fields; \<open>layout\<close> puts them together.\<close>

definition layout :: "byte \<Rightarrow> byte list \<Rightarrow> byte list \<Rightarrow> byte list \<Rightarrow> byte list \<Rightarrow> byte list \<Rightarrow> byte list" where
  "layout kind len stamp nonce sig body = magic @ [kind, 2] @ len @ stamp @ nonce @ sig @ body"

definition fields_ok :: "byte list \<Rightarrow> byte list \<Rightarrow> byte list \<Rightarrow> byte list \<Rightarrow> bool" where
  "fields_ok len stamp nonce sig \<longleftrightarrow>
     length len = 2 \<and> length stamp = 8 \<and> length nonce = 16 \<and> length sig = 32"

lemma length_magic [simp]: "length magic = 8"
  by (simp add: magic_def)

lemma layout_simps:
  assumes "fields_ok len stamp nonce sig"
  shows "length (layout k len stamp nonce sig body) = 68 + length body"
    and "take 8 (layout k len stamp nonce sig body) = magic"
    and "layout k len stamp nonce sig body ! 8 = k"
    and "layout k len stamp nonce sig body ! 9 = 2"
    and "take 2 (drop 10 (layout k len stamp nonce sig body)) = len"
    and "take 8 (drop 12 (layout k len stamp nonce sig body)) = stamp"
    and "take 32 (drop 36 (layout k len stamp nonce sig body)) = sig"
    and "take 36 (layout k len stamp nonce sig body) = magic @ [k, 2] @ len @ stamp @ nonce"
    and "drop 68 (layout k len stamp nonce sig body) = body"
    and "(layout k len stamp nonce sig body)[8 := k'] = layout k' len stamp nonce sig body"
  using assms by (simp_all add: layout_def fields_ok_def nth_append list_update_append)

text \<open>A packet of at least 68 bytes is cut into the pieces the header fields replace.\<close>

lemma packet_pieces:
  assumes "68 \<le> length (p :: byte list)"
  obtains m a b len stamp nonce sig body where
    "p = m @ [a, b] @ len @ stamp @ nonce @ sig @ body" "length m = 8" "fields_ok len stamp nonce sig"
proof
  let ?t = "\<lambda>n k. take n (drop k p)"
  have cut: "drop k p = take n (drop k p) @ drop (n + k) p" for n k
    by (metis append_take_drop_id drop_drop)
  have "drop 8 p = [p ! 8, p ! 9] @ drop 10 p"
    using assms Cons_nth_drop_Suc [of 8 p] Cons_nth_drop_Suc [of 9 p] by simp
  then have "p = take 8 p @ [p ! 8, p ! 9] @ drop 10 p"
    by (metis append_take_drop_id)
  also have "drop 10 p = ?t 2 10 @ ?t 8 12 @ ?t 16 20 @ ?t 32 36 @ drop 68 p"
    using cut [of 10 2] cut [of 12 8] cut [of 20 16] cut [of 36 32] by simp
  finally show "p = take 8 p @ [p ! 8, p ! 9] @ ?t 2 10 @ ?t 8 12 @ ?t 16 20 @ ?t 32 36 @ drop 68 p" .
  show "length (take 8 p) = 8" "fields_ok (?t 2 10) (?t 8 12) (?t 16 20) (?t 32 36)"
    using assms by (simp_all add: fields_ok_def)
qed

definition header_message :: "string \<Rightarrow> byte \<Rightarrow> byte list \<Rightarrow> byte list \<Rightarrow> byte list \<Rightarrow> byte list \<Rightarrow> byte list" where
  "header_message node k len stamp nonce body =
     string_bytes (''router-vpn-mtu-probe-v2'' @ [CHR 0x00] @ node @ [CHR 0x00])
     @ (magic @ [k, 2] @ len @ stamp @ nonce) @ body"

lemma signature_layout:
  assumes "fields_ok len stamp nonce sig"
  shows "signature mac (layout k len stamp nonce sig body) token node
    = mac (string_bytes token) (header_message node k len stamp nonce body)"
  by (simp add: signature_def header_message_def HeaderBytes_def layout_simps [OF assms])

lemma go_copy_sig:
  assumes "fields_ok len stamp nonce sig" and "length sig' = 32"
  shows "go_copy (layout k len stamp nonce sig body) 36 68 sig' = layout k len stamp nonce sig' body"
  using assms by (simp add: go_copy_def layout_def fields_ok_def)

lemma Request_layout:
  assumes "Request mac rand sz token node now = Inr packet"
    and "\<And>n p. rand n = Inr p \<Longrightarrow> length p = n" and "\<And>key msg. length (mac key msg) = 32"
  obtains nonce sig body where
    "fields_ok (be16 (nat sz)) (be64 now) nonce sig"
    "packet = layout 0 (be16 (nat sz)) (be64 now) nonce sig body"
    "sig = mac (string_bytes token) (header_message node 0 (be16 (nat sz)) (be64 now) nonce body)"
    "int (length packet) = sz" "68 \<le> sz" "sz \<le> 9000" "validIdentity token node"
proof -
  obtain p where p: "rand (nat sz) = Inr p"
    and sz: "68 \<le> sz" "sz \<le> 9000" "validIdentity token node"
    and packet: "packet = (let p1 = go_copy p 0 (length p) magic; p2 = p1[8 := 0]; p3 = p2[9 := 2];
       p4 = go_copy p3 10 12 (be16 (nat sz)); p5 = go_copy p4 12 20 (be64 now)
       in go_copy p5 36 68 (signature mac p5 token node))"
    using assms(1) by (auto simp: Request_def res_bind_Inr_iff Let_def HeaderBytes_def MaxBytes_def
        split: if_splits)
  have lp: "length p = nat sz" by (rule assms(2) [OF p])
  then obtain m a b len stamp nonce s0 body where pp: "p = m @ [a, b] @ len @ stamp @ nonce @ s0 @ body"
    and m: "length m = 8" and ok: "fields_ok len stamp nonce s0"
    using packet_pieces [of p] sz by (metis nat_mono nat_numeral)
  have ok': "fields_ok (be16 (nat sz)) (be64 now) nonce s0" using ok by (simp add: fields_ok_def)
  let ?p3 = "layout 0 len stamp nonce s0 body"
  have 1: "(go_copy p 0 (length p) magic)[8 := 0, 9 := 2] = ?p3"
    using m ok by (simp add: pp go_copy_def layout_def fields_ok_def list_update_append)
  have 2: "go_copy (go_copy ?p3 10 12 (be16 (nat sz))) 12 20 (be64 now)
      = layout 0 (be16 (nat sz)) (be64 now) nonce s0 body"
    using ok by (simp add: go_copy_def layout_def fields_ok_def)
  let ?sig = "mac (string_bytes token) (header_message node 0 (be16 (nat sz)) (be64 now) nonce body)"
  have 3: "packet = layout 0 (be16 (nat sz)) (be64 now) nonce ?sig body"
    unfolding packet Let_def 1 2 signature_layout [OF ok'] by (rule go_copy_sig [OF ok' assms(3)])
  have ok'': "fields_ok (be16 (nat sz)) (be64 now) nonce ?sig"
    using ok assms(3) by (simp add: fields_ok_def)
  have "length packet = nat sz"
    using lp m ok by (simp add: 3 layout_simps [OF ok''] pp fields_ok_def)
  then have "int (length packet) = sz" using sz by simp
  then show thesis using that ok'' 3 sz by blast
qed

text \<open>What \<open>Reply\<close> accepts, and the reply it builds.\<close>

lemma Reply_layout:
  assumes "Reply mac packet token node now = Inr reply" and "\<And>key msg. length (mac key msg) = 32"
  obtains len stamp nonce sig body where
    "fields_ok len stamp nonce sig" "packet = layout 0 len stamp nonce sig body"
    "sig = mac (string_bytes token) (header_message node 0 len stamp nonce body)"
    "reply = layout 1 len stamp nonce
       (mac (string_bytes token) (header_message node 1 len stamp nonce body)) body"
    "un_be16 len = length packet"
proof -
  have c: "Recognized packet" "68 \<le> length packet" "packet ! 8 = 0" "packet ! 9 = 2"
    "un_be16 (take 2 (drop 10 packet)) = length packet"
    "take 32 (drop 36 packet) = signature mac packet token node"
    and r: "reply = go_copy (packet[8 := 1]) 36 68 (signature mac (packet[8 := 1]) token node)"
    using assms(1) by (auto simp: Reply_def Let_def HeaderBytes_def split: if_splits)
  obtain m a b len stamp nonce sig body where pp: "packet = m @ [a, b] @ len @ stamp @ nonce @ sig @ body"
    and m: "length m = 8" and ok: "fields_ok len stamp nonce sig"
    using packet_pieces [OF c(2)] by metis
  have "m = magic" "a = 0" "b = 2"
    using c(1,3,4) m by (simp_all add: pp Recognized_def nth_append)
  then have lay: "packet = layout 0 len stamp nonce sig body" by (simp add: pp layout_def)
  have sig: "sig = mac (string_bytes token) (header_message node 0 len stamp nonce body)"
    using c(6) by (simp add: lay layout_simps [OF ok] signature_layout [OF ok])
  have "reply = layout 1 len stamp nonce
       (mac (string_bytes token) (header_message node 1 len stamp nonce body)) body"
    unfolding r lay layout_simps(10) [OF ok] signature_layout [OF ok]
    by (rule go_copy_sig [OF ok assms(2)])
  moreover have "un_be16 len = length packet" using c(5) by (simp add: lay layout_simps [OF ok])
  ultimately show thesis using that ok lay sig by blast
qed

section \<open>The probe exchange\<close>

text \<open>
  What the MTU measurement relies on: a prober that sends \<open>req\<close>, a sink that answers with \<open>rep\<close>
  and a prober that checks the answer with \<open>valid\<close>. \<open>fresh t t'\<close> says that a request made at
  \<open>t\<close> is still accepted at \<open>t'\<close>.
\<close>

locale probe_exchange =
  fixes req :: "int \<Rightarrow> 't \<Rightarrow> 'p list res"
    and rep :: "'p list \<Rightarrow> 't \<Rightarrow> 'p list res"
    and valid :: "'p list \<Rightarrow> 'p list \<Rightarrow> 't \<Rightarrow> unit res"
    and fresh :: "'t \<Rightarrow> 't \<Rightarrow> bool"
  assumes req_size: "req sz t = Inr p \<Longrightarrow> int (length p) = sz"
    and req_answered: "req sz t = Inr p \<Longrightarrow> fresh t t' \<Longrightarrow> \<exists>r. rep p t' = Inr r"
    and rep_size: "rep p t = Inr r \<Longrightarrow> length r = length p"
    and rep_stable: "rep p t = Inr r \<Longrightarrow> rep p t' = Inr r' \<Longrightarrow> r' = r"
    and rep_final: "rep p t = Inr r \<Longrightarrow> \<not> is_ok (rep r t')"
    and valid_iff: "valid p r t = Inr () \<longleftrightarrow> rep p t = Inr r"
begin

lemma exchange_completes:
  assumes "req sz t = Inr p" and "fresh t t'" and "fresh t t''"
  shows "\<exists>r. rep p t' = Inr r \<and> valid p r t'' = Inr () \<and> int (length r) = sz
    \<and> (\<forall>r'. valid p r' t'' = Inr () \<longrightarrow> r' = r) \<and> \<not> is_ok (rep r t'')"
proof -
  obtain r where r: "rep p t' = Inr r" using req_answered [OF assms(1,2)] by blast
  obtain r2 where r2: "rep p t'' = Inr r2" using req_answered [OF assms(1,3)] by blast
  have "r2 = r" by (rule rep_stable [OF r r2])
  then show ?thesis
    using r r2 rep_size [OF r] req_size [OF assms(1)] rep_final [OF r] by (auto simp: valid_iff)
qed

end

definition fresh_stamp :: "64 word \<Rightarrow> 64 word \<Rightarrow> bool" where
  "fresh_stamp made seen \<longleftrightarrow> sint (seen - 15) \<le> sint made \<and> sint made \<le> sint (seen + 2)"

text \<open>
  The MAC and the random source as the locale sees them: \<open>mac32\<close> and \<open>rand_n\<close> are the
  parameters themselves whenever these return 32 bytes and a buffer of the requested size.
\<close>

definition mac32 :: "mac_fun \<Rightarrow> mac_fun" where
  "mac32 mac key msg = take 32 (mac key msg @ replicate 32 0)"

definition rand_n :: "(nat \<Rightarrow> byte list res) \<Rightarrow> nat \<Rightarrow> byte list res" where
  "rand_n rand n = (case rand n of Inl e \<Rightarrow> Inl e | Inr p \<Rightarrow> Inr (take n (p @ replicate n 0)))"

lemma length_mac32: "length (mac32 mac key msg) = 32"
  by (simp add: mac32_def)

lemma length_rand_n: "rand_n rand n = Inr p \<Longrightarrow> length p = n"
  by (auto simp: rand_n_def split: sum.splits)

lemma mac32_id: "(\<And>key msg. length (mac key msg) = 32) \<Longrightarrow> mac32 mac = mac"
  by (intro ext) (simp add: mac32_def)

lemma rand_n_id: "(\<And>n p. rand n = Inr p \<Longrightarrow> length p = n) \<Longrightarrow> rand_n rand = rand"
  by (intro ext) (auto simp: rand_n_def split: sum.splits)

lemma Reply_of_Request:
  assumes "Request mac rand sz token node now = Inr packet"
    and "\<And>n p. rand n = Inr p \<Longrightarrow> length p = n" and "\<And>key msg. length (mac key msg) = 32"
    and "fresh_stamp now now'"
  shows "\<exists>reply. Reply mac packet token node now' = Inr reply"
proof -
  obtain nonce sig body where ok: "fields_ok (be16 (nat sz)) (be64 now) nonce sig"
    and lay: "packet = layout 0 (be16 (nat sz)) (be64 now) nonce sig body"
    and sig: "sig = mac (string_bytes token) (header_message node 0 (be16 (nat sz)) (be64 now) nonce body)"
    and sz: "int (length packet) = sz" "68 \<le> sz" "sz \<le> 9000" and v: "validIdentity token node"
    using Request_layout [OF assms(1,2,3)] by metis
  have n: "nat sz < 65536" "length packet = nat sz" and b: "\<not> length packet < 68" "\<not> 9000 < length packet"
    using sz by auto
  have "take 32 (drop 36 packet) = signature mac packet token node"
    unfolding lay layout_simps(7) [OF ok] signature_layout [OF ok] by (rule sig)
  moreover have "un_be16 (take 2 (drop 10 packet)) = length packet"
    using n by (simp add: lay layout_simps [OF ok] un_be16_be16)
  moreover have "un_be64 (take 8 (drop 12 packet)) = now"
    by (simp add: lay layout_simps [OF ok] un_be64_be64)
  moreover have "Recognized packet" "packet ! 8 = 0" "packet ! 9 = 2"
    by (simp_all add: Recognized_def lay layout_simps [OF ok])
  ultimately show ?thesis
    using assms(4) b v
    by (simp add: Reply_def Let_def HeaderBytes_def MaxBytes_def fresh_stamp_def)
qed

lemma Reply_kind:
  assumes "Reply mac packet token node now = Inr reply" and "\<And>key msg. length (mac key msg) = 32"
  shows "length reply = length packet" and "reply ! 8 = 1" and "\<not> is_ok (Reply mac reply token' node' now')"
proof -
  obtain len stamp nonce sig body where ok: "fields_ok len stamp nonce sig"
    and p: "packet = layout 0 len stamp nonce sig body"
    and r: "reply = layout 1 len stamp nonce
       (mac (string_bytes token) (header_message node 1 len stamp nonce body)) body"
    using Reply_layout [OF assms] by metis
  have ok': "fields_ok len stamp nonce (mac (string_bytes token) (header_message node 1 len stamp nonce body))"
    using ok assms(2) by (simp add: fields_ok_def)
  show "length reply = length packet" "reply ! 8 = 1"
    by (simp_all add: p r layout_simps [OF ok] layout_simps [OF ok'])
  then show "\<not> is_ok (Reply mac reply token' node' now')" by (simp add: Reply_def)
qed

lemma Reply_stable:
  "Reply mac p token node t = Inr r \<Longrightarrow> Reply mac p token node t' = Inr r' \<Longrightarrow> r' = r"
  by (auto simp: Reply_def Let_def split: if_splits)

lemma ValidateReply_iff:
  "ValidateReply mac p r token node t = Inr () \<longleftrightarrow> Reply mac p token node t = Inr r"
  by (auto simp: ValidateReply_def res_bind_Inr_iff split: if_splits)

interpretation probe: probe_exchange
  "\<lambda>sz t. Request (mac32 mac) (rand_n rand) sz token node t"
  "\<lambda>p t. Reply (mac32 mac) p token node t"
  "\<lambda>p r t. ValidateReply (mac32 mac) p r token node t" fresh_stamp
  for mac rand token node
proof
  fix sz t p
  assume r: "Request (mac32 mac) (rand_n rand) sz token node t = Inr p"
  show "int (length p) = sz"
    by (rule Request_layout [OF r length_rand_n [of rand] length_mac32]) auto
  show "\<exists>r. Reply (mac32 mac) p token node t' = Inr r" if "fresh_stamp t t'" for t'
    by (rule Reply_of_Request [OF r length_rand_n [of rand] length_mac32 that])
qed (auto intro: Reply_kind(1) [OF _ length_mac32] Reply_stable dest: Reply_kind(3) [OF _ length_mac32]
    simp: ValidateReply_iff)

text \<open>
  The probe exchange completes. For any MAC of 32 bytes and any random source, the datagram built
  by \<open>Request\<close> has the requested size; a sink that sees it while its stamp is fresh (at most 15
  seconds old and 2 seconds ahead) answers with a datagram of the same size; the prober accepts that
  answer and no other one; and the answer itself is never answered, so two sinks cannot be made to
  bounce datagrams.
\<close>

theorem probe_exchange_complete:
  assumes "\<And>key msg. length (mac key msg) = 32" and "\<And>n p. rand n = Inr p \<Longrightarrow> length p = n"
    and "Request mac rand sz token node now = Inr packet"
    and "fresh_stamp now now'" and "fresh_stamp now now''"
  shows "\<exists>reply. Reply mac packet token node now' = Inr reply
    \<and> ValidateReply mac packet reply token node now'' = Inr ()
    \<and> int (length packet) = sz \<and> length reply = length packet
    \<and> (\<forall>r. ValidateReply mac packet r token node now'' = Inr () \<longrightarrow> r = reply)
    \<and> \<not> is_ok (Reply mac reply token node now'')"
proof -
  have m: "mac32 mac = mac" and r: "rand_n rand = rand"
    using assms(1,2) by (blast intro: mac32_id rand_n_id)+
  note ex = probe.exchange_completes [of mac rand sz token node now packet now' now'', unfolded m r,
      OF assms(3-5)]
  have "int (length packet) = sz"
    by (rule probe.req_size [of mac rand sz token node now packet, unfolded m r, OF assms(3)])
  with ex show ?thesis by (metis of_nat_eq_iff)
qed

definition toy_mac :: mac_fun where
  "toy_mac key msg = replicate 31 7 @ [word_of_nat (length msg)]"

definition toy_rand :: "nat \<Rightarrow> byte list res" where
  "toy_rand n = Inr (replicate n 9)"

definition toy_node :: string where
  "toy_node = replicate 64 CHR ''a''"

theorem probe_exchange_complete_witness:
  "\<exists>packet reply. Request toy_mac toy_rand 100 ''token'' toy_node 1000 = Inr packet
    \<and> Reply toy_mac packet ''token'' toy_node 1010 = Inr reply
    \<and> ValidateReply toy_mac packet reply ''token'' toy_node 1011 = Inr ()
    \<and> length reply = 100"
proof -
  have v: "validIdentity ''token'' toy_node"
    by code_simp
  obtain packet where p: "Request toy_mac toy_rand 100 ''token'' toy_node 1000 = Inr packet"
    using v by (simp add: Request_def Let_def toy_rand_def HeaderBytes_def MaxBytes_def)
  have m: "length (toy_mac key msg) = 32" for key msg by (simp add: toy_mac_def)
  have r: "toy_rand n = Inr q \<Longrightarrow> length q = n" for n q by (auto simp: toy_rand_def)
  have f: "fresh_stamp 1000 1010" "fresh_stamp 1000 1011" by (simp_all add: fresh_stamp_def)
  have "\<exists>reply. Reply toy_mac packet ''token'' toy_node 1010 = Inr reply
    \<and> ValidateReply toy_mac packet reply ''token'' toy_node 1011 = Inr ()
    \<and> int (length packet) = 100 \<and> length reply = length packet
    \<and> (\<forall>r. ValidateReply toy_mac packet r ''token'' toy_node 1011 = Inr () \<longrightarrow> r = reply)
    \<and> \<not> is_ok (Reply toy_mac reply ''token'' toy_node 1011)"
    by (rule probe_exchange_complete [OF m r p f])
  then obtain reply where reply: "Reply toy_mac packet ''token'' toy_node 1010 = Inr reply"
    "ValidateReply toy_mac packet reply ''token'' toy_node 1011 = Inr ()"
    and len: "length reply = length packet" "int (length packet) = 100"
    by (elim exE conjE)
  have "length reply = 100" using len by linarith
  with p reply show ?thesis by (intro exI conjI)
qed

text \<open>
  C4. A datagram that \<open>Reply\<close> answers carries a correct MAC over its header, nonce and body, states
  its own length and is no larger than 9000 bytes; the answer has the same size, so the sink cannot
  amplify, and answering the answer fails whatever key, node and time it is tried with.
\<close>

theorem reply_authenticated_no_amplification:
  assumes "\<And>key msg. length (mac key msg) = 32" and "Reply mac packet token node now = Inr reply"
  shows "take 32 (drop 36 packet) = signature mac packet token node
    \<and> un_be16 (take 2 (drop 10 packet)) = length packet \<and> length packet \<le> 9000
    \<and> length reply = length packet \<and> take 32 (drop 36 reply) = signature mac reply token node
    \<and> fresh_stamp (un_be64 (take 8 (drop 12 packet))) now
    \<and> Reply mac reply token' node' now' = fail ErrInvalid"
proof -
  obtain len stamp nonce sig body where ok: "fields_ok len stamp nonce sig"
    and r: "reply = layout 1 len stamp nonce
       (mac (string_bytes token) (header_message node 1 len stamp nonce body)) body"
    using Reply_layout [OF assms(2) assms(1)] by metis
  have ok': "fields_ok len stamp nonce (mac (string_bytes token) (header_message node 1 len stamp nonce body))"
    using ok assms(1) by (simp add: fields_ok_def)
  have "take 32 (drop 36 reply) = signature mac reply token node"
    by (simp add: r layout_simps [OF ok'] signature_layout [OF ok'])
  moreover have "Reply mac reply token' node' now' = fail ErrInvalid"
    using Reply_kind(2) [OF assms(2) assms(1)] by (simp add: Reply_def)
  ultimately show ?thesis
    using assms(2) Reply_kind(1) [OF assms(2) assms(1)]
    by (auto simp: Reply_def Let_def MaxBytes_def fresh_stamp_def split: if_splits)
qed

theorem reply_authenticated_no_amplification_witness:
  "\<exists>packet reply. Reply toy_mac packet ''token'' toy_node 1000 = Inr reply
    \<and> Reply toy_mac reply ''token'' toy_node 1000 = fail ErrInvalid"
proof -
  have v: "validIdentity ''token'' toy_node"
    by code_simp
  have m: "length (toy_mac key msg) = 32" for key msg by (simp add: toy_mac_def)
  obtain packet where p: "Request toy_mac toy_rand 100 ''token'' toy_node 1000 = Inr packet"
    using v by (simp add: Request_def Let_def toy_rand_def HeaderBytes_def MaxBytes_def)
  obtain reply where r: "Reply toy_mac packet ''token'' toy_node 1000 = Inr reply"
    using Reply_of_Request [OF p _ m, of 1000] by (auto simp: toy_rand_def fresh_stamp_def)
  show ?thesis using reply_authenticated_no_amplification [OF m r] r by blast
qed

section \<open>The token bucket\<close>

text \<open>
  What is used of float rounding: it is monotone, keeps zero, and on non-negative values has a relative error of
  at most \<open>e\<close> besides an absolute one of at most \<open>d\<close>. For \<open>float64\<close> these are \<open>2^-53\<close> and, because of the
  subnormal numbers, \<open>2^-1075\<close>; they are 0 for exact arithmetic. No value here comes near the overflow threshold.
\<close>

definition rounding :: "(rat \<Rightarrow> rat) \<Rightarrow> rat \<Rightarrow> rat \<Rightarrow> bool" where
  "rounding rnd e d \<longleftrightarrow> 0 \<le> e \<and> e \<le> 1 / 64 \<and> 0 \<le> d \<and> d \<le> 1 / 64 \<and> rnd 0 = 0
     \<and> (\<forall>x y. x \<le> y \<longrightarrow> rnd x \<le> rnd y) \<and> (\<forall>x \<ge> 0. rnd x \<le> (1 + e) * x + d)"

lemma roundingD:
  assumes "rounding rnd e d"
  shows "0 \<le> e" "e \<le> 1 / 64" "rnd 0 = 0" "x \<le> y \<Longrightarrow> rnd x \<le> rnd y"
    "0 \<le> x \<Longrightarrow> rnd x \<le> (1 + e) * x + d" "0 \<le> x \<Longrightarrow> 0 \<le> rnd x" "0 \<le> d" "d \<le> 1 / 64"
  using assms unfolding rounding_def by (blast, blast, blast, blast, blast, metis, blast, blast)

text \<open>What one call may gain by rounding.\<close>

definition slack :: "rat \<Rightarrow> rat \<Rightarrow> rat" where
  "slack e d = 128 * (e + d)"

lemma slack_nonneg: "rounding rnd e d \<Longrightarrow> 0 \<le> slack e d"
  by (simp add: slack_def roundingD)

text \<open>A small factor grows by the relative error only a little.\<close>

lemma rounding_scaled:
  assumes "rounding rnd e d" and "0 \<le> k"
  shows "(1 + e) * (k * d) \<le> k * d + k / 64 * d"
proof -
  have "e * (k * d) \<le> 1 / 64 * (k * d)"
    using assms(2) roundingD(2,7) [OF assms(1)] by (intro mult_right_mono) simp_all
  then show ?thesis by (simp add: algebra_simps)
qed

definition limiter_ok :: "limiter \<Rightarrow> bool" where
  "limiter_ok l \<longleftrightarrow> distinct (map fst l) \<and> length l \<le> maxPeers
     \<and> (\<forall>(p, b) \<in> set l. 0 \<le> credits b \<and> credits b \<le> 64)"

lemma Seconds_nonneg:
  assumes "rounding rnd e d" and "0 \<le> t"
  shows "0 \<le> Seconds rnd t" and "Seconds rnd t \<le> (1 + e) ^ 2 * (of_int t / 1000000000) + 3 * d"
proof -
  let ?s = "t div 1000000000" and ?n = "t mod 1000000000"
  have ns: "(0 :: int) < 1000000000" by simp
  have S: "Seconds rnd t = rnd (of_int ?s + rnd (of_int ?n / 1000000000))"
    unfolding Seconds_def Let_def go_quot_nonneg [OF assms(2) ns] minus_div_mult_eq_mod by (rule refl)
  have pos: "(0 :: rat) \<le> of_int ?s" "(0 :: rat) \<le> of_int ?n / 1000000000"
    using assms(2) by (simp_all add: pos_imp_zdiv_nonneg_iff)
  note r = roundingD [OF assms(1)]
  have e1: "1 \<le> 1 + e" using r(1) by simp
  have in_pos: "0 \<le> of_int ?s + rnd (of_int ?n / 1000000000)" using pos r(6) by (simp add: add_nonneg_nonneg)
  then show "0 \<le> Seconds rnd t" unfolding S by (rule r(6))
  have t: "of_int t = of_int ?s * 1000000000 + (of_int ?n :: rat)"
    by (metis div_mult_mod_eq of_int_add of_int_mult of_int_numeral)
  have "of_int ?s + rnd (of_int ?n / 1000000000) \<le> (1 + e) * of_int ?s + ((1 + e) * (of_int ?n / 1000000000) + d)"
    using r(5) [OF pos(2)] mult_right_mono [OF e1 pos(1)] by simp
  also have "\<dots> = (1 + e) * (of_int t / 1000000000) + d" unfolding t by (simp add: field_simps)
  finally have "(1 + e) * (of_int ?s + rnd (of_int ?n / 1000000000))
      \<le> (1 + e) * ((1 + e) * (of_int t / 1000000000) + d)"
    using e1 by (intro mult_left_mono) auto
  also have "\<dots> = (1 + e) ^ 2 * (of_int t / 1000000000) + (1 + e) * (1 * d)"
    by (simp add: power2_eq_square algebra_simps)
  finally show "Seconds rnd t \<le> (1 + e) ^ 2 * (of_int t / 1000000000) + 3 * d"
    using r(5) [OF in_pos] rounding_scaled [OF assms(1), of 1] r(7) unfolding S by linarith
qed

text \<open>The credits a refill adds, and the range it keeps.\<close>

lemma refill_bound:
  assumes "rounding rnd e d" and "0 \<le> credits v" and "credits v \<le> 64" and "bucket_at v \<le> now"
  shows "credits (refill rnd now v) + 32 * (1 + e) ^ 4 * (of_int (now - bucket_at (refill rnd now v)) / 1000000000)
      \<le> credits v + (64 * e + 102 * d) + 32 * (1 + e) ^ 4 * (of_int (now - bucket_at v) / 1000000000)"
    and "0 \<le> credits (refill rnd now v)" and "credits (refill rnd now v) \<le> 64"
    and "bucket_at (refill rnd now v) \<le> now"
proof -
  note r = roundingD [OF assms(1)]
  let ?t = "time_sub now (bucket_at v)" and ?x = "of_int (now - bucket_at v) / (1000000000 :: rat)"
  let ?el = "Seconds rnd ?t"
  have t: "0 \<le> ?t" "?t \<le> now - bucket_at v"
    using assms(4) by (simp_all add: time_sub_def max_int64_def min_int64_def)
  have e1: "1 \<le> 1 + e" "0 \<le> 1 + e" using r(1) by simp_all
  have "?el \<le> (1 + e) ^ 2 * (of_int ?t / 1000000000) + 3 * d" by (rule Seconds_nonneg(2) [OF assms(1) t(1)])
  also have "\<dots> \<le> (1 + e) ^ 2 * ?x + 3 * d"
    using t(2) e1 by (intro add_right_mono mult_left_mono divide_right_mono) auto
  finally have el: "?el \<le> (1 + e) ^ 2 * ?x + 3 * d" .
  have el0: "0 \<le> ?el" by (rule Seconds_nonneg(1) [OF assms(1) t(1)])
  have add: "0 \<le> rnd (?el * 32)" "rnd (?el * 32) \<le> (1 + e) ^ 3 * (32 * ?x) + 99 * d"
  proof -
    show "0 \<le> rnd (?el * 32)" using r(6) el0 by simp
    have "rnd (?el * 32) \<le> (1 + e) * (?el * 32) + d" using r(5) el0 by simp
    also have "\<dots> \<le> (1 + e) * (((1 + e) ^ 2 * ?x + 3 * d) * 32) + d"
      using el e1 by (intro add_right_mono mult_left_mono mult_right_mono) auto
    also have "\<dots> = (1 + e) ^ 3 * (32 * ?x) + (1 + e) * (96 * d) + d"
      by (simp add: power2_eq_square power3_eq_cube algebra_simps)
    finally show "rnd (?el * 32) \<le> (1 + e) ^ 3 * (32 * ?x) + 99 * d"
      using rounding_scaled [OF assms(1), of 96] r(7) by linarith
  qed
  have expand: "(1 + e) * (c + ((1 + e) ^ 3 * (32 * x) + 99 * d)) = c + e * c + 32 * (1 + e) ^ 4 * x + (1 + e) * (99 * d)" for c x
    by (simp add: algebra_simps power3_eq_cube power4_eq_xxxx)
  let ?c = "rnd (credits v + rnd (?el * 32))"
  have c0: "0 \<le> ?c" using r(6) assms(2) add(1) by simp
  have "?c \<le> (1 + e) * (credits v + rnd (?el * 32)) + d" using r(5) assms(2) add(1) by simp
  also have "\<dots> \<le> (1 + e) * (credits v + ((1 + e) ^ 3 * (32 * ?x) + 99 * d)) + d"
    using add(2) e1 by (intro add_right_mono mult_left_mono) auto
  also have "\<dots> = credits v + e * credits v + 32 * (1 + e) ^ 4 * ?x + (1 + e) * (99 * d) + d"
    by (simp only: expand)
  finally have c: "?c \<le> credits v + (64 * e + 102 * d) + 32 * (1 + e) ^ 4 * ?x"
    using mult_left_mono [OF assms(3) r(1)] rounding_scaled [OF assms(1), of 99] r(7) by linarith
  have keep: "credits v \<le> credits v + (64 * e + 102 * d)" using r(1,7) by simp
  show "credits (refill rnd now v) + 32 * (1 + e) ^ 4 * (of_int (now - bucket_at (refill rnd now v)) / 1000000000)
      \<le> credits v + (64 * e + 102 * d) + 32 * (1 + e) ^ 4 * (of_int (now - bucket_at v) / 1000000000)"
    using c keep by (auto simp: refill_def Let_def)
  show "0 \<le> credits (refill rnd now v)" "credits (refill rnd now v) \<le> 64" "bucket_at (refill rnd now v) \<le> now"
    using c0 assms by (auto simp: refill_def Let_def)
qed

text \<open>
  The credit a peer can still draw on at time \<open>now\<close>: its bucket plus what time has added since, or
  a full bucket when it has none.
\<close>

definition pot :: "rat \<Rightarrow> limiter \<Rightarrow> addr \<Rightarrow> int \<Rightarrow> rat" where
  "pot e l p now = (case map_of l p of None \<Rightarrow> 64
     | Some b \<Rightarrow> credits b + 32 * (1 + e) ^ 4 * (of_int (now - bucket_at b) / 1000000000))"

definition before_now :: "limiter \<Rightarrow> int \<Rightarrow> bool" where
  "before_now l now \<longleftrightarrow> (\<forall>(p, b) \<in> set l. bucket_at b \<le> now)"

lemma limiter_ok_get:
  assumes "limiter_ok l" and "before_now l now" and "map_of l p = Some b"
  shows "0 \<le> credits b" "credits b \<le> 64" "bucket_at b \<le> now"
  using assms map_of_SomeD [OF assms(3)] by (auto simp: limiter_ok_def before_now_def)

lemma pot_nonneg:
  assumes "rounding rnd e d" and "limiter_ok l" and "before_now l now"
  shows "0 \<le> pot e l p now"
proof (cases "map_of l p")
  case (Some b)
  have "(0 :: rat) \<le> 32 * (1 + e) ^ 4 * (of_int (now - bucket_at b) / 1000000000)"
    using limiter_ok_get(3) [OF assms(2,3) Some] roundingD(1) [OF assms(1)] by simp
  then show ?thesis using limiter_ok_get(1) [OF assms(2,3) Some] Some by (simp add: pot_def)
qed (simp add: pot_def)

definition evict :: "limiter \<Rightarrow> int \<Rightarrow> limiter" where
  "evict l now = (if length l \<ge> maxPeers
     then filter (\<lambda>(_, b). \<not> time_sub now (bucket_at b) > 30000000000) l else l)"

definition spend :: "(rat \<Rightarrow> rat) \<Rightarrow> int \<Rightarrow> bucket \<Rightarrow> bucket" where
  "spend rnd now v = (let w = refill rnd now v in
     if credits w \<ge> 1 then w\<lparr>credits := rnd (credits w - 1)\<rparr> else w)"

lemma Allow_eq:
  "Allow rnd l q now =
     (case map_option Unmap q of None \<Rightarrow> (l, False)
      | Some p \<Rightarrow>
          if \<not> peer_eligible p then (l, False)
          else case map_of l p of
            Some v \<Rightarrow> (map_put p (spend rnd now v) l, credits (refill rnd now v) \<ge> 1)
          | None \<Rightarrow>
              if length (evict l now) \<ge> maxPeers then (evict l now, False)
              else let v = \<lparr>bucket_at = now, credits = 64\<rparr> in
                (map_put p (spend rnd now v) (evict l now), credits (refill rnd now v) \<ge> 1))"
  by (simp add: Allow_def evict_def spend_def Let_def split: option.splits)

lemma spend_bound:
  assumes "rounding rnd e d" and "0 \<le> credits v" and "credits v \<le> 64" and "bucket_at v \<le> now"
  shows "(if credits (refill rnd now v) \<ge> 1 then 1 else 0) + credits (spend rnd now v)
        + 32 * (1 + e) ^ 4 * (of_int (now - bucket_at (spend rnd now v)) / 1000000000)
      \<le> credits v + 32 * (1 + e) ^ 4 * (of_int (now - bucket_at v) / 1000000000) + slack e d"
    and "0 \<le> credits (spend rnd now v)" and "credits (spend rnd now v) \<le> 64"
    and "bucket_at (spend rnd now v) \<le> now"
proof -
  note f = refill_bound [OF assms] and r = roundingD [OF assms(1)]
  let ?w = "refill rnd now v"
  have dec: "rnd (credits ?w - 1) \<le> credits ?w - 1 + (63 * e + d)" "0 \<le> rnd (credits ?w - 1)"
    "rnd (credits ?w - 1) \<le> 64" if "1 \<le> credits ?w"
  proof -
    have "rnd (credits ?w - 1) \<le> (1 + e) * (credits ?w - 1) + d" using r(5) that by simp
    also have "\<dots> = credits ?w - 1 + e * (credits ?w - 1) + d" by (simp add: algebra_simps)
    also have "e * (credits ?w - 1) \<le> e * 63" using f(3) r(1) by (intro mult_left_mono) auto
    finally show b: "rnd (credits ?w - 1) \<le> credits ?w - 1 + (63 * e + d)" by simp
    show "rnd (credits ?w - 1) \<le> 64" using b f(3) r(1,2,8) by simp
    show "0 \<le> rnd (credits ?w - 1)" using r(6) that by simp
  qed
  have e: "0 \<le> e" "0 \<le> d" using r(1,7) by simp_all
  show "(if credits ?w \<ge> 1 then 1 else 0) + credits (spend rnd now v)
        + 32 * (1 + e) ^ 4 * (of_int (now - bucket_at (spend rnd now v)) / 1000000000)
      \<le> credits v + 32 * (1 + e) ^ 4 * (of_int (now - bucket_at v) / 1000000000) + slack e d"
    using f(1) dec(1) e by (cases "1 \<le> credits ?w") (simp_all add: spend_def Let_def slack_def)
  show "0 \<le> credits (spend rnd now v)" "credits (spend rnd now v) \<le> 64" "bucket_at (spend rnd now v) \<le> now"
    using f dec by (auto simp: spend_def Let_def)
qed

lemma evict_ok:
  "limiter_ok l \<Longrightarrow> limiter_ok (evict l now)"
  "before_now l now \<Longrightarrow> before_now (evict l now) now"
  "map_of l p = None \<Longrightarrow> map_of (evict l now) p = None"
  by (auto simp: limiter_ok_def evict_def before_now_def map_of_eq_None_iff distinct_filter_keys
      le_trans [OF length_filter_le])

lemma evict_pot:
  assumes "rounding rnd e d" and "limiter_ok l" and "before_now l now"
  shows "pot e (evict l now) p now \<le> pot e l p now"
proof (cases "map_of l p")
  case None
  then show ?thesis using evict_ok(3) [OF None] by (simp add: pot_def)
next
  case (Some b)
  have d: "distinct (map fst l)" using assms(2) by (simp add: limiter_ok_def)
  show ?thesis
  proof (cases "map_of (evict l now) p")
    case None
    then have "time_sub now (bucket_at b) > 30000000000"
      using Some map_of_filter_distinct [OF d, of "\<lambda>(_, b). \<not> time_sub now (bucket_at b) > 30000000000" p]
      by (auto simp: evict_def split: if_splits)
    then have "30000000000 < now - bucket_at b" by (simp add: time_sub_def min_int64_def split: if_splits)
    then have t: "(30 :: rat) \<le> of_int (now - bucket_at b) / 1000000000"
      by (simp add: field_simps flip: of_int_diff)
    have "1 \<le> (1 + e) ^ 4" using roundingD(1) [OF assms(1)] by simp
    then have "30 \<le> (1 + e) ^ 4 * (of_int (now - bucket_at b) / 1000000000)"
      using t mult_mono [of 1 "(1 + e) ^ 4" 30 "of_int (now - bucket_at b) / 1000000000"] by simp
    then show ?thesis
      using limiter_ok_get(1) [OF assms(2,3) Some]
      unfolding pot_def None Some option.case mult.assoc by linarith
  next
    case (Some b')
    then have "b' = b"
      using \<open>map_of l p = Some b\<close> map_of_filter_distinct [OF d, of "\<lambda>(_, b). \<not> time_sub now (bucket_at b) > 30000000000" p]
      by (auto simp: evict_def split: if_splits)
    then show ?thesis using Some \<open>map_of l p = Some b\<close> by (simp add: pot_def)
  qed
qed

text \<open>One call: what it grants to \<open>p\<close> is paid from the credit \<open>p\<close> has.\<close>

definition for_peer :: "addr option \<Rightarrow> addr \<Rightarrow> bool" where
  "for_peer q p \<longleftrightarrow> map_option Unmap q = Some p"

lemma put_ok:
  assumes "limiter_ok l" and "before_now l now" and "0 \<le> credits v" and "credits v \<le> 64"
    and "bucket_at v \<le> now" and "map_of l p \<noteq> None \<or> length l < maxPeers"
  shows "limiter_ok (map_put p v l)" and "before_now (map_put p v l) now"
proof -
  have "length (map_put p v l) \<le> maxPeers"
    using assms(1,6) length_map_put_present [of l p v] length_map_put_absent [of l p v]
    by (cases "map_of l p") (auto simp: limiter_ok_def)
  then show "limiter_ok (map_put p v l)" "before_now (map_put p v l) now"
    using assms(1-5) by (auto simp: limiter_ok_def before_now_def map_put_def distinct_filter_keys)
qed

lemma put_spend:
  assumes "rounding rnd e d" and "limiter_ok l" and "before_now l now"
    and "map_of l p \<noteq> None \<or> length l < maxPeers"
    and "0 \<le> credits v" and "credits v \<le> 64" and "bucket_at v \<le> now"
    and "credits v + 32 * (1 + e) ^ 4 * (of_int (now - bucket_at v) / 1000000000) \<le> pot e l p now"
  shows "limiter_ok (map_put p (spend rnd now v) l) \<and> before_now (map_put p (spend rnd now v) l) now
    \<and> (if credits (refill rnd now v) \<ge> 1 \<and> p = p' then 1 else 0) + pot e (map_put p (spend rnd now v) l) p' now
        \<le> pot e l p' now + slack e d"
proof -
  note b = spend_bound [OF assms(1,5-7)]
  have ok: "limiter_ok (map_put p (spend rnd now v) l)" "before_now (map_put p (spend rnd now v) l) now"
    using put_ok [OF assms(2,3) b(2-4) assms(4)] .
  show ?thesis
  proof (cases "p = p'")
    case True
    then have "pot e (map_put p (spend rnd now v) l) p' now = credits (spend rnd now v)
        + 32 * (1 + e) ^ 4 * (of_int (now - bucket_at (spend rnd now v)) / 1000000000)"
      by (simp add: pot_def)
    then show ?thesis using ok b(1) assms(8) True by (simp split: if_splits)
  next
    case False
    then show ?thesis using ok slack_nonneg [OF assms(1)] by (simp add: pot_def)
  qed
qed

lemma Allow_cases:
  assumes "Allow rnd l q now = (l', ok)"
  shows "(l' = l \<and> \<not> ok) \<or> (l' = evict l now \<and> \<not> ok)
    \<or> (\<exists>x v. map_option Unmap q = Some x \<and> map_of l x = Some v
         \<and> l' = map_put x (spend rnd now v) l \<and> (ok \<longleftrightarrow> credits (refill rnd now v) \<ge> 1))
    \<or> (\<exists>x. map_option Unmap q = Some x \<and> map_of l x = None \<and> length (evict l now) < maxPeers
         \<and> l' = map_put x (spend rnd now \<lparr>bucket_at = now, credits = 64\<rparr>) (evict l now)
         \<and> (ok \<longleftrightarrow> credits (refill rnd now \<lparr>bucket_at = now, credits = 64\<rparr>) \<ge> 1))"
proof (cases "map_option Unmap q")
  case None
  then show ?thesis using assms by (simp add: Allow_eq)
next
  case (Some x)
  show ?thesis
  proof (cases "peer_eligible x")
    case False
    then show ?thesis using assms Some by (simp add: Allow_eq)
  next
    case True
    then show ?thesis using assms Some
      by (cases "map_of l x"; cases "length (evict l now) < maxPeers") (auto simp: Allow_eq Let_def)
  qed
qed

lemma Allow_step:
  assumes "rounding rnd e d" and "limiter_ok l" and "before_now l now" and "Allow rnd l q now = (l', ok)"
  shows "limiter_ok l' \<and> before_now l' now
    \<and> (if ok \<and> for_peer q p then 1 else 0) + pot e l' p now \<le> pot e l p now + slack e d"
proof -
  have e: "0 \<le> slack e d" by (rule slack_nonneg [OF assms(1)])
  consider (refused) "l' = l" "\<not> ok"
    | (full) "l' = evict l now" "\<not> ok"
    | (known) x v where "map_option Unmap q = Some x" "map_of l x = Some v"
        "l' = map_put x (spend rnd now v) l" "ok \<longleftrightarrow> credits (refill rnd now v) \<ge> 1"
    | (new) x where "map_option Unmap q = Some x" "map_of l x = None" "length (evict l now) < maxPeers"
        "l' = map_put x (spend rnd now \<lparr>bucket_at = now, credits = 64\<rparr>) (evict l now)"
        "ok \<longleftrightarrow> credits (refill rnd now \<lparr>bucket_at = now, credits = 64\<rparr>) \<ge> 1"
    using Allow_cases [OF assms(4)] by metis
  then show ?thesis
  proof cases
    case refused
    then show ?thesis using assms(2,3) e by simp
  next
    case full
    then show ?thesis
      using evict_ok(1,2) assms(2,3) evict_pot [OF assms(1-3), of p] e by (simp add: add_increasing2)
  next
    case (known x v)
    note g = limiter_ok_get [OF assms(2,3) known(2)]
    have pv: "credits v + 32 * (1 + e) ^ 4 * (of_int (now - bucket_at v) / 1000000000) \<le> pot e l x now"
      by (simp add: pot_def known(2))
    have "map_of l x \<noteq> None \<or> length l < maxPeers" by (simp add: known(2))
    from put_spend [OF assms(1-3) this g pv, of p] show ?thesis
      by (simp only: known for_peer_def option.inject)
  next
    case (new x)
    have n: "map_of (evict l now) x = None" by (rule evict_ok(3) [OF new(2)])
    let ?v = "\<lparr>bucket_at = now, credits = 64 :: rat\<rparr>"
    have "credits ?v + 32 * (1 + e) ^ 4 * (of_int (now - bucket_at ?v) / 1000000000) \<le> pot e (evict l now) x now"
      by (simp add: pot_def n)
    moreover have "map_of (evict l now) x \<noteq> None \<or> length (evict l now) < maxPeers" using new(3) by simp
    moreover have "0 \<le> credits ?v" "credits ?v \<le> 64" "bucket_at ?v \<le> now" by simp_all
    ultimately have "limiter_ok l' \<and> before_now l' now \<and>
        (if ok \<and> for_peer q p then 1 else 0) + pot e l' p now \<le> pot e (evict l now) p now + slack e d"
      using put_spend [OF assms(1) evict_ok(1) [OF assms(2)] evict_ok(2) [OF assms(3)], of x ?v p]
      by (simp only: new for_peer_def option.inject)
    then show ?thesis using evict_pot [OF assms(1-3), of p] by linarith
  qed
qed

section \<open>Runs of the limiter\<close>

fun run_allow :: "(rat \<Rightarrow> rat) \<Rightarrow> limiter \<Rightarrow> (addr option \<times> int) list \<Rightarrow> limiter" where
  "run_allow rnd l [] = l"
| "run_allow rnd l ((q, t) # calls) = run_allow rnd (fst (Allow rnd l q t)) calls"

fun allowed_for :: "(rat \<Rightarrow> rat) \<Rightarrow> limiter \<Rightarrow> addr \<Rightarrow> (addr option \<times> int) list \<Rightarrow> nat" where
  "allowed_for rnd l p [] = 0"
| "allowed_for rnd l p ((q, t) # calls) =
     (if snd (Allow rnd l q t) \<and> for_peer q p then 1 else 0)
     + allowed_for rnd (fst (Allow rnd l q t)) p calls"

lemma before_now_mono: "before_now l t \<Longrightarrow> t \<le> u \<Longrightarrow> before_now l u"
  by (auto simp: before_now_def)

lemma pot_advance:
  assumes "rounding rnd e d" and "t \<le> u"
  shows "pot e l p u \<le> pot e l p t + 32 * (1 + e) ^ 4 * (of_int (u - t) / 1000000000)"
proof (cases "map_of l p")
  case None
  have "(0 :: rat) \<le> 32 * (1 + e) ^ 4 * (of_int (u - t) / 1000000000)"
    using assms roundingD(1) [OF assms(1)] by simp
  then show ?thesis using None by (simp add: pot_def)
next
  case (Some b)
  have "of_int (u - bucket_at b) / 1000000000
      = (of_int (t - bucket_at b) / 1000000000 + of_int (u - t) / 1000000000 :: rat)"
    by (simp add: field_simps)
  then show ?thesis unfolding pot_def Some option.case by (simp only: distrib_left add.assoc order_refl)
qed

lemma run_bound:
  assumes "rounding rnd e d" and "limiter_ok l" and "before_now l t"
    and "sorted (t # map snd calls)" and "\<forall>c \<in> set calls. snd c \<le> end_time" and "t \<le> end_time"
  shows "limiter_ok (run_allow rnd l calls)
    \<and> of_nat (allowed_for rnd l p calls) \<le> pot e l p t + 32 * (1 + e) ^ 4 * (of_int (end_time - t) / 1000000000)
        + slack e d * of_nat (length calls)"
  using assms(2-6)
proof (induction calls arbitrary: l t)
  case Nil
  have "(0 :: rat) \<le> 32 * (1 + e) ^ 4 * (of_int (end_time - t) / 1000000000)"
    using Nil roundingD(1) [OF assms(1)] by simp
  then show ?case using Nil pot_nonneg [OF assms(1) Nil(1,2), of p] by simp
next
  case (Cons c calls)
  obtain q u where c: "c = (q, u)" by (cases c)
  have u: "t \<le> u" "u \<le> end_time" "before_now l u" "sorted (u # map snd calls)"
    using Cons.prems c before_now_mono by auto
  obtain l' ok where a: "Allow rnd l q u = (l', ok)" by (metis surj_pair)
  note st = Allow_step [OF assms(1) Cons.prems(1) u(3) a, of p]
  have IH: "limiter_ok (run_allow rnd l' calls)"
    "of_nat (allowed_for rnd l' p calls) \<le> pot e l' p u + 32 * (1 + e) ^ 4 * (of_int (end_time - u) / 1000000000)
        + slack e d * of_nat (length calls)"
    using Cons.IH [of l' u] st u Cons.prems(4) by auto
  have split: "of_int (end_time - t) / 1000000000
      = (of_int (u - t) / 1000000000 + of_int (end_time - u) / 1000000000 :: rat)"
    by (simp add: field_simps)
  have len: "slack e d * of_nat (length (c # calls)) = slack e d + slack e d * of_nat (length calls)"
    by (simp add: algebra_simps)
  have "of_nat (allowed_for rnd l p (c # calls))
      = (if ok \<and> for_peer q p then 1 else 0) + (of_nat (allowed_for rnd l' p calls) :: rat)"
    by (simp add: c a)
  also have "\<dots> \<le> pot e l p t + 32 * (1 + e) ^ 4 * (of_int (end_time - t) / 1000000000)
        + slack e d * of_nat (length (c # calls))"
    unfolding split len distrib_left
    using st IH(2) pot_advance [OF assms(1) u(1), of l p] by linarith
  finally show ?case using IH(1) by (simp add: c a)
qed

lemma sorted_le_last: "sorted xs \<Longrightarrow> x \<in> set xs \<Longrightarrow> x \<le> last (xs :: int list)"
  by (induction xs) auto

lemma ineligible_never_allowed: "\<not> peer_eligible p \<Longrightarrow> allowed_for rnd l p calls = 0"
  by (induction rnd l p calls rule: allowed_for.induct) (auto simp: for_peer_def Allow_eq)

text \<open>
  Whatever sequence of calls the limiter sees on a monotone clock, it serves a peer at most 64 times plus 32 times
  per elapsed second, up to the accumulated rounding error. Evicting an idle bucket does not help a peer, because
  thirty idle seconds have already refilled it.
\<close>

lemma limiter_rate_bound:
  assumes "rounding rnd e d" and "sorted (map snd calls)" and "\<forall>c \<in> set calls. start \<le> snd c \<and> snd c \<le> end_time"
    and "start \<le> end_time"
  shows "limiter_ok (run_allow rnd [] calls)
    \<and> of_nat (allowed_for rnd [] p calls)
        \<le> 64 + 32 * (1 + e) ^ 4 * (of_int (end_time - start) / 1000000000) + slack e d * of_nat (length calls)"
proof -
  have s: "sorted (start # map snd calls)" using assms(2,3) by auto
  have "limiter_ok []" "before_now [] start" by (simp_all add: limiter_ok_def before_now_def)
  from run_bound [OF assms(1) this s _ assms(4), of p] assms(3)
  show ?thesis by (simp add: pot_def)
qed

end
