(* ===== verification/AgentSink.thy ===== *)
theory AgentSink
  imports MtuProbe
begin

text \<open>
  \<^verbatim>\<open>src/cmd/router-agent/mtu_probe.go\<close> and \<open>servePrivateDatagrams\<close> of \<^verbatim>\<open>main.go\<close> there: the private datagram
  sink of the router agent, which answers MTU probes under the rate limit of \<open>MtuProbe\<close> and anything else
  with cover traffic. The network is a list of arrivals; the loop ends with the first error of \<open>ReadFrom\<close>, so
  the list holds what was received before it. An arrival brings its bytes, its sender, the time at which the sink
  looks at the clock (a monotonic reading in nanoseconds and the Unix time in seconds), and what \<open>rand.Read\<close>
  would deliver then, if it does not fail.
\<close>

section \<open>The sink\<close>

text \<open>A sender is \<open>None\<close> if it is not a \<open>UDPAddr\<close>; its address is \<open>None\<close> if it is not valid.\<close>

record arrival =
  Datagram :: "byte list"
  Sender :: "addr option option"
  Mono :: int
  Unix :: "64 word"
  Random :: "(nat \<Rightarrow> byte) option"

definition maxPrivateDatagram :: nat where
  "maxPrivateDatagram = MaxBytes"

text \<open>
  \<open>mtuDatagram\<close>: the reply, if any, whether the datagram was handled, and the limiter, which is \<open>None\<close> for a
  nil pointer.
\<close>

definition mtuDatagram ::
  "(rat \<Rightarrow> rat) \<Rightarrow> mac_fun \<Rightarrow> string \<Rightarrow> string \<Rightarrow> byte list \<Rightarrow> addr option option \<Rightarrow> int \<Rightarrow> 64 word \<Rightarrow> limiter option
     \<Rightarrow> (byte list option \<times> bool) \<times> limiter option" where
  "mtuDatagram rnd mac token node packet address now stamp budget =
     (if \<not> Recognized packet then ((None, False), budget)
      else case (address, budget) of
        (Some peer, Some l) \<Rightarrow>
          (let (l, allowed) = Allow rnd l peer now in
           if \<not> allowed then ((None, True), Some l)
           else case Reply mac packet token node stamp of
               Inl _ \<Rightarrow> ((None, True), Some l)
             | Inr reply \<Rightarrow> ((Some reply, True), Some l))
      | _ \<Rightarrow> ((None, True), budget))"

text \<open>The buffer holds one byte more than the longest datagram.\<close>

definition received :: "arrival \<Rightarrow> byte list" where
  "received a = take (maxPrivateDatagram + 1) (Datagram a)"

definition cover_reply :: "arrival \<Rightarrow> nat \<Rightarrow> byte list option" where
  "cover_reply a n = map_option (\<lambda>f. map f [0..<(if n > 1200 then 1200 else n)]) (Random a)"

definition answer ::
  "(rat \<Rightarrow> rat) \<Rightarrow> mac_fun \<Rightarrow> string \<Rightarrow> string \<Rightarrow> arrival \<Rightarrow> limiter option \<Rightarrow> byte list option \<times> limiter option" where
  "answer rnd mac token node a budget =
     (let packet = received a; n = length packet in
      if n \<le> 0 \<or> n > maxPrivateDatagram then (None, budget)
      else case mtuDatagram rnd mac token node packet (Sender a) (Mono a) (Unix a) budget of
          ((reply, True), budget) \<Rightarrow> (reply, budget)
        | ((_, False), budget) \<Rightarrow> (cover_reply a n, budget))"

text \<open>The loop: what is written, each with the arrival it goes back to, and the limiter in the end.\<close>

fun serve ::
  "(rat \<Rightarrow> rat) \<Rightarrow> mac_fun \<Rightarrow> string \<Rightarrow> string \<Rightarrow> limiter option \<Rightarrow> arrival list
     \<Rightarrow> (arrival \<times> byte list) list \<times> limiter option" where
  "serve rnd mac token node budget [] = ([], budget)"
| "serve rnd mac token node budget (a # as) =
     (let (reply, budget) = answer rnd mac token node a budget;
          (sent, budget) = serve rnd mac token node budget as
      in ((case reply of None \<Rightarrow> [] | Some r \<Rightarrow> [(a, r)]) @ sent, budget))"

definition servePrivateDatagrams ::
  "(rat \<Rightarrow> rat) \<Rightarrow> mac_fun \<Rightarrow> string \<Rightarrow> string \<Rightarrow> arrival list \<Rightarrow> (arrival \<times> byte list) list \<times> limiter option" where
  "servePrivateDatagrams rnd mac token node as = serve rnd mac token node (Some []) as"

section \<open>The calls of the limiter\<close>

text \<open>The arrivals that reach the limiter.\<close>

definition probes :: "arrival \<Rightarrow> bool" where
  "probes a \<longleftrightarrow> 0 < length (received a) \<and> length (received a) \<le> maxPrivateDatagram
     \<and> Recognized (received a) \<and> Sender a \<noteq> None"

definition limiter_calls :: "arrival list \<Rightarrow> (addr option \<times> int) list" where
  "limiter_calls as = map (\<lambda>a. (the (Sender a), Mono a)) (filter probes as)"

lemma limiter_calls_simps [simp]:
  "limiter_calls [] = []"
  "limiter_calls (a # as) = (if probes a then (the (Sender a), Mono a) # limiter_calls as else limiter_calls as)"
  by (simp_all add: limiter_calls_def)

lemma go_copy_length: "hi \<le> length dst \<Longrightarrow> length (go_copy dst lo hi src) = length dst"
  by (auto simp: go_copy_def Let_def)

lemma Reply_size: "Reply mac packet token node now = Inr reply \<Longrightarrow> length reply = length packet"
  by (auto simp: Reply_def Let_def HeaderBytes_def go_copy_length split: if_splits)

text \<open>One arrival: a probe asks the limiter once and is answered only if it allows, nothing else does.\<close>

lemma answer_probe:
  assumes "answer rnd mac token node a (Some l) = (reply, budget)" "probes a"
  shows "budget = Some (fst (Allow rnd l (the (Sender a)) (Mono a)))
    \<and> (reply \<noteq> None \<longrightarrow> snd (Allow rnd l (the (Sender a)) (Mono a)))
    \<and> (\<forall>r. reply = Some r \<longrightarrow> Reply mac (received a) token node (Unix a) = Inr r)"
proof -
  obtain peer where p: "Sender a = Some peer" using assms(2) by (auto simp: probes_def)
  obtain l' ok where al: "Allow rnd l peer (Mono a) = (l', ok)" by (rule prod.exhaust)
  show ?thesis
    using assms by (auto simp: answer_def probes_def mtuDatagram_def p al Let_def split: if_splits sum.splits)
qed

lemma answer_other:
  assumes "answer rnd mac token node a (Some l) = (reply, budget)" "\<not> probes a"
  shows "budget = Some l \<and> (\<forall>r. reply = Some r \<longrightarrow> \<not> Recognized (received a) \<and> length r \<le> length (received a) \<and> length r \<le> 1200)"
  using assms
  by (auto simp: answer_def probes_def mtuDatagram_def cover_reply_def Let_def split: if_splits option.splits)

text \<open>The limiter after the loop.\<close>

lemma serve_limiter: "snd (serve rnd mac token node (Some l) as) = Some (run_allow rnd l (limiter_calls as))"
proof (induction as arbitrary: l)
  case (Cons a as)
  obtain reply budget where a: "answer rnd mac token node a (Some l) = (reply, budget)" by (rule prod.exhaust)
  show ?case using Cons answer_probe [OF a] answer_other [OF a]
    by (cases "probes a") (simp_all add: a Let_def split_def)
qed simp

text \<open>The replies to the probes of a peer.\<close>

definition to_peer :: "addr \<Rightarrow> arrival \<times> byte list \<Rightarrow> bool" where
  "to_peer p x \<longleftrightarrow> Recognized (received (fst x)) \<and> Sender (fst x) \<noteq> None \<and> for_peer (the (Sender (fst x))) p"

lemma serve_count:
  "length (filter (to_peer p) (fst (serve rnd mac token node (Some l) as))) \<le> allowed_for rnd l p (limiter_calls as)"
proof (induction as arbitrary: l)
  case (Cons a as)
  obtain reply budget where a: "answer rnd mac token node a (Some l) = (reply, budget)" by (rule prod.exhaust)
  show ?case
  proof (cases "probes a")
    case True
    note pr = answer_probe [OF a True]
    show ?thesis using Cons.IH [of "fst (Allow rnd l (the (Sender a)) (Mono a))"] pr True
      by (auto simp: a Let_def split_def to_peer_def split: option.split)
  next
    case False
    note ot = answer_other [OF a False]
    show ?thesis using Cons.IH [of l] ot False
      by (auto simp: a Let_def split_def to_peer_def split: option.split)
  qed
qed simp

lemma serve_sizes:
  "(a, r) \<in> set (fst (serve rnd mac token node (Some l) as)) \<Longrightarrow>
   length r \<le> length (received a) \<and> length (received a) \<le> 9000
   \<and> (Recognized (received a) \<longrightarrow> Reply mac (received a) token node (Unix a) = Inr r)"
proof (induction as arbitrary: l)
  case (Cons b as)
  obtain reply budget where b: "answer rnd mac token node b (Some l) = (reply, budget)" by (rule prod.exhaust)
  have n: "reply = Some q \<Longrightarrow> length (received b) \<le> 9000" for q
    using b by (auto simp: answer_def Let_def maxPrivateDatagram_def MaxBytes_def split: if_splits)
  obtain l' where l': "budget = Some l'"
    using answer_probe [OF b] answer_other [OF b] by (cases "probes b") blast+
  have "(a, r) \<in> set (fst (serve rnd mac token node (Some l') as)) \<or> a = b \<and> reply = Some r"
    using Cons.prems by (auto simp: b l' Let_def split_def split: option.splits)
  then show ?case
  proof
    assume x: "a = b \<and> reply = Some r"
    show ?case
    proof (cases "probes b")
      case True
      then have "Reply mac (received b) token node (Unix b) = Inr r" using answer_probe [OF b] x by blast
      then show ?thesis using n x Reply_size by auto
    next
      case False
      then have "\<not> Recognized (received b) \<and> length r \<le> length (received b)" using answer_other [OF b] x by blast
      then show ?thesis using n x by simp
    qed
  qed (rule Cons.IH)
qed simp

lemma sum_list_bound: "(\<And>x. x \<in> set xs \<Longrightarrow> f x \<le> (k :: nat)) \<Longrightarrow> sum_list (map f xs) \<le> k * length xs"
  by (induction xs) (simp, fastforce simp: algebra_simps)

lemma limiter_calls_sorted:
  assumes "sorted (map Mono as)"
  shows "sorted (map snd (limiter_calls as))"
    and "c \<in> set (limiter_calls as) \<Longrightarrow> Mono (hd as) \<le> snd c \<and> snd c \<le> Mono (last as)"
proof -
  show "sorted (map snd (limiter_calls as))"
    using assms by (simp add: limiter_calls_def comp_def sorted_filter)
  assume "c \<in> set (limiter_calls as)"
  then obtain a where a: "a \<in> set as" "snd c = Mono a" by (auto simp: limiter_calls_def)
  then have m: "Mono a \<in> set (map Mono as)" "as \<noteq> []" by auto
  have "Mono (hd as) \<le> Mono a" using m assms by (cases as) auto
  moreover have "Mono a \<le> Mono (last as)" using sorted_le_last [OF assms m(1)] m(2) by (simp add: last_map)
  ultimately show "Mono (hd as) \<le> snd c \<and> snd c \<le> Mono (last as)" using a(2) by simp
qed

section \<open>The bound\<close>

text \<open>
  C5. The sink answers a peer at a bounded rate and never amplifies. Whatever arrives, on a monotonic clock: a
  reply is never longer than the datagram it answers, nor than 9000 bytes, and a reply to a probe is the
  authenticated one. To the probes of one peer, an address as the limiter compares it, the sink writes at most 64
  replies plus 32 per elapsed second, within the rounding error of the float arithmetic (128 times the error
  bounds of one operation for each probe that arrived, nothing for exact arithmetic), and at most
  9000 bytes for each of these; none at all if the address is not a private or loopback one without a zone. The
  limiter keeps distinct peers, at most 128 of them, with credits between 0 and 64.
\<close>

theorem sink_rate_bound:
  assumes "rounding rnd e d" and "sorted (map Mono as)" and "as \<noteq> []"
  shows "let (sent, budget) = servePrivateDatagrams rnd mac token node as; mine = filter (to_peer p) sent;
             most = 64 + 32 * (1 + e) ^ 4 * (of_int (Mono (last as) - Mono (hd as)) / 1000000000)
               + 128 * (e + d) * of_nat (length (filter probes as))
    in (\<forall>(a, r) \<in> set sent. length r \<le> length (Datagram a) \<and> length r \<le> 9000
          \<and> (Recognized (received a) \<longrightarrow> Reply mac (received a) token node (Unix a) = Inr r))
       \<and> of_nat (length mine) \<le> most \<and> of_nat (sum_list (map (length \<circ> snd) mine)) \<le> 9000 * most
       \<and> (\<not> peer_eligible p \<longrightarrow> mine = []) \<and> (\<exists>l. budget = Some l \<and> limiter_ok l)"
proof -
  let ?sent = "fst (servePrivateDatagrams rnd mac token node as)" and ?calls = "limiter_calls as"
  let ?mine = "filter (to_peer p) ?sent"
  let ?most = "64 + 32 * (1 + e) ^ 4 * (of_int (Mono (last as) - Mono (hd as)) / 1000000000)
      + 128 * (e + d) * of_nat (length (filter probes as)) :: rat"
  have order: "Mono (hd as) \<le> Mono (last as)"
    using sorted_le_last [OF assms(2), of "Mono (hd as)"] assms(3) by (simp add: last_map)
  have calls: "\<forall>c \<in> set ?calls. Mono (hd as) \<le> snd c \<and> snd c \<le> Mono (last as)"
    using limiter_calls_sorted(2) [OF assms(2)] by blast
  note lim = limiter_rate_bound [OF assms(1) limiter_calls_sorted(1) [OF assms(2)] calls order, of p]
  have count: "length ?mine \<le> allowed_for rnd [] p ?calls" unfolding servePrivateDatagrams_def by (rule serve_count)
  have "of_nat (length ?mine) \<le> (of_nat (allowed_for rnd [] p ?calls) :: rat)" using count by simp
  then have few: "of_nat (length ?mine) \<le> ?most" using lim by (simp add: slack_def limiter_calls_def)
  have sizes: "\<forall>(a, r) \<in> set ?sent. length r \<le> length (Datagram a) \<and> length r \<le> 9000
      \<and> (Recognized (received a) \<longrightarrow> Reply mac (received a) token node (Unix a) = Inr r)"
    using serve_sizes unfolding servePrivateDatagrams_def by (fastforce simp: received_def)
  have "sum_list (map (length \<circ> snd) ?mine) \<le> 9000 * length ?mine"
    by (rule sum_list_bound) (use sizes in fastforce)
  then have "of_nat (sum_list (map (length \<circ> snd) ?mine)) \<le> (9000 * of_nat (length ?mine) :: rat)"
    by (metis of_nat_mono of_nat_mult of_nat_numeral)
  also have "9000 * of_nat (length ?mine) \<le> 9000 * ?most" by (rule mult_left_mono [OF few]) simp
  finally have small: "of_nat (sum_list (map (length \<circ> snd) ?mine)) \<le> 9000 * ?most" .
  have none: "\<not> peer_eligible p \<longrightarrow> ?mine = []"
  proof
    assume "\<not> peer_eligible p"
    then have "length ?mine = 0" using count ineligible_never_allowed [of p rnd "[]" ?calls] by (metis le_zero_eq)
    then show "?mine = []" by (simp only: length_0_conv)
  qed
  have "snd (servePrivateDatagrams rnd mac token node as) = Some (run_allow rnd [] ?calls)"
    by (simp add: servePrivateDatagrams_def serve_limiter)
  then have table: "\<exists>l. snd (servePrivateDatagrams rnd mac token node as) = Some l \<and> limiter_ok l" using lim by blast
  show ?thesis unfolding Let_def split_def using sizes few small none table by (simp add: split_def)
qed

text \<open>Rounding up to a multiple of a tiny unit, and two arrivals.\<close>

definition round_up :: "rat \<Rightarrow> rat" where
  "round_up x = of_int \<lceil>x * 1048576\<rceil> / 1048576"

lemma round_up_rounding: "rounding round_up 0 (1 / 1048576)"
proof -
  have "round_up x \<le> round_up y" if "x \<le> y" for x y
    using that by (auto simp: round_up_def intro!: divide_right_mono ceiling_mono)
  moreover have "round_up x \<le> x + 1 / 1048576" for x
  proof -
    have "of_int \<lceil>x * 1048576\<rceil> \<le> x * 1048576 + 1" by (rule of_int_ceiling_le_add_one)
    then show ?thesis by (simp add: round_up_def field_simps)
  qed
  ultimately show ?thesis by (simp add: rounding_def round_up_def)
qed

text \<open>An authenticated request of the smallest size.\<close>

definition demo_packet :: "byte list" where
  "demo_packet = (case Request toy_mac toy_rand 68 ''token'' toy_node 0 of Inr p \<Rightarrow> p | Inl _ \<Rightarrow> [])"

definition demo_arrival :: arrival where
  "demo_arrival = \<lparr>Datagram = demo_packet, Sender = Some (Some (V4 [10, 0, 0, 9])), Mono = 0, Unix = 0, Random = None\<rparr>"

lemma demo_reply: obtains r where "Reply toy_mac demo_packet ''token'' toy_node 0 = Inr r"
proof -
  have v: "validIdentity ''token'' toy_node" by code_simp
  have m: "length (toy_mac key msg) = 32" for key msg by (simp add: toy_mac_def)
  obtain p where p: "Request toy_mac toy_rand 68 ''token'' toy_node 0 = Inr p"
    using v by (simp add: Request_def Let_def toy_rand_def HeaderBytes_def MaxBytes_def)
  then show thesis
    using that Reply_of_Request [OF p _ m, of 0] by (auto simp: demo_packet_def toy_rand_def fresh_stamp_def)
qed

lemma demo_answered: "map fst (fst (servePrivateDatagrams round_up toy_mac ''token'' toy_node [demo_arrival])) = [demo_arrival]"
proof -
  obtain r where r: "Reply toy_mac demo_packet ''token'' toy_node 0 = Inr r" by (rule demo_reply)
  then have n: "Recognized demo_packet" "68 \<le> length demo_packet" "length demo_packet \<le> 9000"
    by (auto simp: Reply_def HeaderBytes_def MaxBytes_def split: if_splits)
  have ne: "demo_packet \<noteq> []" using n(2) by auto
  have e: "peer_eligible (V4 [10, 0, 0, 9])" by code_simp
  have "snd (Allow round_up [] (Some (V4 [10, 0, 0, 9])) 0)"
    using e by (simp add: Allow_eq evict_def maxPeers_def refill_def Seconds_def time_sub_def go_quot_def round_up_def Let_def
        min_int64_def max_int64_def)
  then obtain l where a: "Allow round_up [] (Some (V4 [10, 0, 0, 9])) 0 = (l, True)" by (metis prod.collapse)
  have "received demo_arrival = demo_packet" using n(3) by (simp add: received_def demo_arrival_def maxPrivateDatagram_def MaxBytes_def)
  then have "fst (answer round_up toy_mac ''token'' toy_node demo_arrival (Some [])) = Some r"
    using n r ne by (simp add: answer_def mtuDatagram_def a Let_def maxPrivateDatagram_def MaxBytes_def demo_arrival_def)
  then show ?thesis by (simp add: servePrivateDatagrams_def Let_def split_def)
qed

theorem sink_rate_bound_witness:
  "fst (servePrivateDatagrams round_up toy_mac ''token'' toy_node [demo_arrival]) \<noteq> []
     \<and> of_nat (length (filter (to_peer (V4 [10, 0, 0, 9]))
          (fst (servePrivateDatagrams round_up toy_mac ''token'' toy_node [demo_arrival])))) \<le> (65 :: rat)"
proof
  show "fst (servePrivateDatagrams round_up toy_mac ''token'' toy_node [demo_arrival]) \<noteq> []" using demo_answered by auto
  have "length (filter probes [demo_arrival]) \<le> 1" by simp
  then have p: "128 / 1048576 * rat_of_nat (length (filter probes [demo_arrival])) \<le> 1" by simp
  have "of_nat (length (filter (to_peer (V4 [10, 0, 0, 9]))
          (fst (servePrivateDatagrams round_up toy_mac ''token'' toy_node [demo_arrival]))))
      \<le> 64 + 128 / 1048576 * rat_of_nat (length (filter probes [demo_arrival]))"
    using sink_rate_bound [OF round_up_rounding, of "[demo_arrival]" toy_mac "''token''" toy_node "V4 [10, 0, 0, 9]"]
    unfolding Let_def split_def by simp
  then show "of_nat (length (filter (to_peer (V4 [10, 0, 0, 9]))
      (fst (servePrivateDatagrams round_up toy_mac ''token'' toy_node [demo_arrival])))) \<le> (65 :: rat)" using p by linarith
qed

end
