(* ===== verification/RouteChoice.thy ===== *)
theory RouteChoice
  imports GoPrelude Complex_Main
begin

text \<open>
  \<^verbatim>\<open>src/internal/routechoice/choice.go\<close>: the comparison of local and server-owned multihop
  sessions. The \<open>Driver\<close> and \<open>Session\<close> interfaces are implemented elsewhere, so they are a
  parameter: a record \<open>env\<close> of functions over an arbitrary world \<open>'w\<close>. Each call threads the
  world and returns what the code looks at: the value, whether an error came back, and whether the
  child context had expired. \<open>Compare\<close> also carries a history of the calls that open and close
  sessions and of the notifications; the code does not have it, the theorems are stated over it.
  Times are nanoseconds; millisecond values are \<open>float64\<close>, rounded by the parameter \<open>rnd\<close>.
\<close>

section \<open>Data\<close>

abbreviation Local :: string where "Local \<equiv> ''local''"
abbreviation Server :: string where "Server \<equiv> ''server''"

record Candidate =
  Execution :: string
  Transport :: string
  EntryID :: string
  ExitID :: string

definition Valid :: "Candidate \<Rightarrow> bool" where
  "Valid c \<longleftrightarrow> (Execution c = Local \<or> Execution c = Server) \<and> Transport c \<noteq> [] \<and> EntryID c \<noteq> []
     \<and> ExitID c \<noteq> [] \<and> EntryID c \<noteq> ExitID c"

record Measurement =
  MCandidate :: Candidate
  LastNodeMS :: rat
  ExternalMS :: rat
  ScoreMS :: "rat option"
  Eligible :: bool
  Failure :: string

record Options =
  Targets :: "string list"
  ProbeTimeout :: int
  StartupTimeout :: int
  CleanupTimeout :: int
  Preferred :: string

record Result =
  Target :: string
  Measurements :: "Measurement list"
  Winner :: "Candidate option"
  Final :: "Measurement option"

text \<open>\<open>ErrNoWinner\<close> is the error as \<open>Compare\<close> returns it, with the text it is wrapped in.\<close>

definition ErrNoWinner :: goerror where
  "ErrNoWinner = Err ''no multihop candidate passed both routed probes; failed and timed-out candidates were excluded''"

definition ErrTeardown :: goerror where
  "ErrTeardown = Err ''previous multihop teardown could not be verified; no further candidate was started''"

definition errCanceled :: goerror where
  "errCanceled = Err ''context canceled''"

section \<open>The environment\<close>

text \<open>
  \<open>ctx_err\<close> is \<open>ctx.Err() != nil\<close> of the caller's context. The calls return
  \<open>(value, error, expired)\<close> and the next world. \<open>targeted\<close> says that the driver is a
  \<open>TargetDriver\<close>. \<open>notify\<close> is the observer, if any.
\<close>

record ('w, 's) env =
  ctx_err :: "'w \<Rightarrow> bool"
  targeted :: bool
  drv_open :: "Candidate \<Rightarrow> 'w \<Rightarrow> ('s option \<times> bool \<times> bool) \<times> 'w"
  drv_open_target :: "Candidate \<Rightarrow> string \<Rightarrow> 'w \<Rightarrow> ('s option \<times> bool \<times> bool) \<times> 'w"
  ses_identity :: "'s \<Rightarrow> 'w \<Rightarrow> string"
  ses_verify :: "'s \<Rightarrow> 'w \<Rightarrow> (bool \<times> bool) \<times> 'w"
  ses_probe_last :: "'s \<Rightarrow> 'w \<Rightarrow> (int \<times> bool \<times> bool) \<times> 'w"
  ses_probe_external :: "'s \<Rightarrow> string \<Rightarrow> 'w \<Rightarrow> (int \<times> bool \<times> bool) \<times> 'w"
  ses_close :: "'s \<Rightarrow> 'w \<Rightarrow> (bool \<times> bool) \<times> 'w"
  observer :: "(string \<Rightarrow> Candidate \<Rightarrow> Measurement option \<Rightarrow> 'w \<Rightarrow> 'w) option"
  rand_index :: "nat \<Rightarrow> 'w \<Rightarrow> nat option \<times> 'w"

datatype 's event = Opened Candidate string 's | Closed 's bool
  | Notified string Candidate "Measurement option"

type_synonym ('w, 's) st = "'w \<times> 's event list"

section \<open>Scores and options\<close>

definition durationMS :: "(rat \<Rightarrow> rat) \<Rightarrow> int \<Rightarrow> rat" where
  "durationMS rnd v = rnd (rnd (of_int v) / 1000000)"

definition empty_measurement :: "Candidate \<Rightarrow> Measurement" where
  "empty_measurement c = \<lparr>MCandidate = c, LastNodeMS = 0, ExternalMS = 0, ScoreMS = None,
     Eligible = False, Failure = []\<rparr>"

text \<open>\<open>Score\<close>: the measurement and whether an error came with it.\<close>

definition Score :: "(rat \<Rightarrow> rat) \<Rightarrow> Candidate \<Rightarrow> int \<Rightarrow> int \<Rightarrow> Measurement \<times> bool" where
  "Score rnd c lst external =
     (let m = empty_measurement c in
      if \<not> Valid c \<or> lst \<le> 0 \<or> external \<le> 0 then (m, True)
      else let a = durationMS rnd lst; b = durationMS rnd external in
        (m\<lparr>LastNodeMS := a, ExternalMS := b, ScoreMS := Some (rnd (rnd (a / 2) + rnd (b / 2))),
           Eligible := True\<rparr>, False))"

fun targets_ok :: "string list \<Rightarrow> string list \<Rightarrow> bool" where
  "targets_ok seen [] = True"
| "targets_ok seen (v # vs) =
     (if v = [] \<or> length v > 2048 \<or> v \<in> set seen then False else targets_ok (v # seen) vs)"

definition defaults :: "Options \<Rightarrow> Options res" where
  "defaults opts =
     reject_if (length (Targets opts) < 1 \<or> length (Targets opts) > 32)
       ''provide between one and 32 approved external probe targets''
     (reject_if (\<not> targets_ok [] (Targets opts))
       ''external probe targets must be nonempty, bounded and unique''
     (let opts = (if ProbeTimeout opts = 0 then opts\<lparr>ProbeTimeout := 2500000000\<rparr> else opts);
          opts = (if StartupTimeout opts = 0 then opts\<lparr>StartupTimeout := 15000000000\<rparr> else opts);
          opts = (if CleanupTimeout opts = 0 then opts\<lparr>CleanupTimeout := 5000000000\<rparr> else opts)
      in reject_if (ProbeTimeout opts < 1000000 \<or> ProbeTimeout opts > 30000000000
             \<or> StartupTimeout opts \<le> 0 \<or> StartupTimeout opts > 120000000000
             \<or> CleanupTimeout opts \<le> 0 \<or> CleanupTimeout opts > 30000000000)
           ''invalid multihop comparison time budget''
         (reject_if (Preferred opts \<noteq> [] \<and> Preferred opts \<noteq> Local \<and> Preferred opts \<noteq> Server)
           ''invalid preferred execution'' (Inr opts))))"

section \<open>Measuring one session\<close>

definition identity_ok :: "('w, 's) env \<Rightarrow> 's \<Rightarrow> string \<Rightarrow> 'w \<Rightarrow> bool" where
  "identity_ok env s want w \<longleftrightarrow> \<not> (want = [] \<or> ses_identity env s w \<noteq> want)"

definition fail_measure :: "Measurement \<Rightarrow> string \<Rightarrow> Measurement" where
  "fail_measure m stage = m\<lparr>Eligible := False, ScoreMS := None, Failure := stage\<rparr>"

definition measure_session ::
  "(rat \<Rightarrow> rat) \<Rightarrow> ('w, 's) env \<Rightarrow> Candidate \<Rightarrow> 's \<Rightarrow> string \<Rightarrow> Options \<Rightarrow> 'w \<Rightarrow> Measurement \<times> 'w" where
  "measure_session rnd env c s target opts w0 =
     (let m = empty_measurement c;
          generation = ses_identity env s w0;
          ((err, expired), w1) = ses_verify env s w0
      in if err \<or> expired \<or> \<not> identity_ok env s generation w1
         then (fail_measure m ''path proof failed or expired'', w1)
         else
           let ((lst, err, expired), w2) = ses_probe_last env s w1
           in if err \<or> expired \<or> lst \<le> 0 \<or> lst > ProbeTimeout opts \<or> \<not> identity_ok env s generation w2
              then (fail_measure m ''last-node probe failed, timed out or changed session'', w2)
              else
                let m = m\<lparr>LastNodeMS := durationMS rnd lst\<rparr>;
                    ((external, err, expired), w3) = ses_probe_external env s target w2
                in if err \<or> expired \<or> external \<le> 0 \<or> external > ProbeTimeout opts
                       \<or> \<not> identity_ok env s generation w3
                   then (fail_measure m ''external-server probe failed, timed out or changed session'', w3)
                   else if ctx_err env w3 then (fail_measure m ''comparison cancelled'', w3)
                   else
                     let (m, err) = Score rnd c lst external
                     in if err then (fail_measure m ''invalid probe result'', w3) else (m, w3))"

section \<open>Opening, closing, notifying\<close>

text \<open>\<open>closeSession\<close> answers whether the teardown was confirmed.\<close>

definition closeSession :: "('w, 's) env \<Rightarrow> 's option \<Rightarrow> ('w, 's) st \<Rightarrow> bool \<times> ('w, 's) st" where
  "closeSession env s st =
     (case s of
        None \<Rightarrow> (True, st)
      | Some s \<Rightarrow>
          let ((err, expired), w) = ses_close env s (fst st); good = (\<not> err \<and> \<not> expired)
          in (good, (w, snd st @ [Closed s good])))"

text \<open>
  The observer may change the world. It gets a pointer to a measurement of the comparison and is taken to only
  read through it.
\<close>

definition notify :: "('w, 's) env \<Rightarrow> string \<Rightarrow> Candidate \<Rightarrow> Measurement option \<Rightarrow> ('w, 's) st \<Rightarrow> ('w, 's) st" where
  "notify env stage c m st =
     (case observer env of None \<Rightarrow> st | Some f \<Rightarrow> (f stage c m (fst st), snd st @ [Notified stage c m]))"

text \<open>
  \<open>open\<close>: \<open>Inr s\<close> is a running session. \<open>Inl (s, e)\<close> is a failure, with the session that could
  not be torn down when \<open>e\<close> is \<open>ErrTeardown\<close>.
\<close>

definition open_session ::
  "('w, 's) env \<Rightarrow> Candidate \<Rightarrow> string \<Rightarrow> ('w, 's) st \<Rightarrow> (('s option \<times> goerror) + 's) \<times> ('w, 's) st" where
  "open_session env c target st =
     (let ((s, err, expired), w) =
            (if targeted env then drv_open_target env c target (fst st) else drv_open env c (fst st));
          st1 = (w, snd st @ (case s of None \<Rightarrow> [] | Some s \<Rightarrow> [Opened c target s]))
      in case s of
           Some s' \<Rightarrow>
             if err \<or> expired then
               let (good, st2) = closeSession env s st1
               in (if good then (Inl (None, Err ''candidate startup failed or timed out''), st2)
                   else (Inl (s, ErrTeardown), st2))
             else (Inr s', st1)
         | None \<Rightarrow> (Inl (None, Err ''candidate startup failed or timed out''), st1))"

section \<open>Compare\<close>

fun candidates_ok :: "Candidate \<Rightarrow> Candidate list \<Rightarrow> Candidate list \<Rightarrow> bool" where
  "candidates_ok pair seen [] = True"
| "candidates_ok pair seen (c # cs) =
     (if \<not> Valid c \<or> c \<in> set seen \<or> EntryID c \<noteq> EntryID pair \<or> ExitID c \<noteq> ExitID pair then False
      else candidates_ok pair (c # seen) cs)"

type_synonym 's stop = "Result \<times> 's option \<times> goerror option"

text \<open>The trial loop. \<open>Inl\<close> is an early return of \<open>Compare\<close>.\<close>

fun trial_loop ::
  "(rat \<Rightarrow> rat) \<Rightarrow> ('w, 's) env \<Rightarrow> Options \<Rightarrow> Candidate list \<Rightarrow> Result \<Rightarrow> ('w, 's) st
     \<Rightarrow> ('s stop + Result) \<times> ('w, 's) st" where
  "trial_loop rnd env opts [] result st = (Inr result, st)"
| "trial_loop rnd env opts (c # cs) result st =
     (if ctx_err env (fst st) then (Inl (result, None, Some errCanceled), st)
      else
        let st = notify env ''starting'' c None st;
            (r, st) = open_session env c (Target result) st
        in case r of
             Inl (s, startErr) \<Rightarrow>
               if startErr = ErrTeardown then (Inl (result, s, Some startErr), st)
               else
                 let m = (empty_measurement c)\<lparr>Failure := ''candidate startup failed or timed out''\<rparr>;
                     result = result\<lparr>Measurements := Measurements result @ [m]\<rparr>
                 in trial_loop rnd env opts cs result (notify env ''measured'' c (Some m) st)
           | Inr s \<Rightarrow>
               let st = notify env ''probing'' c None st;
                   (m, w) = measure_session rnd env c s (Target result) opts (fst st);
                   st = notify env ''stopping'' c (Some m) (w, snd st);
                   (good, st) = closeSession env (Some s) st
               in if \<not> good then (Inl (result, Some s, Some ErrTeardown), st)
                  else
                    let result = result\<lparr>Measurements := Measurements result @ [m]\<rparr>
                    in trial_loop rnd env opts cs result (notify env ''measured'' c (Some m) st))"

definition score_of :: "Measurement \<Rightarrow> rat" where
  "score_of m = (case ScoreMS m of None \<Rightarrow> 0 | Some v \<Rightarrow> v)"

definition measurement_less :: "string \<Rightarrow> Measurement \<Rightarrow> Measurement \<Rightarrow> bool" where
  "measurement_less preferred a b =
     (if score_of a = score_of b
      then Execution (MCandidate a) = preferred \<and> Execution (MCandidate b) \<noteq> preferred
      else score_of a < score_of b)"

fun replace_first :: "Measurement \<Rightarrow> Measurement list \<Rightarrow> Measurement list" where
  "replace_first failed [] = []"
| "replace_first failed (m # ms) =
     (if MCandidate m = MCandidate failed then failed # ms else m # replace_first failed ms)"

definition disqualify ::
  "('w, 's) env \<Rightarrow> Measurement \<Rightarrow> Result \<Rightarrow> ('w, 's) st \<Rightarrow> Result \<times> ('w, 's) st" where
  "disqualify env failed result st =
     (result\<lparr>Measurements := replace_first failed (Measurements result)\<rparr>,
      notify env ''activation-failed'' (MCandidate failed) (Some failed) st)"

fun activation_loop ::
  "(rat \<Rightarrow> rat) \<Rightarrow> ('w, 's) env \<Rightarrow> Options \<Rightarrow> Measurement list \<Rightarrow> Result \<Rightarrow> ('w, 's) st
     \<Rightarrow> 's stop \<times> ('w, 's) st" where
  "activation_loop rnd env opts [] result st = ((result, None, Some ErrNoWinner), st)"
| "activation_loop rnd env opts (m # ms) result st =
     (if ctx_err env (fst st) then ((result, None, Some errCanceled), st)
      else
        let c = MCandidate m;
            st = notify env ''activating'' c (Some m) st;
            (r, st) = open_session env c (Target result) st
        in case r of
             Inl (s, startErr) \<Rightarrow>
               let (result, st) = disqualify env ((empty_measurement c)\<lparr>Failure :=
                     ''candidate reactivation failed or timed out''\<rparr>) result st
               in if startErr = ErrTeardown then ((result, s, Some startErr), st)
                  else activation_loop rnd env opts ms result st
           | Inr s \<Rightarrow>
               let (final, w) = measure_session rnd env c s (Target result) opts (fst st);
                   st = (w, snd st)
               in if \<not> Eligible final then
                    let (result, st) = disqualify env final result st;
                        (good, st) = closeSession env (Some s) st
                    in if \<not> good then ((result, Some s, Some ErrTeardown), st)
                       else activation_loop rnd env opts ms result st
                  else
                    let result = result\<lparr>Winner := Some c, Final := Some final\<rparr>
                    in ((result, Some s, None), notify env ''selected'' c (Some final) st))"

definition empty_result :: Result where
  "empty_result = \<lparr>Target = [], Measurements = [], Winner = None, Final = None\<rparr>"

text \<open>The checks of \<open>Compare\<close> before it touches anything: the options to use, or the error.\<close>

definition compare_input :: "('w, 's) env \<Rightarrow> Candidate list \<Rightarrow> Options \<Rightarrow> 'w \<Rightarrow> Options res" where
  "compare_input env candidates opts w =
     res_bind (defaults opts) (\<lambda>opts.
     reject_if (length candidates < 2 \<or> length candidates > 64)
       ''comparison requires a driver and two to 64 candidates''
     (reject_if (\<not> candidates_ok (hd candidates) [] candidates)
       ''candidates must be unique and use the same entry and last node''
     (reject_if (\<not> list_ex (\<lambda>c. Execution c = Local) candidates \<or> \<not> list_ex (\<lambda>c. Execution c = Server) candidates)
       ''compare both local and server execution; do not disguise an unimplemented path as local''
     (if ctx_err env w then Inl errCanceled else Inr opts))))"

text \<open>The part of \<open>Compare\<close> after its input checks and the choice of the target.\<close>

definition compare_from ::
  "(rat \<Rightarrow> rat) \<Rightarrow> ('w, 's) env \<Rightarrow> Candidate list \<Rightarrow> Options \<Rightarrow> string \<Rightarrow> 'w \<Rightarrow> 's stop \<times> ('w, 's) st" where
  "compare_from rnd env cs opts t w =
     (case trial_loop rnd env opts cs (empty_result\<lparr>Target := t\<rparr>) (w, []) of
        (Inl stop, st) \<Rightarrow> (stop, st)
      | (Inr result, st) \<Rightarrow>
          if ctx_err env (fst st) then ((result, None, Some errCanceled), st)
          else activation_loop rnd env opts
            (SliceStable (measurement_less (Preferred opts)) (filter Eligible (Measurements result)))
            result st)"

definition Compare ::
  "(rat \<Rightarrow> rat) \<Rightarrow> ('w, 's) env \<Rightarrow> Candidate list \<Rightarrow> Options \<Rightarrow> 'w \<Rightarrow> 's stop \<times> ('w, 's) st" where
  "Compare rnd env candidates opts w =
     (case compare_input env candidates opts w of
        Inl e \<Rightarrow> ((empty_result, None, Some e), (w, []))
      | Inr opts \<Rightarrow>
          (case rand_index env (length (Targets opts)) w of
             (None, w) \<Rightarrow> ((empty_result, None, Some (Err ''rand'')), (w, []))
           | (Some n, w) \<Rightarrow> compare_from rnd env candidates opts (Targets opts ! n) w))"

section \<open>Which sessions are running\<close>

text \<open>
  The sessions left running by a history: opened and not yet closed with a confirmed teardown.
\<close>

fun live_step :: "'s list \<Rightarrow> 's event \<Rightarrow> 's list" where
  "live_step xs (Opened c t s) = xs @ [s]"
| "live_step xs (Closed s good) = (if good then remove1 s xs else xs)"
| "live_step xs (Notified _ _ _) = xs"

definition live :: "'s event list \<Rightarrow> 's list" where
  "live hist = foldl live_step [] hist"

definition one_at_a_time :: "'s event list \<Rightarrow> bool" where
  "one_at_a_time hist \<longleftrightarrow> (\<forall>n. length (live (take n hist)) \<le> 1)"

definition only_target :: "string \<Rightarrow> 's event list \<Rightarrow> bool" where
  "only_target t hist \<longleftrightarrow> (\<forall>e \<in> set hist. \<forall>c t' s. e = Opened c t' s \<longrightarrow> t' = t)"

text \<open>The state of the comparison: \<open>xs\<close> is running, and the past was sequential on one target.\<close>

definition runs :: "string \<Rightarrow> 's list \<Rightarrow> 's event list \<Rightarrow> bool" where
  "runs t xs hist \<longleftrightarrow> live hist = xs \<and> one_at_a_time hist \<and> only_target t hist"

lemma live_snoc [simp]: "live (hist @ [e]) = live_step (live hist) e"
  by (simp add: live_def)

lemma one_at_a_time_snoc:
  "one_at_a_time (hist @ [e]) \<longleftrightarrow> one_at_a_time hist \<and> length (live (hist @ [e])) \<le> 1"
proof
  assume a: "one_at_a_time (hist @ [e])"
  have "length (live (take n hist)) \<le> 1" for n
    using spec [OF a [unfolded one_at_a_time_def], of "min n (length hist)"] by (simp add: min_def split: if_splits)
  moreover have "length (live (hist @ [e])) \<le> 1"
    using spec [OF a [unfolded one_at_a_time_def], of "Suc (length hist)"] by simp
  ultimately show "one_at_a_time hist \<and> length (live (hist @ [e])) \<le> 1" by (simp add: one_at_a_time_def)
next
  assume a: "one_at_a_time hist \<and> length (live (hist @ [e])) \<le> 1"
  show "one_at_a_time (hist @ [e])"
    unfolding one_at_a_time_def
  proof
    fix n
    show "length (live (take n (hist @ [e]))) \<le> 1"
      using a by (cases "n \<le> length hist") (auto simp: one_at_a_time_def)
  qed
qed

lemma runs_Nil: "runs t [] []"
  by (simp add: runs_def one_at_a_time_def only_target_def live_def)

lemma runs_opened: "runs t [] hist \<Longrightarrow> runs t [s] (hist @ [Opened c t s])"
  by (auto simp: runs_def one_at_a_time_snoc only_target_def)

lemma runs_closed: "runs t [s] hist \<Longrightarrow> runs t (if good then [] else [s]) (hist @ [Closed s good])"
  by (auto simp: runs_def one_at_a_time_snoc only_target_def)

lemma runs_one: "runs t xs hist \<Longrightarrow> length xs \<le> 1"
  using spec [of "\<lambda>n. length (live (take n hist)) \<le> 1" "length hist"] by (auto simp: runs_def one_at_a_time_def)

lemma runs_notify: "runs t xs (snd st) \<Longrightarrow> runs t xs (snd (notify env stage c m st))"
proof -
  assume r: "runs t xs (snd st)"
  have "runs t xs (snd st @ [Notified stage c m])"
    using r runs_one [OF r] by (auto simp: runs_def one_at_a_time_snoc only_target_def)
  with r show ?thesis by (auto simp: notify_def split: option.splits)
qed

definition opt_list :: "'a option \<Rightarrow> 'a list" where
  "opt_list s = (case s of None \<Rightarrow> [] | Some s \<Rightarrow> [s])"

lemma opt_list_simps [simp]: "opt_list None = []" "opt_list (Some s) = [s]"
  by (simp_all add: opt_list_def)

lemma runs_close:
  assumes "runs t [s] (snd st)" and "closeSession env (Some s) st = (good, st')"
  shows "runs t (if good then [] else [s]) (snd st')"
  using assms runs_closed [OF assms(1), of good] by (auto simp: closeSession_def Let_def split: prod.splits)

lemma runs_open:
  assumes "runs t [] (snd st)" and "open_session env c t st = (r, st')"
  shows "(\<forall>s. r = Inr s \<longrightarrow> runs t [s] (snd st'))
    \<and> (\<forall>s e. r = Inl (s, e) \<longrightarrow> runs t (opt_list s) (snd st') \<and> (s \<noteq> None \<longleftrightarrow> e = ErrTeardown))"
proof -
  obtain s err expired w where call: "(if targeted env then drv_open_target env c t (fst st)
      else drv_open env c (fst st)) = ((s, err, expired), w)"
    by (metis surj_pair)
  show ?thesis
  proof (cases s)
    case None
    then show ?thesis using assms by (auto simp: open_session_def call ErrTeardown_def)
  next
    case (Some s')
    let ?st = "(w, snd st @ [Opened c t s'])"
    have o: "runs t [s'] (snd ?st)" using runs_opened [OF assms(1)] by simp
    obtain good st2 where cl: "closeSession env (Some s') ?st = (good, st2)" by (metis surj_pair)
    have "(r, st') = (if err \<or> expired then
        (if good then (Inl (None, Err ''candidate startup failed or timed out''), st2)
         else (Inl (Some s', ErrTeardown), st2)) else (Inr s', ?st))"
      using assms(2) cl Some by (auto simp: open_session_def call Let_def split: if_splits)
    then show ?thesis
      using o runs_close [OF o cl] by (auto simp: ErrTeardown_def split: if_splits)
  qed
qed

lemma Target_upd: "Target (result\<lparr>Measurements := ms\<rparr>) = Target result"
  by simp

text \<open>One unfolding of the loops, by the outcome of the calls.\<close>

lemma trial_step_stop:
  assumes "\<not> ctx_err env (fst st)"
    and "open_session env c (Target result) (notify env ''starting'' c None st) = (Inl (s, ErrTeardown), st2)"
  shows "trial_loop rnd env opts (c # cs) result st = (Inl (result, s, Some ErrTeardown), st2)"
  using assms by simp

lemma trial_step_failed:
  assumes "\<not> ctx_err env (fst st)"
    and "open_session env c (Target result) (notify env ''starting'' c None st) = (Inl (s, e), st2)"
    and "e \<noteq> ErrTeardown"
    and "m = (empty_measurement c)\<lparr>Failure := ''candidate startup failed or timed out''\<rparr>"
  shows "trial_loop rnd env opts (c # cs) result st
    = trial_loop rnd env opts cs (result\<lparr>Measurements := Measurements result @ [m]\<rparr>)
        (notify env ''measured'' c (Some m) st2)"
  using assms by (simp add: Let_def)

lemma trial_step_measured:
  assumes "\<not> ctx_err env (fst st)"
    and "open_session env c (Target result) (notify env ''starting'' c None st) = (Inr s, st2)"
    and "measure_session rnd env c s (Target result) opts (fst (notify env ''probing'' c None st2)) = (m, w)"
    and "closeSession env (Some s)
          (notify env ''stopping'' c (Some m) (w, snd (notify env ''probing'' c None st2))) = (good, st5)"
  shows "trial_loop rnd env opts (c # cs) result st
    = (if good then trial_loop rnd env opts cs (result\<lparr>Measurements := Measurements result @ [m]\<rparr>)
                      (notify env ''measured'' c (Some m) st5)
       else (Inl (result, Some s, Some ErrTeardown), st5))"
  using assms by (simp add: Let_def)

lemma activation_step_failed:
  assumes "\<not> ctx_err env (fst st)"
    and "open_session env (MCandidate m) (Target result)
          (notify env ''activating'' (MCandidate m) (Some m) st) = (Inl (s, e), st2)"
    and "disqualify env ((empty_measurement (MCandidate m))\<lparr>Failure :=
          ''candidate reactivation failed or timed out''\<rparr>) result st2 = (res2, st3)"
  shows "activation_loop rnd env opts (m # ms) result st
    = (if e = ErrTeardown then ((res2, s, Some e), st3) else activation_loop rnd env opts ms res2 st3)"
  using assms by (simp add: Let_def)

lemma activation_step_measured:
  assumes "\<not> ctx_err env (fst st)"
    and "open_session env (MCandidate m) (Target result)
          (notify env ''activating'' (MCandidate m) (Some m) st) = (Inr s, st2)"
    and "measure_session rnd env (MCandidate m) s (Target result) opts (fst st2) = (f, w)"
    and "disqualify env f result (w, snd st2) = (res2, st3)"
    and "closeSession env (Some s) st3 = (good, st4)"
  shows "activation_loop rnd env opts (m # ms) result st
    = (if Eligible f then ((result\<lparr>Winner := Some (MCandidate m), Final := Some f\<rparr>, Some s, None),
         notify env ''selected'' (MCandidate m) (Some f) (w, snd st2))
       else if good then activation_loop rnd env opts ms res2 st4
       else ((res2, Some s, Some ErrTeardown), st4))"
  using assms by (simp add: Let_def)

lemma runs_trial:
  assumes "runs (Target result) [] (snd st)" and "trial_loop rnd env opts cs result st = (r, st')"
  shows "(\<forall>res. r = Inr res \<longrightarrow> Target res = Target result \<and> runs (Target result) [] (snd st'))
    \<and> (\<forall>res s e. r = Inl (res, s, e) \<longrightarrow>
         Target res = Target result \<and> runs (Target result) (opt_list s) (snd st') \<and> e \<noteq> None
         \<and> (s \<noteq> None \<longleftrightarrow> e = Some ErrTeardown))"
  using assms
proof (induction cs arbitrary: result st)
  case Nil
  then show ?case by auto
next
  case (Cons c cs)
  let ?t = "Target result" and ?st1 = "notify env ''starting'' c None st"
  obtain o' st2 where op: "open_session env c ?t ?st1 = (o', st2)" by (metis surj_pair)
  note ro = runs_open [OF runs_notify [OF Cons.prems(1)] op]
  show ?case
  proof (cases "ctx_err env (fst st)")
    case True
    then show ?thesis using Cons.prems by (auto simp: ErrTeardown_def errCanceled_def)
  next
    case live: False
    show ?thesis
    proof (cases o')
      case (Inl p)
      obtain s e where p: "p = (s, e)" by (cases p)
      have r: "runs ?t (opt_list s) (snd st2)" "s \<noteq> None \<longleftrightarrow> e = ErrTeardown" using ro Inl p by auto
      show ?thesis
      proof (cases "e = ErrTeardown")
        case True
        then show ?thesis
          using Cons.prems(2) trial_step_stop [OF live] r Inl p op by auto
      next
        case False
        let ?m = "(empty_measurement c)\<lparr>Failure := ''candidate startup failed or timed out''\<rparr>"
        have "runs ?t [] (snd (notify env ''measured'' c (Some ?m) st2))"
          using r False by (intro runs_notify) auto
        then have r': "runs (Target (result\<lparr>Measurements := Measurements result @ [?m]\<rparr>)) []
            (snd (notify env ''measured'' c (Some ?m) st2))" by simp
        have "trial_loop rnd env opts cs (result\<lparr>Measurements := Measurements result @ [?m]\<rparr>)
            (notify env ''measured'' c (Some ?m) st2) = (r, st')"
          using Cons.prems(2) trial_step_failed [OF live op [unfolded Inl p] False refl, of rnd opts cs]
          by (simp only:)
        from Cons.IH [OF r' this] show ?thesis by (simp only: Target_upd)
      qed
    next
      case (Inr s)
      obtain m w where ms: "measure_session rnd env c s ?t opts (fst (notify env ''probing'' c None st2)) = (m, w)"
        by (metis surj_pair)
      let ?st4 = "notify env ''stopping'' c (Some m) (w, snd (notify env ''probing'' c None st2))"
      obtain good st5 where cl: "closeSession env (Some s) ?st4 = (good, st5)" by (metis surj_pair)
      have "runs ?t [s] (snd st2)" using ro Inr by blast
      then have "runs ?t [s] (snd ?st4)" by (intro runs_notify) (simp add: runs_notify)
      then have r: "runs ?t (if good then [] else [s]) (snd st5)" using cl by (rule runs_close)
      show ?thesis
      proof (cases good)
        case True
        then have "runs ?t [] (snd (notify env ''measured'' c (Some m) st5))"
          using r by (intro runs_notify) simp
        then have r': "runs (Target (result\<lparr>Measurements := Measurements result @ [m]\<rparr>)) []
            (snd (notify env ''measured'' c (Some m) st5))" by simp
        have "trial_loop rnd env opts cs (result\<lparr>Measurements := Measurements result @ [m]\<rparr>)
            (notify env ''measured'' c (Some m) st5) = (r, st')"
          using Cons.prems(2) trial_step_measured [OF live op [unfolded Inr] ms cl, of cs] True by simp
        from Cons.IH [OF r' this] show ?thesis by (simp only: Target_upd)
      next
        case False
        then show ?thesis
          using Cons.prems(2) r trial_step_measured [OF live op [unfolded Inr] ms cl, of cs] by auto
      qed
    qed
  qed
qed

lemma disqualify_facts:
  assumes "disqualify env f result st = (result', st')"
  shows "Target result' = Target result" "Winner result' = Winner result" "Final result' = Final result"
    "Measurements result' = replace_first f (Measurements result)"
    "runs t xs (snd st) \<Longrightarrow> runs t xs (snd st')"
  using assms by (auto simp: disqualify_def intro: runs_notify)

lemma runs_activation:
  assumes "runs (Target result) [] (snd st)"
    and "activation_loop rnd env opts ms result st = ((res, s, e), st')"
  shows "Target res = Target result \<and> runs (Target result) (opt_list s) (snd st')
    \<and> (e = None \<or> (s \<noteq> None \<longleftrightarrow> e = Some ErrTeardown)) \<and> (e = None \<longrightarrow> s \<noteq> None)"
  using assms
proof (induction ms arbitrary: result st)
  case Nil
  then show ?case by (auto simp: ErrTeardown_def ErrNoWinner_def)
next
  case (Cons m ms')
  let ?t = "Target result" and ?c = "MCandidate m"
  obtain o' st2 where op: "open_session env ?c ?t (notify env ''activating'' ?c (Some m) st) = (o', st2)"
    by (metis surj_pair)
  note ro = runs_open [OF runs_notify [OF Cons.prems(1)] op]
  show ?case
  proof (cases "ctx_err env (fst st)")
    case True
    then show ?thesis using Cons.prems by (auto simp: ErrTeardown_def errCanceled_def)
  next
    case live: False
    show ?thesis
    proof (cases o')
      case (Inl p)
      obtain s0 e0 where p: "p = (s0, e0)" by (cases p)
      obtain r1 st3 where d: "disqualify env ((empty_measurement ?c)\<lparr>Failure :=
          ''candidate reactivation failed or timed out''\<rparr>) result st2 = (r1, st3)" by (metis surj_pair)
      have r: "runs ?t (opt_list s0) (snd st3)" "s0 \<noteq> None \<longleftrightarrow> e0 = ErrTeardown" "Target r1 = ?t"
        using ro Inl p disqualify_facts [OF d] by auto
      show ?thesis
        using Cons.prems(2) activation_step_failed [OF live op [unfolded Inl p] d, of rnd opts ms'] r
          Cons.IH [of r1 st3]
        by (cases "e0 = ErrTeardown") auto
    next
      case (Inr s1)
      obtain f w where ms: "measure_session rnd env ?c s1 ?t opts (fst st2) = (f, w)" by (metis surj_pair)
      have r1: "runs ?t [s1] (snd (w, snd st2))" using ro Inr by simp
      obtain res2 st3 where d: "disqualify env f result (w, snd st2) = (res2, st3)" by (metis surj_pair)
      obtain good st4 where cl: "closeSession env (Some s1) st3 = (good, st4)" by (metis surj_pair)
      have "runs ?t (if good then [] else [s1]) (snd st4)" "Target res2 = ?t"
        using runs_close [OF _ cl] disqualify_facts [OF d] r1 by auto
      then show ?thesis
        using Cons.prems(2) activation_step_measured [OF live op [unfolded Inr] ms d cl, of ms']
          runs_notify [OF r1] Cons.IH [of res2 st4]
        by (cases "Eligible f"; cases good) auto
    qed
  qed
qed

section \<open>Measurements\<close>




lemma fail_measure_facts [simp]:
  "MCandidate (fail_measure m stage) = MCandidate m" "\<not> Eligible (fail_measure m stage)"
  "ScoreMS (fail_measure m stage) = None" "Failure (fail_measure m stage) = stage"
  by (simp_all add: fail_measure_def)



lemma replace_first_candidates [simp]: "map MCandidate (replace_first f ms) = map MCandidate ms"
  by (induction ms) auto





section \<open>Compare\<close>




lemma compare_input_Inr:
  "compare_input env cs opts w = Inr opts' \<Longrightarrow> defaults opts = Inr opts' \<and> candidates_ok (hd cs) [] cs"
  by (auto simp: compare_input_def res_bind_Inr_iff split: if_splits)

lemma defaults_not_teardown: "defaults opts \<noteq> Inl ErrTeardown"
  by (simp add: defaults_def ErrTeardown_def Let_def)

lemma compare_input_not_teardown: "compare_input env cs opts w \<noteq> Inl ErrTeardown"
  using defaults_not_teardown [of opts]
  by (cases "defaults opts") (simp_all add: compare_input_def ErrTeardown_def errCanceled_def)

lemma Compare_cases:
  obtains e w' where "Compare rnd env cs opts w = ((empty_result, None, Some e), (w', []))" "e \<noteq> ErrTeardown"
  | opts' n w' where "defaults opts = Inr opts'" "candidates_ok (hd cs) [] cs"
      "Compare rnd env cs opts w = compare_from rnd env cs opts' (Targets opts' ! n) w'"
proof (cases "compare_input env cs opts w")
  case (Inl e)
  then show thesis using that(1) [of e w] compare_input_not_teardown [of env cs opts w]
    by (auto simp: Compare_def)
next
  case (Inr opts')
  obtain r w' where ri: "rand_index env (length (Targets opts')) w = (r, w')" by (metis surj_pair)
  show thesis
  proof (cases r)
    case None
    have "Compare rnd env cs opts w = ((empty_result, None, Some (Err ''rand'')), (w', []))"
      unfolding Compare_def Inr by (simp add: ri None)
    then show thesis by (rule that(1)) (simp add: ErrTeardown_def)
  next
    case (Some n)
    have "Compare rnd env cs opts w = compare_from rnd env cs opts' (Targets opts' ! n) w'"
      unfolding Compare_def Inr by (simp add: ri Some)
    then show thesis using that(2) compare_input_Inr [OF Inr] by blast
  qed
qed

lemma runs_compare_from:
  assumes "compare_from rnd env cs opts t w = ((res, s, e), (w', hist))"
  shows "Target res = t \<and> runs t (opt_list s) hist
    \<and> (e = None \<or> (s \<noteq> None \<longleftrightarrow> e = Some ErrTeardown)) \<and> (e = None \<longrightarrow> s \<noteq> None)"
proof -
  let ?r0 = "empty_result\<lparr>Target := t\<rparr>"
  obtain r st where tl: "trial_loop rnd env opts cs ?r0 (w, []) = (r, st)" by (metis surj_pair)
  have "runs (Target ?r0) [] (snd (w, []))" by (simp add: runs_Nil)
  note rt = runs_trial [OF this tl]
  show ?thesis
  proof (cases r)
    case (Inl stop)
    have "stop = (res, s, e)" "st = (w', hist)"
      using assms unfolding compare_from_def tl Inl by simp_all
    then show ?thesis using rt unfolding Inl by (auto simp: ErrTeardown_def)
  next
    case (Inr result)
    have r: "runs (Target result) [] (snd st)" "Target result = t" using rt Inr by auto
    show ?thesis
    proof (cases "ctx_err env (fst st)")
      case True
      then show ?thesis
        using assms r tl Inr by (auto simp: compare_from_def errCanceled_def ErrTeardown_def)
    next
      case False
      then have "activation_loop rnd env opts
          (SliceStable (measurement_less (Preferred opts)) (filter Eligible (Measurements result)))
          result st = ((res, s, e), (w', hist))"
        using assms tl Inr by (simp add: compare_from_def)
      from runs_activation [OF r(1) this] show ?thesis using r(2) by simp
    qed
  qed
qed

text \<open>
  A concrete environment: sessions are candidates, the local one answers in 3 ms and 5 ms, the server
  one in 2 ms and 4 ms, every call succeeds and the arithmetic is exact.
\<close>

definition demo_candidates :: "Candidate list" where
  "demo_candidates =
     [\<lparr>Execution = Local, Transport = ''awg'', EntryID = ''a'', ExitID = ''b''\<rparr>,
      \<lparr>Execution = Server, Transport = ''awg'', EntryID = ''a'', ExitID = ''b''\<rparr>]"

definition demo_options :: Options where
  "demo_options = \<lparr>Targets = [''t''], ProbeTimeout = 0, StartupTimeout = 0, CleanupTimeout = 0, Preferred = []\<rparr>"

definition demo_env :: "(unit, Candidate) env" where
  "demo_env =
     \<lparr>ctx_err = (\<lambda>_. False), targeted = True,
      drv_open = (\<lambda>c w. ((Some c, False, False), w)),
      drv_open_target = (\<lambda>c t w. ((Some c, False, False), w)),
      ses_identity = (\<lambda>s w. ''id''),
      ses_verify = (\<lambda>s w. ((False, False), w)),
      ses_probe_last = (\<lambda>s w. ((if Execution s = Local then 3000000 else 2000000, False, False), w)),
      ses_probe_external = (\<lambda>s t w. ((if Execution s = Local then 5000000 else 4000000, False, False), w)),
      ses_close = (\<lambda>s w. ((False, False), w)),
      observer = None,
      rand_index = (\<lambda>n w. (Some 0, w))\<rparr>"

definition demo_run :: "Candidate stop \<times> (unit, Candidate) st" where
  "demo_run = Compare (\<lambda>x. x) demo_env demo_candidates demo_options ()"

lemma demo_outcome:
  "fst (snd (fst demo_run)) = Some (demo_candidates ! 1) \<and> snd (snd (fst demo_run)) = None
    \<and> Winner (fst (fst demo_run)) = Some (demo_candidates ! 1)"
  by code_simp

text \<open>
  C6. \<open>Compare\<close> never loses a tunnel. Whatever the sessions, the driver and the clock do, candidates
  run strictly one after the other and all against one target; when \<open>Compare\<close> returns, the sessions
  still running are exactly the one it returns, if any. A success returns a session; an error returns
  one only when its teardown could not be confirmed, and after an unconfirmed teardown no further
  candidate is started.
\<close>

theorem compare_session_ownership:
  assumes "Compare rnd env cs opts w = ((res, s, e), (w', hist))"
  shows "live hist = opt_list s \<and> one_at_a_time hist \<and> only_target (Target res) hist
    \<and> (e = None \<longrightarrow> s \<noteq> None) \<and> (e \<noteq> None \<longrightarrow> (s \<noteq> None \<longleftrightarrow> e = Some ErrTeardown))"
proof (cases rule: Compare_cases [of rnd env cs opts w])
  case (1 e0 w0)
  then show ?thesis using assms runs_Nil by (auto simp: runs_def empty_result_def)
next
  case (2 opts' n w0)
  have "compare_from rnd env cs opts' (Targets opts' ! n) w0 = ((res, s, e), (w', hist))"
    using assms 2(3) by simp
  from runs_compare_from [OF this] show ?thesis by (auto simp: runs_def)
qed

theorem compare_session_ownership_witness:
  "live (snd (snd demo_run)) = [demo_candidates ! 1] \<and> one_at_a_time (snd (snd demo_run))"
proof -
  have "Compare (\<lambda>x. x) demo_env demo_candidates demo_options () =
      ((fst (fst demo_run), fst (snd (fst demo_run)), snd (snd (fst demo_run))),
       (fst (snd demo_run), snd (snd demo_run)))"
    by (metis demo_run_def prod.collapse)
  from compare_session_ownership [OF this] show ?thesis using demo_outcome by simp
qed





end
