(* ===== verification/Json.thy ===== *)
theory Json
  imports Complex_Main Netip "HOL-Library.Char_ord" "HOL-Library.List_Lexorder"
begin

text \<open>
  JSON text as \<open>encoding/json\<close> reads it with \<open>UseNumber\<close>: the UTF-8 check, the decoder, and the
  decoding of an object into the fields of a struct with \<open>DisallowUnknownFields\<close>. A string is the
  list of its bytes. The decoder is a recursive descent with fuel; \<open>json_decode\<close> gives it more fuel
  than a document of that length can use. The last section proves that decoding an encoded tree gives
  the tree back, with the members of its objects sorted.
\<close>

section \<open>UTF-8\<close>

definition byte_of :: "char \<Rightarrow> nat" where
  "byte_of c = of_char c"

definition cont_byte :: "nat \<Rightarrow> nat \<Rightarrow> char \<Rightarrow> bool" where
  "cont_byte lo hi c \<longleftrightarrow> lo \<le> byte_of c \<and> byte_of c \<le> hi"

text \<open>\<open>utf8.ValidString\<close>: no overlong forms, no surrogates, nothing above U+10FFFF.\<close>

fun ValidString :: "string \<Rightarrow> bool" where
  "ValidString [] = True"
| "ValidString (a # s) =
     (let x = byte_of a in
      if x < 0x80 then ValidString s
      else if x < 0xC2 then False
      else if x < 0xE0 then
        (case s of b # s \<Rightarrow> cont_byte 0x80 0xBF b \<and> ValidString s | _ \<Rightarrow> False)
      else if x < 0xF0 then
        (case s of b # c # s \<Rightarrow>
            cont_byte (if x = 0xE0 then 0xA0 else 0x80) (if x = 0xED then 0x9F else 0xBF) b
            \<and> cont_byte 0x80 0xBF c \<and> ValidString s
         | _ \<Rightarrow> False)
      else if x < 0xF5 then
        (case s of b # c # d # s \<Rightarrow>
            cont_byte (if x = 0xF0 then 0x90 else 0x80) (if x = 0xF4 then 0x8F else 0xBF) b
            \<and> cont_byte 0x80 0xBF c \<and> cont_byte 0x80 0xBF d \<and> ValidString s
         | _ \<Rightarrow> False)
      else False)"

definition chr :: "nat \<Rightarrow> char" where
  "chr n = char_of n"

text \<open>\<open>utf8.AppendRune\<close> of a valid code point.\<close>

definition rune_bytes :: "nat \<Rightarrow> string" where
  "rune_bytes r =
     (if r < 0x80 then [chr r]
      else if r < 0x800 then [chr (0xC0 + r div 64), chr (0x80 + r mod 64)]
      else if r < 0x10000 then
        [chr (0xE0 + r div 4096), chr (0x80 + r div 64 mod 64), chr (0x80 + r mod 64)]
      else
        [chr (0xF0 + r div 262144), chr (0x80 + r div 4096 mod 64), chr (0x80 + r div 64 mod 64),
         chr (0x80 + r mod 64)])"

section \<open>Decoding\<close>

definition json_hex :: "char \<Rightarrow> nat option" where
  "json_hex c =
     (if CHR ''0'' \<le> c \<and> c \<le> CHR ''9'' then Some (byte_of c - 48)
      else if CHR ''a'' \<le> c \<and> c \<le> CHR ''f'' then Some (byte_of c - 87)
      else if CHR ''A'' \<le> c \<and> c \<le> CHR ''F'' then Some (byte_of c - 55)
      else None)"

definition hex4 :: "char \<Rightarrow> char \<Rightarrow> char \<Rightarrow> char \<Rightarrow> nat option" where
  "hex4 a b c d =
     (case (json_hex a, json_hex b, json_hex c, json_hex d) of
        (Some a, Some b, Some c, Some d) \<Rightarrow> Some (((a * 16 + b) * 16 + c) * 16 + d)
      | _ \<Rightarrow> None)"

definition simple_escape :: "char \<Rightarrow> char option" where
  "simple_escape c =
     map_of [(CHR 0x22, CHR 0x22), (CHR 0x5C, CHR 0x5C), (CHR ''/'', CHR ''/''), (CHR ''b'', CHR 0x08),
             (CHR ''f'', CHR 0x0C), (CHR ''n'', CHR 0x0A), (CHR ''r'', CHR 0x0D), (CHR ''t'', CHR 0x09)] c"

definition low_surrogate :: "nat \<Rightarrow> bool" where
  "low_surrogate r \<longleftrightarrow> 0xDC00 \<le> r \<and> r < 0xE000"

definition high_surrogate :: "nat \<Rightarrow> bool" where
  "high_surrogate r \<longleftrightarrow> 0xD800 \<le> r \<and> r < 0xDC00"

text \<open>The low half that follows a high surrogate, if there is one.\<close>

fun next_low :: "string \<Rightarrow> nat option" where
  "next_low (bs # u # a # b # c # d # s) =
     (if bs = CHR 0x5C \<and> u = CHR ''u'' then
        (case hex4 a b c d of Some r \<Rightarrow> (if low_surrogate r then Some r else None) | None \<Rightarrow> None)
      else None)"
| "next_low _ = None"

text \<open>
  The body of a string literal after its opening quote: the decoded bytes and the rest. A surrogate
  without its partner becomes U+FFFD. \<open>n\<close> is fuel.
\<close>

fun string_body :: "nat \<Rightarrow> string \<Rightarrow> (string \<times> string) option" where
  "string_body (Suc n) (x # s) =
     (if x = CHR 0x22 then Some ([], s)
      else if byte_of x < 0x20 then None
      else if x \<noteq> CHR 0x5C then map_option (apfst (Cons x)) (string_body n s)
      else (case s of
          [] \<Rightarrow> None
        | e # s \<Rightarrow>
            if e = CHR ''u'' then
              (case s of
                 a # b # c # d # s \<Rightarrow>
                   (case hex4 a b c d of
                      None \<Rightarrow> None
                    | Some r \<Rightarrow>
                        if high_surrogate r \<and> next_low s \<noteq> None then
                          map_option (apfst (append
                              (rune_bytes (0x10000 + (r - 0xD800) * 1024 + (the (next_low s) - 0xDC00)))))
                            (string_body n (drop 6 s))
                        else if high_surrogate r \<or> low_surrogate r then
                          map_option (apfst (append (rune_bytes 0xFFFD))) (string_body n s)
                        else map_option (apfst (append (rune_bytes r))) (string_body n s))
               | _ \<Rightarrow> None)
            else (case simple_escape e of
                    None \<Rightarrow> None
                  | Some y \<Rightarrow> map_option (apfst (Cons y)) (string_body n s))))"
| "string_body _ _ = None"

definition ws_char :: "char \<Rightarrow> bool" where
  "ws_char c \<longleftrightarrow> c = CHR '' '' \<or> c = CHR 0x09 \<or> c = CHR 0x0A \<or> c = CHR 0x0D"

abbreviation skip_ws :: "string \<Rightarrow> string" where
  "skip_ws s \<equiv> dropWhile ws_char s"

definition digits1 :: "string \<Rightarrow> (string \<times> string) option" where
  "digits1 s = (let d = takeWhile is_digit_char s in if d = [] then None else Some (d, dropWhile is_digit_char s))"

definition num_int :: "string \<Rightarrow> (string \<times> string) option" where
  "num_int s = (case s of c # s' \<Rightarrow> if c = CHR ''0'' then Some ([c], s') else digits1 s | [] \<Rightarrow> None)"

definition num_frac :: "string \<Rightarrow> (string \<times> string) option" where
  "num_frac s =
     (case s of
        c # s' \<Rightarrow> if c = CHR ''.'' then map_option (apfst (Cons c)) (digits1 s') else Some ([], s)
      | [] \<Rightarrow> Some ([], s))"

definition num_exp :: "string \<Rightarrow> (string \<times> string) option" where
  "num_exp s =
     (case s of
        c # s' \<Rightarrow>
          if c = CHR ''e'' \<or> c = CHR ''E'' then
            (case s' of
               d # s'' \<Rightarrow>
                 if d = CHR ''+'' \<or> d = CHR ''-'' then map_option (apfst (\<lambda>x. c # d # x)) (digits1 s'')
                 else map_option (apfst (Cons c)) (digits1 s')
             | [] \<Rightarrow> None)
          else Some ([], s)
      | [] \<Rightarrow> Some ([], s))"

definition number :: "string \<Rightarrow> (string \<times> string) option" where
  "number s =
     (let sign = (if s \<noteq> [] \<and> hd s = CHR ''-'' then [CHR ''-''] else []) in
      case num_int (drop (length sign) s) of
        None \<Rightarrow> None
      | Some (i, s) \<Rightarrow>
          (case num_frac s of
             None \<Rightarrow> None
           | Some (f, s) \<Rightarrow>
               (case num_exp s of None \<Rightarrow> None | Some (e, s) \<Rightarrow> Some (sign @ i @ f @ e, s))))"

fun json_value :: "nat \<Rightarrow> string \<Rightarrow> (json \<times> string) option"
and json_elements :: "nat \<Rightarrow> string \<Rightarrow> (json list \<times> string) option"
and json_members :: "nat \<Rightarrow> string \<Rightarrow> (jobject \<times> string) option" where
  "json_value 0 s = None"
| "json_value (Suc n) s =
     (case skip_ws s of
        [] \<Rightarrow> None
      | c # t \<Rightarrow>
          if c = CHR 0x22 then map_option (apfst JStr) (string_body (length t) t)
          else if c = CHR ''{'' then
            (case skip_ws t of
               [] \<Rightarrow> None
             | d # u \<Rightarrow> if d = CHR ''}'' then Some (JObj [], u) else map_option (apfst JObj) (json_members n t))
          else if c = CHR ''['' then
            (case skip_ws t of
               [] \<Rightarrow> None
             | d # u \<Rightarrow> if d = CHR '']'' then Some (JArr [], u) else map_option (apfst JArr) (json_elements n t))
          else if take 4 (c # t) = ''null'' then Some (JNull, drop 3 t)
          else if take 4 (c # t) = ''true'' then Some (JBool True, drop 3 t)
          else if take 5 (c # t) = ''false'' then Some (JBool False, drop 4 t)
          else map_option (apfst JNum) (number (c # t)))"
| "json_elements 0 s = None"
| "json_elements (Suc n) s =
     (case json_value n s of
        None \<Rightarrow> None
      | Some (v, s) \<Rightarrow>
          (case skip_ws s of
             [] \<Rightarrow> None
           | c # t \<Rightarrow>
               if c = CHR '']'' then Some ([v], t)
               else if c = CHR '','' then map_option (apfst (Cons v)) (json_elements n t)
               else None))"
| "json_members 0 s = None"
| "json_members (Suc n) s =
     (case skip_ws s of
        [] \<Rightarrow> None
      | q # t \<Rightarrow>
          if q \<noteq> CHR 0x22 then None
          else (case string_body (length t) t of
              None \<Rightarrow> None
            | Some (k, t) \<Rightarrow>
                (case skip_ws t of
                   [] \<Rightarrow> None
                 | c # t \<Rightarrow>
                     if c \<noteq> CHR '':'' then None
                     else (case json_value n t of
                         None \<Rightarrow> None
                       | Some (v, s) \<Rightarrow>
                           (case skip_ws s of
                              [] \<Rightarrow> None
                            | c # t \<Rightarrow>
                                if c = CHR ''}'' then Some ([(k, v)], t)
                                else if c = CHR '','' then map_option (apfst (Cons (k, v))) (json_members n t)
                                else None)))))"

text \<open>A whole document: one value and nothing but white space after it.\<close>

definition json_decode :: "string \<Rightarrow> json option" where
  "json_decode s =
     (case json_value (2 * length s + 2) s of
        None \<Rightarrow> None
      | Some (v, rest) \<Rightarrow> if skip_ws rest = [] then Some v else None)"

section \<open>Encoding\<close>

text \<open>
  \<open>json.Marshal\<close> of a tree of maps, slices and scalars: compact, map keys sorted bytewise, and
  \<open><\<close>, \<open>>\<close>, \<open>&\<close>, U+2028 and U+2029 escaped. Strings are valid UTF-8.
\<close>

definition hex_char :: "nat \<Rightarrow> char" where
  "hex_char n = (if n < 10 then chr (48 + n) else chr (87 + n))"

definition encode_byte :: "char \<Rightarrow> string" where
  "encode_byte c =
     (if c = CHR 0x22 \<or> c = CHR 0x5C then [CHR 0x5C, c]
      else if c = CHR 0x08 then [CHR 0x5C, CHR ''b'']
      else if c = CHR 0x0C then [CHR 0x5C, CHR ''f'']
      else if c = CHR 0x0A then [CHR 0x5C, CHR ''n'']
      else if c = CHR 0x0D then [CHR 0x5C, CHR ''r'']
      else if c = CHR 0x09 then [CHR 0x5C, CHR ''t'']
      else if byte_of c < 0x20 \<or> c = CHR ''<'' \<or> c = CHR ''>'' \<or> c = CHR ''&'' then
        [CHR 0x5C, CHR ''u'', CHR ''0'', CHR ''0'', hex_char (byte_of c div 16), hex_char (byte_of c mod 16)]
      else [c])"

fun encode_bytes :: "string \<Rightarrow> string" where
  "encode_bytes (a # b # c # s) =
     (if a = CHR 0xE2 \<and> b = CHR 0x80 \<and> (c = CHR 0xA8 \<or> c = CHR 0xA9)
      then CHR 0x5C # ''u202'' @ hex_char (byte_of c mod 16) # encode_bytes s
      else encode_byte a @ encode_bytes (b # c # s))"
| "encode_bytes [a] = encode_byte a"
| "encode_bytes [a, b] = encode_byte a @ encode_byte b"
| "encode_bytes [] = []"

definition encode_string :: "string \<Rightarrow> string" where
  "encode_string s = CHR 0x22 # encode_bytes s @ [CHR 0x22]"

definition key_less :: "string \<times> 'v \<Rightarrow> string \<times> 'v \<Rightarrow> bool" where
  "key_less a b \<longleftrightarrow> fst a < fst b"

fun json_encode :: "json \<Rightarrow> string"
and encode_list :: "json list \<Rightarrow> string list"
and encode_pairs :: "jobject \<Rightarrow> (string \<times> string) list" where
  "json_encode JNull = ''null''"
| "json_encode (JBool b) = (if b then ''true'' else ''false'')"
| "json_encode (JNum t) = t"
| "json_encode (JStr s) = encode_string s"
| "json_encode (JArr vs) = CHR ''['' # join1 (encode_list vs) CHR '','' @ '']''"
| "json_encode (JObj ms) =
     CHR ''{'' # join1 (map (\<lambda>kv. encode_string (fst kv) @ CHR '':'' # snd kv)
        (SliceStable key_less (encode_pairs ms))) CHR '','' @ ''}''"
| "encode_list [] = []"
| "encode_list (v # vs) = json_encode v # encode_list vs"
| "encode_pairs [] = []"
| "encode_pairs ((k, v) # ms) = (k, json_encode v) # encode_pairs ms"

section \<open>Numbers and struct fields\<close>

text \<open>
  \<open>json.Number.Int64\<close>, and the decoding of a number into an \<open>int\<close>: an integer literal in range.
  (A literal cannot start with \<open>+\<close>.)
\<close>

definition number_int64 :: "string \<Rightarrow> int option" where
  "number_int64 s = Atoi s"

text \<open>
  The exact value of a number literal. A \<open>float64\<close> holds \<open>rnd (num_value t)\<close> for the rounding
  function \<open>rnd\<close>.
\<close>

definition num_value :: "string \<Rightarrow> rat" where
  "num_value t =
     (let neg = (t \<noteq> [] \<and> hd t = CHR ''-'');
          u = (if neg then tl t else t);
          i = takeWhile is_digit_char u;
          r = dropWhile is_digit_char u;
          f = (if r \<noteq> [] \<and> hd r = CHR ''.'' then takeWhile is_digit_char (tl r) else []);
          r = (if r \<noteq> [] \<and> hd r = CHR ''.'' then dropWhile is_digit_char (tl r) else r);
          e = (if r = [] then 0 else case Atoi (tl r) of Some e \<Rightarrow> e | None \<Rightarrow> 0);
          m = of_int (digits_val 0 (i @ f)) / 10 ^ length f;
          v = (if e < 0 then m / 10 ^ nat (- e) else m * 10 ^ nat e)
      in if neg then - v else v)"

text \<open>
  Decoding one member into a field of Go type \<open>int\<close>, \<open>string\<close> or \<open>bool\<close>: \<open>null\<close> leaves the field
  alone, another kind of value is an error. Field names match without regard to case.
\<close>

definition int_member :: "int \<Rightarrow> json \<Rightarrow> int option" where
  "int_member old v = (case v of JNull \<Rightarrow> Some old | JNum t \<Rightarrow> number_int64 t | _ \<Rightarrow> None)"

definition string_member :: "string \<Rightarrow> json \<Rightarrow> string option" where
  "string_member old v = (case v of JNull \<Rightarrow> Some old | JStr t \<Rightarrow> Some t | _ \<Rightarrow> None)"

definition bool_member :: "bool \<Rightarrow> json \<Rightarrow> bool option" where
  "bool_member old v = (case v of JNull \<Rightarrow> Some old | JBool t \<Rightarrow> Some t | _ \<Rightarrow> None)"

text \<open>
  \<open>foldName\<close> for names that are compared with ASCII field names: ASCII letters without case, and the two
  other characters that fold to ASCII letters, U+017F to s and U+212A to k.
\<close>

fun fold_key :: "string \<Rightarrow> string" where
  "fold_key (a # b # c # s) =
     (if a = CHR 0xE2 \<and> b = CHR 0x84 \<and> c = CHR 0xAA then CHR ''k'' # fold_key s
      else if a = CHR 0xC5 \<and> b = CHR 0xBF then CHR ''s'' # fold_key (c # s)
      else lower_char a # fold_key (b # c # s))"
| "fold_key [a, b] = (if a = CHR 0xC5 \<and> b = CHR 0xBF then ''s'' else [lower_char a, lower_char b])"
| "fold_key [a] = [lower_char a]"
| "fold_key [] = []"

text \<open>
  Decode an object member by member into a record: \<open>set_field name value r\<close> is \<open>None\<close> on an unknown
  field or a value of the wrong kind.
\<close>

fun decode_members :: "(string \<Rightarrow> json \<Rightarrow> 'r \<Rightarrow> 'r option) \<Rightarrow> jobject \<Rightarrow> 'r \<Rightarrow> 'r option" where
  "decode_members set_field [] r = Some r"
| "decode_members set_field ((k, v) # ms) r =
     (case set_field (fold_key k) v r of None \<Rightarrow> None | Some r \<Rightarrow> decode_members set_field ms r)"

definition decode_struct :: "(string \<Rightarrow> json \<Rightarrow> 'r \<Rightarrow> 'r option) \<Rightarrow> json \<Rightarrow> 'r \<Rightarrow> 'r option" where
  "decode_struct set_field v r =
     (case v of JNull \<Rightarrow> Some r | JObj ms \<Rightarrow> decode_members set_field ms r | _ \<Rightarrow> None)"

definition example_text :: string where
  \<open>example_text = ''{ "aA" : [1, -2.5e+3, true], "b" : {} , "c" : null }''\<close>

lemma json_decode_example:
  "json_decode example_text =
     Some (JObj [(''aA'', JArr [JNum ''1'', JNum ''-2.5e+3'', JBool True]), (''b'', JObj []), (''c'', JNull)])"
  by code_simp

definition example_printed :: string where
  \<open>example_printed = ''{"a":"xy","b":[1,null]}''\<close>

lemma json_encode_example:
  "json_encode (JObj [(''b'', JArr [JNum ''1'', JNull]), (''a'', JStr ''xy'')]) = example_printed"
  by code_simp

section \<open>Decoding what was encoded\<close>

lemma json_hex_hex_char: "k < 16 \<Longrightarrow> json_hex (hex_char k) = Some k"
proof -
  have "list_all (\<lambda>k. json_hex (hex_char k) = Some k) [0..<16]" by code_simp
  then show "k < 16 \<Longrightarrow> ?thesis" by (simp add: list_all_iff)
qed

lemma byte_of_bound: "byte_of c < 256"
  by (simp add: byte_of_def)

lemma chr_byte_of [simp]: "chr (byte_of c) = c"
  by (simp add: chr_def byte_of_def)

lemma hex4_byte:
  "hex4 CHR ''0'' CHR ''0'' (hex_char (byte_of c div 16)) (hex_char (byte_of c mod 16)) = Some (byte_of c)"
proof -
  have "json_hex CHR ''0'' = Some 0" by code_simp
  moreover have "byte_of c div 16 < 16" using byte_of_bound [of c] by simp
  ultimately show ?thesis by (simp add: hex4_def json_hex_hex_char)
qed

lemma rune_bytes_low: "byte_of c < 0x80 \<Longrightarrow> rune_bytes (byte_of c) = [c]"
  by (simp add: rune_bytes_def)

lemma not_surrogate: "n < 0xD800 \<Longrightarrow> \<not> high_surrogate n \<and> \<not> low_surrogate n"
  by (simp add: high_surrogate_def low_surrogate_def)

lemma string_body_plain:
  "x \<noteq> CHR 0x22 \<Longrightarrow> \<not> byte_of x < 0x20 \<Longrightarrow> x \<noteq> CHR 0x5C \<Longrightarrow>
   string_body (Suc n) (x # s) = map_option (apfst (Cons x)) (string_body n s)"
  by simp

lemma string_body_escape:
  "e \<noteq> CHR ''u'' \<Longrightarrow> simple_escape e = Some y \<Longrightarrow>
   string_body (Suc n) (CHR 0x5C # e # s) = map_option (apfst (Cons y)) (string_body n s)"
  by (simp add: byte_of_def)

lemma string_body_unicode:
  "hex4 a b c d = Some r \<Longrightarrow> r < 0xD800 \<Longrightarrow>
   string_body (Suc n) (CHR 0x5C # CHR ''u'' # a # b # c # d # s) =
     map_option (apfst (append (rune_bytes r))) (string_body n s)"
  using not_surrogate [of r] by (simp add: byte_of_def)

declare string_body.simps [simp del]

lemma simple_escapes:
  "simple_escape CHR 0x22 = Some CHR 0x22" "simple_escape CHR 0x5C = Some CHR 0x5C"
  "simple_escape CHR ''b'' = Some CHR 0x08" "simple_escape CHR ''f'' = Some CHR 0x0C"
  "simple_escape CHR ''n'' = Some CHR 0x0A" "simple_escape CHR ''r'' = Some CHR 0x0D"
  "simple_escape CHR ''t'' = Some CHR 0x09"
  by (simp_all add: simple_escape_def)

lemma string_body_byte:
  "string_body (Suc n) (encode_byte c @ s) = map_option (apfst (Cons c)) (string_body n s)"
proof -
  have esc: "string_body (Suc n) (CHR 0x5C # CHR ''u'' # CHR ''0'' # CHR ''0'' # hex_char (byte_of c div 16)
      # hex_char (byte_of c mod 16) # s) = map_option (apfst (Cons c)) (string_body n s)" if "byte_of c < 0x80"
    using string_body_unicode [OF hex4_byte [of c], of n s] that rune_bytes_low [OF that]
    by (simp add: append_Cons [abs_def] fun_eq_iff cong: map_option_cong)
  show ?thesis
  proof (cases "byte_of c < 0x20 \<or> c = CHR ''<'' \<or> c = CHR ''>'' \<or> c = CHR ''&''")
    case True
    then have "byte_of c < 0x80" by (auto simp: byte_of_def)
    from esc [OF this] True show ?thesis
      unfolding encode_byte_def by (simp only: if_True append.simps) (simp add: string_body_escape simple_escapes)
  next
    case False
    then show ?thesis
      unfolding encode_byte_def by (simp only: if_False) (simp add: string_body_escape simple_escapes string_body_plain)
  qed
qed


lemma encode_byte_pos: "0 < length (encode_byte c)"
  by (simp add: encode_byte_def)

lemma string_body_separator:
  assumes "c = CHR 0xA8 \<or> c = CHR 0xA9"
  shows "string_body (Suc n) (CHR 0x5C # ''u202'' @ hex_char (byte_of c mod 16) # s) =
    map_option (apfst (append [CHR 0xE2, CHR 0x80, c])) (string_body n s)"
proof -
  have chars: "char_of (226 :: nat) = CHR 0xE2" "char_of (128 :: nat) = CHR 0x80"
    "char_of (168 :: nat) = CHR 0xA8" "char_of (169 :: nat) = CHR 0xA9" by code_simp+
  have h: "hex4 CHR ''2'' CHR ''0'' CHR ''2'' (hex_char (byte_of c mod 16)) = Some (0x2000 + 0x20 + byte_of c mod 16)"
    "rune_bytes (0x2000 + 0x20 + byte_of c mod 16) = [CHR 0xE2, CHR 0x80, c]"
    using assms by (auto simp: hex4_def json_hex_def hex_char_def byte_of_def chr_def rune_bytes_def less_eq_char_def chars)
  have "0x2000 + 0x20 + byte_of c mod 16 < 0xD800" by (rule le_less_trans [of _ "0x2000 + 0x20 + 15"]) simp_all
  from string_body_unicode [OF h(1) this] show ?thesis unfolding h(2) by simp
qed

lemma string_body_encode:
  "length (encode_bytes s) < n \<Longrightarrow> string_body n (encode_bytes s @ CHR 0x22 # rest) = Some (s, rest)"
proof (induction s arbitrary: n rule: encode_bytes.induct)
  case (1 a b c s)
  obtain k where n: "n = Suc k" using 1(3) by (cases n) auto
  show ?case
  proof (cases "a = CHR 0xE2 \<and> b = CHR 0x80 \<and> (c = CHR 0xA8 \<or> c = CHR 0xA9)")
    case True
    have "length (encode_bytes s) < k" using 1(3) True by (simp add: n)
    with 1(1) [OF True] have IH: "string_body k (encode_bytes s @ CHR 0x22 # rest) = Some (s, rest)" by blast
    have "encode_bytes (a # b # c # s) @ CHR 0x22 # rest =
        CHR 0x5C # ''u202'' @ hex_char (byte_of c mod 16) # (encode_bytes s @ CHR 0x22 # rest)"
      using True by simp
    moreover have "c = CHR 0xA8 \<or> c = CHR 0xA9" using True by blast
    ultimately show ?thesis using True unfolding n by (simp only: string_body_separator IH) simp
  next
    case False
    have eq: "encode_bytes (a # b # c # s) = encode_byte a @ encode_bytes (b # c # s)"
      using False by (simp only: encode_bytes.simps if_False)
    have "length (encode_bytes (b # c # s)) < k" using 1(3) encode_byte_pos [of a] unfolding n eq length_append by linarith
    with 1(2) [OF False] have IH: "string_body k (encode_bytes (b # c # s) @ CHR 0x22 # rest) = Some (b # c # s, rest)"
      by blast
    show ?thesis unfolding n eq by (simp only: append_assoc string_body_byte IH) simp
  qed
next
  case (2 a)
  obtain k where n: "n = Suc (Suc k)" using 2 encode_byte_pos [of a] by (cases n; cases "n - 1") auto
  show ?case unfolding n by (simp add: string_body_byte) (simp add: string_body.simps)
next
  case (3 a b)
  have "2 < n"
    using 3 encode_byte_pos [of a] encode_byte_pos [of b]
    unfolding encode_bytes.simps length_append list.size by linarith
  then obtain k where n: "n = Suc (Suc (Suc k))" using that [of "n - 3"] by simp
  show ?case unfolding n by (simp add: string_body_byte) (simp add: string_body.simps)
next
  case 4
  then show ?case by (cases n) (simp_all add: string_body.simps)
qed


text \<open>What may follow a number without becoming part of it.\<close>

definition num_stop :: "string \<Rightarrow> bool" where
  "num_stop rest \<longleftrightarrow> rest = [] \<or> hd rest \<in> set '',]}''"

lemma num_stop_head:
  assumes "num_stop (c # r)"
  shows "\<not> is_digit_char c \<and> c \<noteq> CHR ''.'' \<and> c \<noteq> CHR ''e'' \<and> c \<noteq> CHR ''E''"
  using assms by (auto simp: num_stop_def is_digit_char_def less_eq_char_def)

lemma digits_append:
  assumes "num_stop rest"
  shows "takeWhile is_digit_char (s @ rest) = takeWhile is_digit_char s"
    and "dropWhile is_digit_char (s @ rest) = dropWhile is_digit_char s @ rest"
proof -
  have "rest = [] \<or> \<not> is_digit_char (hd rest)" using assms num_stop_head by (cases rest) auto
  then show "takeWhile is_digit_char (s @ rest) = takeWhile is_digit_char s"
    "dropWhile is_digit_char (s @ rest) = dropWhile is_digit_char s @ rest"
    by (induction s; cases rest; auto)+
qed

lemma digits1_append: "digits1 s = Some (d, r) \<Longrightarrow> num_stop rest \<Longrightarrow> digits1 (s @ rest) = Some (d, r @ rest)"
  by (auto simp: digits1_def Let_def digits_append split: if_splits)

lemma num_int_append: "num_int s = Some (d, r) \<Longrightarrow> num_stop rest \<Longrightarrow> num_int (s @ rest) = Some (d, r @ rest)"
  using digits1_append [of s d r rest] by (cases s) (auto simp: num_int_def split: if_splits)

lemma num_frac_append: "num_frac s = Some (d, r) \<Longrightarrow> num_stop rest \<Longrightarrow> num_frac (s @ rest) = Some (d, r @ rest)"
  using num_stop_head
  by (cases s; cases rest) (auto simp: num_frac_def digits1_append split: if_splits)

lemma num_exp_append: "num_exp s = Some (d, r) \<Longrightarrow> num_stop rest \<Longrightarrow> num_exp (s @ rest) = Some (d, r @ rest)"
  using num_stop_head
  by (cases s; cases "tl s"; cases rest) (auto simp: num_exp_def digits1_append [of "_ # _", simplified] digits1_append split: if_splits)

definition num_ok :: "string \<Rightarrow> bool" where
  "num_ok t \<longleftrightarrow> number t = Some (t, [])"

lemma number_append:
  assumes "num_ok t" and "num_stop rest"
  shows "number (t @ rest) = Some (t, rest)"
proof -
  define sign where "sign = (if t \<noteq> [] \<and> hd t = CHR ''-'' then [CHR ''-''] else [])"
  obtain i r1 f r2 e where parts: "num_int (drop (length sign) t) = Some (i, r1)" "num_frac r1 = Some (f, r2)"
    "num_exp r2 = Some (e, [])" "t = sign @ i @ f @ e"
    using assms(1) unfolding num_ok_def number_def Let_def sign_def [symmetric] by (auto split: option.splits prod.splits)
  have ne: "t \<noteq> []" using assms(1) by (auto simp: num_ok_def number_def num_int_def Let_def)
  then have "(if t @ rest \<noteq> [] \<and> hd (t @ rest) = CHR ''-'' then [CHR ''-''] else []) = sign"
    "drop (length sign) (t @ rest) = drop (length sign) t @ rest"
    by (simp_all add: sign_def Suc_le_eq)
  then show ?thesis
    unfolding number_def Let_def
    using num_int_append [OF parts(1) assms(2)] num_frac_append [OF parts(2) assms(2)]
      num_exp_append [OF parts(3) assms(2)] parts(4) by simp
qed

lemma num_ok_head: "num_ok t \<Longrightarrow> \<exists>c cs. t = c # cs \<and> (c = CHR ''-'' \<or> is_digit_char c)"
  by (cases t) (auto simp: num_ok_def number_def num_int_def digits1_def Let_def is_digit_char_def split: if_splits option.splits)


text \<open>The encoding of a tree whose objects already have their members in order.\<close>

fun enc :: "json \<Rightarrow> string"
and enc_list :: "json list \<Rightarrow> string"
and enc_members :: "jobject \<Rightarrow> string" where
  "enc JNull = ''null''"
| "enc (JBool b) = (if b then ''true'' else ''false'')"
| "enc (JNum t) = t"
| "enc (JStr s) = encode_string s"
| "enc (JArr vs) = CHR ''['' # enc_list vs @ '']''"
| "enc (JObj ms) = CHR ''{'' # enc_members ms @ ''}''"
| "enc_list [] = []"
| "enc_list (v # vs) = (if vs = [] then enc v else enc v @ CHR '','' # enc_list vs)"
| "enc_members [] = []"
| "enc_members ((k, v) # ms) =
     encode_string k @ CHR '':'' # enc v @ (if ms = [] then [] else CHR '','' # enc_members ms)"

fun cost :: "json \<Rightarrow> nat"
and cost_list :: "json list \<Rightarrow> nat"
and cost_members :: "jobject \<Rightarrow> nat" where
  "cost (JArr vs) = Suc (cost_list vs)"
| "cost (JObj ms) = Suc (cost_members ms)"
| "cost v = 1"
| "cost_list [] = 0"
| "cost_list (v # vs) = Suc (max (cost v) (cost_list vs))"
| "cost_members [] = 0"
| "cost_members ((k, v) # ms) = Suc (max (cost v) (cost_members ms))"

fun nums_ok :: "json \<Rightarrow> bool"
and nums_ok_list :: "json list \<Rightarrow> bool"
and nums_ok_members :: "jobject \<Rightarrow> bool" where
  "nums_ok (JNum t) = num_ok t"
| "nums_ok (JArr vs) = nums_ok_list vs"
| "nums_ok (JObj ms) = nums_ok_members ms"
| "nums_ok v = True"
| "nums_ok_list [] = True"
| "nums_ok_list (v # vs) = (nums_ok v \<and> nums_ok_list vs)"
| "nums_ok_members [] = True"
| "nums_ok_members ((k, v) # ms) = (nums_ok v \<and> nums_ok_members ms)"

lemma enc_head:
  "nums_ok v \<Longrightarrow> \<exists>c cs. enc v = c # cs \<and> \<not> ws_char c \<and> c \<noteq> CHR '']''"
  using num_ok_head by (cases v) (fastforce simp: encode_string_def ws_char_def is_digit_char_def less_eq_char_def)+

lemma skip_ws_enc: "nums_ok v \<Longrightarrow> skip_ws (enc v @ r) = enc v @ r"
  using enc_head [of v] by auto

lemma enc_list_head: "vs \<noteq> [] \<Longrightarrow> nums_ok_list vs \<Longrightarrow> \<exists>c cs. enc_list vs = c # cs \<and> \<not> ws_char c \<and> c \<noteq> CHR '']''"
  using enc_head by (cases vs) fastforce+

lemma string_body_string: "string_body (length (encode_bytes s @ CHR 0x22 # r)) (encode_bytes s @ CHR 0x22 # r) = Some (s, r)"
  by (rule string_body_encode) simp

lemma json_value_number:
  assumes "num_ok t" and "num_stop rest"
  shows "json_value (Suc n) (t @ rest) = Some (JNum t, rest)"
proof -
  obtain c cs where t: "t = c # cs" "c = CHR ''-'' \<or> is_digit_char c" using num_ok_head [OF assms(1)] by blast
  then have "\<not> ws_char c" "c \<noteq> CHR 0x22" "c \<noteq> CHR ''{''" "c \<noteq> CHR ''[''" "c \<noteq> CHR ''n''" "c \<noteq> CHR ''t''" "c \<noteq> CHR ''f''"
    by (auto simp: is_digit_char_def less_eq_char_def ws_char_def)
  then show ?thesis using number_append [OF assms] unfolding t(1) by simp
qed

declare json_value.simps(2) [simp del]

lemma json_value_array:
  assumes "json_elements n (enc_list vs @ CHR '']'' # rest) = Some (vs, rest)" "vs \<noteq> []" "nums_ok_list vs"
  shows "json_value (Suc n) (CHR ''['' # enc_list vs @ CHR '']'' # rest) = Some (JArr vs, rest)"
proof -
  obtain c cs where e: "enc_list vs = c # cs" "\<not> ws_char c" "c \<noteq> CHR '']''" using enc_list_head assms by blast
  have "skip_ws (enc_list vs @ CHR '']'' # rest) = c # cs @ CHR '']'' # rest" using e by simp
  then show ?thesis using assms(1) e(3) by (simp add: json_value.simps ws_char_def)
qed

lemma json_value_object:
  assumes "json_members n (enc_members ms @ CHR ''}'' # rest) = Some (ms, rest)" "ms \<noteq> []"
  shows "json_value (Suc n) (CHR ''{'' # enc_members ms @ CHR ''}'' # rest) = Some (JObj ms, rest)"
proof -
  obtain cs where "enc_members ms = CHR 0x22 # cs"
    using assms(2) by (cases ms) (auto simp: encode_string_def)
  then have "skip_ws (enc_members ms @ CHR ''}'' # rest) = CHR 0x22 # cs @ CHR ''}'' # rest" by (simp add: ws_char_def)
  then show ?thesis using assms(1) by (simp add: json_value.simps ws_char_def)
qed

lemma json_enc:
  "nums_ok v \<Longrightarrow> cost v \<le> n \<Longrightarrow> num_stop rest \<Longrightarrow> json_value n (enc v @ rest) = Some (v, rest)"
  "vs \<noteq> [] \<Longrightarrow> nums_ok_list vs \<Longrightarrow> cost_list vs \<le> n \<Longrightarrow>
     json_elements n (enc_list vs @ CHR '']'' # rest) = Some (vs, rest)"
  "ms \<noteq> [] \<Longrightarrow> nums_ok_members ms \<Longrightarrow> cost_members ms \<le> n \<Longrightarrow>
     json_members n (enc_members ms @ CHR ''}'' # rest) = Some (ms, rest)"
proof (induction v and vs and ms arbitrary: n rest and n rest and n rest rule: enc_enc_list_enc_members.induct)
  case 1
  then show ?case by (cases n) (simp_all add: json_value.simps ws_char_def)
next
  case (2 b)
  then show ?case by (cases n) (simp_all add: json_value.simps ws_char_def)
next
  case (3 t)
  then show ?case by (cases n) (simp_all add: json_value_number)
next
  case (4 s)
  then show ?case using string_body_string [of s rest]
    by (cases n) (simp_all add: json_value.simps ws_char_def encode_string_def)
next
  case (5 vs)
  then obtain k where n: "n = Suc k" by (cases n) auto
  show ?case
  proof (cases "vs = []")
    case True
    then show ?thesis by (simp add: n json_value.simps ws_char_def)
  next
    case False
    with 5 show ?thesis using json_value_array [of k vs rest] by (simp add: n)
  qed
next
  case (6 ms)
  then obtain k where n: "n = Suc k" by (cases n) auto
  show ?case
  proof (cases "ms = []")
    case True
    then show ?thesis by (simp add: n json_value.simps ws_char_def)
  next
    case False
    with 6 show ?thesis using json_value_object [of k ms rest] by (simp add: n)
  qed
next
  case 7
  then show ?case by simp
next
  case (8 v vs)
  then obtain k where n: "n = Suc k" by (cases n) auto
  have v: "json_value k (enc v @ r) = Some (v, r)" if "num_stop r" for r
    using "8.IH"(1,2) "8.prems" that n by (cases "vs = []") auto
  show ?case
  proof (cases "vs = []")
    case True
    then show ?thesis using v [of "CHR '']'' # rest"] by (simp add: n num_stop_def ws_char_def)
  next
    case False
    have "json_elements k (enc_list vs @ CHR '']'' # rest) = Some (vs, rest)"
      by (rule "8.IH"(3)) (use "8.prems" False n in auto)
    with False show ?thesis
      using v [of "CHR '','' # enc_list vs @ CHR '']'' # rest"] by (simp add: n num_stop_def ws_char_def)
  qed
next
  case 9
  then show ?case by simp
next
  case (10 key v ms)
  then obtain k where n: "n = Suc k" by (cases n) auto
  have v: "json_value k (enc v @ r) = Some (v, r)" if "num_stop r" for r
    by (rule "10.IH"(1)) (use 10 that n in auto)
  have key: "json_members (Suc k) (encode_string key @ CHR '':'' # s) =
      (case json_value k s of None \<Rightarrow> None | Some (v, s) \<Rightarrow>
         (case skip_ws s of [] \<Rightarrow> None
          | c # t \<Rightarrow> if c = CHR ''}'' then Some ([(key, v)], t)
              else if c = CHR '','' then map_option (apfst (Cons (key, v))) (json_members k t) else None))" for s
    using string_body_string [of key "CHR '':'' # s"] by (simp add: encode_string_def ws_char_def)
  show ?case
  proof (cases "ms = []")
    case True
    then show ?thesis using v [of "CHR ''}'' # rest"] key by (simp add: n num_stop_def ws_char_def)
  next
    case False
    have "json_members k (enc_members ms @ CHR ''}'' # rest) = Some (ms, rest)"
      by (rule "10.IH"(2)) (use 10 False n in auto)
    with False show ?thesis
      using v [of "CHR '','' # enc_members ms @ CHR ''}'' # rest"] key by (simp add: n num_stop_def ws_char_def)
  qed
qed


lemma cost_bound:
  "nums_ok v \<Longrightarrow> cost v \<le> 2 * length (enc v)"
  "nums_ok_list vs \<Longrightarrow> cost_list vs \<le> Suc (2 * length (enc_list vs))"
  "nums_ok_members ms \<Longrightarrow> cost_members ms \<le> Suc (2 * length (enc_members ms))"
proof (induction v and vs and ms rule: enc_enc_list_enc_members.induct)
  case (3 t)
  then show ?case using num_ok_head [of t] by auto
next
  case (8 v vs)
  then show ?case by (cases "vs = []") auto
next
  case (10 key v ms)
  then show ?case by (cases "ms = []") (auto simp: encode_string_def)
qed (auto simp: encode_string_def)

lemma json_decode_enc: "nums_ok v \<Longrightarrow> json_decode (enc v) = Some v"
  using json_enc(1) [of v "2 * length (enc v) + 2" "[]"] cost_bound(1) [of v]
  by (simp add: json_decode_def num_stop_def)

text \<open>The tree with the members of every object sorted, which is what the encoder prints.\<close>

fun canon :: "json \<Rightarrow> json"
and canon_list :: "json list \<Rightarrow> json list"
and canon_members :: "jobject \<Rightarrow> jobject" where
  "canon (JArr vs) = JArr (canon_list vs)"
| "canon (JObj ms) = JObj (SliceStable key_less (canon_members ms))"
| "canon v = v"
| "canon_list [] = []"
| "canon_list (v # vs) = canon v # canon_list vs"
| "canon_members [] = []"
| "canon_members ((k, v) # ms) = (k, canon v) # canon_members ms"

lemma insert_stable_map:
  "(\<And>a b. lt' (f a) (f b) = lt a b) \<Longrightarrow> insert_stable lt' (f x) (map f ys) = map f (insert_stable lt x ys)"
  by (induction ys) auto

lemma SliceStable_map:
  "(\<And>a b. lt' (f a) (f b) = lt a b) \<Longrightarrow> SliceStable lt' (map f xs) = map f (SliceStable lt xs)"
  by (induction xs) (auto simp: insert_stable_map)

lemma enc_list_join: "enc_list vs = join1 (map enc vs) CHR '',''"
  by (induction vs rule: induct_list012) auto

lemma enc_members_join: "enc_members ms = join1 (map (\<lambda>kv. encode_string (fst kv) @ CHR '':'' # enc (snd kv)) ms) CHR '',''"
  by (induction ms rule: induct_list012) auto

lemma json_encode_canon:
  "json_encode v = enc (canon v)"
  "encode_list vs = map enc (canon_list vs)"
  "encode_pairs ms = map (apsnd enc) (canon_members ms)"
proof (induction v and vs and ms rule: json_encode_encode_list_encode_pairs.induct)
  case (6 ms)
  have "SliceStable key_less (map (apsnd enc) (canon_members ms)) =
      map (apsnd enc) (SliceStable key_less (canon_members ms))"
    by (rule SliceStable_map) (simp add: key_less_def)
  then show ?case using 6 by (simp add: enc_members_join comp_def)
qed (simp_all add: enc_list_join)

lemma nums_ok_members_set: "nums_ok_members ms \<longleftrightarrow> (\<forall>(k, v) \<in> set ms. nums_ok v)"
  by (induction ms) auto

lemma nums_ok_canon:
  "nums_ok v \<Longrightarrow> nums_ok (canon v)"
  "nums_ok_list vs \<Longrightarrow> nums_ok_list (canon_list vs)"
  "nums_ok_members ms \<Longrightarrow> nums_ok_members (canon_members ms)"
  by (induction v and vs and ms rule: canon_canon_list_canon_members.induct) (simp_all add: nums_ok_members_set)

text \<open>The decoder inverts the encoder, up to the order of the members of objects.\<close>

lemma json_decode_encode: "nums_ok v \<Longrightarrow> json_decode (json_encode v) = Some (canon v)"
  by (simp add: json_encode_canon json_decode_enc nums_ok_canon)

interpretation key_order: strict_weak_less "key_less :: string \<times> 'v \<Rightarrow> string \<times> 'v \<Rightarrow> bool"
  by unfold_locales (auto simp: key_less_def)

lemma map_of_insert_stable:
  "fst x \<notin> fst ` set ys \<Longrightarrow> map_of (insert_stable key_less x ys) = (map_of ys)(fst x \<mapsto> snd x)"
  by (induction ys) (auto simp: fun_upd_twist)

lemma map_of_SliceStable: "distinct (map fst ms) \<Longrightarrow> map_of (SliceStable key_less ms) = map_of ms"
  by (induction ms) (auto simp: map_of_insert_stable)

lemma canon_members_map: "canon_members ms = map (apsnd canon) ms"
  by (induction ms) auto

lemma jget_canon: "distinct (map fst ms) \<Longrightarrow> jget (SliceStable key_less (canon_members ms)) k = map_option canon (jget ms k)"
proof -
  assume d: "distinct (map fst ms)"
  have "map fst (canon_members ms) = map fst ms" by (induction ms) auto
  then have "map_of (SliceStable key_less (canon_members ms)) k = map_of (canon_members ms) k"
    using d by (simp add: map_of_SliceStable)
  also have "\<dots> = map_option canon (map_of ms k)" by (simp add: canon_members_map apsnd_def map_prod_def map_of_map)
  finally show ?thesis .
qed

section \<open>Printed numbers and ASCII\<close>

lemma digits_takeWhile: "list_all is_digit_char s \<Longrightarrow> takeWhile is_digit_char s = s \<and> dropWhile is_digit_char s = []"
  by (simp add: list_all_iff)

lemma num_ok_pos:
  assumes "0 \<le> n"
  shows "number (Itoa_pos n) = Some (Itoa_pos n, [])" and "num_int (Itoa_pos n) = Some (Itoa_pos n, [])"
    and "hd (Itoa_pos n) \<noteq> CHR ''-''"
proof -
  note f = Itoa_pos_digits [OF assms]
  obtain c cs where s: "Itoa_pos n = c # cs" using f by (cases "Itoa_pos n") auto
  have c: "is_digit_char c" using f by (simp add: s)
  show m: "hd (Itoa_pos n) \<noteq> CHR ''-''" using c by (auto simp: s is_digit_char_def less_eq_char_def)
  have "c = CHR ''0'' \<Longrightarrow> cs = []"
  proof -
    assume "c = CHR ''0''"
    then have "\<not> 0 < n" using f by (simp add: s digit_of_def)
    then have "length (Itoa_pos n) = 1" using f assms by simp
    then show "cs = []" by (simp add: s)
  qed
  then show i: "num_int (Itoa_pos n) = Some (Itoa_pos n, [])"
    using f digits_takeWhile [of "c # cs"] by (auto simp: s num_int_def digits1_def Let_def)
  show "number (Itoa_pos n) = Some (Itoa_pos n, [])"
    using m i by (simp add: number_def num_frac_def num_exp_def)
qed

lemma num_ok_Itoa: "num_ok (Itoa n)"
  using num_ok_pos [of n] num_ok_pos [of "- n"]
  by (auto simp: num_ok_def Itoa_def number_def num_frac_def num_exp_def)

definition ascii_char :: "char \<Rightarrow> bool" where
  "ascii_char c \<longleftrightarrow> byte_of c < 0x80"

lemma ascii_ValidString: "list_all ascii_char s \<Longrightarrow> ValidString s"
  by (induction s rule: ValidString.induct) (auto simp: Let_def ascii_char_def)

lemma ascii_literals [simp]:
  "ascii_char CHR 0x22" "ascii_char CHR 0x5C" "ascii_char CHR ''u''" "ascii_char CHR ''0''" "ascii_char CHR ''b''"
  "ascii_char CHR ''f''" "ascii_char CHR ''n''" "ascii_char CHR ''r''" "ascii_char CHR ''t''" "ascii_char CHR ''2''"
  "ascii_char CHR '',''" "ascii_char CHR '':''" "ascii_char CHR ''[''" "ascii_char CHR '']''" "ascii_char CHR ''{''"
  "ascii_char CHR ''}''" "ascii_char CHR ''-''" "ascii_char CHR ''l''" "ascii_char CHR ''e''" "ascii_char CHR ''a''"
  "ascii_char CHR ''s''" "ascii_char CHR ''m''" "ascii_char CHR ''d''" "ascii_char CHR ''_''" "ascii_char CHR ''v''"
  "ascii_char CHR ''i''" "ascii_char CHR ''o''"
  by (simp_all add: ascii_char_def byte_of_def)

fun ascii_json :: "json \<Rightarrow> bool"
and ascii_list :: "json list \<Rightarrow> bool"
and ascii_members :: "jobject \<Rightarrow> bool" where
  "ascii_json (JNum t) = list_all ascii_char t"
| "ascii_json (JStr t) = list_all ascii_char t"
| "ascii_json (JArr vs) = ascii_list vs"
| "ascii_json (JObj ms) = ascii_members ms"
| "ascii_json v = True"
| "ascii_list [] = True"
| "ascii_list (v # vs) = (ascii_json v \<and> ascii_list vs)"
| "ascii_members [] = True"
| "ascii_members ((k, v) # ms) = (list_all ascii_char k \<and> ascii_json v \<and> ascii_members ms)"

lemma hex_char_ascii [simp]: "k < 16 \<Longrightarrow> ascii_char (hex_char k)"
  by (simp add: ascii_char_def hex_char_def byte_of_def chr_def)

lemma encode_byte_ascii: "ascii_char c \<Longrightarrow> list_all ascii_char (encode_byte c)"
  using byte_of_bound [of c] by (simp add: encode_byte_def)

lemma encode_bytes_ascii: "list_all ascii_char s \<Longrightarrow> list_all ascii_char (encode_bytes s)"
  by (induction s rule: encode_bytes.induct) (simp_all add: encode_byte_ascii)

lemma encode_string_ascii: "list_all ascii_char s \<Longrightarrow> list_all ascii_char (encode_string s)"
  by (simp add: encode_string_def encode_bytes_ascii)

lemma enc_ascii:
  "ascii_json v \<Longrightarrow> list_all ascii_char (enc v)"
  "ascii_list vs \<Longrightarrow> list_all ascii_char (enc_list vs)"
  "ascii_members ms \<Longrightarrow> list_all ascii_char (enc_members ms)"
  by (induction v and vs and ms rule: enc_enc_list_enc_members.induct) (simp_all add: encode_string_ascii)

lemma digit_ascii: "is_digit_char c \<Longrightarrow> ascii_char c"
  by (auto simp: is_digit_char_def less_eq_char_def byte_of_def ascii_char_def)

lemma Itoa_ascii: "list_all ascii_char (Itoa n)"
  using Itoa_pos_digits [of n] Itoa_pos_digits [of "- n"] digit_ascii
  by (auto simp: Itoa_def list_all_iff)

end
