(* ===== verification/OvpnLayers.thy ===== *)
theory OvpnLayers
  imports Json
begin

text \<open>
  \<^verbatim>\<open>src/internal/nativeopenvpn\<close>: the remotes of a native OpenVPN endpoint (\<open>remote.go\<close>), the
  Start Layers provisioned for them (\<open>start_layers.go\<close>) and the compiled map of both
  (\<open>layer_map.go\<close>), over the strict object reader of \<open>pairing.go\<close>. JSON numbers are \<open>float64\<close> here:
  the value of a literal is rounded by the parameter \<open>rnd\<close>. \<open>url.Parse\<close> is the parameter
  \<open>url_parse\<close>, arbitrary in every theorem. A \<open>map[string]any\<close> that was marshalled and read back is
  the same tree, so the code's marshal and unmarshal steps only contribute their size limits.
\<close>

section \<open>URLs\<close>

record url =
  Scheme :: string
  Opaque :: string
  User :: bool
  Host :: string
  Path :: string
  RawPath :: string
  ForceQuery :: bool
  RawQuery :: string
  Fragment :: string

type_synonym url_parser = "string \<Rightarrow> url option"

text \<open>\<open>URL.Hostname\<close> and \<open>URL.Port\<close>: the host without its port and brackets, and the port.\<close>

definition last_colon :: "string \<Rightarrow> nat option" where
  "last_colon s =
     (let tail = length (takeWhile (\<lambda>c. c \<noteq> CHR '':'') (rev s)) in
      if tail = length s then None else Some (length s - tail - 1))"

definition split_host_port :: "string \<Rightarrow> string \<times> string" where
  "split_host_port s =
     (let (host, port) =
            (case last_colon s of
               None \<Rightarrow> (s, [])
             | Some i \<Rightarrow> if list_all is_digit_char (drop (Suc i) s) then (take i s, drop (Suc i) s) else (s, []))
      in (if length host \<ge> 2 \<and> hd host = CHR ''['' \<and> last host = CHR '']'' then butlast (tl host) else host, port))"

definition Hostname :: "url \<Rightarrow> string" where
  "Hostname u = fst (split_host_port (Host u))"

definition Port :: "url \<Rightarrow> string" where
  "Port u = snd (split_host_port (Host u))"

section \<open>Numbers and base64\<close>

text \<open>\<open>float64(int(x)) == x\<close>: the number is a whole number.\<close>

definition float_int :: "(rat \<Rightarrow> rat) \<Rightarrow> string \<Rightarrow> int option" where
  "float_int rnd t = (let v = rnd (num_value t) in if of_int \<lfloor>v\<rfloor> = v then Some \<lfloor>v\<rfloor> else None)"

definition float_in_range :: "string \<Rightarrow> bool" where
  "float_in_range t = (if \<bar>num_value t\<bar> < 1000000 then True else \<bar>num_value t\<bar> < 2 ^ 1024 - 2 ^ 970)"

definition b64_alphabet :: string where
  "b64_alphabet = ''ABCDEFGHIJKLMNOPQRSTUVWXYZabcdefghijklmnopqrstuvwxyz0123456789+/''"

definition b64_digit :: "char \<Rightarrow> nat option" where
  "b64_digit c = (let i = length (takeWhile (\<lambda>d. d \<noteq> c) b64_alphabet) in if i < 64 then Some i else None)"

text \<open>
  \<open>base64.StdEncoding.Strict().DecodeString\<close> on text without line breaks: quantums of four, padding
  only at the end, trailing padding bits zero.
\<close>

fun b64_decode :: "string \<Rightarrow> nat list option" where
  "b64_decode [] = Some []"
| "b64_decode (a # b # c # d # s) =
     (case (b64_digit a, b64_digit b) of
        (Some x, Some y) \<Rightarrow>
          (case (b64_digit c, b64_digit d) of
             (Some z, Some w) \<Rightarrow>
               map_option (\<lambda>r. (x * 4 + y div 16) # ((y mod 16) * 16 + z div 4) # ((z mod 4) * 64 + w) # r)
                 (b64_decode s)
           | (Some z, None) \<Rightarrow>
               if d = CHR ''='' \<and> s = [] \<and> z mod 4 = 0 then Some [x * 4 + y div 16, (y mod 16) * 16 + z div 4]
               else None
           | (None, _) \<Rightarrow>
               if c = CHR ''='' \<and> d = CHR ''='' \<and> s = [] \<and> y mod 16 = 0 then Some [x * 4 + y div 16] else None)
      | _ \<Rightarrow> None)"
| "b64_decode _ = None"

text \<open>
  A 32-byte key in canonical form. The decoder skips line breaks, and the comparison with the
  re-encoded key then rejects a text that has any.
\<close>

definition key32 :: "string \<Rightarrow> bool" where
  "key32 part \<longleftrightarrow> (case b64_decode part of Some key \<Rightarrow> length key = 32 | None \<Rightarrow> False)"

section \<open>Strict objects\<close>

definition errPairing :: goerror where
  "errPairing = Err ''OpenVPN pairing requires independent private provider and authentication identities with matching verified transport policy''"

text \<open>The \<open>decode\<close> walk: depth, width, repeated keys, and numbers that fit a \<open>float64\<close>.\<close>

fun pairing_tree :: "nat \<Rightarrow> json \<Rightarrow> bool"
and pairing_trees :: "nat \<Rightarrow> json list \<Rightarrow> bool"
and pairing_members :: "nat \<Rightarrow> jobject \<Rightarrow> bool" where
  "pairing_tree depth (JObj ms) =
     (depth \<le> 24 \<and> int (length ms) \<le> 4097 \<and> distinct (map fst ms) \<and> pairing_members (Suc depth) ms)"
| "pairing_tree depth (JArr vs) = (depth \<le> 24 \<and> int (length vs) \<le> 4097 \<and> pairing_trees (Suc depth) vs)"
| "pairing_tree depth (JNum t) = (depth \<le> 24 \<and> float_in_range t)"
| "pairing_tree depth v = (depth \<le> 24)"
| "pairing_trees depth [] = True"
| "pairing_trees depth (v # vs) = (pairing_tree depth v \<and> pairing_trees depth vs)"
| "pairing_members depth [] = True"
| "pairing_members depth ((k, v) # ms) = (pairing_tree depth v \<and> pairing_members depth ms)"

definition pairing_value :: "json \<Rightarrow> jobject res" where
  "pairing_value v =
     (case v of JObj ms \<Rightarrow> (if pairing_tree 0 v then Inr ms else Inl errPairing) | _ \<Rightarrow> Inl errPairing)"

definition pairingObject :: "string \<Rightarrow> int \<Rightarrow> jobject res" where
  "pairingObject raw limit =
     (if raw = [] \<or> int (length raw) > limit \<or> \<not> ValidString raw then Inl errPairing
      else case json_decode raw of None \<Rightarrow> Inl errPairing | Some v \<Rightarrow> pairing_value v)"

section \<open>Remotes\<close>

definition errRemote :: goerror where
  "errRemote = Err ''OpenVPN remote proof requires the exact connected native transport and every captured public remote''"

record Remote =
  RHost :: string
  RPort :: int
  RNetwork :: string

record RemoteReceipt =
  RRemote :: Remote
  Generation :: int
  ConnectedAt :: int

text \<open>\<open>100.64.0.0/10\<close> contains an IPv4 address only.\<close>

fun cgnat :: "addr \<Rightarrow> bool" where
  "cgnat (V4 bs) = (byte_at bs 0 = 100 \<and> byte_at bs 1 div 64 = 1)"
| "cgnat (V6 _ _) = False"

definition remotePublicHost :: "string \<Rightarrow> bool" where
  "remotePublicHost host =
     (case ParseAddr host of
        None \<Rightarrow> False
      | Some ip \<Rightarrow> addr_String ip = host \<and> Zone ip = [] \<and> \<not> Is4In6 ip \<and> IsGlobalUnicast ip
          \<and> \<not> IsPrivate ip \<and> \<not> IsLoopback ip \<and> \<not> cgnat ip)"

definition Remote_Validate :: "Remote \<Rightarrow> bool" where
  "Remote_Validate r \<longleftrightarrow>
     \<not> (\<not> remotePublicHost (RHost r) \<or> RPort r < 1 \<or> RPort r > 65535
        \<or> (RNetwork r \<noteq> ''tcp'' \<and> RNetwork r \<noteq> ''udp''))"

text \<open>\<open>net.SplitHostPort\<close>: the host and the port of \<open>host:port\<close> or \<open>[host]:port\<close>.\<close>

definition SplitHostPort :: "string \<Rightarrow> (string \<times> string) option" where
  "SplitHostPort s =
     (case last_colon s of
        None \<Rightarrow> None
      | Some i \<Rightarrow>
          if s \<noteq> [] \<and> hd s = CHR ''['' then
            (let e = length (takeWhile (\<lambda>c. c \<noteq> CHR '']'') s) in
             if e = length s \<or> Suc e \<noteq> i then None
             else let host = take (e - 1) (tl s); port = drop (Suc i) s in
               if CHR ''['' \<in> set (tl s) \<or> CHR '']'' \<in> set (drop (Suc e) s) then None else Some (host, port))
          else let host = take i s; port = drop (Suc i) s in
            if CHR '':'' \<in> set host \<or> CHR ''['' \<in> set s \<or> CHR '']'' \<in> set s then None else Some (host, port))"

definition ParseRemote :: "string \<Rightarrow> string \<Rightarrow> Remote res" where
  "ParseRemote address network =
     (case SplitHostPort address of
        None \<Rightarrow> Inl errRemote
      | Some (host, portText) \<Rightarrow>
          (case Atoi portText of
             None \<Rightarrow> Inl errRemote
           | Some port \<Rightarrow>
               let remote = \<lparr>RHost = host, RPort = port, RNetwork = network\<rparr> in
               if portText \<noteq> Itoa port \<or> \<not> Remote_Validate remote then Inl errRemote else Inr remote))"

definition Receipt_Validate :: "RemoteReceipt \<Rightarrow> bool" where
  "Receipt_Validate r \<longleftrightarrow>
     \<not> (\<not> Remote_Validate (RRemote r) \<or> Generation r = 0 \<or> Generation r > 2 ^ 53 - 1
        \<or> ConnectedAt r \<le> 0 \<or> ConnectedAt r > 2 ^ 53 - 1)"

definition is_str :: "json option \<Rightarrow> bool" where
  "is_str v = (case v of Some (JStr _) \<Rightarrow> True | _ \<Rightarrow> False)"

definition is_num :: "json option \<Rightarrow> bool" where
  "is_num v = (case v of Some (JNum _) \<Rightarrow> True | _ \<Rightarrow> False)"

definition str_of :: "json option \<Rightarrow> string" where
  "str_of v = (case v of Some (JStr s) \<Rightarrow> s | _ \<Rightarrow> [])"

definition num_of :: "json option \<Rightarrow> string" where
  "num_of v = (case v of Some (JNum t) \<Rightarrow> t | _ \<Rightarrow> [])"

text \<open>The typed decode of the receipt: integers must be integer literals.\<close>

definition Receipt_UnmarshalJSON :: "string \<Rightarrow> RemoteReceipt res" where
  "Receipt_UnmarshalJSON raw =
     (case pairingObject raw 2048 of
        Inl _ \<Rightarrow> Inl errRemote
      | Inr obj \<Rightarrow>
          if length obj \<noteq> 5
             \<or> list_ex (\<lambda>key. \<not> is_str (jget obj key)) [''host'', ''network'']
             \<or> list_ex (\<lambda>key. \<not> is_num (jget obj key)) [''port'', ''generation'', ''connected_at'']
          then Inl errRemote
          else (case (Atoi (num_of (jget obj ''port'')), ParseUint (num_of (jget obj ''generation'')) 64,
                      Atoi (num_of (jget obj ''connected_at''))) of
              (Some port, Some generation, Some conn_at) \<Rightarrow>
                (let r = \<lparr>RRemote = \<lparr>RHost = str_of (jget obj ''host''), RPort = port,
                                     RNetwork = str_of (jget obj ''network'')\<rparr>,
                          Generation = generation, ConnectedAt = conn_at\<rparr>
                 in if Receipt_Validate r then Inr r else Inl errRemote)
            | _ \<Rightarrow> Inl errRemote))"

definition plain_network :: "string \<Rightarrow> string" where
  "plain_network n =
     (if n = ''tcp4'' \<or> n = ''tcp6'' then ''tcp'' else if n = ''udp4'' \<or> n = ''udp6'' then ''udp'' else n)"

text \<open>
  The servers of an endpoint. Comparing two objects or two arrays panics (\<open>iface_uncomparable\<close>).
\<close>

definition endpoint_servers :: "jobject \<Rightarrow> json list res" where
  "endpoint_servers endpoint =
     (case jget endpoint ''servers'' of
        Some (JArr servers) \<Rightarrow>
          if length servers < 2 \<or> length servers > 16
             \<or> \<not> iface_eq (jget endpoint ''server'') None \<or> \<not> iface_eq (jget endpoint ''server_port'') None
          then Inl errRemote
          else (case hd servers of
              JObj first \<Rightarrow>
                if iface_uncomparable (jget endpoint ''network'') (jget first ''network'') then Inl (Panic ''uncomparable'')
                else if \<not> iface_eq (jget endpoint ''network'') (jget first ''network'') then Inl errRemote
                else Inr servers
            | _ \<Rightarrow> Inl errRemote)
      | Some _ \<Rightarrow> Inl errRemote
      | None \<Rightarrow>
          let member = (\<lambda>k. (k, case jget endpoint k of None \<Rightarrow> JNull | Some v \<Rightarrow> v))
          in Inr [JObj [member ''server'', member ''server_port'', member ''network'']])"

definition server_remote :: "(rat \<Rightarrow> rat) \<Rightarrow> json \<Rightarrow> Remote res" where
  "server_remote rnd raw =
     (case raw of
        JObj server \<Rightarrow>
          if length server \<noteq> 3 then Inl errRemote
          else (case (jget server ''server'', jget server ''server_port'', jget server ''network'') of
              (Some (JStr host), Some (JNum t), Some (JStr network)) \<Rightarrow>
                (case float_int rnd t of
                   None \<Rightarrow> Inl errRemote
                 | Some port \<Rightarrow>
                     let remote = \<lparr>RHost = host, RPort = port, RNetwork = plain_network network\<rparr>
                     in if Remote_Validate remote then Inr remote else Inl errRemote)
            | _ \<Rightarrow> Inl errRemote)
      | _ \<Rightarrow> Inl errRemote)"

fun server_remotes :: "(rat \<Rightarrow> rat) \<Rightarrow> json list \<Rightarrow> Remote list res" where
  "server_remotes rnd [] = Inr []"
| "server_remotes rnd (v # vs) =
     res_bind (server_remote rnd v) (\<lambda>r. res_bind (server_remotes rnd vs) (\<lambda>rs. Inr (r # rs)))"

definition Remotes :: "(rat \<Rightarrow> rat) \<Rightarrow> jobject \<Rightarrow> Remote list res" where
  "Remotes rnd endpoint = res_bind (endpoint_servers endpoint) (server_remotes rnd)"

text \<open>A panic of \<open>Remotes\<close> passes through its callers; any other failure is theirs to name.\<close>

definition or_else :: "'a res \<Rightarrow> goerror \<Rightarrow> 'a res" where
  "or_else r e = (case r of Inl (Panic m) \<Rightarrow> Inl (Panic m) | Inl _ \<Rightarrow> Inl e | Inr x \<Rightarrow> Inr x)"

definition Receipt_Matches :: "(rat \<Rightarrow> rat) \<Rightarrow> RemoteReceipt \<Rightarrow> jobject \<Rightarrow> bool res" where
  "Receipt_Matches rnd r endpoint =
     (if \<not> Receipt_Validate r then Inr False
      else case Remotes rnd endpoint of
          Inl (Panic m) \<Rightarrow> Inl (Panic m)
        | Inl _ \<Rightarrow> Inr False
        | Inr rs \<Rightarrow> Inr (list_ex (\<lambda>remote. remote = RRemote r) rs))"

definition SameRemoteHost :: "(rat \<Rightarrow> rat) \<Rightarrow> jobject \<Rightarrow> string res" where
  "SameRemoteHost rnd endpoint =
     res_bind (or_else (Remotes rnd endpoint) errPairing) (\<lambda>rs.
       if rs = [] \<or> list_ex (\<lambda>r. RHost r \<noteq> RHost (hd rs)) rs then Inl errPairing else Inr (RHost (hd rs)))"

section \<open>Response probes\<close>

record ResponseEndpoint =
  URL :: string
  ServerName :: string

type_synonym ResponseProbes = "(string \<times> ResponseEndpoint) list"

definition label_char :: "char \<Rightarrow> bool" where
  "label_char c \<longleftrightarrow> (CHR ''a'' \<le> c \<and> c \<le> CHR ''z'') \<or> (CHR ''A'' \<le> c \<and> c \<le> CHR ''Z'')
     \<or> is_digit_char c \<or> c = CHR ''-''"

definition label_ok :: "string \<Rightarrow> bool" where
  "label_ok l \<longleftrightarrow> \<not> (l = [] \<or> length l > 63 \<or> hd l = CHR ''-'' \<or> last l = CHR ''-'') \<and> list_all label_char l"

definition server_name_ok :: "string \<Rightarrow> bool" where
  "server_name_ok name \<longleftrightarrow>
     \<not> (length name > 253 \<or> TrimSpace name \<noteq> name \<or> last name = CHR ''.'' \<or> EqualFold name ''localhost'')
     \<and> ParseAddr name = None \<and> list_all label_ok (Split1 name CHR ''.'')"

definition port_in_range :: "string \<Rightarrow> bool" where
  "port_in_range t = (case Atoi t of None \<Rightarrow> False | Some port \<Rightarrow> 1 \<le> port \<and> port \<le> 65535)"

definition Probe_Validate :: "url_parser \<Rightarrow> ResponseEndpoint \<Rightarrow> string \<Rightarrow> bool" where
  "Probe_Validate url_parse probe host =
     (case url_parse (URL probe) of
        None \<Rightarrow> False
      | Some u \<Rightarrow>
          \<not> (\<not> remotePublicHost host \<or> length (URL probe) > 2048 \<or> TrimSpace (URL probe) \<noteq> URL probe
             \<or> Scheme u \<noteq> ''https'' \<or> User u \<or> Fragment u \<noteq> [] \<or> RawQuery u \<noteq> [] \<or> ForceQuery u \<or> RawPath u \<noteq> []
             \<or> Opaque u \<noteq> [] \<or> Hostname u \<noteq> host \<or> (Host u \<noteq> [] \<and> last (Host u) = CHR '':''))
          \<and> (Port u \<noteq> [] \<longrightarrow> port_in_range (Port u))
          \<and> (ServerName probe \<noteq> [] \<longrightarrow> server_name_ok (ServerName probe)))"

definition Probes_Validate :: "url_parser \<Rightarrow> (rat \<Rightarrow> rat) \<Rightarrow> ResponseProbes \<Rightarrow> jobject \<Rightarrow> unit res" where
  "Probes_Validate url_parse rnd probes endpoint =
     res_bind (or_else (Remotes rnd endpoint) errRemote) (\<lambda>remotes.
       if length probes < 2 \<or> length probes > 16
          \<or> list_ex (\<lambda>r. case map_of probes (RHost r) of
                 None \<Rightarrow> True | Some probe \<Rightarrow> \<not> Probe_Validate url_parse probe (RHost r)) remotes
          \<or> card (set (map RHost remotes)) \<noteq> length probes
       then Inl errRemote else Inr ())"

section \<open>Start Layers\<close>

definition MaxStartLayersBytes :: int where
  "MaxStartLayersBytes = 128 * 1024"

definition errStartLayers :: goerror where
  "errStartLayers = Err ''OpenVPN Start Layers require the exact captured private provision for every original remote host''"

record StartLayer =
  LMode :: string
  LAPI :: string
  LTransport :: jobject

type_synonym StartLayers = "(string \<times> StartLayer) list"

definition validStartLayerMode :: "string \<Rightarrow> bool" where
  "validStartLayerMode mode \<longleftrightarrow> mode = ''aes-256-gcm'' \<or> mode = ''aes-256-gcm+xor-whitening''"

definition ident_char :: "char \<Rightarrow> bool" where
  "ident_char c \<longleftrightarrow> label_char c \<or> c = CHR ''_'' \<or> c = CHR ''.''"

definition startLayerIdent :: "string \<Rightarrow> bool" where
  "startLayerIdent v \<longleftrightarrow> \<not> (v = [] \<or> length v > 128) \<and> list_all ident_char v"

text \<open>The private API of a layer: an explicit literal private address and port, nothing else.\<close>

definition layer_api_ok :: "url_parser \<Rightarrow> string \<Rightarrow> bool" where
  "layer_api_ok url_parse text =
     (case url_parse text of
        None \<Rightarrow> False
      | Some api \<Rightarrow>
          \<not> ((Scheme api \<noteq> ''http'' \<and> Scheme api \<noteq> ''https'') \<or> User api \<or> RawQuery api \<noteq> [] \<or> ForceQuery api
             \<or> Fragment api \<noteq> [] \<or> RawPath api \<noteq> [] \<or> Opaque api \<noteq> [] \<or> (Path api \<noteq> [] \<and> Path api \<noteq> ''/''))
          \<and> (case (ParseAddr (Hostname api), Atoi (Port api)) of
               (Some address, Some port) \<Rightarrow>
                 \<not> (Port api \<noteq> Itoa port \<or> port < 1 \<or> port > 65535 \<or> Is4In6 address \<or> Zone address \<noteq> []
                    \<or> \<not> IsPrivate address \<or> addr_String address \<noteq> Hostname api)
             | _ \<Rightarrow> False))"

text \<open>The outer transport of a layer, for the original host it was provisioned for.\<close>

definition layer_transport_ok :: "(rat \<Rightarrow> rat) \<Rightarrow> jobject \<Rightarrow> string \<Rightarrow> bool" where
  "layer_transport_ok rnd outer host \<longleftrightarrow>
     length outer = 6 \<and> iface_eq (jget outer ''type'') (Some (JStr ''shadowsocks''))
     \<and> iface_eq (jget outer ''method'') (Some (JStr ''2022-blake3-aes-256-gcm''))
     \<and> iface_eq (jget outer ''server'') (Some (JStr host))
     \<and> (case (jget outer ''tag'', jget outer ''server_port'', jget outer ''password'') of
          (Some (JStr tag), Some (JNum t), Some (JStr password)) \<Rightarrow>
            startLayerIdent tag
            \<and> (case float_int rnd t of None \<Rightarrow> False | Some port \<Rightarrow> 1 \<le> port \<and> port \<le> 65535)
            \<and> password \<noteq> [] \<and> int (length password) \<le> 4096 \<and> list_all key32 (Split1 password CHR '':'')
        | _ \<Rightarrow> False)"

definition Layer_Validate :: "url_parser \<Rightarrow> (rat \<Rightarrow> rat) \<Rightarrow> StartLayer \<Rightarrow> string \<Rightarrow> string \<Rightarrow> bool" where
  "Layer_Validate url_parse rnd layer host selectedMode \<longleftrightarrow>
     \<not> (\<not> remotePublicHost host \<or> \<not> validStartLayerMode selectedMode \<or> LMode layer \<noteq> selectedMode
        \<or> int (length (LAPI layer)) > 2048 \<or> TrimSpace (LAPI layer) \<noteq> LAPI layer)
     \<and> layer_api_ok url_parse (LAPI layer) \<and> layer_transport_ok rnd (LTransport layer) host"

definition Layer_UnmarshalJSON :: "url_parser \<Rightarrow> (rat \<Rightarrow> rat) \<Rightarrow> json \<Rightarrow> StartLayer res" where
  "Layer_UnmarshalJSON url_parse rnd v =
     (if int (length (json_encode v)) > 16 * 1024 then Inl errStartLayers
      else case pairing_value v of
        Inl _ \<Rightarrow> Inl errStartLayers
      | Inr obj \<Rightarrow>
          if length obj \<noteq> 3 then Inl errStartLayers
          else (case (jget obj ''mode'', jget obj ''api'', jget obj ''transport'') of
              (Some (JStr mode), Some (JStr api), Some (JObj transport)) \<Rightarrow>
                (let layer = \<lparr>LMode = mode, LAPI = api, LTransport = transport\<rparr> in
                 case jget transport ''server'' of
                   Some (JStr host) \<Rightarrow>
                     if Layer_Validate url_parse rnd layer host mode then Inr layer else Inl errStartLayers
                 | _ \<Rightarrow> Inl errStartLayers)
            | _ \<Rightarrow> Inl errStartLayers))"

fun decode_layers :: "url_parser \<Rightarrow> (rat \<Rightarrow> rat) \<Rightarrow> string \<Rightarrow> jobject \<Rightarrow> StartLayers res" where
  "decode_layers url_parse rnd mode [] = Inr []"
| "decode_layers url_parse rnd mode ((host, v) # ms) =
     res_bind (Layer_UnmarshalJSON url_parse rnd v) (\<lambda>layer.
       let mode = (if mode = [] then LMode layer else mode) in
       if \<not> Layer_Validate url_parse rnd layer host mode then Inl errStartLayers
       else res_bind (decode_layers url_parse rnd mode ms) (\<lambda>ls. Inr ((host, layer) # ls)))"

definition Layers_UnmarshalJSON :: "url_parser \<Rightarrow> (rat \<Rightarrow> rat) \<Rightarrow> json \<Rightarrow> StartLayers res" where
  "Layers_UnmarshalJSON url_parse rnd v =
     (if int (length (json_encode v)) > MaxStartLayersBytes then Inl errStartLayers
      else case pairing_value v of
        Inl _ \<Rightarrow> Inl errStartLayers
      | Inr obj \<Rightarrow>
          if length obj < 1 \<or> length obj > 16 then Inl errStartLayers
          else decode_layers url_parse rnd [] obj)"

fun layers_mode_from :: "string \<Rightarrow> StartLayers \<Rightarrow> string" where
  "layers_mode_from mode [] = mode"
| "layers_mode_from mode ((h, layer) # ls) =
     (if \<not> validStartLayerMode (LMode layer) \<or> (mode \<noteq> [] \<and> mode \<noteq> LMode layer) then []
      else layers_mode_from (LMode layer) ls)"

definition Layers_Mode :: "StartLayers \<Rightarrow> string" where
  "Layers_Mode layers = layers_mode_from [] layers"

definition layer_password :: "StartLayer \<Rightarrow> string" where
  "layer_password layer = str_of (jget (LTransport layer) ''password'')"

definition layer_keys :: "StartLayer \<Rightarrow> string list" where
  "layer_keys layer = Split1 (layer_password layer) CHR '':''"

definition layer_overhead :: "url_parser \<Rightarrow> StartLayer \<Rightarrow> int" where
  "layer_overhead url_parse layer =
     (let hostname = (case url_parse (LAPI layer) of Some api \<Rightarrow> Hostname api | None \<Rightarrow> []);
          addressBytes = (if Contains hostname '':'' then 19 else 7);
          keys = int (length (layer_keys layer))
      in max (43 + addressBytes + 16 * (keys - 1)) (51 + addressBytes))"

fun max_overhead :: "url_parser \<Rightarrow> (rat \<Rightarrow> rat) \<Rightarrow> string \<Rightarrow> StartLayers \<Rightarrow> int \<Rightarrow> int res" where
  "max_overhead url_parse rnd mode [] maximum = Inr maximum"
| "max_overhead url_parse rnd mode ((host, layer) # ls) maximum =
     (if \<not> Layer_Validate url_parse rnd layer host mode then Inl errStartLayers
      else max_overhead url_parse rnd mode ls (max maximum (layer_overhead url_parse layer)))"

definition DatagramOverhead :: "url_parser \<Rightarrow> (rat \<Rightarrow> rat) \<Rightarrow> StartLayers \<Rightarrow> int res" where
  "DatagramOverhead url_parse rnd layers =
     (let mode = Layers_Mode layers in
      if length layers < 2 \<or> length layers > 16 \<or> \<not> validStartLayerMode mode then Inl errStartLayers
      else max_overhead url_parse rnd mode layers 0)"

definition layer_json :: "StartLayer \<Rightarrow> json" where
  "layer_json l = JObj [(''mode'', JStr (LMode l)), (''api'', JStr (LAPI l)), (''transport'', JObj (LTransport l))]"

definition layers_json :: "StartLayers \<Rightarrow> json" where
  "layers_json ls = JObj (map (\<lambda>(h, l). (h, layer_json l)) ls)"

definition Layers_Validate ::
  "url_parser \<Rightarrow> (rat \<Rightarrow> rat) \<Rightarrow> StartLayers \<Rightarrow> jobject \<Rightarrow> ResponseProbes \<Rightarrow> string \<Rightarrow> unit res" where
  "Layers_Validate url_parse rnd layers endpoint probes selectedMode =
     (if length layers < 2 \<or> length layers > 16 \<or> length layers \<noteq> length probes then Inl errStartLayers
      else res_bind (or_else (Probes_Validate url_parse rnd probes endpoint) errStartLayers) (\<lambda>_.
        if \<not> validStartLayerMode selectedMode \<or> int (length (json_encode (layers_json layers))) > MaxStartLayersBytes
           \<or> list_ex (\<lambda>(host, _). case map_of layers host of
                 None \<Rightarrow> True | Some layer \<Rightarrow> \<not> Layer_Validate url_parse rnd layer host selectedMode) probes
        then Inl errStartLayers else Inr ()))"

section \<open>The compiled layer map\<close>

definition LayerMapType :: string where
  "LayerMapType = ''routervpn-openvpn-layer-map''"

record LayerMap =
  MMode :: string
  MRemotes :: "Remote list"
  MLayers :: StartLayers
  MDetour :: string

definition LayerMap_Validate :: "url_parser \<Rightarrow> (rat \<Rightarrow> rat) \<Rightarrow> LayerMap \<Rightarrow> bool" where
  "LayerMap_Validate url_parse rnd m \<longleftrightarrow>
     \<not> (\<not> validStartLayerMode (MMode m) \<or> length (MRemotes m) < 1 \<or> length (MRemotes m) > 16
        \<or> length (MLayers m) < 1 \<or> length (MLayers m) > 16 \<or> (MDetour m \<noteq> [] \<and> \<not> startLayerIdent (MDetour m)))
     \<and> list_all (\<lambda>remote. Remote_Validate remote \<and> (case map_of (MLayers m) (RHost remote) of
            None \<Rightarrow> False | Some layer \<Rightarrow> Layer_Validate url_parse rnd layer (RHost remote) (MMode m))) (MRemotes m)
     \<and> card (set (map RHost (MRemotes m))) = length (MLayers m)
     \<and> int (length (json_encode (layers_json (MLayers m)))) \<le> MaxStartLayersBytes"

text \<open>A remote of the map: exactly its three members; the port has to be an integer literal.\<close>

definition map_remote :: "json \<Rightarrow> Remote res" where
  "map_remote v =
     (case v of
        JObj remote \<Rightarrow>
          if length remote \<noteq> 3 then Inl errStartLayers
          else (case (jget remote ''host'', jget remote ''network'', jget remote ''port'') of
              (Some (JStr host), Some (JStr network), Some (JNum t)) \<Rightarrow>
                (case Atoi t of
                   None \<Rightarrow> Inl errStartLayers
                 | Some port \<Rightarrow> Inr \<lparr>RHost = host, RPort = port, RNetwork = network\<rparr>)
            | _ \<Rightarrow> Inl errStartLayers)
      | _ \<Rightarrow> Inl errStartLayers)"

fun map_remotes :: "json list \<Rightarrow> Remote list res" where
  "map_remotes [] = Inr []"
| "map_remotes (v # vs) = res_bind (map_remote v) (\<lambda>r. res_bind (map_remotes vs) (\<lambda>rs. Inr (r # rs)))"

text \<open>
  The mapping is read from the text of an outbound that was just encoded with \<open>json.Marshal\<close>, so the bound on the
  length of the text is a bound on the encoding of the value.
\<close>

definition LayerMap_UnmarshalJSON :: "url_parser \<Rightarrow> (rat \<Rightarrow> rat) \<Rightarrow> json \<Rightarrow> LayerMap res" where
  "LayerMap_UnmarshalJSON url_parse rnd v =
     (if int (length (json_encode v)) > MaxStartLayersBytes + 16 * 1024 then Inl errStartLayers
      else case pairing_value v of
        Inl _ \<Rightarrow> Inl errStartLayers
      | Inr members \<Rightarrow>
          if length members < 3 \<or> length members > 4
             \<or> \<not> list_all (\<lambda>(k, _). k = ''mode'' \<or> k = ''remotes'' \<or> k = ''layers'' \<or> k = ''detour'') members
             \<or> (jget members ''detour'' \<noteq> None \<and> \<not> is_str (jget members ''detour''))
          then Inl errStartLayers
          else (case jget members ''remotes'' of
              Some (JArr remotes) \<Rightarrow>
                if length remotes < 1 \<or> length remotes > 16 then Inl errStartLayers
                else res_bind (map_remotes remotes) (\<lambda>rs.
                  res_bind (case jget members ''mode'' of
                      Some (JStr m) \<Rightarrow> Inr m | None \<Rightarrow> Inr [] | Some JNull \<Rightarrow> Inr [] | _ \<Rightarrow> Inl errStartLayers) (\<lambda>mode.
                  res_bind (case jget members ''layers'' of
                      Some v \<Rightarrow> Layers_UnmarshalJSON url_parse rnd v | None \<Rightarrow> Inr []) (\<lambda>layers.
                  let m = \<lparr>MMode = mode, MRemotes = rs, MLayers = layers, MDetour = str_of (jget members ''detour'')\<rparr>
                  in if LayerMap_Validate url_parse rnd m then Inr m else Inl errStartLayers)))
            | _ \<Rightarrow> Inl errStartLayers))"

section \<open>Pairing keys\<close>

text \<open>\<open>CanonicalPairingPublic\<close>: 32 bytes, little endian, below the field prime.\<close>

definition byte_limit :: "nat \<Rightarrow> nat" where
  "byte_limit i = (if i = 31 then 127 else 255)"

fun canonical_scan :: "nat list \<Rightarrow> nat \<Rightarrow> bool" where
  "canonical_scan raw 0 = (raw ! 0 < 237)"
| "canonical_scan raw (Suc i) = (if raw ! Suc i < byte_limit (Suc i) then True else canonical_scan raw i)"

definition CanonicalPairingPublic :: "string \<Rightarrow> bool" where
  "CanonicalPairingPublic v =
     (case b64_decode v of
        None \<Rightarrow> False
      | Some raw \<Rightarrow> if length raw \<noteq> 32 \<or> raw ! 31 \<ge> 128 then False else canonical_scan raw 31)"

section \<open>Canonical public keys\<close>

definition le_value :: "nat list \<Rightarrow> nat \<Rightarrow> nat" where
  "le_value raw n = (\<Sum>j<n. raw ! j * 256 ^ j)"

lemma le_value_Suc: "le_value raw (Suc n) = raw ! n * 256 ^ n + le_value raw n"
  by (simp add: le_value_def)

lemma le_value_bound:
  "(\<And>j. j < n \<Longrightarrow> raw ! j < 256) \<Longrightarrow> le_value raw n < 256 ^ n"
proof (induction n)
  case 0
  then show ?case by (simp add: le_value_def)
next
  case (Suc n)
  have "raw ! n * 256 ^ n \<le> 255 * 256 ^ n" using Suc.prems [of n] by (intro mult_right_mono) auto
  moreover have "le_value raw n < 256 ^ n" by (rule Suc.IH) (use Suc.prems in auto)
  ultimately show ?case unfolding le_value_Suc power_Suc by linarith
qed

definition prime_bytes :: "nat list" where
  "prime_bytes = 237 # replicate 30 255 @ [127]"

lemma prime_bytes_nth: "0 < i \<Longrightarrow> i < 32 \<Longrightarrow> prime_bytes ! i = byte_limit i"
  by (auto simp: prime_bytes_def byte_limit_def nth_Cons nth_append split: nat.split)

lemma prime_bytes_low: "i < 31 \<Longrightarrow> le_value prime_bytes (Suc i) + 19 = 256 ^ Suc i"
proof (induction i)
  case 0
  then show ?case by (simp add: le_value_def prime_bytes_def)
next
  case (Suc i)
  then show ?case
    using prime_bytes_nth [of "Suc i"] by (simp add: le_value_Suc [of _ "Suc i"] byte_limit_def)
qed

lemma prime_bytes_value: "le_value prime_bytes 32 = 2 ^ 255 - 19"
  using prime_bytes_low [of 30] prime_bytes_nth [of 31] le_value_Suc [of prime_bytes 31]
  by (simp add: byte_limit_def)

lemma canonical_scan_value:
  assumes "\<And>j. j < 32 \<Longrightarrow> raw ! j \<le> 255" and "raw ! 31 < 128" and "i < 32"
  shows "canonical_scan raw i \<longleftrightarrow> le_value raw (Suc i) < le_value prime_bytes (Suc i)"
  using assms(3)
proof (induction i)
  case 0
  then show ?case by (simp add: le_value_def prime_bytes_def)
next
  case (Suc i)
  have below: "le_value raw (Suc i) < 256 ^ Suc i"
  proof (rule le_value_bound)
    fix j assume "j < Suc i"
    then show "raw ! j < 256" using assms(1) [of j] Suc.prems by simp
  qed
  have top: "raw ! Suc i \<le> byte_limit (Suc i)"
    using assms(1) [of "Suc i"] assms(2) Suc.prems by (cases "Suc i = 31") (auto simp: byte_limit_def)
  have p: "le_value prime_bytes (Suc (Suc i)) = byte_limit (Suc i) * 256 ^ Suc i + le_value prime_bytes (Suc i)"
    using prime_bytes_nth [of "Suc i"] Suc.prems by (simp add: le_value_Suc [of _ "Suc i"])
  show ?case
  proof (cases "raw ! Suc i < byte_limit (Suc i)")
    case True
    then have "Suc (raw ! Suc i) * 256 ^ Suc i \<le> byte_limit (Suc i) * 256 ^ Suc i"
      by (intro mult_right_mono) auto
    then have "le_value raw (Suc (Suc i)) < le_value prime_bytes (Suc (Suc i))"
      using below p by (simp add: le_value_Suc [of raw "Suc i"])
    with True show ?thesis by simp
  next
    case False
    with top have "raw ! Suc i = byte_limit (Suc i)" by simp
    with False Suc p show ?thesis by (simp add: le_value_Suc [of raw "Suc i"])
  qed
qed

lemma b64_digit_bound: "b64_digit c = Some x \<Longrightarrow> x < 64"
  by (auto simp: b64_digit_def Let_def split: if_splits)

lemma b64_decode_bytes: "b64_decode s = Some raw \<Longrightarrow> \<forall>x \<in> set raw. x \<le> 255"
proof (induction s arbitrary: raw rule: b64_decode.induct)
  case (2 a b c d s)
  then show ?case
    by (auto split: option.splits if_splits dest!: b64_digit_bound)
qed auto

text \<open>
  C8. A pairing public key is accepted exactly when its canonical base64 text holds 32 bytes whose
  little-endian value is below the Curve25519 prime, so every field element has one accepted text
  and no alias of a key passes as another key.
\<close>

theorem canonical_public_below_prime:
  "CanonicalPairingPublic v \<longleftrightarrow>
     (\<exists>raw. b64_decode v = Some raw \<and> length raw = 32 \<and> le_value raw 32 < 2 ^ 255 - 19)"
proof (cases "b64_decode v")
  case None
  then show ?thesis by (simp add: CanonicalPairingPublic_def)
next
  case (Some raw)
  have bytes: "raw ! j \<le> 255" if "j < 32" "length raw = 32" for j
    using b64_decode_bytes [OF Some] that by simp
  show ?thesis
  proof (cases "length raw = 32 \<and> raw ! 31 < 128")
    case True
    then have "canonical_scan raw 31 \<longleftrightarrow> le_value raw 32 < 2 ^ 255 - 19"
      using canonical_scan_value [of raw 31] bytes prime_bytes_value by simp
    with True Some show ?thesis by (auto simp: CanonicalPairingPublic_def)
  next
    case False
    have "le_value raw 32 \<ge> 128 * 256 ^ 31" if "raw ! 31 \<ge> 128"
      using that le_value_Suc [of raw 31] by simp
    then have "raw ! 31 \<ge> 128 \<Longrightarrow> \<not> le_value raw 32 < 2 ^ 255 - 19" by simp
    with False Some show ?thesis by (auto simp: CanonicalPairingPublic_def)
  qed
qed

section \<open>What an accepted layer map guarantees\<close>

lemma or_else_Inr [simp]: "or_else r e = Inr x \<longleftrightarrow> r = Inr x"
  by (auto simp: or_else_def split: sum.splits goerror.splits)

lemma pairing_value_distinct: "pairing_value v = Inr ms \<Longrightarrow> distinct (map fst ms)"
  by (auto simp: pairing_value_def split: json.splits if_splits)

lemma decode_layers_keys: "decode_layers up rnd mode ms = Inr ls \<Longrightarrow> map fst ls = map fst ms"
  by (induction ms arbitrary: mode ls) (auto simp: res_bind_Inr_iff Let_def split: if_splits)

lemma Layers_UnmarshalJSON_distinct:
  "Layers_UnmarshalJSON up rnd v = Inr ls \<Longrightarrow> distinct (map fst ls)"
  by (auto simp: Layers_UnmarshalJSON_def decode_layers_keys dest: pairing_value_distinct split: sum.splits if_splits)

lemma LayerMap_UnmarshalJSON_valid:
  assumes "LayerMap_UnmarshalJSON up rnd v = Inr m"
  shows "LayerMap_Validate up rnd m \<and> distinct (map fst (MLayers m))"
proof -
  obtain members where ms: "pairing_value v = Inr members"
    using assms by (auto simp: LayerMap_UnmarshalJSON_def split: if_splits sum.splits)
  obtain remotes where rs: "jget members ''remotes'' = Some (JArr remotes)"
    using assms ms by (auto simp: LayerMap_UnmarshalJSON_def split: if_splits option.splits json.splits)
  obtain rm mode layers where parts: "map_remotes remotes = Inr rm"
      "(case jget members ''layers'' of Some v \<Rightarrow> Layers_UnmarshalJSON up rnd v | None \<Rightarrow> Inr []) = Inr layers"
      "m = \<lparr>MMode = mode, MRemotes = rm, MLayers = layers, MDetour = str_of (jget members ''detour'')\<rparr>"
      "LayerMap_Validate up rnd m"
    using assms ms rs by (auto simp: LayerMap_UnmarshalJSON_def res_bind_Inr_iff Let_def split: if_splits)
  have "distinct (map fst layers)"
    using parts(2) by (auto dest: Layers_UnmarshalJSON_distinct split: option.splits)
  with parts show ?thesis by simp
qed

lemma layer_transport_server:
  "layer_transport_ok rnd outer host \<Longrightarrow> jget outer ''server'' = Some (JStr host)"
  by (auto simp: layer_transport_ok_def iface_eq_def iface_norm_def split: if_splits)

lemma LayerMap_Validate_remote:
  assumes "LayerMap_Validate up rnd m" and "r \<in> set (MRemotes m)"
  obtains layer where "map_of (MLayers m) (RHost r) = Some layer" "Remote_Validate r"
    "Layer_Validate up rnd layer (RHost r) (MMode m)"
proof -
  have "Remote_Validate r \<and> (case map_of (MLayers m) (RHost r) of
      None \<Rightarrow> False | Some layer \<Rightarrow> Layer_Validate up rnd layer (RHost r) (MMode m))"
    using assms unfolding LayerMap_Validate_def list_all_iff by blast
  then show thesis using that by (auto split: option.splits)
qed

lemma LayerMap_Validate_hosts:
  assumes "LayerMap_Validate up rnd m" and "distinct (map fst (MLayers m))"
  shows "set (map fst (MLayers m)) = set (map RHost (MRemotes m))"
proof -
  have sub: "set (map RHost (MRemotes m)) \<subseteq> set (map fst (MLayers m))"
  proof
    fix h assume "h \<in> set (map RHost (MRemotes m))"
    then obtain r where r: "r \<in> set (MRemotes m)" "h = RHost r" by auto
    obtain layer where "map_of (MLayers m) (RHost r) = Some layer"
      by (rule LayerMap_Validate_remote [OF assms(1) r(1)])
    then show "h \<in> set (map fst (MLayers m))" using r(2) by (metis map_of_eq_None_iff option.distinct(1) set_map)
  qed
  have "card (set (map fst (MLayers m))) = card (set (map RHost (MRemotes m)))"
    using assms distinct_card [OF assms(2)] by (simp add: LayerMap_Validate_def)
  with sub show ?thesis by (metis List.finite_set card_subset_eq)
qed

text \<open>A concrete map of two hosts over a private API at \<open>10.0.0.1:8080\<close>.\<close>

definition demo_url :: url_parser where
  "demo_url t = Some \<lparr>Scheme = ''http'', Opaque = [], User = False, Host = ''10.0.0.1:8080'', Path = [],
     RawPath = [], ForceQuery = False, RawQuery = [], Fragment = []\<rparr>"

definition demo_layer :: "string \<Rightarrow> json" where
  "demo_layer host = JObj [(''mode'', JStr ''aes-256-gcm''), (''api'', JStr ''http://10.0.0.1:8080''),
     (''transport'', JObj [(''type'', JStr ''shadowsocks''), (''method'', JStr ''2022-blake3-aes-256-gcm''),
        (''server'', JStr host), (''tag'', JStr ''outer''), (''server_port'', JNum ''8388''),
        (''password'', JStr (replicate 43 CHR ''A'' @ ''=''))])]"

definition demo_remote :: "string \<Rightarrow> json" where
  "demo_remote host = JObj [(''host'', JStr host), (''network'', JStr ''udp''), (''port'', JNum ''1194'')]"

definition demo_map :: json where
  "demo_map = JObj [(''mode'', JStr ''aes-256-gcm''),
     (''remotes'', JArr [demo_remote ''192.0.2.60'', demo_remote ''192.0.2.61'']),
     (''layers'', JObj [(''192.0.2.60'', demo_layer ''192.0.2.60''), (''192.0.2.61'', demo_layer ''192.0.2.61'')])]"

definition demo_layer_map :: "LayerMap res" where
  "demo_layer_map = LayerMap_UnmarshalJSON demo_url (\<lambda>x. x) demo_map"

lemma demo_map_accepted: "is_ok demo_layer_map"
  by code_simp

text \<open>
  C9. An accepted layer map is complete and private to its hosts: there is exactly one Start Layer
  per original remote host and none for any other host, every remote is a public literal address with
  a valid port and protocol, and the layer used for a remote is provisioned for that very host in the
  selected mode, so a layer can never send a remote's traffic to another provider.
\<close>

theorem layer_map_covers_remotes:
  assumes "LayerMap_UnmarshalJSON up rnd v = Inr m"
  shows "distinct (map fst (MLayers m)) \<and> set (map fst (MLayers m)) = set (map RHost (MRemotes m))
    \<and> (\<forall>r \<in> set (MRemotes m). remotePublicHost (RHost r) \<and> 1 \<le> RPort r \<and> RPort r \<le> 65535
        \<and> (\<exists>layer. map_of (MLayers m) (RHost r) = Some layer \<and> LMode layer = MMode m
            \<and> jget (LTransport layer) ''server'' = Some (JStr (RHost r))))"
proof -
  note valid = LayerMap_UnmarshalJSON_valid [OF assms]
  have "remotePublicHost (RHost r) \<and> 1 \<le> RPort r \<and> RPort r \<le> 65535
        \<and> (\<exists>layer. map_of (MLayers m) (RHost r) = Some layer \<and> LMode layer = MMode m
            \<and> jget (LTransport layer) ''server'' = Some (JStr (RHost r)))"
    if r: "r \<in> set (MRemotes m)" for r
  proof -
    obtain layer where "map_of (MLayers m) (RHost r) = Some layer" "Remote_Validate r"
      "Layer_Validate up rnd layer (RHost r) (MMode m)"
      by (rule LayerMap_Validate_remote [OF conjunct1 [OF valid] r])
    then show ?thesis
      using layer_transport_server [of rnd "LTransport layer" "RHost r"]
      by (simp add: Remote_Validate_def Layer_Validate_def)
  qed
  with valid LayerMap_Validate_hosts show ?thesis by blast
qed

theorem layer_map_covers_remotes_witness:
  "distinct (map fst (MLayers (projr demo_layer_map)))
    \<and> set (map fst (MLayers (projr demo_layer_map))) = set (map RHost (MRemotes (projr demo_layer_map)))"
proof -
  obtain m where m: "demo_layer_map = Inr m" using demo_map_accepted by (metis is_ok_simps(1) sum.exhaust)
  from layer_map_covers_remotes [OF m [unfolded demo_layer_map_def]] show ?thesis unfolding m sum.sel(2) by blast
qed

section \<open>The datagram overhead\<close>

lemma max_overhead_Inr:
  "max_overhead up rnd mode ls n = Inr k \<Longrightarrow>
   n \<le> k \<and> (\<forall>hl \<in> set ls. layer_overhead up (snd hl) \<le> k \<and> Layer_Validate up rnd (snd hl) (fst hl) mode)
   \<and> (k = n \<or> (\<exists>hl \<in> set ls. k = layer_overhead up (snd hl)))"
proof (induction ls arbitrary: n)
  case (Cons hl ls)
  obtain h l where hl: "hl = (h, l)" by (cases hl)
  have step: "max_overhead up rnd mode ls (max n (layer_overhead up l)) = Inr k" "Layer_Validate up rnd l h mode"
    using Cons.prems by (auto simp: hl split: if_splits)
  show ?case using Cons.IH [OF step(1)] step(2) by (auto simp: hl max_def split: if_splits)
qed simp

lemma layer_overhead_pos: "58 \<le> layer_overhead up layer"
  by (simp add: layer_overhead_def Let_def max_def)

text \<open>
  \<open>DatagramOverhead\<close> is the exact worst case over the hosts: every layer is valid for its host,
  none adds more bytes to a datagram than the result, and one of them adds exactly that many.
\<close>

theorem datagram_overhead_is_maximum:
  assumes "DatagramOverhead up rnd layers = Inr n"
  shows "(\<forall>(h, l) \<in> set layers. Layer_Validate up rnd l h (Layers_Mode layers) \<and> layer_overhead up l \<le> n)
    \<and> (\<exists>(h, l) \<in> set layers. layer_overhead up l = n) \<and> 58 \<le> n"
proof -
  have run: "max_overhead up rnd (Layers_Mode layers) layers 0 = Inr n" and two: "2 \<le> length layers"
    using assms by (auto simp: DatagramOverhead_def Let_def split: if_splits)
  note facts = max_overhead_Inr [OF run]
  obtain h l where hl: "(h, l) \<in> set layers" using two by (cases layers) auto
  with facts layer_overhead_pos [of up l] have pos: "58 \<le> n" by fastforce
  then have "\<exists>(h, l) \<in> set layers. layer_overhead up l = n" using facts by fastforce
  with facts pos show ?thesis by fastforce
qed

definition demo_layers :: StartLayers where
  "demo_layers = MLayers (projr demo_layer_map)"

lemma demo_overhead: "DatagramOverhead demo_url (\<lambda>x. x) demo_layers = Inr 58"
  by code_simp

theorem datagram_overhead_is_maximum_witness:
  "\<exists>(h, l) \<in> set demo_layers. layer_overhead demo_url l = 58"
  using datagram_overhead_is_maximum [OF demo_overhead] by blast

text \<open>
  A map with a single host is a valid compiled map, but \<open>DatagramOverhead\<close> asks for two layers, so no
  overhead can be computed for it.
\<close>

lemma single_host_map_has_no_overhead:
  "length (MLayers m) = 1 \<Longrightarrow> DatagramOverhead up rnd (MLayers m) = Inl errStartLayers"
  by (simp add: DatagramOverhead_def Let_def)

end
