(* ===== verification/MtuPolicy.thy ===== *)
theory MtuPolicy
  imports AwgPolicy OvpnLayers
begin

text \<open>
  \<^verbatim>\<open>src/internal/mobilemtu\<close>: the strict JSON reader (\<open>json.go\<close>), the node profile, the MTU plan and
  its candidates (\<open>policy.go\<close>) and the bound of a mapped OpenVPN path (\<open>openvpn_layers.go\<close>).
  Parameters: \<open>url_parse\<close> and \<open>rnd\<close> as in \<open>OvpnLayers\<close>, \<open>validate_endpoint\<close> for
  \<open>nativeopenvpn.ValidateEndpoint\<close> (whether it accepts) and \<open>sha256_hex\<close> for the hex digest.
\<close>

section \<open>Strict JSON\<close>

text \<open>\<open>walk\<close>: no member twice in an object, nesting of at most 40.\<close>

fun walk :: "nat \<Rightarrow> json \<Rightarrow> bool"
and walk_elements :: "nat \<Rightarrow> json list \<Rightarrow> bool"
and walk_members :: "nat \<Rightarrow> jobject \<Rightarrow> bool" where
  "walk depth (JObj ms) = (depth \<le> 40 \<and> distinct (map fst ms) \<and> walk_members (Suc depth) ms)"
| "walk depth (JArr vs) = (depth \<le> 40 \<and> walk_elements (Suc depth) vs)"
| "walk depth v = (depth \<le> 40)"
| "walk_elements depth [] = True"
| "walk_elements depth (v # vs) = (walk depth v \<and> walk_elements depth vs)"
| "walk_members depth [] = True"
| "walk_members depth ((k, v) # ms) = (walk depth v \<and> walk_members depth ms)"

text \<open>The value \<open>strictJSON\<close> hands to its typed decoder, if it gets that far.\<close>

definition strictJSON :: "string \<Rightarrow> int \<Rightarrow> json option" where
  "strictJSON raw limit =
     (if raw = [] \<or> int (length raw) > limit \<or> \<not> ValidString raw then None
      else case json_decode raw of None \<Rightarrow> None | Some v \<Rightarrow> if walk 0 v then Some v else None)"

text \<open>\<open>strictJSON\<close> into a \<open>map[string]any\<close> that must not be \<open>nil\<close>.\<close>

definition strict_object :: "string \<Rightarrow> int \<Rightarrow> jobject option" where
  "strict_object raw limit = (case strictJSON raw limit of Some (JObj ms) \<Rightarrow> Some ms | _ \<Rightarrow> None)"

definition stringField :: "jobject \<Rightarrow> string \<Rightarrow> string \<Rightarrow> string res" where
  "stringField p key fallback =
     (case jget p key of
        None \<Rightarrow> Inr fallback
      | Some (JStr text) \<Rightarrow> Inr (TrimSpace text)
      | Some _ \<Rightarrow> fail ''invalid typed MTU profile setting'')"

definition boolField :: "jobject \<Rightarrow> string \<Rightarrow> bool res" where
  "boolField p key =
     (case jget p key of
        None \<Rightarrow> Inr False
      | Some (JBool b) \<Rightarrow> Inr b
      | Some _ \<Rightarrow> fail ''invalid typed MTU boolean'')"

definition intField :: "jobject \<Rightarrow> string \<Rightarrow> int \<Rightarrow> int res" where
  "intField p key fallback =
     (case jget p key of
        None \<Rightarrow> Inr fallback
      | Some (JNum t) \<Rightarrow>
          (case number_int64 t of
             None \<Rightarrow> fail ''MTU integer outside bounded range''
           | Some n \<Rightarrow> reject_if (n < 0 \<or> n > 65535) ''MTU integer outside bounded range'' (Inr n))
      | Some _ \<Rightarrow> fail ''invalid typed MTU number'')"

text \<open>The value of a call whose error is ignored.\<close>

definition val_or :: "'a \<Rightarrow> 'a res \<Rightarrow> 'a" where
  "val_or d r = (case r of Inl _ \<Rightarrow> d | Inr x \<Rightarrow> x)"

section \<open>Profiles\<close>

definition MinMTU :: int where "MinMTU = 1280"
definition MaxMTU :: int where "MaxMTU = 9000"
definition MaxCandidates :: nat where "MaxCandidates = 5"
definition ProbePort :: int where "ProbePort = 45999"

definition idPattern :: "string \<Rightarrow> bool" where
  "idPattern s \<longleftrightarrow> 1 \<le> length s \<and> length s \<le> 96 \<and> list_all ident_char s"

definition hex_lower :: "char \<Rightarrow> bool" where
  "hex_lower c \<longleftrightarrow> is_digit_char c \<or> (CHR ''a'' \<le> c \<and> c \<le> CHR ''f'')"

definition proofPattern :: "string \<Rightarrow> bool" where
  "proofPattern s \<longleftrightarrow> length s = 64 \<and> list_all hex_lower s"

definition requestPattern :: "string \<Rightarrow> bool" where
  "requestPattern s \<longleftrightarrow> length s = 32 \<and> list_all hex_lower s"

record Profile =
  ID :: string
  Proof :: string
  API :: string
  Token :: string
  Sink :: string
  Automatic :: bool
  Jumbo :: bool

definition privateIP :: "string \<Rightarrow> bool" where
  "privateIP host =
     (case ParseAddr host of
        None \<Rightarrow> False
      | Some ip \<Rightarrow> Zone ip = [] \<and> \<not> Is4In6 ip \<and> IsPrivate ip \<and> \<not> IsLoopback ip \<and> \<not> IsLinkLocalUnicast ip)"

definition token_char :: "char \<Rightarrow> bool" where
  "token_char c \<longleftrightarrow> \<not> (byte_of c < 32 \<or> byte_of c = 127)"

definition mtu_policy :: "jobject \<Rightarrow> string" where
  "mtu_policy object =
     (let mode = ToLower (val_or [] (stringField object ''mtu_policy'' ''auto'')) in
      if mode = [] then ''auto'' else mode)"

definition profile_strings :: "string list" where
  "profile_strings = [''id'', ''node_kind'', ''node_proof_id'', ''router_api'', ''api_token'', ''socks_host'',
     ''daita_host'', ''mtu_policy'']"

definition profile_api_ok :: "url option \<Rightarrow> bool" where
  "profile_api_ok parsed =
     (case parsed of
        None \<Rightarrow> False
      | Some api \<Rightarrow>
          \<not> ((Scheme api \<noteq> ''http'' \<and> Scheme api \<noteq> ''https'') \<or> User api \<or> RawQuery api \<noteq> [] \<or> Fragment api \<noteq> []
             \<or> RawPath api \<noteq> [] \<or> (Path api \<noteq> [] \<and> Path api \<noteq> ''/'') \<or> \<not> privateIP (Hostname api)))"

definition ReadProfile :: "url_parser \<Rightarrow> string \<Rightarrow> Profile res" where
  "ReadProfile url_parse raw =
     (case strict_object raw (256 * 1024) of
        None \<Rightarrow> fail ''invalid captured MTU node profile''
      | Some object \<Rightarrow>
        let text = (\<lambda>key. val_or [] (stringField object key []));
            kind = val_or [] (stringField object ''node_kind'' ''router-vpn'');
            mode = mtu_policy object;
            sink = (if text ''daita_host'' = [] then text ''socks_host'' else text ''daita_host'');
            profile = \<lparr>ID = text ''id'', Proof = text ''node_proof_id'', API = text ''router_api'',
                       Token = text ''api_token'', Sink = sink, Automatic = False, Jumbo = False\<rparr>
        in
        reject_if (list_ex (\<lambda>key. \<not> is_ok (stringField object key [])) profile_strings)
          ''invalid typed MTU profile setting''
        (reject_if (kind \<noteq> [] \<and> kind \<noteq> ''router-vpn'')
          ''private MTU measurements require a paired Router VPN node''
        (reject_if (mode \<noteq> ''auto'' \<and> mode \<noteq> ''default'' \<and> mode \<noteq> ''manual'' \<and> mode \<noteq> ''fixed'')
          ''unknown frozen MTU policy''
        (res_bind (boolField object ''jumbo_tun'') (\<lambda>jumbo.
         reject_if (intField object ''daita_port'' ProbePort \<noteq> Inr ProbePort)
           ''MTU uses only the paired node's existing private probe endpoint''
         (reject_if (\<not> idPattern (ID profile) \<or> \<not> proofPattern (Proof profile) \<or> \<not> privateIP (Sink profile)
              \<or> Token profile = [] \<or> length (Token profile) > 4096)
           ''MTU profile lacks exact private node authority''
         (reject_if (\<not> list_all token_char (Token profile)) ''invalid MTU credential''
         (reject_if (\<not> profile_api_ok (url_parse (API profile)))
           ''MTU requires an explicit private literal node API''
         (reject_if (\<not> port_in_range (Port (the (url_parse (API profile)))))
           ''MTU private API port is invalid''
         (Inr (profile\<lparr>Jumbo := jumbo, Automatic := (mode = ''auto'')\<rparr>)))))))))))"

section \<open>The plan\<close>

record Plan =
  Original :: int
  Ceiling :: int
  TunTag :: string
  source :: string

type_synonym nodes = "(string \<times> jobject) list"

definition type_is :: "jobject \<Rightarrow> string \<Rightarrow> bool" where
  "type_is m t = iface_eq (jget m ''type'') (Some (JStr t))"

definition mode_is :: "jobject \<Rightarrow> string \<Rightarrow> bool" where
  "mode_is m t = iface_eq (jget m ''mode'') (Some (JStr t))"

fun find_tun :: "json list \<Rightarrow> jobject option \<Rightarrow> jobject option res" where
  "find_tun [] tun = Inr tun"
| "find_tun (raw # rest) tun =
     (case raw of
        JObj inbound \<Rightarrow>
          if \<not> type_is inbound ''tun'' then find_tun rest tun
          else if tun \<noteq> None then fail ''more than one MTU TUN owner''
          else find_tun rest (Some inbound)
      | _ \<Rightarrow> fail ''invalid MTU inbound'')"

fun add_nodes :: "json list \<Rightarrow> nodes \<Rightarrow> nodes res" where
  "add_nodes [] all = Inr all"
| "add_nodes (raw # rest) all =
     (case raw of
        JObj v \<Rightarrow>
          (case stringField v ''tag'' [] of
             Inl _ \<Rightarrow> fail ''ambiguous native transport identity''
           | Inr nid \<Rightarrow>
               if \<not> idPattern nid \<or> map_of all nid \<noteq> None then fail ''ambiguous native transport identity''
               else if type_is v ''routervpn-pq'' \<and> \<not> mode_is v ''wg-pq'' \<and> \<not> mode_is v ''awg2-pq''
               then fail ''unknown PQ packet envelope''
               else add_nodes rest (map_put nid v all))
      | _ \<Rightarrow> fail ''invalid native transport'')"

definition add_collection :: "jobject \<Rightarrow> string \<Rightarrow> nodes \<Rightarrow> nodes res" where
  "add_collection object key all =
     (case jget object key of
        None \<Rightarrow> Inr all
      | Some (JArr items) \<Rightarrow> add_nodes items all
      | Some _ \<Rightarrow> fail ''invalid MTU graph collection'')"

definition graph_nodes :: "jobject \<Rightarrow> nodes res" where
  "graph_nodes object =
     res_bind (add_collection object ''endpoints'' []) (\<lambda>all. add_collection object ''outbounds'' all)"

definition packet_type :: "jobject \<Rightarrow> bool" where
  "packet_type m \<longleftrightarrow> type_is m ''wireguard'' \<or> type_is m ''routervpn-amneziawg'' \<or> type_is m ''routervpn-pq''"

text \<open>The decimal loop over \<open>s4\<close>.\<close>

fun s4_value :: "int \<Rightarrow> string \<Rightarrow> int res" where
  "s4_value n [] = Inr n"
| "s4_value n (ch # s) =
     (if \<not> is_digit_char ch then fail ''invalid AWG overhead''
      else let n = n * 10 + digit_of ch in
        if n > 1280 then fail ''AWG overhead outside bound'' else s4_value n s)"

definition awg_extra :: "jobject \<Rightarrow> int res" where
  "awg_extra packet =
     (if type_is packet ''routervpn-amneziawg'' \<or> (type_is packet ''routervpn-pq'' \<and> mode_is packet ''awg2-pq'')
      then (case jget packet ''amnezia'' of
          Some (JObj params) \<Rightarrow>
            res_bind (stringField params ''s4'' []) (\<lambda>s4.
            res_bind (s4_value 0 s4) (\<lambda>n.
            reject_if (s4 = []) ''missing AWG overhead'' (Inr n)))
        | _ \<Rightarrow> fail ''missing AWG overhead policy'')
      else Inr 0)"

text \<open>The bound that a nested entry puts on the exit, when the entry is a packet transport.\<close>

definition nested_bound :: "jobject \<Rightarrow> jobject \<Rightarrow> int \<Rightarrow> int res" where
  "nested_bound packet entry ceil =
     (if \<not> packet_type entry then Inr ceil
      else case intField entry ''mtu'' 0 of
        Inl _ \<Rightarrow> fail ''invalid entry MTU''
      | Inr outer \<Rightarrow>
        reject_if (outer < MinMTU) ''invalid entry MTU''
        (case jget packet ''peers'' of
           Some (JArr [JObj peer]) \<Rightarrow>
             (case stringField peer ''address'' [] of
                Inl _ \<Rightarrow> fail ''MTU packet peer must be a literal address''
              | Inr host \<Rightarrow>
                  (case ParseAddr host of
                     None \<Rightarrow> fail ''MTU packet peer must be a literal address''
                   | Some ip \<Rightarrow>
                       res_bind (awg_extra packet) (\<lambda>n.
                         let overhead = (if Is6 ip then 80 else 60) + n
                         in Inr (min ceil (go_quot (outer - overhead) 16 * 16)))))
         | Some (JArr [_]) \<Rightarrow> fail ''invalid packet peer''
         | _ \<Rightarrow> fail ''ambiguous MTU packet peer''))"

definition packet_bound :: "nodes \<Rightarrow> jobject \<Rightarrow> int \<Rightarrow> int res" where
  "packet_bound all packet ceil =
     (if \<not> packet_type packet then Inr ceil
      else case intField packet ''mtu'' 0 of
        Inl _ \<Rightarrow> fail ''invalid encrypted packet envelope''
      | Inr v \<Rightarrow>
        reject_if (v < MinMTU \<or> v > MaxMTU) ''invalid encrypted packet envelope''
        (let ceil = min ceil v in
         res_bind (stringField packet ''detour'' []) (\<lambda>detour.
           if detour = [] then Inr ceil
           else case map_of all detour of
               None \<Rightarrow> fail ''nested MTU entry is missing''
             | Some entry \<Rightarrow> nested_bound packet entry ceil)))"

definition detour_of :: "jobject \<Rightarrow> string" where
  "detour_of m = str_of (jget m ''detour'')"

definition same_tag :: "jobject \<Rightarrow> jobject \<Rightarrow> bool" where
  "same_tag a b = iface_eq (jget a ''tag'') (jget b ''tag'')"

definition wg_type :: "jobject \<Rightarrow> bool" where
  "wg_type m \<longleftrightarrow> type_is m ''wireguard'' \<or> type_is m Type"

text \<open>The predecessor of a WireGuard packet, through a Start Layer if there is one.\<close>

definition predecessor :: "nodes \<Rightarrow> jobject \<Rightarrow> (jobject option \<times> jobject option) res" where
  "predecessor all packet =
     (case map_of all (detour_of packet) of
        None \<Rightarrow> Inr (None, None)
      | Some entry \<Rightarrow>
          if type_is entry ''shadowsocks'' \<or> type_is entry ''routervpn-aes-xor'' then
            (let layer = entry; nxt = detour_of layer; entry = map_of all nxt in
             if nxt \<noteq> [] \<and> (case entry of None \<Rightarrow> True | Some e \<Rightarrow> same_tag e layer \<or> same_tag e packet)
             then fail ''missing or cyclic Start Layer predecessor''
             else Inr (Some layer, entry))
          else Inr (None, Some entry))"

definition envelope_bound :: "nodes \<Rightarrow> jobject \<Rightarrow> int \<Rightarrow> int res" where
  "envelope_bound all packet ceil =
     (if \<not> wg_type packet then Inr ceil
      else res_bind (predecessor all packet) (\<lambda>(layer, entry).
        case entry of
          None \<Rightarrow> Inr ceil
        | Some entry \<Rightarrow>
            if \<not> wg_type entry then Inr ceil
            else if same_tag entry packet then fail ''cyclic nested packet envelope''
            else
              res_bind (EndpointEnvelope (Some packet) layer) (\<lambda>e.
              res_bind (intField entry ''mtu'' 0) (\<lambda>outer.
              res_bind (intField packet ''mtu'' 0) (\<lambda>inner.
              res_bind (Capacity e outer inner True) (\<lambda>cap. Inr (min ceil cap)))))))"

section \<open>Mapped OpenVPN\<close>

fun remote_bounds :: "jobject \<Rightarrow> int \<Rightarrow> int \<Rightarrow> Remote list \<Rightarrow> int \<Rightarrow> int res" where
  "remote_bounds endpoint outer overhead [] mtu = Inr mtu"
| "remote_bounds endpoint outer overhead (remote # rs) mtu =
     (if RNetwork remote \<noteq> ''udp'' then remote_bounds endpoint outer overhead rs mtu
      else res_bind (intField endpoint ''fragment'' 0) (\<lambda>fragment.
        if fragment > 0 then
          (if fragment > outer - 48 - overhead then fail ''mapper''
           else remote_bounds endpoint outer overhead rs mtu)
        else remote_bounds endpoint outer overhead rs (min mtu (outer - 160 - overhead))))"

definition mapped_entry_type :: "jobject \<Rightarrow> bool" where
  "mapped_entry_type m \<longleftrightarrow> packet_type m \<or> type_is m ''openvpn-client''"

definition bad_mapper :: goerror where
  "bad_mapper = Err ''OpenVPN MTU mapper differs from its complete captured remote envelope''"

definition openVPNMappedCeiling ::
  "url_parser \<Rightarrow> (rat \<Rightarrow> rat) \<Rightarrow> (jobject \<Rightarrow> bool) \<Rightarrow> jobject \<Rightarrow> jobject \<Rightarrow> nodes \<Rightarrow> int res" where
  "openVPNMappedCeiling url_parse rnd validate_endpoint endpoint outbound all =
     (let options = filter (\<lambda>(k, _). k \<noteq> ''type'' \<and> k \<noteq> ''tag'') outbound in
      or_else
        (res_bind (LayerMap_UnmarshalJSON url_parse rnd (JObj options)) (\<lambda>mapping.
         if \<not> validate_endpoint endpoint then Inl bad_mapper
         else res_bind (Remotes rnd endpoint) (\<lambda>remotes.
         if remotes \<noteq> MRemotes mapping then Inl bad_mapper
         else res_bind (intField endpoint ''mtu'' 1500) (\<lambda>mtu.
         if mtu < MinMTU \<or> mtu > MaxMTU then Inl bad_mapper
         else res_bind (DatagramOverhead url_parse rnd (MLayers mapping)) (\<lambda>overhead.
         res_bind
           (if MDetour mapping = [] then Inr mtu
            else case map_of all (MDetour mapping) of
                None \<Rightarrow> Inl bad_mapper
              | Some entry \<Rightarrow>
                  if \<not> mapped_entry_type entry then Inr mtu
                  else res_bind (intField entry ''mtu'' 0) (\<lambda>outer.
                    if outer < MinMTU \<or> outer > MaxMTU then Inl bad_mapper
                    else remote_bounds endpoint outer overhead remotes mtu))
           (\<lambda>mtu. if mtu < MinMTU then Inl bad_mapper else Inr mtu))))))
        bad_mapper)"

definition mapped_bound ::
  "url_parser \<Rightarrow> (rat \<Rightarrow> rat) \<Rightarrow> (jobject \<Rightarrow> bool) \<Rightarrow> nodes \<Rightarrow> jobject \<Rightarrow> int \<Rightarrow> int res" where
  "mapped_bound url_parse rnd validate_endpoint all packet ceil =
     (if \<not> type_is packet ''openvpn-client'' then Inr ceil
      else case map_of all (detour_of packet) of
        None \<Rightarrow> Inr ceil
      | Some layers \<Rightarrow>
          if \<not> type_is layers LayerMapType then Inr ceil
          else res_bind (openVPNMappedCeiling url_parse rnd validate_endpoint packet layers all)
            (\<lambda>bound. Inr (min ceil bound)))"

section \<open>NewPlan\<close>

text \<open>The full-device TUN of the graph and its tag.\<close>

definition plan_tun :: "jobject \<Rightarrow> int \<Rightarrow> string res" where
  "plan_tun object actual =
     (case jget object ''inbounds'' of
        Some (JArr inbounds) \<Rightarrow>
          res_bind (find_tun inbounds None) (\<lambda>found.
          case found of
            None \<Rightarrow> fail ''MTU requires one full-device strict-route TUN''
          | Some tun \<Rightarrow>
            reject_if (\<not> iface_eq (jget tun ''auto_route'') (Some (JBool True))
                \<or> \<not> iface_eq (jget tun ''strict_route'') (Some (JBool True)))
              ''MTU requires one full-device strict-route TUN''
            (case stringField tun ''tag'' [] of
               Inl _ \<Rightarrow> fail ''MTU TUN identity is missing''
             | Inr tag \<Rightarrow>
               reject_if (\<not> idPattern tag) ''MTU TUN identity is missing''
               (reject_if (intField tun ''mtu'' actual \<noteq> Inr actual)
                 ''configured MTU differs from system-interface readback'' (Inr tag))))
      | _ \<Rightarrow> fail ''MTU graph lacks its full-device TUN'')"

definition plan_final :: "jobject \<Rightarrow> string res" where
  "plan_final object =
     (case jget object ''route'' of
        Some (JObj route) \<Rightarrow>
          (case stringField route ''final'' [] of
             Inl _ \<Rightarrow> fail ''MTU exit identity is missing''
           | Inr final \<Rightarrow> reject_if (\<not> idPattern final) ''MTU exit identity is missing'' (Inr final))
      | _ \<Rightarrow> fail ''MTU graph lacks its exit route'')"

text \<open>The transport whose packets the TUN has to fit: the exit, or the local leg of a selector.\<close>

definition plan_packet :: "nodes \<Rightarrow> string \<Rightarrow> jobject res" where
  "plan_packet all final =
     (case map_of all final of
        None \<Rightarrow> fail ''selected MTU exit does not exist''
      | Some exit \<Rightarrow>
          if type_is exit ''direct'' \<or> type_is exit ''block'' \<or> type_is exit ''dns''
          then fail ''MTU cannot tune an unencrypted direct exit''
          else if type_is exit ''selector'' then
            (case map_of all ''routervpn-execution-local'' of
               None \<Rightarrow> fail ''unowned execution selector'' | Some packet \<Rightarrow> Inr packet)
          else Inr exit)"

definition plan_ceiling ::
  "url_parser \<Rightarrow> (rat \<Rightarrow> rat) \<Rightarrow> (jobject \<Rightarrow> bool) \<Rightarrow> nodes \<Rightarrow> jobject \<Rightarrow> int res" where
  "plan_ceiling url_parse rnd validate_endpoint all packet =
     res_bind (packet_bound all packet 1500) (\<lambda>ceil.
     res_bind (envelope_bound all packet ceil) (\<lambda>ceil.
     mapped_bound url_parse rnd validate_endpoint all packet ceil))"

definition NewPlan ::
  "url_parser \<Rightarrow> (rat \<Rightarrow> rat) \<Rightarrow> (jobject \<Rightarrow> bool) \<Rightarrow> string \<Rightarrow> int \<Rightarrow> Plan res" where
  "NewPlan url_parse rnd validate_endpoint config actual =
     (case strict_object config (4 * 1024 * 1024) of
        None \<Rightarrow> fail ''MTU needs the exact live TUN graph''
      | Some object \<Rightarrow>
        reject_if (actual < MinMTU \<or> actual > MaxMTU) ''MTU needs the exact live TUN graph''
        (res_bind (plan_tun object actual) (\<lambda>tag.
         res_bind (plan_final object) (\<lambda>final.
         res_bind (graph_nodes object) (\<lambda>all.
         res_bind (plan_packet all final) (\<lambda>packet.
         res_bind (plan_ceiling url_parse rnd validate_endpoint all packet) (\<lambda>ceil.
         reject_if (ceil < MinMTU \<or> actual > ceil)
           ''current TUN MTU exceeds its captured safe envelope''
         (Inr \<lparr>Original = actual, Ceiling = ceil, TunTag = tag, source = config\<rparr>))))))))"

section \<open>Candidates, configurations, cache keys\<close>

definition add_candidate :: "Plan \<Rightarrow> int \<Rightarrow> int list \<Rightarrow> int list" where
  "add_candidate p n vs =
     (if n < MinMTU \<or> n > Ceiling p \<or> length vs \<ge> MaxCandidates \<or> n \<in> set vs then vs else vs @ [n])"

definition Candidates :: "Plan \<Rightarrow> int \<Rightarrow> int list" where
  "Candidates p cached =
     add_candidate p (go_quot (Ceiling p + MinMTU) 40 * 20)
       (add_candidate p MinMTU (add_candidate p (Ceiling p) (add_candidate p cached [Original p])))"

definition set_tun_mtu :: "int \<Rightarrow> json \<Rightarrow> json" where
  "set_tun_mtu mtu raw =
     (case raw of
        JObj v \<Rightarrow> if type_is v ''tun'' then JObj (map_put ''mtu'' (JNum (Itoa mtu)) v) else JObj v
      | _ \<Rightarrow> raw)"

definition with_tun_mtu :: "int \<Rightarrow> jobject \<Rightarrow> jobject" where
  "with_tun_mtu mtu object =
     (case jget object ''inbounds'' of
        Some (JArr inbounds) \<Rightarrow> map_put ''inbounds'' (JArr (map (set_tun_mtu mtu) inbounds)) object
      | _ \<Rightarrow> object)"

text \<open>
  \<open>Plan.Config\<close>. The assertions \<open>object["inbounds"].([]any)\<close> and \<open>raw.(map[string]any)\<close> panic on
  another shape; \<open>NewPlan\<close> accepted the same text, so they hold.
\<close>

definition Config :: "Plan \<Rightarrow> int \<Rightarrow> string res" where
  "Config p mtu =
     reject_if (mtu < MinMTU \<or> mtu > Ceiling p) ''MTU candidate exceeds its captured budget''
     (if mtu = Original p then Inr (source p)
      else case strict_object (source p) (4 * 1024 * 1024) of
          None \<Rightarrow> fail ''captured MTU graph changed''
        | Some object \<Rightarrow>
            (case jget object ''inbounds'' of
               Some (JArr inbounds) \<Rightarrow>
                 if list_all (\<lambda>v. case v of JObj _ \<Rightarrow> True | _ \<Rightarrow> False) inbounds
                 then Inr (json_encode (JObj (with_tun_mtu mtu object)))
                 else Inl (Panic ''interface conversion'')
             | _ \<Rightarrow> Inl (Panic ''interface conversion'')))"

definition PathKey :: "(string \<Rightarrow> string) \<Rightarrow> Plan \<Rightarrow> Profile \<Rightarrow> string \<Rightarrow> string" where
  "PathKey sha256_hex p profile path =
     sha256_hex (''router-vpn-os-mtu-v3'' @ CHR 0x00 # source p @ CHR 0x00 # ID profile @ CHR 0x00 # Proof profile
       @ CHR 0x00 # path)"

section \<open>What a plan guarantees\<close>


lemma add_candidate_cases:
  "add_candidate p n vs = vs \<or> (add_candidate p n vs = vs @ [n] \<and> MinMTU \<le> n \<and> n \<le> Ceiling p
     \<and> length vs < MaxCandidates \<and> n \<notin> set vs)"
  by (auto simp: add_candidate_def)

definition candidates_ok :: "Plan \<Rightarrow> int list \<Rightarrow> bool" where
  "candidates_ok p vs \<longleftrightarrow> vs \<noteq> [] \<and> hd vs = Original p \<and> distinct vs \<and> length vs \<le> MaxCandidates
     \<and> (\<forall>n \<in> set vs. MinMTU \<le> n \<and> n \<le> Ceiling p)"

lemma candidates_ok_add: "candidates_ok p vs \<Longrightarrow> candidates_ok p (add_candidate p n vs)"
  using add_candidate_cases [of p n vs] by (auto simp: candidates_ok_def)

lemma candidates_ok_Candidates:
  "MinMTU \<le> Original p \<Longrightarrow> Original p \<le> Ceiling p \<Longrightarrow> candidates_ok p (Candidates p cached)"
  unfolding Candidates_def by (intro candidates_ok_add) (simp add: candidates_ok_def MaxCandidates_def)

lemma packet_bound_le: "packet_bound all packet c = Inr c' \<Longrightarrow> c' \<le> c"
  by (auto simp: packet_bound_def nested_bound_def Let_def res_bind_Inr_iff split: if_splits sum.splits option.splits json.splits list.splits)

lemma envelope_bound_le: "envelope_bound all packet c = Inr c' \<Longrightarrow> c' \<le> c"
  by (auto simp: envelope_bound_def res_bind_Inr_iff split: if_splits option.splits)

lemma mapped_bound_le: "mapped_bound up rnd ve all packet c = Inr c' \<Longrightarrow> c' \<le> c"
  by (auto simp: mapped_bound_def res_bind_Inr_iff split: if_splits option.splits)

lemma NewPlan_parts:
  assumes "NewPlan up rnd ve config actual = Inr p"
  obtains object tag final all packet where "strict_object config (4 * 1024 * 1024) = Some object"
    "plan_tun object actual = Inr tag" "plan_final object = Inr final" "graph_nodes object = Inr all"
    "plan_packet all final = Inr packet" "plan_ceiling up rnd ve all packet = Inr (Ceiling p)"
    "MinMTU \<le> actual" "MinMTU \<le> Ceiling p" "actual \<le> Ceiling p" "Original p = actual" "TunTag p = tag" "source p = config"
proof (cases "strict_object config (4 * 1024 * 1024)")
  case None
  then show thesis using assms by (simp add: NewPlan_def)
next
  case (Some object)
  obtain tag final all packet c where parts: "plan_tun object actual = Inr tag" "plan_final object = Inr final"
    "graph_nodes object = Inr all" "plan_packet all final = Inr packet" "plan_ceiling up rnd ve all packet = Inr c"
    "\<not> (actual < MinMTU \<or> actual > MaxMTU)" "\<not> (c < MinMTU \<or> actual > c)"
    "p = \<lparr>Original = actual, Ceiling = c, TunTag = tag, source = config\<rparr>"
    using assms unfolding NewPlan_def Some option.case
    by (simp only: res_bind_Inr_iff sum.simps simp_thms split: if_split_asm) blast
  show thesis by (rule that [of object tag final all packet]) (use Some parts in simp_all)
qed

lemma plan_ceiling_parts:
  assumes "plan_ceiling up rnd ve all packet = Inr c"
  obtains a b where "packet_bound all packet 1500 = Inr a" "envelope_bound all packet a = Inr b"
    "mapped_bound up rnd ve all packet b = Inr c" "c \<le> b" "b \<le> a" "a \<le> 1500"
  using assms packet_bound_le envelope_bound_le mapped_bound_le
  by (auto simp: plan_ceiling_def res_bind_Inr_iff)


text \<open>A concrete graph: a WireGuard exit inside a WireGuard entry.\<close>

definition demo_config :: string where
  \<open>demo_config = ''{"inbounds":[{"type":"tun","tag":"tun-in","auto_route":true,"strict_route":true,"mtu":1280}],"route":{"final":"exit"},"endpoints":[{"type":"wireguard","tag":"exit","mtu":1280,"detour":"entry","peers":[{"address":"192.0.2.1"}]},{"type":"wireguard","tag":"entry","mtu":1420}]}''\<close>





definition demo_plan :: Plan where
  "demo_plan = \<lparr>Original = 1280, Ceiling = 1280, TunTag = ''tun-in'', source = demo_config\<rparr>"

lemma demo_plan_ok: "NewPlan demo_url (\<lambda>x. x) (\<lambda>_. False) demo_config 1280 = Inr demo_plan"
  by code_simp



text \<open>
  C10. Every plan is usable: the MTU that is live, the ceiling and all candidates lie between the IPv6
  minimum and 1500, the live MTU is tried first so that it is always a candidate to fall back to, and
  at most five different values are tried, whatever the cache suggests.
\<close>

theorem plan_candidates_bounded:
  assumes "NewPlan up rnd ve config actual = Inr p"
  shows "1280 \<le> Original p \<and> Original p \<le> Ceiling p \<and> Ceiling p \<le> 1500 \<and> Original p = actual
    \<and> hd (Candidates p cached) = actual \<and> distinct (Candidates p cached)
    \<and> 1 \<le> length (Candidates p cached) \<and> length (Candidates p cached) \<le> 5
    \<and> (\<forall>n \<in> set (Candidates p cached). 1280 \<le> n \<and> n \<le> Ceiling p)"
proof -
  obtain all packet where c: "plan_ceiling up rnd ve all packet = Inr (Ceiling p)"
    and b: "MinMTU \<le> actual" "actual \<le> Ceiling p" "Original p = actual"
    by (rule NewPlan_parts [OF assms])
  have "Ceiling p \<le> 1500" by (rule plan_ceiling_parts [OF c]) linarith
  moreover have "candidates_ok p (Candidates p cached)" by (rule candidates_ok_Candidates) (use b in simp_all)
  ultimately show ?thesis
    using b by (simp add: candidates_ok_def MinMTU_def MaxCandidates_def Suc_le_eq)
qed

theorem plan_candidates_bounded_witness:
  "length (Candidates demo_plan 0) \<le> 5 \<and> hd (Candidates demo_plan 0) = 1280"
  using plan_candidates_bounded [OF demo_plan_ok, of 0] by simp




section \<open>A single mapped host\<close>

text \<open>
  A compiled layer map with a single remote host is accepted by its own validation, but no MTU can
  be planned over it: \<open>openVPNMappedCeiling\<close> fails for every endpoint and every graph, because the
  overhead of the layers is only defined for two or more.
\<close>

theorem single_host_map_never_planned:
  assumes "LayerMap_UnmarshalJSON up rnd (JObj (filter (\<lambda>(k, _). k \<noteq> ''type'' \<and> k \<noteq> ''tag'') outbound)) = Inr m"
    and "length (MLayers m) = 1"
  shows "LayerMap_Validate up rnd m \<and> (\<forall>c. openVPNMappedCeiling up rnd ve endpoint outbound all \<noteq> Inr c)"
  using LayerMap_UnmarshalJSON_valid [OF assms(1)] assms single_host_map_has_no_overhead [OF assms(2), of up rnd]
  by (simp add: openVPNMappedCeiling_def res_bind_Inr_iff)

definition demo_single_map :: jobject where
  "demo_single_map = [(''type'', JStr LayerMapType), (''tag'', JStr ''map''), (''mode'', JStr ''aes-256-gcm''),
     (''remotes'', JArr [demo_remote ''192.0.2.60'']),
     (''layers'', JObj [(''192.0.2.60'', demo_layer ''192.0.2.60'')])]"

lemma demo_single_map_ok:
  "case LayerMap_UnmarshalJSON demo_url (\<lambda>x. x) (JObj (filter (\<lambda>(k, _). k \<noteq> ''type'' \<and> k \<noteq> ''tag'') demo_single_map)) of
     Inl _ \<Rightarrow> False | Inr m \<Rightarrow> length (MLayers m) = 1"
  by code_simp

theorem single_host_map_never_planned_witness:
  "\<exists>m. LayerMap_Validate demo_url (\<lambda>x. x) m \<and> length (MLayers m) = 1
     \<and> (\<forall>c. openVPNMappedCeiling demo_url (\<lambda>x. x) (\<lambda>_. True) [] demo_single_map [] \<noteq> Inr c)"
proof -
  obtain m where m: "LayerMap_UnmarshalJSON demo_url (\<lambda>x. x)
      (JObj (filter (\<lambda>(k, _). k \<noteq> ''type'' \<and> k \<noteq> ''tag'') demo_single_map)) = Inr m" "length (MLayers m) = 1"
    using demo_single_map_ok by (auto split: sum.splits)
  from single_host_map_never_planned [OF m] m(2) show ?thesis by blast
qed

end
