(* ===== verification/MtuCache.thy ===== *)
theory MtuCache
  imports MtuPolicy
begin

text \<open>
  \<^verbatim>\<open>src/internal/mobilemtu/cache.go\<close>: the measured MTUs kept in the application's private store.
  The store is implemented outside the package, so \<open>Preferences\<close> is a record of functions over a
  world \<open>'w\<close>; the clock and the caller's \<open>valid\<close> function read the same world. The mutex of the cache
  makes each operation one step of its own object, while other owners of the store may act in every
  call on the world. Two contracts of the store are used: one without failures and other owners, to state what a
  later lookup finds, and one with both, to state what a save does in every case.
\<close>

section \<open>Documents\<close>

record Record =
  MTU :: int
  Tested :: int

type_synonym entries = "(string \<times> Record) list"

record cacheDocument =
  Version :: int
  Entries :: "entries option"

record 'w Preferences =
  ReadMTUCache :: "'w \<Rightarrow> string res \<times> 'w"
  CompareAndSwapMTUCache :: "string \<Rightarrow> string \<Rightarrow> 'w \<Rightarrow> bool res \<times> 'w"

definition set_record_field :: "string \<Rightarrow> json \<Rightarrow> Record \<Rightarrow> Record option" where
  "set_record_field name v r =
     (if name = ''mtu'' then map_option (\<lambda>x. r\<lparr>MTU := x\<rparr>) (int_member (MTU r) v)
      else if name = ''tested_at'' then map_option (\<lambda>x. r\<lparr>Tested := x\<rparr>) (int_member (Tested r) v)
      else None)"

definition decode_record :: "json \<Rightarrow> Record option" where
  "decode_record v = decode_struct set_record_field v \<lparr>MTU = 0, Tested = 0\<rparr>"

fun decode_entries :: "jobject \<Rightarrow> entries \<Rightarrow> entries option" where
  "decode_entries [] m = Some m"
| "decode_entries ((k, v) # ms) m =
     (case decode_record v of None \<Rightarrow> None | Some r \<Rightarrow> decode_entries ms (map_put k r m))"

definition entries_member :: "entries option \<Rightarrow> json \<Rightarrow> entries option option" where
  "entries_member old v =
     (case v of
        JNull \<Rightarrow> Some None
      | JObj ms \<Rightarrow> map_option Some (decode_entries ms (case old of None \<Rightarrow> [] | Some m \<Rightarrow> m))
      | _ \<Rightarrow> None)"

definition set_document_field :: "string \<Rightarrow> json \<Rightarrow> cacheDocument \<Rightarrow> cacheDocument option" where
  "set_document_field name v d =
     (if name = ''version'' then map_option (\<lambda>x. d\<lparr>Version := x\<rparr>) (int_member (Version d) v)
      else if name = ''entries'' then map_option (\<lambda>x. d\<lparr>Entries := x\<rparr>) (entries_member (Entries d) v)
      else None)"

definition decode_document :: "string \<Rightarrow> cacheDocument option" where
  "decode_document raw =
     (case strictJSON raw (64 * 1024) of
        None \<Rightarrow> None
      | Some v \<Rightarrow> decode_struct set_document_field v \<lparr>Version = 0, Entries = None\<rparr>)"

text \<open>\<open>json.Marshal(data)\<close>: fields in the order of the struct, map keys sorted.\<close>

definition record_json :: "Record \<Rightarrow> json" where
  "record_json r = JObj [(''mtu'', JNum (Itoa (MTU r))), (''tested_at'', JNum (Itoa (Tested r)))]"

definition document_json :: "entries \<Rightarrow> json" where
  "document_json m = JObj [(''version'', JNum (Itoa 3)),
     (''entries'', JObj (SliceStable key_less (map (apsnd record_json) m)))]"

definition encode_document :: "entries \<Rightarrow> string" where
  "encode_document m = enc (document_json m)"

section \<open>Operations\<close>

definition entry_ok :: "string \<times> Record \<Rightarrow> bool" where
  "entry_ok kv \<longleftrightarrow> \<not> (\<not> proofPattern (fst kv) \<or> MTU (snd kv) < MinMTU \<or> MTU (snd kv) > MaxMTU)"

text \<open>\<open>read\<close> after the store was asked: the entries of the text.\<close>

definition read_text :: "string \<Rightarrow> entries res" where
  "read_text raw =
     (if raw = [] then Inr []
      else case decode_document raw of
          None \<Rightarrow> fail ''invalid bounded MTU cache''
        | Some d \<Rightarrow>
            (case Entries d of
               None \<Rightarrow> fail ''invalid bounded MTU cache''
             | Some m \<Rightarrow>
                 reject_if (Version d \<noteq> 3 \<or> length m > 64) ''invalid bounded MTU cache''
                 (reject_if (\<not> list_all entry_ok m) ''invalid MTU cache record'' (Inr m))))"

definition cache_read :: "'w Preferences option \<Rightarrow> 'w \<Rightarrow> (string \<times> entries) res \<times> 'w" where
  "cache_read store w =
     (case store of
        None \<Rightarrow> (fail ''private MTU cache is unavailable'', w)
      | Some s \<Rightarrow>
          (case ReadMTUCache s w of
             (Inl e, w) \<Rightarrow> (Inl e, w)
           | (Inr raw, w) \<Rightarrow> (res_bind (read_text raw) (\<lambda>m. Inr (raw, m)), w)))"

definition Lookup :: "'w Preferences option \<Rightarrow> ('w \<Rightarrow> int) \<Rightarrow> string \<Rightarrow> 'w \<Rightarrow> (int \<times> bool) \<times> 'w" where
  "Lookup store now key w =
     (if \<not> proofPattern key then ((0, False), w)
      else case cache_read store w of
          (Inl _, w) \<Rightarrow> ((0, False), w)
        | (Inr (_, m), w) \<Rightarrow>
            (case map_of m key of
               None \<Rightarrow> ((0, False), w)
             | Some r \<Rightarrow> ((MTU r, Tested r \<ge> now w - 24 * 3600 \<and> Tested r \<le> now w + 2), w)))"

text \<open>The order in which old entries are dropped: the oldest measurement first, then by key.\<close>

definition older :: "entries \<Rightarrow> string \<Rightarrow> string \<Rightarrow> bool" where
  "older m a b =
     (let x = Tested (the (map_of m a)); y = Tested (the (map_of m b)) in if x = y then a < b else x < y)"

definition evict :: "string \<Rightarrow> entries \<Rightarrow> entries" where
  "evict key m =
     (if length m > 64 then
        (case filter (\<lambda>k. k \<noteq> key) (SliceStable (older m) (map fst m)) of
           [] \<Rightarrow> m | old # _ \<Rightarrow> map_del old m)
      else m)"

definition saved_entries :: "string \<Rightarrow> int \<Rightarrow> int \<Rightarrow> entries \<Rightarrow> entries" where
  "saved_entries key mtu tested m = evict key (map_put key \<lparr>MTU = mtu, Tested = tested\<rparr> m)"

type_synonym 'w validity = "'w \<Rightarrow> bool \<times> 'w"

definition rollback_save :: "'w Preferences \<Rightarrow> string \<Rightarrow> string \<Rightarrow> 'w \<Rightarrow> unit res \<times> 'w" where
  "rollback_save s encoded before w =
     (case CompareAndSwapMTUCache s encoded before w of
        (Inl _, w) \<Rightarrow> (fail ''stale MTU preference rollback failed'', w)
      | (Inr False, w) \<Rightarrow> (fail ''newer MTU preferences retained instead of overwriting them during rollback'', w)
      | (Inr True, w) \<Rightarrow> (fail ''MTU result became stale during persistence and was rolled back'', w))"

definition commit_save :: "'w Preferences \<Rightarrow> string \<Rightarrow> string \<Rightarrow> 'w validity \<Rightarrow> 'w \<Rightarrow> unit res \<times> 'w" where
  "commit_save s before encoded valid w =
     (case valid w of
        (False, w) \<Rightarrow> (fail ''MTU result changed before private write'', w)
      | (True, w) \<Rightarrow>
          (case CompareAndSwapMTUCache s before encoded w of
             (Inr True, w) \<Rightarrow>
               (case valid w of
                  (True, w) \<Rightarrow> (Inr (), w)
                | (False, w) \<Rightarrow> rollback_save s encoded before w)
           | (_, w) \<Rightarrow> (fail ''MTU preference write failed or another owner wrote first'', w)))"

definition Save ::
  "'w Preferences option \<Rightarrow> ('w \<Rightarrow> int) \<Rightarrow> string \<Rightarrow> int \<Rightarrow> 'w validity option \<Rightarrow> 'w \<Rightarrow> unit res \<times> 'w" where
  "Save store now key mtu valid w =
     (case valid of
        None \<Rightarrow> (fail ''invalid freshly measured MTU cache value'', w)
      | Some valid \<Rightarrow>
        if \<not> proofPattern key \<or> mtu < MinMTU \<or> mtu > MaxMTU
        then (fail ''invalid freshly measured MTU cache value'', w)
        else case valid w of
          (False, w) \<Rightarrow> (fail ''MTU result expired before persistence'', w)
        | (True, w) \<Rightarrow>
          (case cache_read store w of
             (Inl e, w) \<Rightarrow> (Inl e, w)
           | (Inr (before, m), w) \<Rightarrow>
               let encoded = encode_document (saved_entries key mtu (now w) m) in
               if int (length encoded) > 64 * 1024 then (fail ''MTU cache exceeded its bound'', w)
               else (case store of
                   Some s \<Rightarrow> commit_save s before encoded valid w
                 | None \<Rightarrow> (fail ''private MTU cache is unavailable'', w))))"

section \<open>Reading back what was written\<close>

definition int64 :: "int \<Rightarrow> bool" where
  "int64 n \<longleftrightarrow> min_int64 \<le> n \<and> n \<le> max_int64"

text \<open>The entries a cache holds: distinct keys, at most 64 of them, every value in range.\<close>

definition entries_ok :: "entries \<Rightarrow> bool" where
  "entries_ok m \<longleftrightarrow> distinct (map fst m) \<and> length m \<le> 64 \<and> list_all entry_ok m
     \<and> list_all (\<lambda>kv. int64 (Tested (snd kv))) m"

lemma decode_record_json:
  "entry_ok (k, r) \<Longrightarrow> int64 (Tested r) \<Longrightarrow> decode_record (record_json r) = Some r"
  by (auto simp: decode_record_def record_json_def decode_struct_def set_record_field_def int_member_def
      number_int64_def Atoi_Itoa int64_def entry_ok_def MinMTU_def MaxMTU_def min_int64_def max_int64_def
      ToLower_def lower_char_def less_eq_char_def)

lemma decode_entries_json:
  "list_all entry_ok xs \<Longrightarrow> list_all (\<lambda>kv. int64 (Tested (snd kv))) xs \<Longrightarrow> distinct (map fst xs) \<Longrightarrow>
   \<exists>m. decode_entries (map (apsnd record_json) xs) acc = Some m \<and> map_of m = map_of acc ++ map_of xs
     \<and> (distinct (map fst acc) \<longrightarrow> distinct (map fst m))"
proof (induction xs arbitrary: acc)
  case (Cons x xs)
  obtain k r where x: "x = (k, r)" by (cases x)
  have d: "decode_record (record_json r) = Some r" using Cons.prems x by (auto intro: decode_record_json)
  obtain m where m: "decode_entries (map (apsnd record_json) xs) (map_put k r acc) = Some m"
    "map_of m = map_of (map_put k r acc) ++ map_of xs" "distinct (map fst (map_put k r acc)) \<longrightarrow> distinct (map fst m)"
    using Cons.IH [of "map_put k r acc"] Cons.prems by (auto simp del: map_of_map_put)
  have "map_of xs k = None" using Cons.prems(3) x by (simp add: map_of_eq_None_iff)
  then have "map_of (map_put k r acc) ++ map_of xs = map_of acc ++ map_of (x # xs)"
    by (auto simp: x map_add_def fun_eq_iff split: option.splits)
  with m d show ?case by (simp add: x del: map_of_map_put map_of.simps)
qed simp

lemma hex_ascii: "hex_lower c \<Longrightarrow> ascii_char c"
  using digit_ascii [of c] by (auto simp: hex_lower_def ascii_char_def byte_of_def less_eq_char_def)

lemma proofPattern_ascii: "proofPattern k \<Longrightarrow> list_all ascii_char k"
  by (auto simp: proofPattern_def list_all_iff hex_ascii)

lemma record_members_ok:
  "list_all entry_ok xs \<Longrightarrow> nums_ok_members (map (apsnd record_json) xs) \<and> ascii_members (map (apsnd record_json) xs)
     \<and> walk_members 2 (map (apsnd record_json) xs)"
  by (induction xs) (auto simp: record_json_def num_ok_Itoa Itoa_ascii entry_ok_def proofPattern_ascii)

lemma key_less_apsnd: "key_less (apsnd f a) (apsnd f b) = key_less a b"
  by (simp add: key_less_def)

lemma read_text_encode:
  assumes ok: "entries_ok m" and size: "int (length (encode_document m)) \<le> 64 * 1024"
  shows "\<exists>m'. read_text (encode_document m) = Inr m' \<and> map_of m' = map_of m"
proof -
  let ?xs = "SliceStable key_less m"
  have sorted: "SliceStable key_less (map (apsnd record_json) m) = map (apsnd record_json) ?xs"
    by (rule SliceStable_map) (simp add: key_less_apsnd)
  have xs: "list_all entry_ok ?xs" "list_all (\<lambda>kv. int64 (Tested (snd kv))) ?xs"
    using ok by (simp_all add: entries_ok_def list_all_iff)
  have dk: "distinct (map fst ?xs)"
    using ok unfolding entries_ok_def distinct_map by simp
  note mem = record_members_ok [OF xs(1)]
  have v: "nums_ok (document_json m)" "ascii_json (document_json m)" "walk 0 (document_json m)"
    using mem dk by (simp_all add: document_json_def sorted num_ok_Itoa Itoa_ascii comp_def
        ascii_char_def byte_of_def numeral_2_eq_2)
  have ne: "encode_document m \<noteq> []" by (simp add: encode_document_def document_json_def)
  have st: "strictJSON (encode_document m) (64 * 1024) = Some (document_json m)"
    using size v ne ascii_ValidString [OF enc_ascii(1) [OF v(2)]]
    by (simp add: strictJSON_def encode_document_def json_decode_enc)
  obtain m' where m': "decode_entries (map (apsnd record_json) ?xs) [] = Some m'" "map_of m' = map_of ?xs"
      "distinct (map fst m')"
    using decode_entries_json [OF xs dk, of "[]"] by auto
  have same: "map_of m' = map_of m" using m'(2) ok by (simp add: map_of_SliceStable entries_ok_def)
  have dec: "decode_document (encode_document m) = Some \<lparr>Version = 3, Entries = Some m'\<rparr>"
    using m'(1) unfolding decode_document_def st
    by (simp add: document_json_def sorted decode_struct_def set_document_field_def int_member_def entries_member_def
        number_int64_def Atoi_Itoa min_int64_def max_int64_def ToLower_def lower_char_def less_eq_char_def)
  have sets: "set m' = set m"
    using same m'(3) ok by (auto simp: entries_ok_def) (metis map_of_eq_Some_iff)+
  have "length m' = length m"
    using sets m'(3) ok unfolding entries_ok_def by (metis distinct_card distinct_map)
  then have "read_text (encode_document m) = Inr m'"
    using ne ok sets by (simp add: read_text_def dec entries_ok_def list_all_iff)
  with same show ?thesis by blast
qed

section \<open>What the operations keep\<close>

lemma decode_members_inv:
  assumes "decode_members f ms r = Some r'" and "P r"
    and "\<And>k v r r'. f k v r = Some r' \<Longrightarrow> P r \<Longrightarrow> P r'"
  shows "P r'"
  using assms(1,2)
proof (induction ms arbitrary: r)
  case (Cons x ms)
  obtain r1 where "f (fold_key (fst x)) (snd x) r = Some r1" "decode_members f ms r1 = Some r'"
    using Cons.prems(1) by (cases x) (auto split: option.splits)
  then show ?case using Cons.IH assms(3) Cons.prems(2) by blast
qed simp

lemma Atoi_int64: "Atoi s = Some n \<Longrightarrow> int64 n"
  by (auto simp: Atoi_def int64_def Let_def split: if_splits)

lemma decode_record_int64: "decode_record v = Some r \<Longrightarrow> int64 (Tested r)"
proof -
  assume d: "decode_record v = Some r"
  have z: "int64 0" by (simp add: int64_def min_int64_def max_int64_def)
  have step: "set_record_field k j x = Some y \<Longrightarrow> int64 (Tested x) \<Longrightarrow> int64 (Tested y)" for k j x y
    by (auto simp: set_record_field_def int_member_def number_int64_def dest: Atoi_int64 split: if_splits json.splits)
  show ?thesis
    using d z by (auto simp: decode_record_def decode_struct_def split: json.splits
        intro: decode_members_inv [where P = "\<lambda>r. int64 (Tested r)", OF _ _ step])
qed

lemma decode_entries_inv:
  "decode_entries ms acc = Some m \<Longrightarrow> distinct (map fst acc) \<Longrightarrow> list_all (\<lambda>kv. int64 (Tested (snd kv))) acc \<Longrightarrow>
   distinct (map fst m) \<and> list_all (\<lambda>kv. int64 (Tested (snd kv))) m"
proof (induction ms arbitrary: acc)
  case (Cons x ms)
  obtain k v where x: "x = (k, v)" by (cases x)
  obtain r where r: "decode_record v = Some r" "decode_entries ms (map_put k r acc) = Some m"
    using Cons.prems(1) by (auto simp: x split: option.splits)
  have "list_all (\<lambda>kv. int64 (Tested (snd kv))) (map_put k r acc)"
    using Cons.prems(3) decode_record_int64 [OF r(1)] by (auto simp: map_put_def list_all_iff)
  then show ?case using Cons.IH [OF r(2)] Cons.prems(2) by simp
qed simp

definition document_inv :: "cacheDocument \<Rightarrow> bool" where
  "document_inv d \<longleftrightarrow> (\<forall>m. Entries d = Some m \<longrightarrow> distinct (map fst m) \<and> list_all (\<lambda>kv. int64 (Tested (snd kv))) m)"

lemma set_document_field_inv: "set_document_field k v d = Some d' \<Longrightarrow> document_inv d \<Longrightarrow> document_inv d'"
  using decode_entries_inv
  by (auto simp: set_document_field_def entries_member_def document_inv_def split: if_splits json.splits option.splits)
    (fastforce+)?

lemma decode_document_inv: "decode_document raw = Some d \<Longrightarrow> document_inv d"
  by (auto simp: decode_document_def decode_struct_def document_inv_def [of "\<lparr>Version = 0, Entries = None\<rparr>"]
      intro: decode_members_inv [where P = document_inv, OF _ _ set_document_field_inv] split: option.splits json.splits)

lemma read_text_ok: "read_text raw = Inr m \<Longrightarrow> entries_ok m"
  using decode_document_inv [of raw]
  by (auto simp: read_text_def entries_ok_def document_inv_def split: if_splits option.splits)

lemma older_order: "strict_weak_less (older m)"
  by unfold_locales (auto simp: older_def Let_def split: if_splits)

lemma evict_cases:
  assumes "distinct (map fst m)" and "map_of m key \<noteq> None"
  shows "(length m \<le> 64 \<and> evict key m = m)
    \<or> (64 < length m \<and> (\<exists>old. old \<noteq> key \<and> map_of m old \<noteq> None \<and> evict key m = map_del old m
        \<and> (\<forall>k. map_of m k \<noteq> None \<and> k \<noteq> key \<longrightarrow> \<not> older m k old)))"
proof (cases "64 < length m")
  case True
  let ?ks = "SliceStable (older m) (map fst m)" and ?fs = "filter (\<lambda>k. k \<noteq> key) (SliceStable (older m) (map fst m))"
  have "length ?ks \<le> Suc (length ?fs)"
  proof -
    have d: "distinct ?ks" "distinct ?fs" using assms(1) by simp_all
    have "card (set ?ks) \<le> Suc (card (set ?ks - {key}))"
      using diff_card_le_card_Diff [of "{key}" "set ?ks"] by simp
    moreover have "set ?fs = set ?ks - {key}" by auto
    ultimately show ?thesis using distinct_card [OF d(1)] distinct_card [OF d(2)] by metis
  qed
  then obtain old rest where fs: "?fs = old # rest" using True by (cases ?fs) auto
  have old: "old \<in> set ?ks" "old \<noteq> key" using arg_cong [OF fs, of set] by auto
  have "sorted_wrt (\<lambda>a b. \<not> older m b a) ?fs"
    by (rule sorted_wrt_filter [OF strict_weak_less.sorted_SliceStable [OF older_order]])
  then have "\<forall>k \<in> set ?fs. \<not> older m k old"
    unfolding fs by (auto simp: older_def Let_def)
  then have "\<forall>k. map_of m k \<noteq> None \<and> k \<noteq> key \<longrightarrow> \<not> older m k old"
    by (auto simp: map_of_eq_None_iff)
  moreover have "evict key m = map_del old m" using True fs by (simp add: evict_def)
  moreover have "map_of m old \<noteq> None" using old(1) by (auto simp: map_of_eq_None_iff)
  ultimately show ?thesis using True old(2) by blast
next
  case False
  then show ?thesis by (simp add: evict_def)
qed


lemma evict_entries_ok:
  assumes "distinct (map fst p)" and "map_of p key \<noteq> None" and "length p \<le> 65"
    and "list_all entry_ok p \<and> list_all (\<lambda>kv. int64 (Tested (snd kv))) p"
  shows "entries_ok (evict key p) \<and> map_of (evict key p) key = map_of p key"
  using evict_cases [OF assms(1,2)]
proof (elim disjE conjE exE)
  assume "length p \<le> 64" "evict key p = p"
  then show ?thesis using assms by (simp add: entries_ok_def)
next
  fix old
  assume e: "old \<noteq> key" "map_of p old \<noteq> None" "evict key p = map_del old p"
  have "length (map_del old p) < length p" using length_filter_present [OF e(2)] by (simp add: map_del_def)
  then have "length (map_del old p) \<le> 64" using assms(3) by linarith
  moreover have "list_all entry_ok (map_del old p) \<and> list_all (\<lambda>kv. int64 (Tested (snd kv))) (map_del old p)"
    using assms(4) by (auto simp: map_del_def list_all_iff)
  ultimately show ?thesis using e assms(1) by (simp add: entries_ok_def)
qed

lemma saved_entries_ok:
  assumes "entries_ok m" and "proofPattern key" and "MinMTU \<le> mtu" and "mtu \<le> MaxMTU" and "int64 t"
  shows "entries_ok (saved_entries key mtu t m)"
    and "map_of (saved_entries key mtu t m) key = Some \<lparr>MTU = mtu, Tested = t\<rparr>"
proof -
  let ?r = "\<lparr>MTU = mtu, Tested = t\<rparr>" and ?p = "map_put key \<lparr>MTU = mtu, Tested = t\<rparr> m"
  have d: "distinct (map fst ?p)" and some: "map_of ?p key = Some ?r" using assms(1) by (simp_all add: entries_ok_def)
  have len: "length ?p \<le> 65"
    using length_map_put_absent [of m key ?r] length_map_put_present [of m key ?r] assms(1)
    by (cases "map_of m key") (simp_all add: entries_ok_def)
  have ok: "list_all entry_ok ?p \<and> list_all (\<lambda>kv. int64 (Tested (snd kv))) ?p"
    using assms by (auto simp: map_put_def entries_ok_def list_all_iff entry_ok_def)
  from evict_entries_ok [OF d _ len ok] some
  have "entries_ok (saved_entries key mtu t m) \<and> map_of (saved_entries key mtu t m) key = Some ?r"
    by (simp add: saved_entries_def)
  then show "entries_ok (saved_entries key mtu t m)"
    "map_of (saved_entries key mtu t m) key = Some \<lparr>MTU = mtu, Tested = t\<rparr>" by simp_all
qed

text \<open>
  The contract of the store: it holds one text, a read returns it, and the swap replaces it exactly
  when the expected text is still there.
\<close>

definition atomic_store :: "'w Preferences \<Rightarrow> ('w \<Rightarrow> string) \<Rightarrow> bool" where
  "atomic_store s stored \<longleftrightarrow>
     (\<forall>w. fst (ReadMTUCache s w) = Inr (stored w) \<and> stored (snd (ReadMTUCache s w)) = stored w)
     \<and> (\<forall>old new w. fst (CompareAndSwapMTUCache s old new w) = Inr (stored w = old)
          \<and> stored (snd (CompareAndSwapMTUCache s old new w)) = (if stored w = old then new else stored w))"

lemma atomic_store_read: "atomic_store s stored \<Longrightarrow> ReadMTUCache s w = (r, w') \<Longrightarrow> r = Inr (stored w) \<and> stored w' = stored w"
  by (metis atomic_store_def fst_conv snd_conv)

lemma atomic_store_swap:
  "atomic_store s stored \<Longrightarrow> CompareAndSwapMTUCache s old new w = (r, w') \<Longrightarrow>
   r = Inr (stored w = old) \<and> stored w' = (if stored w = old then new else stored w)"
  by (metis atomic_store_def fst_conv snd_conv)

lemma cache_read_atomic:
  assumes "atomic_store s stored" and "cache_read (Some s) w = (r, w')"
  shows "stored w' = stored w \<and> r = res_bind (read_text (stored w)) (\<lambda>m. Inr (stored w, m))"
proof -
  obtain r0 w0 where c: "ReadMTUCache s w = (r0, w0)" by (metis surj_pair)
  then show ?thesis using atomic_store_read [OF assms(1) c] assms(2) by (auto simp: cache_read_def)
qed

text \<open>\<open>valid\<close> answers without touching the store.\<close>

definition pure_validity :: "'w validity \<Rightarrow> ('w \<Rightarrow> string) \<Rightarrow> bool" where
  "pure_validity valid stored \<longleftrightarrow> (\<forall>w. stored (snd (valid w)) = stored w)"

lemma pure_validityD: "pure_validity valid stored \<Longrightarrow> valid w = (b, w') \<Longrightarrow> stored w' = stored w"
  by (metis pure_validity_def snd_conv)

lemma rollback_save_atomic:
  assumes "atomic_store s stored" and "rollback_save s encoded before w = (r, w')" and "stored w = encoded"
  shows "r \<noteq> Inr () \<and> stored w' = before"
proof -
  obtain r0 w0 where c: "CompareAndSwapMTUCache s encoded before w = (r0, w0)" by (metis surj_pair)
  then show ?thesis using atomic_store_swap [OF assms(1) c] assms(2,3) by (auto simp: rollback_save_def)
qed

lemma commit_save_atomic:
  assumes "atomic_store s stored" and "pure_validity valid stored"
    and "commit_save s (stored w) encoded valid w = (r, w')"
  shows "(r = Inr () \<and> stored w' = encoded) \<or> (r \<noteq> Inr () \<and> stored w' = stored w)"
proof -
  obtain b w1 where v: "valid w = (b, w1)" by (metis surj_pair)
  note v1 = pure_validityD [OF assms(2) v]
  obtain r2 w2 where c: "CompareAndSwapMTUCache s (stored w) encoded w1 = (r2, w2)" by (metis surj_pair)
  have c2: "r2 = Inr True" "stored w2 = encoded" using atomic_store_swap [OF assms(1) c] v1 by simp_all
  obtain b3 w3 where v3: "valid w2 = (b3, w3)" by (metis surj_pair)
  have s3: "stored w3 = encoded" using pure_validityD [OF assms(2) v3] c2(2) by simp
  show ?thesis
  proof (cases b)
    case False
    then show ?thesis using assms(3) v v1 by (auto simp: commit_save_def)
  next
    case b: True
    show ?thesis
    proof (cases b3)
      case True
      then show ?thesis using assms(3) v c c2(1) v3 s3 b by (auto simp: commit_save_def)
    next
      case False
      then have "rollback_save s encoded (stored w) w3 = (r, w')"
        using assms(3) v c c2(1) v3 b by (auto simp: commit_save_def)
      from rollback_save_atomic [OF assms(1) this s3] show ?thesis by blast
    qed
  qed
qed

lemma Save_outcome:
  assumes "atomic_store s stored" and "pure_validity valid stored"
    and "Save (Some s) now key mtu (Some valid) w = (r, w')"
  shows "(r \<noteq> Inr () \<and> stored w' = stored w)
    \<or> (r = Inr () \<and> proofPattern key \<and> MinMTU \<le> mtu \<and> mtu \<le> MaxMTU
       \<and> (\<exists>m t w1. read_text (stored w) = Inr m \<and> t = now w1
           \<and> stored w' = encode_document (saved_entries key mtu t m)
           \<and> int (length (stored w')) \<le> 64 * 1024))"
proof (cases "\<not> proofPattern key \<or> mtu < MinMTU \<or> mtu > MaxMTU")
  case True
  then show ?thesis using assms(3) by (auto simp: Save_def)
next
  case inp: False
  obtain b w1 where v: "valid w = (b, w1)" by (metis surj_pair)
  have s1: "stored w1 = stored w" by (rule pure_validityD [OF assms(2) v])
  obtain rr w2 where c: "cache_read (Some s) w1 = (rr, w2)" by (metis surj_pair)
  note cr = cache_read_atomic [OF assms(1) c]
  show ?thesis
  proof (cases "b \<and> (\<exists>m. read_text (stored w) = Inr m)")
    case False
    then show ?thesis
      using assms(3) inp v s1 c cr by (cases b; cases "read_text (stored w)") (auto simp: Save_def)
  next
    case True
    then obtain m where m: "read_text (stored w) = Inr m" and b: b by blast
    have rr: "rr = Inr (stored w, m)" "stored w2 = stored w" using cr s1 m by simp_all
    let ?e = "encode_document (saved_entries key mtu (now w2) m)"
    have run: "(if int (length ?e) > 64 * 1024 then (fail ''MTU cache exceeded its bound'', w2)
        else commit_save s (stored w2) ?e valid w2) = (r, w')"
      using assms(3) inp v b c rr by (simp add: Save_def Let_def split: if_splits)
    show ?thesis
    proof (cases "int (length ?e) > 64 * 1024")
      case True
      then show ?thesis using run rr by auto
    next
      case False
      then have "commit_save s (stored w2) ?e valid w2 = (r, w')" using run by simp
      from commit_save_atomic [OF assms(1,2) this] show ?thesis
        using rr inp m False by fastforce
    qed
  qed
qed


text \<open>
  C12. A saved MTU is found again. With a store that keeps one text and swaps it atomically, when
  \<open>Save\<close> reports success then any later \<open>Lookup\<close> of that key, as long as the text has not been
  replaced and the record is not older than a day, answers exactly the saved MTU, and the MTU lies in
  the supported range.
\<close>

theorem save_then_lookup:
  assumes "atomic_store s stored" and "pure_validity valid stored"
    and "Save (Some s) now key mtu (Some valid) w = (Inr (), w')"
    and "\<And>w. min_int64 \<le> now w \<and> now w \<le> max_int64"
    and "stored w2 = stored w'"
  shows "\<exists>t. (\<exists>w1. t = now w1) \<and> (\<forall>now2. \<exists>w3. Lookup (Some s) now2 key w2 =
      ((mtu, t \<ge> now2 w3 - 86400 \<and> t \<le> now2 w3 + 2), w3)) \<and> 1280 \<le> mtu \<and> mtu \<le> 9000"
proof -
  obtain m w1 where sv: "read_text (stored w) = Inr m" "proofPattern key" "MinMTU \<le> mtu" "mtu \<le> MaxMTU"
    "stored w' = encode_document (saved_entries key mtu (now w1) m)" "int (length (stored w')) \<le> 64 * 1024"
    using Save_outcome [OF assms(1-3)] by auto
  let ?m = "saved_entries key mtu (now w1) m"
  have "int64 (now w1)" using assms(4) [of w1] by (simp add: int64_def)
  note ok = saved_entries_ok [OF read_text_ok [OF sv(1)] sv(2-4) this]
  obtain m' where m': "read_text (stored w2) = Inr m'" "map_of m' = map_of ?m"
    using read_text_encode [OF ok(1)] sv(5,6) assms(5) by auto
  have "\<exists>w3. Lookup (Some s) now2 key w2 = ((mtu, now w1 \<ge> now2 w3 - 86400 \<and> now w1 \<le> now2 w3 + 2), w3)" for now2
  proof -
    obtain rr w3 where c: "cache_read (Some s) w2 = (rr, w3)" by (metis surj_pair)
    then have "rr = Inr (stored w2, m')" using cache_read_atomic [OF assms(1) c] m'(1) by simp
    then show ?thesis using c sv(2) ok(2) m'(2) by (auto simp: Lookup_def)
  qed
  with sv(3,4) show ?thesis by (auto simp: MinMTU_def MaxMTU_def)
qed

section \<open>A store that fails and that others write to\<close>

text \<open>
  The history of the store: every swap that took effect, in order, with the text it replaced and the text it
  wrote, marked when this cache made it. The text of the store is the last one written.
\<close>

type_synonym swaps = "(bool \<times> string \<times> string) list"

definition text_of :: "swaps \<Rightarrow> string" where
  "text_of h = (if h = [] then [] else snd (snd (last h)))"

text \<open>A swap of this cache replaces the text it expects.\<close>

fun honest :: "swaps \<Rightarrow> swaps \<Rightarrow> bool" where
  "honest h [] = True"
| "honest h (x # xs) = ((fst x \<longrightarrow> text_of h = fst (snd x)) \<and> honest (h @ [x]) xs)"

text \<open>From \<open>w\<close> to \<open>w'\<close> this cache made the swaps \<open>mine\<close>; other owners may have made any.\<close>

definition saver_step :: "('w \<Rightarrow> swaps) \<Rightarrow> 'w \<Rightarrow> 'w \<Rightarrow> (string \<times> string) list \<Rightarrow> bool" where
  "saver_step hist w w' mine \<longleftrightarrow> (\<exists>new. hist w' = hist w @ new \<and> map snd (filter fst new) = mine \<and> honest (hist w) new)"

text \<open>
  The contract of a shared store. Each call may fail and may let other owners write. A read writes nothing, a swap
  that reports success took place, one that reports a difference did not, and one that fails may have taken place.
\<close>

definition store_contract :: "'w Preferences \<Rightarrow> ('w \<Rightarrow> swaps) \<Rightarrow> bool" where
  "store_contract s hist \<longleftrightarrow> (\<forall>w. saver_step hist w (snd (ReadMTUCache s w)) [])
     \<and> (\<forall>old new w. let (r, w') = CompareAndSwapMTUCache s old new w in
          case r of
            Inr True \<Rightarrow> saver_step hist w w' [(old, new)]
          | Inr False \<Rightarrow> saver_step hist w w' []
          | Inl _ \<Rightarrow> saver_step hist w w' [] \<or> saver_step hist w w' [(old, new)])"

definition quiet_validity :: "'w validity \<Rightarrow> ('w \<Rightarrow> swaps) \<Rightarrow> bool" where
  "quiet_validity valid hist \<longleftrightarrow> (\<forall>w. saver_step hist w (snd (valid w)) [])"

lemma honest_append: "honest h (xs @ ys) = (honest h xs \<and> honest (h @ xs) ys)"
  by (induction xs arbitrary: h) simp_all

lemma saver_step_refl: "saver_step hist w w []"
  by (simp add: saver_step_def)

lemma saver_step_trans:
  "saver_step hist u v xs \<Longrightarrow> saver_step hist v w ys \<Longrightarrow> saver_step hist u w (xs @ ys)"
  unfolding saver_step_def by (elim exE conjE, rule_tac x = "new @ newa" in exI) (simp add: honest_append)

lemma cache_read_step: "store_contract s hist \<Longrightarrow> ReadMTUCache s w = (r, w') \<Longrightarrow> saver_step hist w w' []"
  by (metis store_contract_def snd_conv)

lemma swap_step:
  assumes "store_contract s hist" "CompareAndSwapMTUCache s old new w = (r, w')"
  shows "case r of Inr True \<Rightarrow> saver_step hist w w' [(old, new)] | Inr False \<Rightarrow> saver_step hist w w' []
    | Inl _ \<Rightarrow> saver_step hist w w' [] \<or> saver_step hist w w' [(old, new)]"
proof -
  have "let (r, w') = CompareAndSwapMTUCache s old new w in
          case r of
            Inr True \<Rightarrow> saver_step hist w w' [(old, new)]
          | Inr False \<Rightarrow> saver_step hist w w' []
          | Inl _ \<Rightarrow> saver_step hist w w' [] \<or> saver_step hist w w' [(old, new)]"
    using assms(1) unfolding store_contract_def by blast
  then show ?thesis unfolding assms(2) Let_def prod.case .
qed

lemma quiet_step: "quiet_validity valid hist \<Longrightarrow> valid w = (b, w') \<Longrightarrow> saver_step hist w w' []"
  by (metis quiet_validity_def snd_conv)

text \<open>How often a \<open>Save\<close> with this result wrote.\<close>

definition swap_counts :: "unit res \<Rightarrow> nat set" where
  "swap_counts r = (case r of Inr _ \<Rightarrow> {1} | Inl e \<Rightarrow>
     if e = Err ''MTU result became stale during persistence and was rolled back'' then {2}
     else if e = Err ''newer MTU preferences retained instead of overwriting them during rollback'' then {1}
     else if e = Err ''stale MTU preference rollback failed'' then {1, 2}
     else if e = Err ''MTU preference write failed or another owner wrote first'' then {0, 1}
     else {0})"

lemma swap_counts_simps:
  "swap_counts (Inr ()) = {1}"
  "swap_counts (fail ''MTU result became stale during persistence and was rolled back'') = {2}"
  "swap_counts (fail ''newer MTU preferences retained instead of overwriting them during rollback'') = {1}"
  "swap_counts (fail ''stale MTU preference rollback failed'') = {1, 2}"
  "swap_counts (fail ''MTU preference write failed or another owner wrote first'') = {0, 1}"
  "swap_counts (fail ''MTU result changed before private write'') = {0}"
  "swap_counts (fail ''invalid freshly measured MTU cache value'') = {0}"
  "swap_counts (fail ''MTU result expired before persistence'') = {0}"
  "swap_counts (fail ''MTU cache exceeded its bound'') = {0}"
  "swap_counts (fail ''invalid bounded MTU cache'') = {0}"
  "swap_counts (fail ''invalid MTU cache record'') = {0}"
  by (simp_all add: swap_counts_def)

text \<open>The swaps of a write that may be taken back.\<close>

definition write_back :: "string \<Rightarrow> string \<Rightarrow> (string \<times> string) list \<Rightarrow> bool" where
  "write_back before after mine \<longleftrightarrow> mine = [] \<or> mine = [(before, after)] \<or> mine = [(before, after), (after, before)]"

lemma rollback_save_step:
  assumes "store_contract s hist" "rollback_save s after before w = (r, w')" "saver_step hist u w [(before, after)]"
  shows "\<exists>mine. saver_step hist u w' mine \<and> length mine \<in> swap_counts r \<and> write_back before after mine"
proof -
  obtain r0 w0 where c: "CompareAndSwapMTUCache s after before w = (r0, w0)" by (metis surj_pair)
  note st = swap_step [OF assms(1) c] and tr = saver_step_trans [OF assms(3)]
  have w0: "w0 = w'" using assms(2) by (simp add: rollback_save_def c split: sum.splits bool.splits)
  consider (failed) e where "r0 = Inl e" | (newer) "r0 = Inr False" | (undone) "r0 = Inr True" by (cases r0) auto
  then show ?thesis
  proof cases
    case failed
    then have "r = fail ''stale MTU preference rollback failed''" using assms(2) by (simp add: rollback_save_def c)
    then show ?thesis using st failed tr [of w' "[]"] tr [of w' "[(after, before)]"]
      by (auto simp: w0 swap_counts_simps write_back_def)
  next
    case newer
    then have "r = fail ''newer MTU preferences retained instead of overwriting them during rollback''"
      using assms(2) by (simp add: rollback_save_def c)
    then show ?thesis using st newer tr [of w' "[]"] by (auto simp: w0 swap_counts_simps write_back_def)
  next
    case undone
    then have "r = fail ''MTU result became stale during persistence and was rolled back''"
      using assms(2) by (simp add: rollback_save_def c)
    then show ?thesis using st undone tr [of w' "[(after, before)]"] by (auto simp: w0 swap_counts_simps write_back_def)
  qed
qed

lemma commit_save_step:
  assumes "store_contract s hist" "quiet_validity valid hist" "commit_save s before after valid w = (r, w')" "saver_step hist u w []"
  shows "\<exists>mine. saver_step hist u w' mine \<and> length mine \<in> swap_counts r \<and> write_back before after mine"
proof -
  obtain b w1 where v: "valid w = (b, w1)" by (metis surj_pair)
  obtain r2 w2 where c: "CompareAndSwapMTUCache s before after w1 = (r2, w2)" by (metis surj_pair)
  obtain b3 w3 where v3: "valid w2 = (b3, w3)" by (metis surj_pair)
  have s1: "saver_step hist u w1 []" using saver_step_trans [OF assms(4) quiet_step [OF assms(2) v]] by simp
  note st = swap_step [OF assms(1) c] and tr = saver_step_trans [OF s1, simplified]
  show ?thesis
  proof (cases "b \<and> r2 = Inr True")
    case True
    then have s2: "saver_step hist u w2 [(before, after)]" using st tr by simp
    have s3: "saver_step hist u w3 [(before, after)]" using saver_step_trans [OF s2 quiet_step [OF assms(2) v3]] by simp
    show ?thesis
    proof (cases b3)
      case b3: True
      then have "r = Inr ()" "w' = w3" using assms(3) v c True v3 by (simp_all add: commit_save_def)
      then show ?thesis using s3 by (auto simp: swap_counts_simps write_back_def)
    next
      case b3: False
      then have "rollback_save s after before w3 = (r, w')" using assms(3) v c True v3 by (simp add: commit_save_def)
      then show ?thesis by (rule rollback_save_step [OF assms(1) _ s3])
    qed
  next
    case False
    have "r = fail ''MTU result changed before private write'' \<and> w' = w1
        \<or> r = fail ''MTU preference write failed or another owner wrote first'' \<and> w' = w2 \<and> r2 \<noteq> Inr True"
      using assms(3) v c False by (auto simp: commit_save_def split: sum.splits bool.splits)
    then show ?thesis
    proof (elim disjE conjE)
      assume "r = fail ''MTU result changed before private write''" "w' = w1"
      then show ?thesis using s1 by (auto simp: swap_counts_simps write_back_def)
    next
      assume a: "r = fail ''MTU preference write failed or another owner wrote first''" "w' = w2" "r2 \<noteq> Inr True"
      have "saver_step hist w1 w2 [] \<or> saver_step hist w1 w2 [(before, after)]"
        using st a(3) by (auto split: sum.splits bool.splits)
      then show ?thesis using tr a(1,2) by (fastforce simp: swap_counts_simps write_back_def)
    qed
  qed
qed

text \<open>What a \<open>Save\<close> does to the store, with any outcome.\<close>

lemma Save_steps:
  assumes "store_contract s hist" "quiet_validity valid hist" "Save (Some s) now key mtu (Some valid) w = (r, w')"
  shows "(saver_step hist w w' [] \<and> (0 \<in> swap_counts r \<or> (\<exists>v e. fst (ReadMTUCache s v) = Inl e \<and> r = Inl e)))
    \<or> (proofPattern key \<and> MinMTU \<le> mtu \<and> mtu \<le> MaxMTU
       \<and> (\<exists>before m v mine. read_text before = Inr m
           \<and> int (length (encode_document (saved_entries key mtu (now v) m))) \<le> 64 * 1024
           \<and> saver_step hist w w' mine \<and> length mine \<in> swap_counts r
           \<and> write_back before (encode_document (saved_entries key mtu (now v) m)) mine))"
proof (cases "\<not> proofPattern key \<or> mtu < MinMTU \<or> mtu > MaxMTU")
  case True
  then have "r = fail ''invalid freshly measured MTU cache value''" "w' = w" using assms(3) by (auto simp: Save_def)
  then show ?thesis using saver_step_refl [of hist w] by (simp add: swap_counts_simps)
next
  case inp: False
  obtain b w1 where v: "valid w = (b, w1)" by (metis surj_pair)
  note s1 = quiet_step [OF assms(2) v]
  obtain raw w2 where rd: "ReadMTUCache s w1 = (raw, w2)" by (metis surj_pair)
  have s2: "saver_step hist w w2 []" using saver_step_trans [OF s1 cache_read_step [OF assms(1) rd]] by simp
  have body: "Save (Some s) now key mtu (Some valid) w = (if \<not> b then (fail ''MTU result expired before persistence'', w1)
     else case raw of Inl e \<Rightarrow> (Inl e, w2) | Inr before \<Rightarrow> (case read_text before of Inl e \<Rightarrow> (Inl e, w2)
       | Inr m \<Rightarrow> let encoded = encode_document (saved_entries key mtu (now w2) m) in
           if int (length encoded) > 64 * 1024 then (fail ''MTU cache exceeded its bound'', w2)
           else commit_save s before encoded valid w2))"
    using inp v rd by (simp add: Save_def cache_read_def Let_def split: sum.splits)
  show ?thesis
  proof (cases "b \<and> (\<exists>before m. raw = Inr before \<and> read_text before = Inr m)")
    case False
    then have "r = fail ''MTU result expired before persistence'' \<and> w' = w1
        \<or> (\<exists>e. raw = Inl e \<and> r = Inl e \<and> w' = w2) \<or> (\<exists>before e. read_text before = Inl e \<and> r = Inl e \<and> w' = w2)"
      using assms(3) unfolding body by (auto split: sum.splits if_splits)
    then show ?thesis
    proof (elim disjE exE conjE)
      fix e assume "raw = Inl e" "r = Inl e" "w' = w2"
      then show ?thesis using s2 rd by (metis fst_conv)
    next
      fix before e assume a: "read_text before = Inl e" "r = Inl e" "w' = w2"
      then have "r = fail ''invalid bounded MTU cache'' \<or> r = fail ''invalid MTU cache record''"
        by (auto simp: read_text_def split: if_splits option.splits)
      then show ?thesis using s2 a(3) by (elim disjE) (simp_all add: swap_counts_simps)
    qed (use s1 in \<open>simp add: swap_counts_simps\<close>)
  next
    case True
    then obtain before m where m: "raw = Inr before" "read_text before = Inr m" and b: b by blast
    let ?e = "encode_document (saved_entries key mtu (now w2) m)"
    show ?thesis
    proof (cases "int (length ?e) > 64 * 1024")
      case True
      then have "r = fail ''MTU cache exceeded its bound''" "w' = w2" using assms(3) unfolding body by (simp_all add: m b)
      then show ?thesis using s2 by (simp add: swap_counts_simps)
    next
      case False
      then have "commit_save s before ?e valid w2 = (r, w')" using assms(3) unfolding body by (simp add: m b)
      from commit_save_step [OF assms(1,2) this s2]
      show ?thesis using inp m(2) False by (meson not_le_imp_less linorder_not_less)
    qed
  qed
qed

text \<open>The document that is written: the one that was read with the new record, less one old record if it was full.\<close>

lemma saved_content:
  assumes "read_text before = Inr m" "proofPattern key" "MinMTU \<le> mtu" "mtu \<le> MaxMTU" "int64 t"
    and size: "int (length (encode_document (saved_entries key mtu t m))) \<le> 64 * 1024"
  shows "\<exists>m'. read_text (encode_document (saved_entries key mtu t m)) = Inr m' \<and> length m' \<le> 64
    \<and> (let p = map_put key \<lparr>MTU = mtu, Tested = t\<rparr> m in
         map_of m' = map_of p
         \<or> (\<exists>old. old \<noteq> key \<and> length p = 65 \<and> map_of m' = (map_of p)(old := None)
             \<and> (\<forall>k. map_of p k \<noteq> None \<and> k \<noteq> key \<longrightarrow> \<not> older p k old)))"
proof -
  let ?r = "\<lparr>MTU = mtu, Tested = t\<rparr>"
  let ?p = "map_put key ?r m" and ?m = "saved_entries key mtu t m"
  note ok0 = read_text_ok [OF assms(1)]
  note ok = saved_entries_ok [OF ok0 assms(2-5)]
  obtain m' where m': "read_text (encode_document ?m) = Inr m'" "map_of m' = map_of ?m"
    using read_text_encode [OF ok(1)] size by auto
  have len: "length m' \<le> 64" using read_text_ok [OF m'(1)] by (simp add: entries_ok_def)
  have p65: "length ?p \<le> 65"
    using length_map_put_absent [of m key ?r] length_map_put_present [of m key ?r] ok0
    by (cases "map_of m key") (simp_all add: entries_ok_def)
  have d: "distinct (map fst ?p)" "map_of ?p key \<noteq> None" using ok0 by (simp_all add: entries_ok_def)
  have "map_of ?m = map_of ?p
      \<or> (\<exists>old. old \<noteq> key \<and> length ?p = 65 \<and> map_of ?m = (map_of ?p)(old := None)
          \<and> (\<forall>k. map_of ?p k \<noteq> None \<and> k \<noteq> key \<longrightarrow> \<not> older ?p k old))"
    using evict_cases [OF d] p65 unfolding saved_entries_def by (elim disjE conjE exE) (simp_all, force)
  note change = this [folded m'(2)]
  then show ?thesis unfolding Let_def using m'(1) len by blast
qed

text \<open>
  C13. \<open>Save\<close> is all or nothing, on a store whose calls may fail at any time and that other owners write to as
  well. It makes at most one write, which replaces exactly the text that is stored then, and at most takes
  that same write back. What is written is a well-formed document of at most 64 records and 64 KiB that keeps every
  record of the replaced one with the new record put in, except that when a 65th record would be needed one other
  record is dropped, and no remaining record is older than the dropped one. The result tells what was done:
  success is one write that stands; an error is no write, except for a write reported as rolled back, which
  was taken back, a write that could not be taken back over newer preferences, and the two reports of a failed
  swap, after which the store alone knows whether that swap took effect.
\<close>

theorem save_all_or_nothing:
  assumes "store_contract s hist" and "quiet_validity valid hist"
    and "Save (Some s) now key mtu (Some valid) w = (r, w')"
    and "\<And>w. min_int64 \<le> now w \<and> now w \<le> max_int64"
  shows "\<exists>mine. saver_step hist w w' mine
    \<and> (length mine \<in> swap_counts r \<or> (mine = [] \<and> (\<exists>v e. fst (ReadMTUCache s v) = Inl e \<and> r = Inl e)))
    \<and> (mine = [] \<or> (\<exists>before after m m' v. (mine = [(before, after)] \<or> mine = [(before, after), (after, before)])
         \<and> length after \<le> 65536 \<and> read_text before = Inr m \<and> read_text after = Inr m' \<and> length m' \<le> 64
         \<and> (let p = map_put key \<lparr>MTU = mtu, Tested = now v\<rparr> m in
              map_of m' = map_of p
              \<or> (\<exists>old. old \<noteq> key \<and> length p = 65 \<and> map_of m' = (map_of p)(old := None)
                  \<and> (\<forall>k. map_of p k \<noteq> None \<and> k \<noteq> key \<longrightarrow> \<not> older p k old)))))"
  using Save_steps [OF assms(1-3)]
proof (elim disjE)
  assume "saver_step hist w w' [] \<and> (0 \<in> swap_counts r \<or> (\<exists>v e. fst (ReadMTUCache s v) = Inl e \<and> r = Inl e))"
  then show ?thesis by (intro exI [of _ "[]"]) simp
next
  assume "proofPattern key \<and> MinMTU \<le> mtu \<and> mtu \<le> MaxMTU
       \<and> (\<exists>before m v mine. read_text before = Inr m
           \<and> int (length (encode_document (saved_entries key mtu (now v) m))) \<le> 64 * 1024
           \<and> saver_step hist w w' mine \<and> length mine \<in> swap_counts r
           \<and> write_back before (encode_document (saved_entries key mtu (now v) m)) mine)"
  then obtain before m v mine where a: "proofPattern key" "MinMTU \<le> mtu" "mtu \<le> MaxMTU" "read_text before = Inr m"
    "int (length (encode_document (saved_entries key mtu (now v) m))) \<le> 64 * 1024"
    "saver_step hist w w' mine" "length mine \<in> swap_counts r"
    "write_back before (encode_document (saved_entries key mtu (now v) m)) mine" by blast
  have "int64 (now v)" using assms(4) [of v] by (simp add: int64_def)
  note new = saved_content [OF a(4,1-3) this a(5)]
  have size: "length (encode_document (saved_entries key mtu (now v) m)) \<le> 65536" using a(5) by simp
  show ?thesis
    by (rule exI [of _ mine]) (use a(4,6-8) size new in \<open>unfold write_back_def, blast\<close>)
qed

section \<open>Concrete stores\<close>

text \<open>A store in memory, empty at first.\<close>

definition memory_store :: "string Preferences" where
  "memory_store = \<lparr>ReadMTUCache = (\<lambda>w. (Inr w, w)),
     CompareAndSwapMTUCache = (\<lambda>old new w. if w = old then (Inr True, new) else (Inr False, w))\<rparr>"

lemma memory_store_atomic: "atomic_store memory_store (\<lambda>w. w)"
  by (auto simp: atomic_store_def memory_store_def)

definition demo_key :: string where
  "demo_key = replicate 64 CHR ''a''"

definition demo_save :: "unit res \<times> string" where
  "demo_save = Save (Some memory_store) (\<lambda>_. 1000) demo_key 1400 (Some (\<lambda>w. (True, w))) []"

lemma demo_save_ok: "fst demo_save = Inr ()"
  by code_simp

lemma demo_save_run:
  "Save (Some memory_store) (\<lambda>_. 1000) demo_key 1400 (Some (\<lambda>w. (True, w))) [] = (Inr (), snd demo_save)"
  using demo_save_ok by (metis demo_save_def prod.collapse)

theorem save_then_lookup_witness:
  "\<exists>w3. Lookup (Some memory_store) (\<lambda>_. 2000) demo_key (snd demo_save) = ((1400, True), w3)"
proof -
  have "pure_validity (\<lambda>w. (True, w)) (\<lambda>w. w)" by (simp add: pure_validity_def)
  from save_then_lookup [OF memory_store_atomic this demo_save_run _ refl]
  obtain t where t: "t = 1000" and l: "\<And>now2. \<exists>w3. Lookup (Some memory_store) now2 demo_key (snd demo_save) =
      ((1400, t \<ge> now2 w3 - 86400 \<and> t \<le> now2 w3 + 2), w3)"
    by (auto simp: min_int64_def max_int64_def)
  from l [of "\<lambda>_. 2000"] show ?thesis by (simp add: t)
qed

text \<open>The same store with its history, and a result that turns stale once it is written.\<close>

definition history_store :: "swaps Preferences" where
  "history_store = \<lparr>ReadMTUCache = (\<lambda>h. (Inr (text_of h), h)),
     CompareAndSwapMTUCache = (\<lambda>old new h. if text_of h = old then (Inr True, h @ [(True, old, new)]) else (Inr False, h))\<rparr>"

lemma history_store_shared: "store_contract history_store (\<lambda>h. h)"
  by (simp add: store_contract_def history_store_def saver_step_def)

definition demo_stale :: "unit res \<times> swaps" where
  "demo_stale = Save (Some history_store) (\<lambda>_. 1000) demo_key 1400 (Some (\<lambda>h. (h = [], h))) []"

lemma demo_stale_error: "fst demo_stale = fail ''MTU result became stale during persistence and was rolled back''"
  by code_simp

theorem save_all_or_nothing_witness:
  "\<exists>before after. saver_step (\<lambda>h. h) [] (snd demo_stale) [(before, after), (after, before)]
     \<and> length after \<le> 65536 \<and> (\<exists>m'. read_text after = Inr m' \<and> length m' \<le> 64)"
proof -
  have q: "quiet_validity (\<lambda>h. (h = [], h)) (\<lambda>h. h)" by (simp add: quiet_validity_def saver_step_def)
  have r: "Save (Some history_store) (\<lambda>_. 1000) demo_key 1400 (Some (\<lambda>h. (h = [], h))) []
      = (fail ''MTU result became stale during persistence and was rolled back'', snd demo_stale)"
    unfolding demo_stale_error [symmetric] demo_stale_def by simp
  obtain mine where mine: "saver_step (\<lambda>h. h) [] (snd demo_stale) mine"
    "length mine \<in> swap_counts (fail ''MTU result became stale during persistence and was rolled back'')
       \<or> (mine = [] \<and> (\<exists>v e. fst (ReadMTUCache history_store v) = Inl e))"
    "mine = [] \<or> (\<exists>before after m'. (mine = [(before, after)] \<or> mine = [(before, after), (after, before)])
       \<and> length after \<le> 65536 \<and> read_text after = Inr m' \<and> length m' \<le> 64)"
    using save_all_or_nothing [OF history_store_shared q r] by (auto simp: min_int64_def max_int64_def)
  have "length mine = 2" using mine(2) unfolding swap_counts_simps by (auto simp: history_store_def)
  then show ?thesis using mine(1,3) by auto
qed

end
