(* ===== verification/MtuChoose.thy ===== *)
theory MtuChoose
  imports MtuPolicy
begin

text \<open>
  The choice of the winner in \<^verbatim>\<open>src/internal/mobilemtu/controller.go\<close>: the candidate of a
  measurement and \<open>Choose\<close>. A \<open>float64\<close> is a rational number, an infinity or NaN; arithmetic on
  finite values is rounded by the parameter \<open>rnd\<close>.
\<close>

datatype flt = Fin rat | PosInf | NegInf | NaN

text \<open>The comparisons of Go: every comparison with NaN is false.\<close>

fun flt_less :: "flt \<Rightarrow> flt \<Rightarrow> bool" where
  "flt_less (Fin a) (Fin b) = (a < b)"
| "flt_less (Fin a) PosInf = True"
| "flt_less NegInf (Fin b) = True"
| "flt_less NegInf PosInf = True"
| "flt_less _ _ = False"

fun flt_le :: "flt \<Rightarrow> flt \<Rightarrow> bool" where
  "flt_le NaN _ = False"
| "flt_le _ NaN = False"
| "flt_le a b = (\<not> flt_less b a)"

definition is_fin :: "flt \<Rightarrow> bool" where
  "is_fin x = (case x of Fin _ \<Rightarrow> True | _ \<Rightarrow> False)"

definition fin_of :: "flt \<Rightarrow> rat" where
  "fin_of x = (case x of Fin r \<Rightarrow> r | _ \<Rightarrow> 0)"

record Transfer =
  Bytes :: int
  Seconds :: flt
  Mbps :: flt

record Candidate =
  CMTU :: int
  Working :: bool
  PacketsSent :: int
  PacketsReceived :: int
  DatagramBytes :: int
  MedianRTT :: flt
  LatencyKind :: string
  Download :: "Transfer option"
  Upload :: "Transfer option"
  CFailure :: string

definition candidate0 :: Candidate where
  "candidate0 = \<lparr>CMTU = 0, Working = False, PacketsSent = 0, PacketsReceived = 0, DatagramBytes = 0,
     MedianRTT = Fin 0, LatencyKind = [], Download = None, Upload = None, CFailure = []\<rparr>"

text \<open>A positive finite value.\<close>

definition pos_fin :: "flt \<Rightarrow> bool" where
  "pos_fin x \<longleftrightarrow> \<not> flt_le x (Fin 0) \<and> is_fin x"

definition rate :: "(rat \<Rightarrow> rat) \<Rightarrow> Candidate \<Rightarrow> rat" where
  "rate rnd c =
     (if \<not> Working c \<or> CMTU c < MinMTU \<or> CMTU c > MaxMTU \<or> \<not> pos_fin (MedianRTT c) then 0
      else case (Download c, Upload c) of
          (Some d, Some u) \<Rightarrow>
            if \<not> pos_fin (Mbps d) \<or> \<not> pos_fin (Mbps u) then 0
            else
              let a = fin_of (Mbps d); b = fin_of (Mbps u); low = min a b; high = max a b
              in rnd (low / rnd (rnd (1 + rnd (low / high)) / 2))
        | _ \<Rightarrow> 0)"

text \<open>The first loop: the candidate with the original MTU, else the first one with a rate.\<close>

fun baseline :: "(rat \<Rightarrow> rat) \<Rightarrow> int \<Rightarrow> Candidate list \<Rightarrow> Candidate \<Rightarrow> Candidate" where
  "baseline rnd original [] winner = winner"
| "baseline rnd original (c # cs) winner =
     (if rate rnd c = 0 then baseline rnd original cs winner
      else
        let winner = (if \<not> Working winner \<or> CMTU c = original then c else winner)
        in if CMTU c = original then winner else baseline rnd original cs winner)"

text \<open>The constant \<open>1.05\<close> as a \<open>float64\<close>.\<close>

definition noise :: "(rat \<Rightarrow> rat) \<Rightarrow> rat" where
  "noise rnd = rnd (105 / 100)"

definition improves :: "(rat \<Rightarrow> rat) \<Rightarrow> flt \<Rightarrow> Candidate \<Rightarrow> Candidate \<Rightarrow> bool" where
  "improves rnd rtt_limit winner c \<longleftrightarrow>
     rate rnd c > rnd (rate rnd winner * noise rnd) \<and> flt_le (MedianRTT c) rtt_limit"

definition rtt_limit :: "(rat \<Rightarrow> rat) \<Rightarrow> Candidate \<Rightarrow> flt" where
  "rtt_limit rnd w = (case MedianRTT w of Fin r \<Rightarrow> Fin (rnd (r + rnd (2 / 10))) | x \<Rightarrow> x)"

definition Choose :: "(rat \<Rightarrow> rat) \<Rightarrow> Candidate list \<Rightarrow> int \<Rightarrow> Candidate" where
  "Choose rnd candidates original =
     (let winner = baseline rnd original candidates candidate0 in
      if \<not> Working winner then candidate0
      else foldl (\<lambda>w c. if improves rnd (rtt_limit rnd winner) w c then c else w) winner candidates)"

section \<open>The choice is safe\<close>

text \<open>
  What is used of the rounding: it is monotone and leaves a rounded value, 0 and 1 alone.
\<close>

definition rounds :: "(rat \<Rightarrow> rat) \<Rightarrow> bool" where
  "rounds rnd \<longleftrightarrow> (\<forall>x y. x \<le> y \<longrightarrow> rnd x \<le> rnd y) \<and> (\<forall>x. rnd (rnd x) = rnd x) \<and> rnd 0 = 0 \<and> rnd 1 = 1"

lemma rate_Working: "rate rnd c \<noteq> 0 \<Longrightarrow> Working c \<and> 1280 \<le> CMTU c \<and> CMTU c \<le> 9000 \<and> pos_fin (MedianRTT c)"
  by (auto simp: rate_def MinMTU_def MaxMTU_def split: if_splits)

lemma rate_nonneg_rounded:
  assumes "rounds rnd"
  shows "0 \<le> rate rnd c \<and> rnd (rate rnd c) = rate rnd c"
proof (cases "Working c \<and> \<not> CMTU c < MinMTU \<and> \<not> CMTU c > MaxMTU \<and> pos_fin (MedianRTT c)
    \<and> (\<exists>d u. Download c = Some d \<and> Upload c = Some u \<and> pos_fin (Mbps d) \<and> pos_fin (Mbps u))")
  case True
  then obtain d u where du: "Download c = Some d" "Upload c = Some u" "pos_fin (Mbps d)" "pos_fin (Mbps u)" by blast
  have pos: "0 \<le> rnd x" if "0 \<le> x" for x using assms that unfolding rounds_def by metis
  let ?a = "fin_of (Mbps d)" and ?b = "fin_of (Mbps u)"
  have ab: "0 < ?a" "0 < ?b" using du(3,4) by (auto simp: pos_fin_def is_fin_def fin_of_def split: flt.splits)
  have "0 \<le> min ?a ?b / max ?a ?b" "0 \<le> min ?a ?b" using ab by simp_all
  then have "0 \<le> min ?a ?b / rnd (rnd (1 + rnd (min ?a ?b / max ?a ?b)) / 2)" using pos by simp
  moreover have "rate rnd c = rnd (min ?a ?b / rnd (rnd (1 + rnd (min ?a ?b / max ?a ?b)) / 2))"
    using True du by (simp add: rate_def Let_def)
  ultimately show ?thesis using pos assms unfolding rounds_def by metis
next
  case False
  then have "rate rnd c = 0" by (auto simp: rate_def split: option.splits)
  then show ?thesis using assms by (simp add: rounds_def)
qed

lemma noise_ge:
  assumes "rounds rnd"
  shows "1 \<le> noise rnd"
proof -
  have mono: "x \<le> y \<Longrightarrow> rnd x \<le> rnd y" for x y using assms by (simp add: rounds_def)
  show ?thesis using mono [of 1 "105 / 100"] assms by (simp add: noise_def rounds_def)
qed

lemma baseline_cases:
  "Working (baseline rnd original cs w) \<Longrightarrow>
   baseline rnd original cs w = w \<or> (baseline rnd original cs w \<in> set cs \<and> rate rnd (baseline rnd original cs w) \<noteq> 0)"
  by (induction rnd original cs w rule: baseline.induct) (auto simp: Let_def split: if_splits)

lemma baseline_original:
  "c \<in> set cs \<Longrightarrow> CMTU c = original \<Longrightarrow> rate rnd c \<noteq> 0 \<Longrightarrow>
   CMTU (baseline rnd original cs w) = original \<and> baseline rnd original cs w \<in> set cs"
  by (induction cs arbitrary: w) (auto simp: Let_def)

lemma baseline_some:
  "c \<in> set cs \<Longrightarrow> rate rnd c \<noteq> 0 \<Longrightarrow> Working (baseline rnd original cs w)"
proof (induction cs arbitrary: w)
  case (Cons x xs)
  have keep: "Working v \<Longrightarrow> Working (baseline rnd original ys v)" for ys v
    by (induction ys arbitrary: v) (auto simp: Let_def dest: rate_Working)
  show ?case using Cons keep rate_Working [of rnd x] by (auto simp: Let_def)
qed simp

text \<open>The invariant of the second loop.\<close>

definition upgrade :: "(rat \<Rightarrow> rat) \<Rightarrow> Candidate \<Rightarrow> Candidate \<Rightarrow> bool" where
  "upgrade rnd b w \<longleftrightarrow> w = b \<or> improves rnd (rtt_limit rnd b) b w"

lemma fold_upgrade:
  assumes r: "rounds rnd"
  shows "upgrade rnd b w \<Longrightarrow> w = b \<or> w \<in> S \<Longrightarrow> set cs \<subseteq> S \<Longrightarrow>
    (let v = foldl (\<lambda>w c. if improves rnd (rtt_limit rnd b) w c then c else w) w cs
     in upgrade rnd b v \<and> (v = b \<or> v \<in> S) \<and> rate rnd w \<le> rate rnd v
       \<and> (\<forall>c \<in> set cs. \<not> rate rnd c > rnd (rnd (rate rnd v * noise rnd)) \<or> \<not> flt_le (MedianRTT c) (rtt_limit rnd b)))"
proof (induction cs arbitrary: w)
  case Nil
  then show ?case by simp
next
  case (Cons c cs)
  note q = rate_nonneg_rounded [OF r]
  have mono: "x \<le> y \<Longrightarrow> rnd x \<le> rnd y" and idem: "rnd (rnd x) = rnd x" for x y using r by (auto simp: rounds_def)
  have grow: "rate rnd v \<le> rnd (rate rnd v * noise rnd)" for v
    using mono [of "rate rnd v" "rate rnd v * noise rnd"] q [of v] mult_left_mono [OF noise_ge [OF r], of "rate rnd v"] by simp
  let ?w = "if improves rnd (rtt_limit rnd b) w c then c else w"
  have up: "upgrade rnd b ?w"
  proof (cases "improves rnd (rtt_limit rnd b) w c")
    case True
    have "rnd (rate rnd b * noise rnd) \<le> rnd (rate rnd w * noise rnd)" 
    proof (cases "w = b")
      case False
      then have "rate rnd b \<le> rate rnd w" using Cons.prems(1) grow [of b] by (auto simp: upgrade_def improves_def)
      then show ?thesis using noise_ge [OF r] by (intro mono mult_right_mono) auto
    qed simp
    with True show ?thesis by (auto simp: upgrade_def improves_def)
  qed (use Cons.prems(1) in simp)
  have inS: "?w = b \<or> ?w \<in> S" using Cons.prems(2,3) by auto
  have le: "rate rnd w \<le> rate rnd ?w" using grow [of w] by (auto simp: improves_def)
  let ?v = "foldl (\<lambda>w c. if improves rnd (rtt_limit rnd b) w c then c else w) ?w cs"
  have IH: "upgrade rnd b ?v" "?v = b \<or> ?v \<in> S" "rate rnd ?w \<le> rate rnd ?v"
    "\<forall>c \<in> set cs. \<not> rate rnd c > rnd (rnd (rate rnd ?v * noise rnd)) \<or> \<not> flt_le (MedianRTT c) (rtt_limit rnd b)"
    using Cons.IH [OF up inS] Cons.prems(3) by (simp_all add: Let_def)
  have vw: "rnd (rate rnd w * noise rnd) \<le> rnd (rate rnd ?v * noise rnd)"
    using le IH(3) noise_ge [OF r] by (intro mono mult_right_mono) auto
  have "\<not> rate rnd c > rnd (rnd (rate rnd ?v * noise rnd)) \<or> \<not> flt_le (MedianRTT c) (rtt_limit rnd b)"
  proof (cases "improves rnd (rtt_limit rnd b) w c")
    case True
    then have "rate rnd c \<le> rate rnd ?v" using IH(3) by simp
    then show ?thesis using grow [of ?v] by (simp add: idem)
  next
    case False
    then show ?thesis using vw by (auto simp: improves_def idem)
  qed
  then show ?case using IH le by (auto simp: Let_def)
qed

text \<open>
  C14. \<open>Choose\<close> is conservative. It returns a candidate of the list that was measured completely (or
  nothing, exactly when none was). If the MTU in use before was measured, the winner is that one or
  its transfer rate exceeds the old one's by more than the 5% noise band while its round trip exceeds
  the old one's by at most 0.2 ms; and no candidate within that round trip beats the winner by more
  than the noise band.
\<close>

theorem choose_conservative:
  assumes r: "rounds rnd" and w: "w = Choose rnd cs original"
  shows "(Working w \<longleftrightarrow> (\<exists>c \<in> set cs. rate rnd c \<noteq> 0))
    \<and> (Working w \<longrightarrow> w \<in> set cs \<and> rate rnd w \<noteq> 0
        \<and> (\<forall>c \<in> set cs. CMTU c = original \<and> rate rnd c \<noteq> 0 \<longrightarrow>
            (\<exists>b \<in> set cs. CMTU b = original \<and> rate rnd b \<noteq> 0
              \<and> (w = b \<or> (rate rnd w > rnd (rate rnd b * noise rnd) \<and> flt_le (MedianRTT w) (rtt_limit rnd b)))
              \<and> (\<forall>x \<in> set cs. flt_le (MedianRTT x) (rtt_limit rnd b) \<longrightarrow> rate rnd x \<le> rnd (rate rnd w * noise rnd)))))"
proof -
  let ?b = "baseline rnd original cs candidate0"
  have none: "\<not> Working candidate0" by (simp add: candidate0_def)
  show ?thesis
  proof (cases "Working ?b")
    case False
    then have "w = candidate0" using w by (simp add: Choose_def)
    moreover have "\<not> (\<exists>c \<in> set cs. rate rnd c \<noteq> 0)" using False baseline_some by blast
    ultimately show ?thesis using none by simp
  next
    case True
    have b: "?b \<in> set cs" "rate rnd ?b \<noteq> 0" using baseline_cases [OF True] none True by auto
    have run: "upgrade rnd ?b w" "w = ?b \<or> w \<in> set cs" "rate rnd ?b \<le> rate rnd w"
      "\<forall>c \<in> set cs. \<not> rate rnd c > rnd (rnd (rate rnd w * noise rnd)) \<or> \<not> flt_le (MedianRTT c) (rtt_limit rnd ?b)"
      using fold_upgrade [OF r, of ?b ?b "set cs" cs] True w by (simp_all add: Choose_def upgrade_def Let_def)
    have idem: "rnd (rnd x) = rnd x" for x using r by (simp add: rounds_def)
    have rw: "rate rnd w \<noteq> 0" using run(3) b(2) rate_nonneg_rounded [OF r, of ?b] by linarith
    have inw: "w \<in> set cs" using run(2) b(1) by auto
    have best: "\<forall>x \<in> set cs. flt_le (MedianRTT x) (rtt_limit rnd ?b) \<longrightarrow> rate rnd x \<le> rnd (rate rnd w * noise rnd)"
      using run(4) idem by (auto simp: not_less)
    have "\<exists>b \<in> set cs. CMTU b = original \<and> rate rnd b \<noteq> 0
        \<and> (w = b \<or> (rate rnd w > rnd (rate rnd b * noise rnd) \<and> flt_le (MedianRTT w) (rtt_limit rnd b)))
        \<and> (\<forall>x \<in> set cs. flt_le (MedianRTT x) (rtt_limit rnd b) \<longrightarrow> rate rnd x \<le> rnd (rate rnd w * noise rnd))"
      if "c \<in> set cs" "CMTU c = original" "rate rnd c \<noteq> 0" for c
      using baseline_original [OF that, of candidate0] b best run(1) unfolding upgrade_def improves_def by blast
    then show ?thesis using inw rw rate_Working [OF rw] by blast
  qed
qed

definition demo_candidate :: "int \<Rightarrow> rat \<Rightarrow> rat \<Rightarrow> Candidate" where
  "demo_candidate mtu rtt mbps = candidate0\<lparr>CMTU := mtu, Working := True, MedianRTT := Fin rtt,
     Download := Some \<lparr>Bytes = 262144, Seconds = Fin 1, Mbps = Fin mbps\<rparr>,
     Upload := Some \<lparr>Bytes = 262144, Seconds = Fin 1, Mbps = Fin mbps\<rparr>\<rparr>"

definition demo_candidates :: "Candidate list" where
  "demo_candidates = [demo_candidate 1280 10 50, demo_candidate 1400 10 60, demo_candidate 1500 20 90]"

lemma demo_choice: "CMTU (Choose (\<lambda>x. x) demo_candidates 1280) = 1400 \<and> Working (Choose (\<lambda>x. x) demo_candidates 1280)"
  by code_simp

theorem choose_conservative_witness:
  "\<exists>w. w = Choose (\<lambda>x. x) demo_candidates 1280 \<and> CMTU w = 1400 \<and> rate (\<lambda>x. x) w \<noteq> 0"
proof -
  have "rounds (\<lambda>x. x)" by (simp add: rounds_def)
  from choose_conservative [OF this refl, of demo_candidates 1280] demo_choice show ?thesis by blast
qed

end
