(* ===== verification/MtuControl.thy ===== *)
theory MtuControl
  imports MtuChoose MtuCache MtuProbe
begin

text \<open>
  \<^verbatim>\<open>src/internal/mobilemtu/controller.go\<close>, \<^verbatim>\<open>async.go\<close> and the measurement of \<^verbatim>\<open>external.go\<close>: the MTU
  controller. Its owner (the native VPN), the sockets, the private and public path measurements of
  \<open>hopmeasure\<close> and the clock are functions over a world \<open>'w\<close>, gathered in a record \<open>env\<close>.
  Concurrency: other goroutines may cancel, invalidate or close the controller, and a deadline may
  pass, at every acquisition of the mutex and during every call that leaves the controller; which of
  them happen is up to the scheduler \<open>sched\<close>. A context is a flag that, once set, stays set:
  \<open>work_done\<close> for the operation, \<open>cand_done\<close> for the budget of one candidate, \<open>cleanup_done\<close> for the
  cleanup allowance. Two histories are not in the code: \<open>calls\<close>, the MTU changes requested, and \<open>moments\<close>,
  the controller as every action of another goroutine left it, in the middle of an operation or between two,
  with the flag of the operation's context.
\<close>

section \<open>State\<close>

record State =
  Session :: string
  SPath :: string
  Interface :: string
  SMTU :: int

record Status =
  Request_id :: string
  Phase :: string
  Running :: bool
  Complete :: bool
  Measured :: bool
  Restored :: bool
  OriginalMTU :: int
  EffectiveMTU :: int
  Source :: string
  StKey :: string
  Failure :: string
  Tried :: "Candidate list"

definition status0 :: Status where
  "status0 = \<lparr>Request_id = [], Phase = [], Running = False, Complete = False, Measured = False, Restored = False,
     OriginalMTU = 0, EffectiveMTU = 0, Source = [], StKey = [], Failure = [], Tried = []\<rparr>"

text \<open>\<open>has_cancel\<close> says that \<open>c.cancel\<close> is set; calling it sets \<open>work_done\<close>.\<close>

record Controller =
  closed :: bool
  invalid :: bool
  has_cancel :: bool
  status :: Status
  currentConfig :: string

record 'w sys =
  ctl :: Controller
  world :: 'w
  work_done :: bool
  cand_done :: bool
  cleanup_done :: bool
  calls :: "(State \<times> int) list"
  moments :: "(Controller \<times> bool) list"

datatype event = EvCancel string | EvInvalidate | EvClose | EvWorkEnd | EvCandidateEnd | EvCleanupEnd

datatype ctx = Work | Measuring | Cleanup

fun ctx_err :: "ctx \<Rightarrow> 'w sys \<Rightarrow> bool" where
  "ctx_err Work s = work_done s"
| "ctx_err Measuring s = (work_done s \<or> cand_done s)"
| "ctx_err Cleanup s = cleanup_done s"

text \<open>What is fixed when the controller is built. \<open>external\<close> holds \<open>source_kind = "tor"\<close>.\<close>

record settings =
  profile :: Profile
  frozenConfig :: string
  bounded :: bool
  api_host :: string
  external :: "bool option"
  plan_of :: "string \<Rightarrow> int \<Rightarrow> Plan res"
  key_of :: "Plan \<Rightarrow> Profile \<Rightarrow> string \<Rightarrow> string"
  round_of :: "rat \<Rightarrow> rat"
  mac_of :: mac_fun
  rand_of :: "nat \<Rightarrow> byte list res"

record Measurement =
  MReady :: bool
  MKind :: string
  MID :: string
  MRole :: string
  MIdle :: "(int \<times> flt) option"
  MDownload :: "Transfer option"
  MUpload :: "Transfer option"

type_synonym 'w validate = "'w sys \<Rightarrow> bool \<times> 'w sys"

record 'w env =
  sched :: "'w \<Rightarrow> event list \<times> 'w"
  own_capture :: "'w \<Rightarrow> (State \<times> bool) \<times> 'w"
  own_rollback :: "(State \<Rightarrow> 'w \<Rightarrow> (State \<times> bool) \<times> 'w) option"
  own_change :: "State \<Rightarrow> int \<Rightarrow> 'w \<Rightarrow> (State \<times> bool) \<times> 'w"
  own_dial :: "State \<Rightarrow> string \<Rightarrow> string \<Rightarrow> 'w \<Rightarrow> (bool \<times> bool) \<times> 'w"
  own_verify :: "State \<Rightarrow> 'w \<Rightarrow> bool \<times> 'w"
  own_begin :: "(State \<Rightarrow> 'w \<Rightarrow> (bool \<times> bool) \<times> 'w) option"
  own_release :: "'w \<Rightarrow> 'w"
  prove_path :: "State \<Rightarrow> 'w \<Rightarrow> bool \<times> 'w"
  measure_path :: "State \<Rightarrow> 'w \<Rightarrow> Measurement option \<times> 'w"
  conn_deadline :: "'w \<Rightarrow> bool \<times> 'w"
  conn_write :: "byte list \<Rightarrow> 'w \<Rightarrow> bool \<times> 'w"
  conn_read :: "nat \<Rightarrow> 'w \<Rightarrow> (byte list option \<times> int) \<times> 'w"
  unix_now :: "'w \<Rightarrow> 64 word"
  deadline_near :: "int \<Rightarrow> 'w \<Rightarrow> bool"
  cleanup_context :: "'w \<Rightarrow> bool \<times> 'w"
  cache_lookup :: "(string \<Rightarrow> 'w sys \<Rightarrow> (int \<times> bool) res \<times> 'w sys) option"
  cache_save :: "string \<Rightarrow> int \<Rightarrow> 'w validate \<Rightarrow> 'w sys \<Rightarrow> unit res \<times> 'w sys"

section \<open>Cancel, Invalidate, Close\<close>

definition set_status :: "(Status \<Rightarrow> Status) \<Rightarrow> 'w sys \<Rightarrow> 'w sys" where
  "set_status f s = s\<lparr>ctl := (ctl s)\<lparr>status := f (status (ctl s))\<rparr>\<rparr>"

definition revoke :: "string \<Rightarrow> Status \<Rightarrow> Status" where
  "revoke phase st = st\<lparr>Measured := False, Restored := False, EffectiveMTU := 0,
     Source := ''unavailable-stale-owner'', Phase := phase\<rparr>"

definition revokeLocked :: "string \<Rightarrow> 'w sys \<Rightarrow> 'w sys" where
  "revokeLocked phase s = set_status (revoke phase) s"

definition call_cancel :: "'w sys \<Rightarrow> 'w sys" where
  "call_cancel s = (if has_cancel (ctl s) then s\<lparr>work_done := True\<rparr> else s)"

definition Cancel :: "string \<Rightarrow> 'w sys \<Rightarrow> 'w sys" where
  "Cancel request s =
     (if Request_id (status (ctl s)) = request \<and> has_cancel (ctl s) \<and> \<not> Measured (status (ctl s))
      then call_cancel s else s)"

definition Invalidate :: "'w sys \<Rightarrow> 'w sys" where
  "Invalidate s =
     (let s = s\<lparr>ctl := (ctl s)\<lparr>invalid := True\<rparr>\<rparr> in
      call_cancel (revokeLocked (if closed (ctl s) then ''stopped'' else ''invalidated'') s))"

text \<open>\<open>Close\<close> up to the point where it waits for the running operation to drain.\<close>

definition Close :: "'w sys \<Rightarrow> 'w sys" where
  "Close s = call_cancel (revokeLocked ''stopped'' (s\<lparr>ctl := (ctl s)\<lparr>closed := True\<rparr>\<rparr>))"

fun other_action :: "event \<Rightarrow> 'w sys \<Rightarrow> 'w sys" where
  "other_action (EvCancel request) s = Cancel request s"
| "other_action EvInvalidate s = Invalidate s"
| "other_action EvClose s = Close s"
| "other_action EvWorkEnd s = s\<lparr>work_done := True\<rparr>"
| "other_action EvCandidateEnd s = s\<lparr>cand_done := True\<rparr>"
| "other_action EvCleanupEnd s = s\<lparr>cleanup_done := True\<rparr>"

definition observe :: "'w sys \<Rightarrow> 'w sys" where
  "observe s = s\<lparr>moments := moments s @ [(ctl s, work_done s)]\<rparr>"

definition apply_event :: "event \<Rightarrow> 'w sys \<Rightarrow> 'w sys" where
  "apply_event e s = observe (other_action e s)"

text \<open>The other goroutines run.\<close>

definition sync :: "'w env \<Rightarrow> 'w sys \<Rightarrow> 'w sys" where
  "sync env s = (let (evs, w) = sched env (world s) in fold apply_event evs (s\<lparr>world := w\<rparr>))"

text \<open>A call that leaves the controller.\<close>

definition outside :: "'w env \<Rightarrow> ('w \<Rightarrow> 'r \<times> 'w) \<Rightarrow> 'w sys \<Rightarrow> 'r \<times> 'w sys" where
  "outside env f s = (let (r, w) = f (world s) in (r, sync env (s\<lparr>world := w\<rparr>)))"

text \<open>\<open>LockContext\<close>: whether the lock was obtained before the context ended.\<close>

definition LockContext :: "'w env \<Rightarrow> ctx \<Rightarrow> 'w sys \<Rightarrow> bool \<times> 'w sys" where
  "LockContext env k s =
     (if ctx_err k s then (False, s) else let s = sync env s in (\<not> ctx_err k s, s))"

definition usable :: "'w sys \<Rightarrow> bool" where
  "usable s \<longleftrightarrow> \<not> closed (ctl s) \<and> \<not> invalid (ctl s)"

section \<open>Liveness checks and phases\<close>

definition live :: "'w env \<Rightarrow> ctx \<Rightarrow> State \<Rightarrow> 'w sys \<Rightarrow> bool \<times> 'w sys" where
  "live env k expected s =
     (if ctx_err k s then (False, s)
      else case LockContext env k s of
        (False, s) \<Rightarrow> (False, s)
      | (True, s) \<Rightarrow>
        if \<not> usable s then (False, s)
        else let ((current, err), s) = outside env (own_capture env) s in
          (case LockContext env k s of
             (False, s) \<Rightarrow> (False, s)
           | (True, s) \<Rightarrow>
               (usable s \<and> \<not> ctx_err k s \<and> \<not> err \<and> current = expected \<and> Session current \<noteq> []
                  \<and> SPath current \<noteq> [] \<and> Interface current \<noteq> [], s)))"

definition sessionLive :: "'w env \<Rightarrow> ctx \<Rightarrow> State \<Rightarrow> 'w sys \<Rightarrow> (State \<times> bool) \<times> 'w sys" where
  "sessionLive env k expected s =
     (let none = \<lparr>Session = [], SPath = [], Interface = [], SMTU = 0\<rparr> in
      if ctx_err k s then ((none, False), s)
      else case LockContext env k s of
        (False, s) \<Rightarrow> ((none, False), s)
      | (True, s) \<Rightarrow>
        if \<not> usable s then ((none, False), s)
        else
          let ((current, err), s) =
                (case own_rollback env of
                   Some f \<Rightarrow> outside env (f expected) s | None \<Rightarrow> outside env (own_capture env) s);
              recovered = (own_rollback env \<noteq> None \<and> \<not> err)
          in (case LockContext env k s of
               (False, s) \<Rightarrow> ((none, False), s)
             | (True, s) \<Rightarrow>
                 ((current, usable s \<and> \<not> ctx_err k s \<and> \<not> err \<and> Session current = Session expected
                    \<and> SPath current = SPath expected \<and> (Interface current = Interface expected \<or> recovered)), s)))"

definition set_phase :: "'w env \<Rightarrow> ctx \<Rightarrow> string \<Rightarrow> 'w sys \<Rightarrow> bool \<times> 'w sys" where
  "set_phase env k v s =
     (case LockContext env k s of
        (False, s) \<Rightarrow> (False, s)
      | (True, s) \<Rightarrow>
          let s = (if usable s then set_status (\<lambda>st. st\<lparr>Phase := v\<rparr>) s else s) in (\<not> ctx_err k s, s))"

definition change_mtu :: "'w env \<Rightarrow> State \<Rightarrow> int \<Rightarrow> 'w sys \<Rightarrow> (State \<times> bool) \<times> 'w sys" where
  "change_mtu env st mtu s = outside env (own_change env st mtu) (s\<lparr>calls := calls s @ [(st, mtu)]\<rparr>)"

section \<open>Sockets and packet probes\<close>

definition JoinHostPort :: "string \<Rightarrow> int \<Rightarrow> string" where
  "JoinHostPort host port =
     (if Contains host '':'' then CHR ''['' # host @ '']:'' @ Itoa port else host @ CHR '':'' # Itoa port)"

definition PublicAddress :: string where
  "PublicAddress = ''speed.cloudflare.com:443''"

text \<open>\<open>probeEngine.dial\<close>: \<open>api_host\<close> is the host of the parsed API.\<close>

definition dial :: "'w env \<Rightarrow> settings \<Rightarrow> ctx \<Rightarrow> State \<Rightarrow> string \<Rightarrow> string \<Rightarrow> 'w sys \<Rightarrow> bool \<times> 'w sys" where
  "dial env cfg k st network address s =
     (let allowed =
            (if external cfg \<noteq> None then network = ''tcp'' \<and> address = PublicAddress
             else (network = ''tcp'' \<and> address = api_host cfg)
               \<or> (network = ''udp'' \<and> address = JoinHostPort (Sink (profile cfg)) ProbePort))
      in if \<not> allowed then (False, s)
         else case live env k st s of
           (False, s) \<Rightarrow> (False, s)
         | (True, s) \<Rightarrow>
             let ((conn, err), s) = outside env (own_dial env st network address) s
             in if err \<or> \<not> conn then (False, s) else live env k st s)"

definition engine_Identity :: "'w env \<Rightarrow> ctx \<Rightarrow> State \<Rightarrow> 'w sys \<Rightarrow> string \<times> 'w sys" where
  "engine_Identity env k st s =
     (case live env k st s of
        (False, s) \<Rightarrow> ([], s)
      | (True, s) \<Rightarrow> (Session st @ '':'' @ SPath st @ '':'' @ Interface st, s))"

text \<open>
  One probe packet: \<open>None\<close> is an error that ends the test, \<open>Some None\<close> a lost or invalid reply,
  \<open>Some (Some rtt)\<close> a valid reply with its round trip in milliseconds.
\<close>

definition ns_ms :: "(rat \<Rightarrow> rat) \<Rightarrow> int \<Rightarrow> rat" where
  "ns_ms rnd ns = rnd (rnd (of_int ns) / 1000000)"

definition packet_probe ::
  "'w env \<Rightarrow> settings \<Rightarrow> ctx \<Rightarrow> State \<Rightarrow> int \<Rightarrow> Candidate \<Rightarrow> 'w sys \<Rightarrow> (rat option option \<times> Candidate) \<times> 'w sys" where
  "packet_probe env cfg k st sz c s =
     (case live env k st s of
        (False, s) \<Rightarrow> ((None, c), s)
      | (True, s) \<Rightarrow>
        (let token = Token (profile cfg); proof_id = Proof (profile cfg) in
         case Request (mac_of cfg) (rand_of cfg) sz token proof_id (unix_now env (world s)) of
           Inl _ \<Rightarrow> ((None, c), s)
         | Inr request \<Rightarrow>
             let (ok, s) = outside env (conn_deadline env) s in
             if \<not> ok then ((None, c), s)
             else
               let c = c\<lparr>PacketsSent := PacketsSent c + 1\<rparr>;
                   (ok, s) = outside env (conn_write env request) s
               in if \<not> ok then ((None, c), s)
                  else let ((reply, elapsed), s) = outside env (conn_read env (nat sz + 1)) s in
                    (case reply of
                       None \<Rightarrow> ((Some None, c), s)
                     | Some data \<Rightarrow>
                         if is_ok (ValidateReply (mac_of cfg) request data token proof_id (unix_now env (world s)))
                         then ((Some (Some (ns_ms (round_of cfg) elapsed)), c\<lparr>PacketsReceived := PacketsReceived c + 1\<rparr>), s)
                         else ((Some None, c), s))))"

fun packet_loop ::
  "'w env \<Rightarrow> settings \<Rightarrow> ctx \<Rightarrow> State \<Rightarrow> int \<Rightarrow> nat \<Rightarrow> rat list \<Rightarrow> Candidate \<Rightarrow> 'w sys
     \<Rightarrow> (rat list option \<times> Candidate) \<times> 'w sys" where
  "packet_loop env cfg k st sz 0 samples c s = ((Some samples, c), s)"
| "packet_loop env cfg k st sz (Suc n) samples c s =
     (case packet_probe env cfg k st sz c s of
        ((None, c), s) \<Rightarrow> ((None, c), s)
      | ((Some None, c), s) \<Rightarrow> packet_loop env cfg k st sz n samples c s
      | ((Some (Some rtt), c), s) \<Rightarrow> packet_loop env cfg k st sz n (samples @ [rtt]) c s)"

definition packets :: "'w env \<Rightarrow> settings \<Rightarrow> ctx \<Rightarrow> State \<Rightarrow> Candidate \<Rightarrow> 'w sys \<Rightarrow> (bool \<times> Candidate) \<times> 'w sys" where
  "packets env cfg k st c s =
     (case ParseAddr (Sink (profile cfg)) of
        None \<Rightarrow> ((False, c), s)
      | Some ip \<Rightarrow>
        let sz = CMTU c - (if Is6 ip then 48 else 28) in
        if sz < int HeaderBytes \<or> sz > int MaxBytes then ((False, c), s)
        else
          let c = c\<lparr>DatagramBytes := sz\<rparr> in
          (case dial env cfg k st ''udp'' (JoinHostPort (Sink (profile cfg)) ProbePort) s of
             (False, s) \<Rightarrow> ((False, c), s)
           | (True, s) \<Rightarrow>
               (case packet_loop env cfg k st sz 6 [] c s of
                  ((None, c), s) \<Rightarrow> ((False, c), s)
                | ((Some samples, c), s) \<Rightarrow>
                    if PacketsReceived c \<noteq> 6 then ((False, c), s)
                    else let xs = sort samples; rnd = round_of cfg
                      in ((True, c\<lparr>MedianRTT := Fin (rnd (rnd (xs ! 2 + xs ! 3) / 2))\<rparr>), s))))"

section \<open>Measuring a candidate\<close>

definition transfer_ok :: "Transfer option \<Rightarrow> bool" where
  "transfer_ok t = (case t of None \<Rightarrow> False
     | Some t \<Rightarrow> Bytes t = 256 * 1024 \<and> pos_fin (Transfer.Seconds t) \<and> pos_fin (Mbps t))"

definition measurement_ok :: "settings \<Rightarrow> Measurement \<Rightarrow> bool" where
  "measurement_ok cfg m \<longleftrightarrow> MReady m \<and> MKind m = ''public-path'' \<and> MID m = ID (profile cfg) \<and> MRole m = ''exit''
     \<and> (case MIdle m of None \<Rightarrow> False | Some (samples, median) \<Rightarrow> samples \<ge> 3 \<and> pos_fin median)"

definition fail_candidate :: "Candidate \<Rightarrow> string \<Rightarrow> Candidate" where
  "fail_candidate c msg = c\<lparr>CFailure := msg\<rparr>"

definition verify_external :: "'w env \<Rightarrow> ctx \<Rightarrow> State \<Rightarrow> 'w sys \<Rightarrow> bool \<times> 'w sys" where
  "verify_external env k st s =
     (let (err, s) = outside env (own_verify env st) s in if err then (False, s) else live env k st s)"

text \<open>\<open>measureExternal\<close> after the measurement activity was captured.\<close>

definition external_body :: "'w env \<Rightarrow> settings \<Rightarrow> ctx \<Rightarrow> State \<Rightarrow> Candidate \<Rightarrow> 'w sys \<Rightarrow> Candidate \<times> 'w sys" where
  "external_body env cfg k st c s =
     (case verify_external env k st s of
        (False, s) \<Rightarrow> (fail_candidate c ''captured external public exit or DNS proof failed'', s)
      | (True, s) \<Rightarrow>
        let (result, s) = outside env (measure_path env st) s in
        (case result of
           None \<Rightarrow> (fail_candidate c ''bounded external HTTPS measurements did not complete'', s)
         | Some m \<Rightarrow>
           (case live env k st s of
              (False, s) \<Rightarrow> (fail_candidate c ''bounded external HTTPS measurements did not complete'', s)
            | (True, s) \<Rightarrow>
              if \<not> measurement_ok cfg m
              then (fail_candidate c ''bounded external HTTPS measurements did not complete'', s)
              else if \<not> transfer_ok (MDownload m) \<or> \<not> transfer_ok (MUpload m)
              then (fail_candidate c ''external transfer byte count or rate is invalid'', s)
              else
                (case verify_external env k st s of
                   (False, s) \<Rightarrow> (fail_candidate c ''external exit changed during the measured transfer'', s)
                 | (True, s) \<Rightarrow>
                     (c\<lparr>Working := True, MedianRTT := (case MIdle m of Some (_, v) \<Rightarrow> v | None \<Rightarrow> Fin 0),
                        Download := MDownload m, Upload := MUpload m\<rparr>, s)))))"

text \<open>
  An owner that begins the measurement may narrow its lifetime: the context of the activity is
  \<open>Measuring\<close>, whose \<open>cand_done\<close> starts anew when the caller has no candidate budget.
\<close>

definition measureExternal :: "'w env \<Rightarrow> settings \<Rightarrow> ctx \<Rightarrow> State \<Rightarrow> int \<Rightarrow> 'w sys \<Rightarrow> Candidate \<times> 'w sys" where
  "measureExternal env cfg k st mtu s =
     (let c = candidate0\<lparr>CMTU := mtu, LatencyKind := ''https-response''\<rparr> in
      case own_begin env of
        None \<Rightarrow> external_body env cfg k st c s
      | Some f \<Rightarrow>
          let s = (if k = Work then s\<lparr>cand_done := False\<rparr> else s);
              ((ok, has_release), s) = outside env (f st) s;
              (l, s) = (if ok \<and> has_release then live env Measuring st s else (False, s));
              (c, s) = (if l then external_body env cfg Measuring st c s
                        else (fail_candidate c ''captured external measurement activity is unavailable'', s))
          in (c, if has_release then snd (outside env (\<lambda>w. ((), own_release env w)) s) else s))"

text \<open>The measurement of one candidate in \<open>run\<close>.\<close>

definition measure_candidate :: "'w env \<Rightarrow> settings \<Rightarrow> State \<Rightarrow> int \<Rightarrow> 'w sys \<Rightarrow> Candidate \<times> 'w sys" where
  "measure_candidate env cfg st mtu s0 =
     (let s = s0\<lparr>cand_done := False\<rparr> in
      if external cfg \<noteq> None then measureExternal env cfg Measuring st mtu s
      else
        let c = candidate0\<lparr>CMTU := mtu\<rparr>;
            (err, s) = outside env (prove_path env st) s;
            ((ok, c), s) = (if err then ((False, c), s) else packets env cfg Measuring st c s)
        in if \<not> ok then (fail_candidate c ''private identity or authenticated packet-size test failed'', s)
           else let (result, s) = outside env (measure_path env st) s in
             (case result of
                None \<Rightarrow> (fail_candidate c ''private transfer did not complete'', s)
              | Some m \<Rightarrow> (c\<lparr>Working := True, Download := MDownload m, Upload := MUpload m\<rparr>, s)))"

section \<open>Run\<close>

definition errCanceled :: goerror where
  "errCanceled = Err ''context canceled''"

text \<open>Seconds for the operation, for one candidate, and kept in reserve for the winner.\<close>

definition measurementBudgets :: "settings \<Rightarrow> int \<times> int \<times> int" where
  "measurementBudgets cfg = (if external cfg = Some True then (240, 30, 45) else (45, 8, 10))"

definition Requested :: "settings \<Rightarrow> bool" where
  "Requested cfg \<longleftrightarrow> Automatic (profile cfg) \<and> \<not> Jumbo (profile cfg)"

text \<open>The state the owner reports, if it still belongs to the captured session and path.\<close>

definition adopt_state :: "State \<Rightarrow> State \<Rightarrow> State \<Rightarrow> State" where
  "adopt_state original expected st =
     (if Session st = Session original \<and> SPath st = SPath original \<and> Interface st \<noteq> [] then st else expected)"

text \<open>
  Change the interface to one MTU and check that it took effect. The result is the state that is
  expected from now on, and whether the change is confirmed.
\<close>

definition apply_mtu :: "'w env \<Rightarrow> State \<Rightarrow> State \<Rightarrow> int \<Rightarrow> 'w sys \<Rightarrow> (State \<times> bool) \<times> 'w sys" where
  "apply_mtu env original expected mtu s =
     (let ((st, err), s) = change_mtu env expected mtu s;
          expected = adopt_state original expected st
      in if err \<or> SMTU st \<noteq> mtu then ((expected, False), s)
         else let (l, s) = live env Work expected s in ((expected, l), s))"

type_synonym 'r step = "'r res \<times> State \<times> bool"

fun run_trials ::
  "'w env \<Rightarrow> settings \<Rightarrow> State \<Rightarrow> int list \<Rightarrow> Candidate list \<Rightarrow> State \<Rightarrow> bool \<Rightarrow> 'w sys
     \<Rightarrow> Candidate list step \<times> 'w sys" where
  "run_trials env cfg original [] passed expected dirty s = ((Inr passed, expected, dirty), s)"
| "run_trials env cfg original (mtu # mtus) passed expected dirty s =
     (if deadline_near env (snd (snd (measurementBudgets cfg))) (world s) \<and> passed \<noteq> []
      then ((Inr passed, expected, dirty), s)
      else case live env Work expected s of
        (False, s) \<Rightarrow> ((Inl errCanceled, expected, dirty), s)
      | (True, s) \<Rightarrow>
        (case set_phase env Work (''applying '' @ Itoa mtu) s of
           (False, s) \<Rightarrow> ((Inl errCanceled, expected, dirty), s)
         | (True, s) \<Rightarrow>
           (case apply_mtu env original expected mtu s of
              ((expected, False), s) \<Rightarrow>
                ((fail ''candidate did not become the actual owned system TUN MTU'', expected, True), s)
            | ((expected, True), s) \<Rightarrow>
              (case set_phase env Work (''measuring '' @ Itoa mtu) s of
                 (False, s) \<Rightarrow> ((Inl errCanceled, expected, True), s)
               | (True, s) \<Rightarrow>
                 let (c, s) = measure_candidate env cfg expected mtu s in
                 (case LockContext env Work s of
                    (False, s) \<Rightarrow> ((Inl errCanceled, expected, True), s)
                  | (True, s) \<Rightarrow>
                    let s = set_status (\<lambda>st. st\<lparr>Tried := Tried st @ [c]\<rparr>) s in
                    (case live env Work expected s of
                       (False, s) \<Rightarrow> ((Inl errCanceled, expected, True), s)
                     | (True, s) \<Rightarrow>
                         run_trials env cfg original mtus (if Working c then passed @ [c] else passed)
                           expected True s))))))"

text \<open>The fresh verification of the winner on the adopted interface.\<close>

definition verify_winner :: "'w env \<Rightarrow> settings \<Rightarrow> State \<Rightarrow> int \<Rightarrow> 'w sys \<Rightarrow> unit res \<times> 'w sys" where
  "verify_winner env cfg expected mtu s =
     (if external cfg \<noteq> None then
        let (c, s) = measureExternal env cfg Work expected mtu s in
        (if Working c then Inr () else fail ''winner failed fresh external exit and transfer verification'', s)
      else case packets env cfg Work expected (candidate0\<lparr>CMTU := mtu\<rparr>) s of
          ((False, _), s) \<Rightarrow> (fail ''winner failed its fresh bidirectional verification'', s)
        | ((True, _), s) \<Rightarrow>
            let (err, s) = outside env (prove_path env expected) s in
            (if err then fail ''winner's selected-node identity changed'' else Inr (), s))"

definition measured_source :: "settings \<Rightarrow> string" where
  "measured_source cfg =
     (case external cfg of
        None \<Rightarrow> ''measured-private-system-tun''
      | Some True \<Rightarrow> ''measured-tor-system-tun-transfer''
      | Some False \<Rightarrow> ''measured-public-system-tun-transfer'')"

text \<open>Cache, configuration and commit, once the winner is verified.\<close>

definition commit :: "'w env \<Rightarrow> settings \<Rightarrow> Plan \<Rightarrow> string \<Rightarrow> State \<Rightarrow> int \<Rightarrow> 'w sys \<Rightarrow> unit res \<times> 'w sys" where
  "commit env cfg plan key expected mtu s =
     (case live env Work expected s of
        (False, s) \<Rightarrow> (Inl errCanceled, s)
      | (True, s) \<Rightarrow>
        let (saved, s) = (if cache_lookup env = None then (Inr (), s)
                          else cache_save env key mtu (live env Work expected) s)
        in if \<not> is_ok saved then (fail ''fresh MTU result could not be durably saved'', s)
           else case live env Work expected s of
               (False, s) \<Rightarrow> (Inl errCanceled, s)
             | (True, s) \<Rightarrow>
                 (case Config plan mtu of
                    Inl e \<Rightarrow> (Inl e, s)
                  | Inr final \<Rightarrow>
                      (case LockContext env Work s of
                         (False, s) \<Rightarrow> (Inl errCanceled, s)
                       | (True, s) \<Rightarrow>
                           if \<not> usable s \<or> work_done s then (Inl errCanceled, s)
                           else (Inr (), set_status (\<lambda>st. st\<lparr>Measured := True, EffectiveMTU := mtu,
                                     Source := measured_source cfg, Phase := ''complete''\<rparr>)
                                   (s\<lparr>ctl := (ctl s)\<lparr>currentConfig := final\<rparr>\<rparr>)))))"

definition adopt_winner ::
  "'w env \<Rightarrow> settings \<Rightarrow> Plan \<Rightarrow> string \<Rightarrow> State \<Rightarrow> Candidate list \<Rightarrow> State \<Rightarrow> bool \<Rightarrow> 'w sys \<Rightarrow> unit step \<times> 'w sys" where
  "adopt_winner env cfg plan key original passed expected dirty s =
     (if passed = [] then ((fail ''no MTU candidate passed its captured path measurements'', expected, dirty), s)
      else let winner = Choose (round_of cfg) passed (SMTU original) in
        if \<not> Working winner then ((fail ''no finite eligible MTU measurement remained'', expected, dirty), s)
        else case set_phase env Work (''adopting '' @ Itoa (CMTU winner)) s of
          (False, s) \<Rightarrow> ((Inl errCanceled, expected, dirty), s)
        | (True, s) \<Rightarrow>
          (case live env Work expected s of
             (False, s) \<Rightarrow> ((Inl errCanceled, expected, dirty), s)
           | (True, s) \<Rightarrow>
             (case apply_mtu env original expected (CMTU winner) s of
                ((expected, False), s) \<Rightarrow>
                  ((fail ''measured winner was not applied to its captured interface'', expected, dirty), s)
              | ((expected, True), s) \<Rightarrow>
                (case verify_winner env cfg expected (CMTU winner) s of
                   (Inl e, s) \<Rightarrow> ((Inl e, expected, dirty), s)
                 | (Inr _, s) \<Rightarrow>
                     let (r, s) = commit env cfg plan key expected (CMTU winner) s
                     in ((r, expected, dirty), s)))))"

definition lookup_cached :: "'w env \<Rightarrow> bool \<Rightarrow> string \<Rightarrow> 'w sys \<Rightarrow> int res \<times> 'w sys" where
  "lookup_cached env force key s =
     (case cache_lookup env of
        None \<Rightarrow> (Inr 0, s)
      | Some f \<Rightarrow>
          if force then (Inr 0, s)
          else case f key s of
              (Inl e, s) \<Rightarrow> (Inl e, s)
            | (Inr (v, found), s) \<Rightarrow> (Inr (if found then v else 0), s))"

definition run_body ::
  "'w env \<Rightarrow> settings \<Rightarrow> Plan \<Rightarrow> string \<Rightarrow> bool \<Rightarrow> State \<Rightarrow> 'w sys \<Rightarrow> unit step \<times> 'w sys" where
  "run_body env cfg plan key force original s =
     (let (err, s) = outside env (if external cfg \<noteq> None then own_verify env original else prove_path env original) s;
          (l, s) = (if err then (False, s) else live env Work original s)
      in if \<not> l then ((fail ''selected exit was not proved through the captured system TUN'', original, False), s)
         else case lookup_cached env force key s of
             (Inl e, s) \<Rightarrow> ((Inl e, original, False), s)
           | (Inr cached, s) \<Rightarrow>
               (case run_trials env cfg original (Candidates plan cached) [] original False s of
                  ((Inl e, expected, dirty), s) \<Rightarrow> ((Inl e, expected, dirty), s)
                | ((Inr passed, expected, dirty), s) \<Rightarrow>
                    adopt_winner env cfg plan key original passed expected dirty s))"

text \<open>\<open>c.mu.Lock()\<close>: wait for the others, then act.\<close>

definition locked :: "'w env \<Rightarrow> (Status \<Rightarrow> Status) \<Rightarrow> 'w sys \<Rightarrow> 'w sys" where
  "locked env f s = set_status f (sync env s)"

definition note_failure :: "'w env \<Rightarrow> string \<Rightarrow> 'w sys \<Rightarrow> 'w sys" where
  "note_failure env msg s = locked env (\<lambda>st. st\<lparr>Failure := msg\<rparr>) s"

text \<open>The deferred rollback of a run that changed the interface and was not adopted.\<close>

definition rollback :: "'w env \<Rightarrow> string \<Rightarrow> State \<Rightarrow> State \<Rightarrow> 'w sys \<Rightarrow> 'w sys" where
  "rollback env config original expected s =
     (let (granted, s) = outside env (cleanup_context env) (s\<lparr>cleanup_done := False\<rparr>) in
      if \<not> granted then note_failure env ''Original MTU cleanup allowance expired'' s
      else case sessionLive env Cleanup expected s of
        ((_, False), s) \<Rightarrow> note_failure env ''MTU owner or path changed; no stale interface was restarted'' s
      | ((rollbackState, True), s) \<Rightarrow>
          let ((st, err), s) = change_mtu env rollbackState (SMTU original) s;
              (l, s) = (if err \<or> SMTU st \<noteq> SMTU original \<or> Session st \<noteq> Session original \<or> SPath st \<noteq> SPath original
                        then (False, s) else live env Cleanup st s)
          in if \<not> l then note_failure env ''Exact pre-test MTU rollback could not be confirmed'' s
             else let s = sync env s in
               if \<not> usable s \<or> cleanup_done s then s
               else set_status (\<lambda>st. st\<lparr>Restored := True, EffectiveMTU := SMTU original,
                          Source := ''restored-unmeasured'', Phase := ''restored''\<rparr>)
                      (s\<lparr>ctl := (ctl s)\<lparr>currentConfig := config\<rparr>\<rparr>))"

definition run :: "'w env \<Rightarrow> settings \<Rightarrow> string \<Rightarrow> bool \<Rightarrow> 'w sys \<Rightarrow> unit res \<times> 'w sys" where
  "run env cfg config force s =
     (let ((original, err), s) = outside env (own_capture env) s;
          (l, s) = (if err then (False, s) else live env Work original s)
      in if \<not> l then (fail ''MTU interface changed before capture'', s)
         else case plan_of cfg config (SMTU original) of
             Inl e \<Rightarrow> (Inl e, s)
           | Inr plan \<Rightarrow>
               let key = key_of cfg (plan\<lparr>source := frozenConfig cfg\<rparr>) (profile cfg) (SPath original) in
               (case LockContext env Work s of
                  (False, s) \<Rightarrow> (Inl errCanceled, s)
                | (True, s) \<Rightarrow>
                    let s = set_status (\<lambda>st. st\<lparr>OriginalMTU := SMTU original, EffectiveMTU := SMTU original,
                               StKey := key\<rparr>) s
                    in (case run_body env cfg plan key force original s of
                          ((Inr _, _, _), s) \<Rightarrow> (Inr (), s)
                        | ((Inl e, expected, dirty), s) \<Rightarrow>
                            (Inl e, if dirty then rollback env config original expected s else s))))"

section \<open>Admission and execution\<close>

text \<open>
  \<open>beginContextAdmissionProvider\<close>. \<open>capable\<close> is false when a strict caller meets an owner without
  bounded capture; \<open>admission\<close> and \<open>parent\<close> say whether those contexts have ended; \<open>admit\<close> is the
  native admission callback. The mutex is held from the check of the state to the publication, so no
  other goroutine acts in between. The result is the configuration the operation works on.
\<close>

record 'w admission =
  capable :: bool
  adm_done :: "'w \<Rightarrow> bool"
  parent_done :: "'w \<Rightarrow> bool"
  admit :: "('w \<Rightarrow> bool \<times> 'w) option"

definition publish :: "string \<Rightarrow> bool \<Rightarrow> 'w sys \<Rightarrow> 'w sys" where
  "publish request ended s =
     s\<lparr>work_done := ended, ctl := (ctl s)\<lparr>has_cancel := True,
        status := status0\<lparr>Request_id := request, Phase := ''capturing'', Running := True, Source := ''unmeasured''\<rparr>\<rparr>\<rparr>"

definition begin_op :: "'w env \<Rightarrow> settings \<Rightarrow> 'w admission \<Rightarrow> string \<Rightarrow> 'w sys \<Rightarrow> string res \<times> 'w sys" where
  "begin_op env cfg a request s =
     (if \<not> capable a then (fail ''MTU owner has no bounded capture'', s)
      else if \<not> requestPattern request then (fail ''invalid MTU request identity'', s)
      else if adm_done a (world s) then (Inl errCanceled, s)
      else let s = sync env s; st = status (ctl s) in
        if adm_done a (world s) then (Inl errCanceled, s)
        else if \<not> usable s \<or> Running st then (fail ''MTU owner is busy, stopped or invalidated'', s)
        else if \<not> Requested cfg then (fail ''choose Auto MTU without Jumbo before Retest'', s)
        else if Request_id st = request then (fail ''MTU request identifiers cannot be reused'', s)
        else if parent_done a (world s) then (Inl errCanceled, s)
        else case admit a of
            None \<Rightarrow> (Inr (currentConfig (ctl s)), publish request False s)
          | Some f \<Rightarrow>
              if adm_done a (world s) \<or> parent_done a (world s) then (Inl errCanceled, s)
              else let (err, w) = f (world s); s = s\<lparr>world := w\<rparr> in
                if err then (fail ''admission'', s)
                else (Inr (currentConfig (ctl s)), publish request (adm_done a w \<or> parent_done a w) s))"

text \<open>
  The end of \<open>execute\<close>, under the mutex: \<open>final_err\<close> is the error of the finalizer, \<open>err\<close> all errors so far.
\<close>

definition finish :: "bool \<Rightarrow> goerror option \<Rightarrow> 'w sys \<Rightarrow> goerror option \<times> 'w sys" where
  "finish final_err err s0 =
     (let s = set_status (\<lambda>st. st\<lparr>Running := False, Complete := True\<rparr>) s0;
          s = (if final_err then set_status (\<lambda>st. (revoke ''failed'' st)
                     \<lparr>Failure := ''MTU original run closure did not join both retained observers''\<rparr>) s else s)
      in if closed (ctl s) then (Some errCanceled, revokeLocked ''stopped'' s)
         else if invalid (ctl s) then (Some errCanceled, revokeLocked ''invalidated'' s)
         else if err \<noteq> None then
           (err, set_status (\<lambda>st. let st = (if Failure st = [] then st\<lparr>Failure := ''MTU measurement or adoption failed''\<rparr> else st)
              in if Restored st then st else st\<lparr>Phase := ''failed''\<rparr>) s)
         else (None, s))"

text \<open>\<open>errors.Join\<close> keeps an error if there is one.\<close>

definition join_err :: "goerror option \<Rightarrow> goerror option \<Rightarrow> goerror option" where
  "join_err a b = (if a = None then b else a)"

definition ctx_error :: "bool \<Rightarrow> 'w sys \<Rightarrow> goerror option" where
  "ctx_error committed s = (if \<not> committed \<and> work_done s then Some errCanceled else None)"

definition execute ::
  "'w env \<Rightarrow> settings \<Rightarrow> ('w \<Rightarrow> bool \<times> 'w) option \<Rightarrow> string \<Rightarrow> bool \<Rightarrow> 'w sys \<Rightarrow> goerror option \<times> 'w sys" where
  "execute env cfg finalize config force s =
     (let (r, s) = run env cfg config force s;
          s = sync env s;
          committed = (is_ok r \<and> Measured (status (ctl s)));
          err = join_err (case r of Inl e \<Rightarrow> Some e | Inr _ \<Rightarrow> None) (ctx_error committed s);
          (final_err, s) = (case finalize of None \<Rightarrow> (False, s) | Some f \<Rightarrow> outside env f s);
          err = (if finalize = None then err
                 else join_err (join_err err (if final_err then Some (Err ''finalization'') else None)) (ctx_error committed s));
          (err, s) = finish final_err err (sync env s)
      in (err, s\<lparr>work_done := True\<rparr>))"

text \<open>\<open>Run\<close> and the goroutine of \<open>Start\<close>: admission, then the operation.\<close>

definition Run ::
  "'w env \<Rightarrow> settings \<Rightarrow> 'w admission \<Rightarrow> ('w \<Rightarrow> bool \<times> 'w) option \<Rightarrow> string \<Rightarrow> bool \<Rightarrow> 'w sys
     \<Rightarrow> goerror option \<times> 'w sys" where
  "Run env cfg a finalize request force s =
     (case begin_op env cfg a request s of
        (Inl e, s) \<Rightarrow> (Some e, s)
      | (Inr config, s) \<Rightarrow> execute env cfg finalize config force s)"

text \<open>\<open>newControllerState\<close>: the controller after the first capture.\<close>

definition newControllerState :: "settings \<Rightarrow> State \<Rightarrow> Controller res" where
  "newControllerState cfg st =
     reject_if (Session st = [] \<or> SPath st = [] \<or> Interface st = [] \<or> SMTU st < MinMTU \<or> SMTU st > MaxMTU)
       ''MTU must capture a running native VPN interface''
     (res_bind (if Requested cfg then map_sum id (\<lambda>_. ()) (plan_of cfg (frozenConfig cfg) (SMTU st)) else Inr ())
       (\<lambda>_. Inr \<lparr>closed = False, invalid = False, has_cancel = False,
          status = status0\<lparr>Phase := ''idle'', EffectiveMTU := SMTU st, Source := ''configured-unmeasured''\<rparr>,
          currentConfig = frozenConfig cfg\<rparr>))"

end
