(* ===== verification/MtuControlSafe.thy ===== *)
theory MtuControlSafe
  imports MtuControl
begin

text \<open>
  What the MTU controller of \<open>MtuControl\<close> guarantees whatever the other goroutines, the owner, the network
  and the scheduler do. Properties of the state that nothing outside can break (\<open>stable\<close>) are carried
  through every call of a run; the locale \<open>controller_env\<close> states what is asked of the cache and is
  interpreted on the preference cache of \<open>MtuCache\<close>.
\<close>

section \<open>Properties that the outside keeps\<close>

text \<open>
  A property is stable when no world step, no action of another goroutine and no deadline can break it.
\<close>

definition stable :: "('w sys \<Rightarrow> bool) \<Rightarrow> bool" where
  "stable P \<longleftrightarrow> (\<forall>s w. P s \<longrightarrow> P (s\<lparr>world := w\<rparr>)) \<and> (\<forall>s e. P s \<longrightarrow> P (apply_event e s))
     \<and> (\<forall>s b. P s \<longrightarrow> P (s\<lparr>cand_done := b\<rparr>)) \<and> (\<forall>s b. P s \<longrightarrow> P (s\<lparr>cleanup_done := b\<rparr>))"

lemma observe_simps [simp]:
  "ctl (observe s) = ctl s" "world (observe s) = world s" "work_done (observe s) = work_done s"
  "calls (observe s) = calls s" "moments (observe s) = moments s @ [(ctl s, work_done s)]"
  by (simp_all add: observe_def)

lemma stableD:
  assumes "stable P" "P s"
  shows "P (s\<lparr>world := w\<rparr>)" "P (apply_event e s)" "P (s\<lparr>cand_done := b\<rparr>)" "P (s\<lparr>cleanup_done := b\<rparr>)"
  using assms by (auto simp: stable_def)

lemma stableI:
  assumes "\<And>s w. P s \<Longrightarrow> P (s\<lparr>world := w\<rparr>)" "\<And>s e. P s \<Longrightarrow> P (apply_event e s)"
    "\<And>s b. P s \<Longrightarrow> P (s\<lparr>cand_done := b\<rparr>)" "\<And>s b. P s \<Longrightarrow> P (s\<lparr>cleanup_done := b\<rparr>)"
  shows "stable P"
  using assms by (simp add: stable_def)

lemma stable_conj: "stable P \<Longrightarrow> stable Q \<Longrightarrow> stable (\<lambda>s. P s \<and> Q s)"
  by (auto simp: stable_def)

lemma stable_fold: "stable P \<Longrightarrow> P s \<Longrightarrow> P (fold apply_event evs s)"
  by (induction evs arbitrary: s) (auto intro: stableD)

lemma stable_sync: "stable P \<Longrightarrow> P s \<Longrightarrow> P (sync env s)"
  by (simp add: sync_def Let_def split_def stable_fold stableD)

lemma stable_outside: "stable P \<Longrightarrow> outside env f s = (r, s') \<Longrightarrow> P s \<Longrightarrow> P s'"
  by (auto simp: outside_def Let_def split_def intro: stable_sync stableD)

lemma stable_LockContext: "stable P \<Longrightarrow> LockContext env k s = (b, s') \<Longrightarrow> P s \<Longrightarrow> P s'"
  by (auto simp: LockContext_def Let_def intro: stable_sync split: if_splits)

lemma LockContext_open: "LockContext env k s = (True, s') \<Longrightarrow> \<not> ctx_err k s'"
  by (auto simp: LockContext_def Let_def split: if_splits)

lemma stable_live: "stable P \<Longrightarrow> live env k st s = (b, s') \<Longrightarrow> P s \<Longrightarrow> P s'"
  unfolding live_def
  by (auto split: if_splits prod.splits bool.splits dest: stable_LockContext stable_outside)

lemma stable_sessionLive: "stable P \<Longrightarrow> sessionLive env k st s = (b, s') \<Longrightarrow> P s \<Longrightarrow> P s'"
  unfolding sessionLive_def Let_def
  by (auto split: if_splits prod.splits bool.splits option.splits dest: stable_LockContext stable_outside)

lemma stable_dial: "stable P \<Longrightarrow> dial env cfg k st n a s = (b, s') \<Longrightarrow> P s \<Longrightarrow> P s'"
  unfolding dial_def Let_def
  by (auto split: if_splits prod.splits bool.splits dest: stable_live stable_outside)

lemma stable_packet_probe: "stable P \<Longrightarrow> packet_probe env cfg k st sz c s = (b, s') \<Longrightarrow> P s \<Longrightarrow> P s'"
  unfolding packet_probe_def Let_def
  by (auto split: if_splits prod.splits bool.splits option.splits sum.splits dest: stable_live stable_outside)

lemma stable_packet_loop: "stable P \<Longrightarrow> packet_loop env cfg k st sz n xs c s = (b, s') \<Longrightarrow> P s \<Longrightarrow> P s'"
proof (induction n arbitrary: xs c s)
  case (Suc n)
  obtain o' c1 s1 where p: "packet_probe env cfg k st sz c s = ((o', c1), s1)" by (metis surj_pair)
  have "P s1" by (rule stable_packet_probe [OF Suc.prems(1) p Suc.prems(3)])
  then show ?case using Suc.prems(2) Suc.IH [OF Suc.prems(1)] by (auto simp: p split: option.splits)
qed simp

lemma stable_packets: "stable P \<Longrightarrow> packets env cfg k st c s = (b, s') \<Longrightarrow> P s \<Longrightarrow> P s'"
  unfolding packets_def Let_def
  by (auto split: if_splits prod.splits bool.splits option.splits dest: stable_dial stable_packet_loop)

lemma stable_verify_external: "stable P \<Longrightarrow> verify_external env k st s = (b, s') \<Longrightarrow> P s \<Longrightarrow> P s'"
  unfolding verify_external_def
  by (auto split: if_splits prod.splits dest: stable_live stable_outside)

lemma stable_external_body: "stable P \<Longrightarrow> external_body env cfg k st c s = (b, s') \<Longrightarrow> P s \<Longrightarrow> P s'"
  unfolding external_body_def
  by (auto split: if_splits prod.splits bool.splits option.splits dest: stable_live stable_outside stable_verify_external)

lemma stable_measureExternal:
  assumes "stable P" "measureExternal env cfg k st m s = (c, s')" "P s"
  shows "P s'"
proof (cases "own_begin env")
  case None
  then show ?thesis using assms stable_external_body [OF assms(1)] by (auto simp: measureExternal_def Let_def)
next
  case (Some f)
  let ?c = "candidate0\<lparr>CMTU := m, LatencyKind := ''https-response''\<rparr>"
  let ?s = "if k = Work then s\<lparr>cand_done := False\<rparr> else s"
  have p0: "P ?s" using assms(3) stableD(3) [OF assms(1)] by simp
  obtain ok rel s1 where o: "outside env (f st) ?s = ((ok, rel), s1)" by (metis surj_pair)
  obtain l s2 where l: "(if ok \<and> rel then live env Measuring st s1 else (False, s1)) = (l, s2)" by (metis surj_pair)
  obtain c3 s3 where b: "(if l then external_body env cfg Measuring st ?c s2
      else (fail_candidate ?c ''captured external measurement activity is unavailable'', s2)) = (c3, s3)" by (metis surj_pair)
  have "P s1" by (rule stable_outside [OF assms(1) o p0])
  then have "P s2" using l stable_live [OF assms(1)] by (auto split: if_splits)
  then have "P s3" using b stable_external_body [OF assms(1)] by (auto split: if_splits)
  moreover have "s' = (if rel then snd (outside env (\<lambda>w. ((), own_release env w)) s3) else s3)"
    using assms(2) unfolding measureExternal_def Let_def Some option.case o prod.case l b by simp
  ultimately show ?thesis using stable_outside [OF assms(1)] by (metis prod.collapse)
qed

lemma stable_measure_candidate:
  assumes "stable P" "measure_candidate env cfg st m s = (c, s')" "P s"
  shows "P s'"
proof -
  let ?s = "s\<lparr>cand_done := False\<rparr>"
  have p0: "P ?s" by (rule stableD [OF assms(1,3)])
  show ?thesis
  proof (cases "external cfg = None")
    case False
    then show ?thesis using assms(2) stable_measureExternal [OF assms(1) _ p0] by (simp add: measure_candidate_def Let_def)
  next
    case True
    let ?c = "candidate0\<lparr>CMTU := m\<rparr>"
    obtain err s1 where o: "outside env (prove_path env st) ?s = (err, s1)" by (metis surj_pair)
    obtain ok c2 s2 where k: "(if err then ((False, ?c), s1) else packets env cfg Measuring st ?c s1) = ((ok, c2), s2)"
      by (metis surj_pair)
    have "P s1" by (rule stable_outside [OF assms(1) o p0])
    then have p2: "P s2" using k stable_packets [OF assms(1)] by (auto split: if_splits)
    show ?thesis
      using assms(2) p2 stable_outside [OF assms(1)] True
      unfolding measure_candidate_def Let_def o prod.case k by (auto split: if_splits prod.splits option.splits)
  qed
qed

lemma stable_verify_winner: "stable P \<Longrightarrow> verify_winner env cfg st m s = (r, s') \<Longrightarrow> P s \<Longrightarrow> P s'"
  unfolding verify_winner_def
  by (auto split: if_splits prod.splits bool.splits dest: stable_measureExternal stable_packets stable_outside)

section \<open>The cache keeps what the outside keeps\<close>

locale controller_env =
  fixes env :: "'w env"
  assumes lookup_stable: "cache_lookup env = Some f \<Longrightarrow> stable P \<Longrightarrow> f key s = (r, s') \<Longrightarrow> P s \<Longrightarrow> P s'"
    and save_stable: "stable P \<Longrightarrow> (\<And>s b s'. valid s = (b, s') \<Longrightarrow> P s \<Longrightarrow> P s') \<Longrightarrow>
      cache_save env key mtu valid s = (r', s') \<Longrightarrow> P s \<Longrightarrow> P s'"

text \<open>
  A preference cache behind the controller: its store is called outside the mutex, so the other
  goroutines may act during every call.
\<close>

definition shared_store :: "'w env \<Rightarrow> 'w Preferences \<Rightarrow> 'w sys Preferences" where
  "shared_store env st = \<lparr>ReadMTUCache = outside env (ReadMTUCache st),
     CompareAndSwapMTUCache = (\<lambda>old new. outside env (CompareAndSwapMTUCache st old new))\<rparr>"

definition with_preferences :: "'w Preferences \<Rightarrow> ('w \<Rightarrow> int) \<Rightarrow> 'w env \<Rightarrow> 'w env" where
  "with_preferences st now env = env
     \<lparr>cache_lookup := Some (\<lambda>key s. map_prod Inr id (Lookup (Some (shared_store env st)) (now \<circ> world) key s)),
      cache_save := (\<lambda>key mtu valid. Save (Some (shared_store env st)) (now \<circ> world) key mtu (Some valid))\<rparr>"

lemma stable_cache_read:
  "stable P \<Longrightarrow> cache_read (Some (shared_store env st)) s = (r, s') \<Longrightarrow> P s \<Longrightarrow> P s'"
  unfolding cache_read_def shared_store_def
  by (auto split: prod.splits sum.splits dest: stable_outside)

lemma stable_Lookup:
  "stable P \<Longrightarrow> Lookup (Some (shared_store env st)) now key s = (r, s') \<Longrightarrow> P s \<Longrightarrow> P s'"
  unfolding Lookup_def
  by (auto split: if_splits prod.splits sum.splits option.splits dest: stable_cache_read)

lemma stable_swap:
  "stable P \<Longrightarrow> CompareAndSwapMTUCache (shared_store env st) old new s = (r, s') \<Longrightarrow> P s \<Longrightarrow> P s'"
  unfolding shared_store_def by (auto dest: stable_outside)

lemma stable_rollback_save:
  "stable P \<Longrightarrow> rollback_save (shared_store env st) old new s = (r, s') \<Longrightarrow> P s \<Longrightarrow> P s'"
  unfolding rollback_save_def
  by (auto split: prod.splits sum.splits bool.splits dest: stable_swap)

lemma stable_commit_save:
  assumes "stable P" "\<And>s b s'. valid s = (b, s') \<Longrightarrow> P s \<Longrightarrow> P s'"
    and "commit_save (shared_store env st) old new valid s = (r, s')" "P s"
  shows "P s'"
  using assms(3,4) unfolding commit_save_def
  by (auto split: prod.splits sum.splits bool.splits dest: assms(2) stable_swap [OF assms(1)] stable_rollback_save [OF assms(1)])

lemma stable_Save:
  assumes "stable P" "\<And>s b s'. valid s = (b, s') \<Longrightarrow> P s \<Longrightarrow> P s'"
    and "Save (Some (shared_store env st)) now key mtu (Some valid) s = (r, s')" "P s"
  shows "P s'"
proof -
  have c: "P t'" if "commit_save (shared_store env st) old new valid t = (q, t')" "P t" for old new t q t'
    by (rule stable_commit_save [where valid = valid, OF assms(1) _ that]) (rule assms(2))
  show ?thesis
    using assms(3,4) unfolding Save_def Let_def option.case
    by (auto split: if_splits prod.splits sum.splits bool.splits dest: assms(2) stable_cache_read [OF assms(1)] c)
qed

interpretation pref: controller_env "with_preferences st now env" for st now env
proof
  show "cache_lookup (with_preferences st now env) = Some f \<Longrightarrow> stable P \<Longrightarrow> f key s = (r, s') \<Longrightarrow> P s \<Longrightarrow> P s'"
    for f P key s r s'
    by (auto simp: with_preferences_def map_prod_def split: prod.splits dest: stable_Lookup)
  show "stable P \<Longrightarrow> (\<And>s b s'. valid s = (b, s') \<Longrightarrow> P s \<Longrightarrow> P s') \<Longrightarrow>
      cache_save (with_preferences st now env) key mtu valid s = (r', s') \<Longrightarrow> P s \<Longrightarrow> P s'" for P valid key mtu s r' s'
    using stable_Save [of P valid env st "now \<circ> world" key mtu s r' s'] by (simp add: with_preferences_def)
qed

section \<open>Invariants of a run\<close>

definition same_session :: "State \<Rightarrow> State \<Rightarrow> bool" where
  "same_session original st \<longleftrightarrow> Session st = Session original \<and> SPath st = SPath original"

text \<open>
  What a run keeps: whatever the outside keeps, the phase of a usable controller and the list of tried
  candidates may change, and an MTU of \<open>ms\<close> may be requested on the captured session.
\<close>

definition run_inv :: "State \<Rightarrow> int set \<Rightarrow> ('w sys \<Rightarrow> bool) \<Rightarrow> bool" where
  "run_inv original ms P \<longleftrightarrow> stable P
     \<and> (\<forall>s v. P s \<and> usable s \<longrightarrow> P (set_status (\<lambda>st. st\<lparr>Phase := v\<rparr>) s))
     \<and> (\<forall>s c. P s \<longrightarrow> P (set_status (\<lambda>st. st\<lparr>Tried := Tried st @ [c]\<rparr>) s))
     \<and> (\<forall>s st m. P s \<and> same_session original st \<and> m \<in> ms \<longrightarrow> P (s\<lparr>calls := calls s @ [(st, m)]\<rparr>))"

lemma run_inv_stable: "run_inv original ms P \<Longrightarrow> stable P"
  by (simp add: run_inv_def)

lemma run_inv_phase: "run_inv original ms P \<Longrightarrow> P s \<Longrightarrow> usable s \<Longrightarrow> P (set_status (\<lambda>st. st\<lparr>Phase := v\<rparr>) s)"
  by (simp add: run_inv_def)

lemma run_inv_tried: "run_inv original ms P \<Longrightarrow> P s \<Longrightarrow> P (set_status (\<lambda>st. st\<lparr>Tried := Tried st @ [c]\<rparr>) s)"
  by (simp add: run_inv_def)

lemma run_inv_call:
  "run_inv original ms P \<Longrightarrow> P s \<Longrightarrow> same_session original st \<Longrightarrow> m \<in> ms \<Longrightarrow> P (s\<lparr>calls := calls s @ [(st, m)]\<rparr>)"
  by (simp add: run_inv_def)

lemma set_phase_inv:
  assumes "run_inv original ms P" "set_phase env k v s = (b, s')" "P s"
  shows "P s'"
proof -
  obtain c s1 where l: "LockContext env k s = (c, s1)" by (metis surj_pair)
  have "P s1" by (rule stable_LockContext [OF run_inv_stable [OF assms(1)] l assms(3)])
  then have "usable s1 \<longrightarrow> P (set_status (\<lambda>st. st\<lparr>Phase := v\<rparr>) s1)" using run_inv_phase [OF assms(1)] by simp
  with \<open>P s1\<close> show ?thesis using assms(2) by (auto simp: set_phase_def Let_def l split: bool.splits if_splits)
qed

lemma change_mtu_inv:
  assumes "run_inv original ms P" "change_mtu env st m s = (r, s')" "P s" "same_session original st" "m \<in> ms"
  shows "P s'"
proof -
  have "P (s\<lparr>calls := calls s @ [(st, m)]\<rparr>)" by (rule run_inv_call [OF assms(1,3-5)])
  then show ?thesis by (rule stable_outside [OF run_inv_stable [OF assms(1)] assms(2) [unfolded change_mtu_def]])
qed

lemma adopt_state_session: "same_session original expected \<Longrightarrow> same_session original (adopt_state original expected st)"
  by (simp add: adopt_state_def same_session_def)

lemma apply_mtu_inv:
  assumes "run_inv original ms P" "apply_mtu env original expected m s = ((expected', b), s')" "P s"
    "same_session original expected" "m \<in> ms"
  shows "P s' \<and> same_session original expected'"
proof -
  obtain st err s1 where c: "change_mtu env expected m s = ((st, err), s1)" by (metis surj_pair)
  have "P s1" by (rule change_mtu_inv [OF assms(1) c assms(3-5)])
  then show ?thesis
    using assms(2) adopt_state_session [OF assms(4), of st] stable_live [OF run_inv_stable [OF assms(1)]]
    unfolding apply_mtu_def Let_def c prod.case by (auto split: if_splits prod.splits)
qed

lemma apply_event_calls [simp]: "calls (apply_event e s) = calls s"
  by (cases e) (simp_all add: apply_event_def Cancel_def call_cancel_def Invalidate_def Close_def revokeLocked_def set_status_def Let_def)

lemma stable_calls: "stable (\<lambda>s. calls s = xs)"
  by (simp add: stable_def)

lemma change_mtu_calls: "change_mtu env st m s = (r, s') \<Longrightarrow> calls s' = calls s @ [(st, m)]"
  using stable_outside [OF stable_calls, of env "own_change env st m" "s\<lparr>calls := calls s @ [(st, m)]\<rparr>"]
  by (simp add: change_mtu_def)

lemma apply_mtu_calls:
  assumes "apply_mtu env original expected m s = ((e', b), s')"
  shows "calls s' = calls s @ [(expected, m)]"
proof -
  obtain st err s1 where c: "change_mtu env expected m s = ((st, err), s1)" by (metis surj_pair)
  show ?thesis
    using assms change_mtu_calls [OF c] stable_live [OF stable_calls] unfolding apply_mtu_def Let_def c prod.case
    by (auto split: if_splits prod.splits)
qed

lemma packet_probe_CMTU: "packet_probe env cfg k st sz c s = ((r, c'), s') \<Longrightarrow> CMTU c' = CMTU c \<and> Working c' = Working c"
  unfolding packet_probe_def Let_def by (auto split: if_splits prod.splits bool.splits option.splits sum.splits)

lemma packet_loop_CMTU:
  "packet_loop env cfg k st sz n xs c s = ((r, c'), s') \<Longrightarrow> CMTU c' = CMTU c \<and> Working c' = Working c"
proof (induction n arbitrary: xs c s)
  case (Suc n)
  obtain r1 c1 s1 where p: "packet_probe env cfg k st sz c s = ((r1, c1), s1)" by (metis surj_pair)
  show ?case using Suc.prems Suc.IH packet_probe_CMTU [OF p] by (fastforce simp: p split: option.splits)
qed simp

lemma packets_CMTU: "packets env cfg k st c s = ((r, c'), s') \<Longrightarrow> CMTU c' = CMTU c \<and> Working c' = Working c"
  unfolding packets_def Let_def
  by (auto split: if_splits prod.splits bool.splits option.splits dest!: packet_loop_CMTU)

lemma external_body_CMTU: "external_body env cfg k st c s = (c', s') \<Longrightarrow> CMTU c' = CMTU c"
  unfolding external_body_def Let_def fail_candidate_def
  by (auto split: if_splits prod.splits bool.splits option.splits)

lemma measure_candidate_CMTU:
  assumes "measure_candidate env cfg st m s = (c, s')"
  shows "CMTU c = m"
proof (cases "external cfg = None")
  case True
  then show ?thesis using assms unfolding measure_candidate_def Let_def
    by (auto split: if_splits prod.splits option.splits simp: fail_candidate_def candidate0_def dest!: packets_CMTU)
next
  case False
  have "CMTU c' = m" if "external_body env cfg Measuring st (candidate0\<lparr>CMTU := m, LatencyKind := ''https-response''\<rparr>) t = (c', t')"
    for c' t t' using external_body_CMTU [OF that] by simp
  then show ?thesis using False assms unfolding measure_candidate_def measureExternal_def Let_def
    by (auto split: if_splits prod.splits option.splits simp: fail_candidate_def)
qed

lemma Choose_member:
  assumes "Working (Choose rnd cs original)"
  shows "Choose rnd cs original \<in> set cs"
proof -
  let ?b = "baseline rnd original cs candidate0"
  have keep: "foldl (\<lambda>w c. if improves rnd l w c then c else w) b xs \<in> insert b (set xs)" for l b xs
  proof (induction xs arbitrary: b)
    case (Cons x xs)
    show ?case using Cons [of "if improves rnd l b x then x else b"] by (auto split: if_splits)
  qed simp
  have none: "\<not> Working candidate0" by (simp add: candidate0_def)
  then have b: "Working ?b" using assms by (auto simp: Choose_def Let_def split: if_splits)
  then have "?b \<in> set cs" using baseline_cases [OF b] none by auto
  with keep [of "rtt_limit rnd ?b" ?b cs] b show ?thesis by (auto simp: Choose_def Let_def insert_absorb)
qed

lemma run_inv_conj: "run_inv original ms P \<Longrightarrow> run_inv original ms Q \<Longrightarrow> run_inv original ms (\<lambda>s. P s \<and> Q s)"
  by (simp add: run_inv_def stable_conj)

text \<open>Every candidate that passed is recorded as tried.\<close>

definition recorded :: "Candidate list \<Rightarrow> 'w sys \<Rightarrow> bool" where
  "recorded cs s \<longleftrightarrow> set cs \<subseteq> set (Tried (status (ctl s)))"

lemma apply_event_Tried [simp]: "Tried (status (ctl (apply_event e s))) = Tried (status (ctl s))"
  by (cases e) (simp_all add: apply_event_def Cancel_def call_cancel_def Invalidate_def Close_def revokeLocked_def set_status_def
      revoke_def Let_def)

lemma run_inv_recorded: "run_inv original ms (recorded cs)"
  by (auto simp: run_inv_def stable_def recorded_def set_status_def)

lemma run_trials_inv:
  assumes "run_inv original ms P"
  shows "run_trials env cfg original mtus passed expected dirty s = ((r, expected', dirty'), s') \<Longrightarrow> P s \<Longrightarrow>
    recorded passed s \<Longrightarrow> list_all Working passed \<Longrightarrow>
    same_session original expected \<Longrightarrow> set mtus \<subseteq> ms \<Longrightarrow> CMTU ` set passed \<subseteq> ms \<Longrightarrow>
    P s' \<and> same_session original expected' \<and>
      (\<forall>cs. r = Inr cs \<longrightarrow> recorded cs s' \<and> list_all Working cs \<and> CMTU ` set cs \<subseteq> ms)"
proof (induction mtus arbitrary: passed expected dirty s)
  case (Cons m mtus)
  let ?Q = "\<lambda>s. P s \<and> recorded passed s"
  have inv: "run_inv original ms ?Q" by (rule run_inv_conj [OF assms run_inv_recorded])
  note st = run_inv_stable [OF inv]
  have p0: "?Q s" using Cons.prems(2,3) by blast
  show ?case
  proof (cases "deadline_near env (snd (snd (measurementBudgets cfg))) (world s) \<and> passed \<noteq> []")
    case True
    then show ?thesis using Cons.prems by auto
  next
    case False
    obtain b1 s1 where l1: "live env Work expected s = (b1, s1)" by (rule prod.exhaust)
    have p1: "?Q s1" by (rule stable_live [OF st l1 p0])
    show ?thesis
    proof (cases b1)
      case nb: False
      then show ?thesis using Cons.prems(1,5) False l1 p1 by auto
    next
      case b1: True
      obtain b2 s2 where l2: "set_phase env Work (''applying '' @ Itoa m) s1 = (b2, s2)" by (rule prod.exhaust)
      have p2: "?Q s2" by (rule set_phase_inv [OF inv l2 p1])
      obtain e3 b3 s3 where l3: "apply_mtu env original expected m s2 = ((e3, b3), s3)" by (metis surj_pair)
      have p3: "?Q s3" "same_session original e3"
        using apply_mtu_inv [OF inv l3 p2 Cons.prems(5)] Cons.prems(6) by auto
      obtain b4 s4 where l4: "set_phase env Work (''measuring '' @ Itoa m) s3 = (b4, s4)" by (rule prod.exhaust)
      have p4: "?Q s4" by (rule set_phase_inv [OF inv l4 p3(1)])
      obtain c s5 where l5: "measure_candidate env cfg e3 m s4 = (c, s5)" by (rule prod.exhaust)
      have p5: "?Q s5" by (rule stable_measure_candidate [OF st l5 p4])
      obtain b6 s6 where l6: "LockContext env Work s5 = (b6, s6)" by (rule prod.exhaust)
      have p6: "?Q s6" by (rule stable_LockContext [OF st l6 p5])
      let ?t = "set_status (\<lambda>st. st\<lparr>Tried := Tried st @ [c]\<rparr>) s6"
      let ?passed = "if Working c then passed @ [c] else passed"
      let ?R = "\<lambda>s. P s \<and> recorded ?passed s"
      have rt: "recorded ?passed ?t" using p6 by (auto simp: recorded_def set_status_def)
      have "P s6" using p6 by blast
      then have pt: "?R ?t" using run_inv_tried [OF assms] rt by blast
      obtain b7 s7 where l7: "live env Work e3 ?t = (b7, s7)" by (rule prod.exhaust)
      have inv7: "run_inv original ms ?R" by (rule run_inv_conj [OF assms run_inv_recorded])
      have p7: "?R s7" by (rule stable_live [OF run_inv_stable [OF inv7] l7 pt])
      have cm: "CMTU c = m" by (rule measure_candidate_CMTU [OF l5])
      have sub: "list_all Working ?passed" "CMTU ` set ?passed \<subseteq> ms" using cm Cons.prems(4,6,7) by auto
      have eq: "run_trials env cfg original (m # mtus) passed expected dirty s =
        (if b2 then if b3 then if b4 then if b6 then
           if b7 then run_trials env cfg original mtus ?passed e3 True s7
           else ((Inl errCanceled, e3, True), s7)
         else ((Inl errCanceled, e3, True), s6)
         else ((Inl errCanceled, e3, True), s4)
         else ((fail ''candidate did not become the actual owned system TUN MTU'', e3, True), s3)
         else ((Inl errCanceled, expected, dirty), s2))"
        by (simp only: run_trials.simps False if_False l1 b1 prod.case bool.case bool.case_eq_if if_True l2 l3 l4 Let_def
            l5 l6 l7 simp_thms)
      have IH: "run_trials env cfg original mtus ?passed e3 True s7 = ((r, expected', dirty'), s') \<Longrightarrow>
        P s' \<and> same_session original expected' \<and>
        (\<forall>cs. r = Inr cs \<longrightarrow> recorded cs s' \<and> list_all Working cs \<and> CMTU ` set cs \<subseteq> ms)"
        using Cons.IH [of ?passed e3 True s7] p7 p3(2) sub Cons.prems(6) by auto
      show ?thesis
        using Cons.prems(1,5) p2 p3 p4 p6 p7 IH unfolding eq by (auto split: if_split_asm)
    qed
  qed
qed auto

section \<open>The run as a whole\<close>

text \<open>The write of an adopted result.\<close>

definition commit_write :: "settings \<Rightarrow> int \<Rightarrow> string \<Rightarrow> 'w sys \<Rightarrow> 'w sys" where
  "commit_write cfg m final s = set_status (\<lambda>st. st\<lparr>Measured := True, EffectiveMTU := m, Source := measured_source cfg,
     Phase := ''complete''\<rparr>) (s\<lparr>ctl := (ctl s)\<lparr>currentConfig := final\<rparr>\<rparr>)"

text \<open>How a step of the run ends: in error with \<open>P\<close> kept, or by the write of an adopted result.\<close>

definition adopted :: "settings \<Rightarrow> Plan \<Rightarrow> ('w sys \<Rightarrow> bool) \<Rightarrow> int set \<Rightarrow> 'w sys \<Rightarrow> bool" where
  "adopted cfg plan P ms s' \<longleftrightarrow> (\<exists>t m final. m \<in> ms \<and> P t \<and> usable t \<and> \<not> work_done t \<and> Config plan m = Inr final
     \<and> calls t \<noteq> [] \<and> snd (last (calls t)) = m \<and> (\<exists>c. recorded [c] t \<and> Working c \<and> CMTU c = m)
     \<and> s' = commit_write cfg m final t)"

text \<open>The write of a confirmed rollback.\<close>

definition restore_write :: "State \<Rightarrow> string \<Rightarrow> 'w sys \<Rightarrow> 'w sys" where
  "restore_write original config s = set_status (\<lambda>st. st\<lparr>Restored := True, EffectiveMTU := SMTU original,
     Source := ''restored-unmeasured'', Phase := ''restored''\<rparr>) (s\<lparr>ctl := (ctl s)\<lparr>currentConfig := config\<rparr>\<rparr>)"

definition keeps_failure :: "('w sys \<Rightarrow> bool) \<Rightarrow> bool" where
  "keeps_failure P \<longleftrightarrow> (\<forall>s v. P s \<longrightarrow> P (set_status (\<lambda>st. st\<lparr>Failure := v\<rparr>) s))"

lemma note_failure_inv: "stable P \<Longrightarrow> keeps_failure P \<Longrightarrow> P s \<Longrightarrow> P (note_failure env msg s)"
  by (simp add: note_failure_def locked_def keeps_failure_def stable_sync)

lemma sessionLive_session: "sessionLive env k expected s = ((st, True), s') \<Longrightarrow> same_session expected st"
  unfolding sessionLive_def Let_def same_session_def
  by (auto split: if_split_asm prod.splits bool.splits)

lemma rollback_outcome:
  assumes "run_inv original ms P" "keeps_failure P" "P s" "same_session original expected" "SMTU original \<in> ms"
  shows "P (rollback env config original expected s) \<or>
    (\<exists>t. P t \<and> usable t \<and> \<not> cleanup_done t \<and> calls t \<noteq> [] \<and> snd (last (calls t)) = SMTU original
      \<and> rollback env config original expected s = restore_write original config t)"
proof -
  note st = run_inv_stable [OF assms(1)]
  note nf = note_failure_inv [OF st assms(2)]
  have p0: "P (s\<lparr>cleanup_done := False\<rparr>)" by (rule stableD [OF st assms(3)])
  obtain granted s1 where l1: "outside env (cleanup_context env) (s\<lparr>cleanup_done := False\<rparr>) = (granted, s1)"
    by (rule prod.exhaust)
  have p1: "P s1" by (rule stable_outside [OF st l1 p0])
  obtain rs b2 s2 where l2: "sessionLive env Cleanup expected s1 = ((rs, b2), s2)" by (metis surj_pair)
  have p2: "P s2" by (rule stable_sessionLive [OF st l2 p1])
  show ?thesis
  proof (cases "granted \<and> b2")
    case False
    then show ?thesis using nf p1 p2 unfolding rollback_def Let_def l1 prod.case by (auto simp: l2)
  next
    case True
    have ss: "same_session original rs"
      using sessionLive_session [of env Cleanup expected s1 rs s2] l2 True assms(4) by (simp add: same_session_def)
    obtain st3 err s3 where l3: "change_mtu env rs (SMTU original) s2 = ((st3, err), s3)" by (metis surj_pair)
    have p3: "P s3" by (rule change_mtu_inv [OF assms(1) l3 p2 ss assms(5)])
    let ?R = "\<lambda>s. P s \<and> (calls s \<noteq> [] \<and> snd (last (calls s)) = SMTU original)"
    have str: "stable ?R" by (rule stable_conj [OF st]) (auto simp: stable_def)
    have r3: "?R s3" using p3 change_mtu_calls [OF l3] by simp
    obtain l s4 where l4: "(if err \<or> SMTU st3 \<noteq> SMTU original \<or> Session st3 \<noteq> Session original \<or> SPath st3 \<noteq> SPath original
        then (False, s3) else live env Cleanup st3 s3) = (l, s4)" by (rule prod.exhaust)
    have r4: "?R s4" using l4 r3 stable_live [OF str] by (auto split: if_split_asm)
    have r5: "?R (sync env s4)" by (rule stable_sync [OF str r4])
    have eq: "rollback env config original expected s =
      (if \<not> l then note_failure env ''Exact pre-test MTU rollback could not be confirmed'' s4
       else if \<not> usable (sync env s4) \<or> cleanup_done (sync env s4) then sync env s4
       else restore_write original config (sync env s4))"
      using True unfolding rollback_def Let_def l1 prod.case
      by (simp only: simp_thms if_False if_True l2 prod.case bool.case_eq_if l3 l4 restore_write_def)
    show ?thesis unfolding eq using nf r4 r5 by auto
  qed
qed

definition allowed :: "State \<Rightarrow> Plan \<Rightarrow> int \<Rightarrow> int set" where
  "allowed original plan cached = insert (SMTU original) (set (Candidates plan cached))"

text \<open>
  The plan of a run and the MTUs it may request: they follow from the configuration the operation works on, the
  state that the owner reported first, and one lookup of the cached MTU under the key of that plan and path.
\<close>

definition run_key :: "settings \<Rightarrow> State \<Rightarrow> Plan \<Rightarrow> string" where
  "run_key cfg original plan = key_of cfg (plan\<lparr>source := frozenConfig cfg\<rparr>) (profile cfg) (SPath original)"

definition run_scope :: "'w env \<Rightarrow> settings \<Rightarrow> string \<Rightarrow> bool \<Rightarrow> State \<Rightarrow> State \<Rightarrow> Plan \<Rightarrow> int set \<Rightarrow> bool" where
  "run_scope env cfg config force captured original plan ms \<longleftrightarrow> original = captured
     \<and> plan_of cfg config (SMTU original) = Inr plan
     \<and> (\<exists>cached t t'. lookup_cached env force (run_key cfg original plan) t = (Inr cached, t') \<and> ms = allowed original plan cached)"

definition captured_state :: "'w env \<Rightarrow> 'w sys \<Rightarrow> State" where
  "captured_state env s = fst (fst (own_capture env (world s)))"

lemma stable_all: "(\<And>x. stable (P x)) \<Longrightarrow> stable (\<lambda>s. \<forall>x. P x s)"
  by (simp add: stable_def)

context controller_env
begin

lemma commit_outcome:
  assumes "stable P" "commit env cfg plan key expected m s = (r, s')" "P s"
  shows "(\<exists>e. r = Inl e) \<and> P s' \<or>
    r = Inr () \<and> (\<exists>t final. P t \<and> usable t \<and> \<not> work_done t \<and> Config plan m = Inr final \<and> s' = commit_write cfg m final t)"
proof -
  obtain b1 s1 where l1: "live env Work expected s = (b1, s1)" by (rule prod.exhaust)
  have p1: "P s1" by (rule stable_live [OF assms(1) l1 assms(3)])
  obtain saved s2 where l2: "(if cache_lookup env = None then (Inr (), s1)
      else cache_save env key m (live env Work expected) s1) = (saved, s2)" by (rule prod.exhaust)
  have p2: "P s2"
  proof (cases "cache_lookup env = None")
    case False
    then have "cache_save env key m (live env Work expected) s1 = (saved, s2)" using l2 False by (simp only: if_False)
    from save_stable [OF assms(1) stable_live [OF assms(1)] this p1] show ?thesis .
  qed (use l2 p1 in simp)
  obtain b3 s3 where l3: "live env Work expected s2 = (b3, s3)" by (rule prod.exhaust)
  have p3: "P s3" by (rule stable_live [OF assms(1) l3 p2])
  obtain b4 s4 where l4: "LockContext env Work s3 = (b4, s4)" by (rule prod.exhaust)
  have p4: "P s4" by (rule stable_LockContext [OF assms(1) l4 p3])
  show ?thesis
    using assms(2) p1 p2 p3 p4 unfolding commit_def Let_def l1 l2 l3 l4 prod.case commit_write_def
    by (auto split: bool.splits if_split_asm sum.splits)
qed

lemma run_inv_last: "m \<in> ms \<Longrightarrow> stable P \<Longrightarrow> stable (\<lambda>s. P s \<and> calls s \<noteq> [] \<and> snd (last (calls s)) = m)"
  by (rule stable_conj) (auto simp: stable_def)

lemma adopt_winner_outcome:
  assumes "run_inv original ms P" "adopt_winner env cfg plan key original passed expected dirty s = ((r, e', d'), s')"
    "P s" "recorded passed s" "list_all Working passed" "same_session original expected" "CMTU ` set passed \<subseteq> ms"
  shows "(\<exists>e. r = Inl e) \<and> P s' \<and> same_session original e' \<or> r = Inr () \<and> adopted cfg plan P ms s'"
proof (cases "passed = [] \<or> \<not> Working (Choose (round_of cfg) passed (SMTU original))")
  case True
  then show ?thesis using assms(2,3,6) unfolding adopt_winner_def Let_def by (auto split: if_split_asm)
next
  case False
  let ?w = "Choose (round_of cfg) passed (SMTU original)" and ?Q = "\<lambda>s. P s \<and> recorded passed s"
  have w: "?w \<in> set passed" "CMTU ?w \<in> ms" using Choose_member False assms(7) by auto
  have inv: "run_inv original ms ?Q" by (rule run_inv_conj [OF assms(1) run_inv_recorded])
  note st = run_inv_stable [OF inv]
  have p0: "?Q s" using assms(3,4) by blast
  obtain b1 s1 where l1: "set_phase env Work (''adopting '' @ Itoa (CMTU ?w)) s = (b1, s1)" by (rule prod.exhaust)
  have p1: "?Q s1" by (rule set_phase_inv [OF inv l1 p0])
  obtain b2 s2 where l2: "live env Work expected s1 = (b2, s2)" by (rule prod.exhaust)
  have p2: "?Q s2" by (rule stable_live [OF st l2 p1])
  obtain e3 b3 s3 where l3: "apply_mtu env original expected (CMTU ?w) s2 = ((e3, b3), s3)" by (metis surj_pair)
  have p3: "?Q s3" "same_session original e3" using apply_mtu_inv [OF inv l3 p2 assms(6) w(2)] by auto
  let ?R = "\<lambda>s. ?Q s \<and> (calls s \<noteq> [] \<and> snd (last (calls s)) = CMTU ?w)"
  have str: "stable ?R" by (rule stable_conj [OF st]) (auto simp: stable_def)
  have "calls s3 = calls s2 @ [(expected, CMTU ?w)]"
    by (rule apply_mtu_calls [OF l3])
  then have p3r: "?R s3" using p3 by simp
  obtain r4 s4 where l4: "verify_winner env cfg e3 (CMTU ?w) s3 = (r4, s4)" by (rule prod.exhaust)
  have p4: "?R s4" by (rule stable_verify_winner [OF str l4 p3r])
  obtain r5 s5 where l5: "commit env cfg plan key e3 (CMTU ?w) s4 = (r5, s5)" by (rule prod.exhaust)
  note out = commit_outcome [OF str l5 p4]
  have Ww: "recorded [?w] t" if "?R t" for t using that w(1) by (auto simp: recorded_def)
  have last: "(\<exists>e. r5 = Inl e) \<and> P s5 \<or> r5 = Inr () \<and> adopted cfg plan P ms s5"
    using out False w(2) Ww unfolding adopted_def by blast
  have eq: "adopt_winner env cfg plan key original passed expected dirty s =
      (if b1 then if b2 then if b3 then
         (case r4 of Inl e \<Rightarrow> ((Inl e, e3, dirty), s4) | Inr _ \<Rightarrow> ((r5, e3, dirty), s5))
       else ((fail ''measured winner was not applied to its captured interface'', e3, dirty), s3)
       else ((Inl errCanceled, expected, dirty), s2)
       else ((Inl errCanceled, expected, dirty), s1))"
    using False by (simp only: adopt_winner_def Let_def l1 l2 l3 l4 l5 prod.case bool.case_eq_if if_False if_True
        simp_thms de_Morgan_disj split: sum.split)
  show ?thesis using assms(2,6) p1 p2 p3 p4 last unfolding eq by (auto split: if_split_asm sum.splits)
qed

lemma lookup_cached_inv:
  assumes "stable P" "lookup_cached env force key s = (r, s')" "P s"
  shows "P s'"
proof (cases "cache_lookup env")
  case (Some f)
  obtain q t where l: "f key s = (q, t)" by (rule prod.exhaust)
  have "P t" by (rule lookup_stable [OF Some assms(1) l assms(3)])
  then show ?thesis using assms(2,3) by (auto simp: lookup_cached_def Some l split: if_split_asm sum.splits)
qed (use assms in \<open>simp add: lookup_cached_def\<close>)

lemma run_body_outcome:
  assumes inv: "\<And>ms. run_inv original ms (P ms)"
    and "run_body env cfg plan key force original s = ((r, e', d'), s')" "\<And>ms. P ms s"
  shows "(\<exists>e. r = Inl e) \<and> \<not> d' \<and> P {} s'
    \<or> (\<exists>cached t t'. lookup_cached env force key t = (Inr cached, t')
        \<and> ((\<exists>e. r = Inl e) \<and> P (allowed original plan cached) s' \<and> same_session original e'
           \<or> r = Inr () \<and> adopted cfg plan (P (allowed original plan cached)) (allowed original plan cached) s'))"
proof -
  let ?P = "\<lambda>s. \<forall>ms. P ms s"
  have st: "stable ?P" by (rule stable_all [OF run_inv_stable [OF inv]])
  have p0: "?P s" using assms(3) by simp
  have self: "same_session original original" by (simp add: same_session_def)
  obtain err s1 where l1: "outside env (if external cfg \<noteq> None then own_verify env original else prove_path env original) s
    = (err, s1)" by (rule prod.exhaust)
  have p1: "?P s1" by (rule stable_outside [OF st l1 p0])
  obtain l s2 where l2: "(if err then (False, s1) else live env Work original s1) = (l, s2)" by (rule prod.exhaust)
  have p2: "?P s2" using stable_live [OF st _ p1] l2 p1 by (metis prod.inject)
  obtain r3 s3 where l3: "lookup_cached env force key s2 = (r3, s3)" by (rule prod.exhaust)
  have p3: "?P s3" by (rule lookup_cached_inv [OF st l3 p2])
  show ?thesis
  proof (cases "l \<and> is_ok r3")
    case False
    then have "(\<exists>e. r = Inl e) \<and> \<not> d' \<and> (s' = s2 \<or> s' = s3)"
      using assms(2) unfolding run_body_def Let_def l1 l2 l3 prod.case
      by (auto simp: is_ok_def l3 split: if_split_asm sum.splits)
    then show ?thesis using p2 p3 by blast
  next
    case True
    then obtain cached where r3: "r3 = Inr cached" by (auto simp: is_ok_def split: sum.splits)
    let ?ms = "allowed original plan cached"
    have sub: "set (Candidates plan cached) \<subseteq> ?ms" by (auto simp: allowed_def)
    have p3c: "P ?ms s3" using p3 by blast
    obtain r4 e4 d4 s4 where l4: "run_trials env cfg original (Candidates plan cached) [] original False s3 = ((r4, e4, d4), s4)"
      by (metis surj_pair)
    have p4: "P ?ms s4" "same_session original e4"
      "\<And>cs. r4 = Inr cs \<Longrightarrow> recorded cs s4 \<and> list_all Working cs \<and> CMTU ` set cs \<subseteq> ?ms"
      using run_trials_inv [OF inv l4 p3c _ _ self sub] by (auto simp: recorded_def)
    have eq: "run_body env cfg plan key force original s = (case r4 of Inl e \<Rightarrow> ((Inl e, e4, d4), s4)
        | Inr passed \<Rightarrow> adopt_winner env cfg plan key original passed e4 d4 s4)"
      using True unfolding run_body_def Let_def l1 l2 l3 r3 prod.case by (simp add: l3 r3 l4 split: sum.split)
    have "(\<exists>e. r = Inl e) \<and> P ?ms s' \<and> same_session original e' \<or> r = Inr () \<and> adopted cfg plan (P ?ms) ?ms s'"
    proof (cases r4)
      case (Inl e)
      then show ?thesis using assms(2) p4(1,2) unfolding eq by auto
    next
      case (Inr cs)
      then have "adopt_winner env cfg plan key original cs e4 d4 s4 = ((r, e', d'), s')"
        using assms(2) unfolding eq by simp
      then show ?thesis by (rule adopt_winner_outcome [OF inv]) (use p4 Inr in auto)
    qed
    then show ?thesis using l3 [unfolded r3] by blast
  qed
qed

lemma run_outcome:
  assumes "run env cfg config force s = (r, s')" "stable P0" "P0 s"
    and start: "\<And>original ms key t. P0 t \<Longrightarrow> \<not> work_done t \<Longrightarrow>
      P original ms (set_status (\<lambda>st. st\<lparr>OriginalMTU := SMTU original, EffectiveMTU := SMTU original, StKey := key\<rparr>) t)"
    and inv: "\<And>original ms. run_inv original ms (P original ms)"
    and fl: "\<And>original ms. keeps_failure (P original ms)"
  shows "(\<exists>e. r = Inl e) \<and> (P0 s' \<or> (\<exists>original. P original {} s')
      \<or> (\<exists>original plan ms. run_scope env cfg config force (captured_state env s) original plan ms \<and>
          (P original ms s' \<or> (\<exists>t. P original ms t \<and> usable t \<and> calls t \<noteq> [] \<and> snd (last (calls t)) = SMTU original
            \<and> s' = restore_write original config t))))
    \<or> r = Inr () \<and> (\<exists>original plan ms. run_scope env cfg config force (captured_state env s) original plan ms
        \<and> adopted cfg plan (P original ms) ms s')"
proof -
  obtain original err s1 where l1: "outside env (own_capture env) s = ((original, err), s1)" by (metis surj_pair)
  have p1: "P0 s1" by (rule stable_outside [OF assms(2) l1 assms(3)])
  have cap: "original = captured_state env s" using l1 by (simp add: captured_state_def outside_def Let_def split_def)
  obtain l s2 where l2: "(if err then (False, s1) else live env Work original s1) = (l, s2)" by (rule prod.exhaust)
  have p2: "P0 s2" using l2 p1 stable_live [OF assms(2)] by (auto split: if_split_asm)
  obtain b3 s3 where l3: "LockContext env Work s2 = (b3, s3)" by (rule prod.exhaust)
  have p3: "P0 s3" by (rule stable_LockContext [OF assms(2) l3 p2])
  show ?thesis
  proof (cases "l \<and> is_ok (plan_of cfg config (SMTU original)) \<and> b3")
    case False
    then show ?thesis using assms(1) p2 p3 unfolding run_def Let_def l1 l2 prod.case
      by (auto simp: is_ok_def l3 split: if_split_asm sum.splits)
  next
    case True
    then obtain plan where plan: "plan_of cfg config (SMTU original) = Inr plan" by (auto simp: is_ok_def split: sum.splits)
    let ?key = "run_key cfg original plan"
    let ?t = "set_status (\<lambda>st. st\<lparr>OriginalMTU := SMTU original, EffectiveMTU := SMTU original, StKey := ?key\<rparr>) s3"
    have nd: "\<not> work_done s3" using LockContext_open [of env Work s2 s3] l3 True by simp
    have pt: "P original ms ?t" for ms by (rule start [OF p3 nd])
    obtain r4 e4 d4 s4 where l4: "run_body env cfg plan ?key force original ?t = ((r4, e4, d4), s4)"
      by (metis surj_pair)
    note body = run_body_outcome [OF inv l4 pt]
    have eq: "run env cfg config force s = (case r4 of Inr _ \<Rightarrow> (Inr (), s4)
        | Inl e \<Rightarrow> (Inl e, if d4 then rollback env config original e4 s4 else s4))"
      using True unfolding run_def Let_def l1 l2 prod.case run_key_def [symmetric]
      by (simp add: plan l3 l4 split: sum.split)
    have sc: "run_scope env cfg config force (captured_state env s) original plan (allowed original plan cached)"
      if "lookup_cached env force ?key t = (Inr cached, t')" for cached t t'
      using that plan cap unfolding run_scope_def by blast
    show ?thesis
    proof (cases r4)
      case (Inl e)
      have r: "r = Inl e" "s' = (if d4 then rollback env config original e4 s4 else s4)"
        using assms(1) Inl unfolding eq by simp_all
      from body Inl consider (early) "\<not> d4" "P original {} s4"
        | (late) cached t t' where "lookup_cached env force ?key t = (Inr cached, t')"
          "P original (allowed original plan cached) s4" "same_session original e4" by blast
      then show ?thesis
      proof cases
        case early
        then show ?thesis using r by auto
      next
        case late
        let ?ms = "allowed original plan cached"
        have m: "SMTU original \<in> ?ms" by (simp add: allowed_def)
        have "P original ?ms s' \<or> (\<exists>t. P original ?ms t \<and> usable t \<and> calls t \<noteq> [] \<and> snd (last (calls t)) = SMTU original
            \<and> s' = restore_write original config t)"
          using rollback_outcome [OF inv fl late(2,3) m, of env config] late(2) r(2) by (cases d4) (simp_all, blast)
        with r(1) sc [OF late(1)] show ?thesis by blast
      qed
    next
      case (Inr u)
      then have "r = Inr ()" "s' = s4" using assms(1) unfolding eq by simp_all
      then show ?thesis using body Inr sc by blast
    qed
  qed
qed

end

section \<open>Invariant of the controller\<close>

text \<open>
  A closed or invalidated controller vouches for nothing, and its operation is cancelled.
\<close>

definition revoked :: "Status \<Rightarrow> bool" where
  "revoked st \<longleftrightarrow> \<not> Measured st \<and> \<not> Restored st \<and> EffectiveMTU st = 0 \<and> Source st = ''unavailable-stale-owner''"

definition stale_ok :: "Controller \<times> bool \<Rightarrow> bool" where
  "stale_ok = (\<lambda>(c, ended). closed c \<or> invalid c \<longrightarrow> revoked (status c) \<and> (has_cancel c \<longrightarrow> ended))"

definition revoked_ok :: "'w sys \<Rightarrow> bool" where
  "revoked_ok s \<longleftrightarrow> (usable s \<or> revoked (status (ctl s)) \<and> (has_cancel (ctl s) \<longrightarrow> work_done s))
     \<and> list_all stale_ok (moments s)"

lemma apply_event_fields [simp]:
  "has_cancel (ctl (apply_event e s)) = has_cancel (ctl s)"
  "Request_id (status (ctl (apply_event e s))) = Request_id (status (ctl s))"
  "Running (status (ctl (apply_event e s))) = Running (status (ctl s))"
  "currentConfig (ctl (apply_event e s)) = currentConfig (ctl s)"
  "recorded cs (apply_event e s) = recorded cs s"
  "moments (apply_event e s) = moments s @ [(ctl (apply_event e s), work_done (apply_event e s))]"
  by (cases e; simp add: apply_event_def Cancel_def call_cancel_def Invalidate_def Close_def revokeLocked_def set_status_def
      revoke_def recorded_def Let_def)+

lemma apply_event_status:
  "usable (apply_event e s) \<and> usable s \<and> status (ctl (apply_event e s)) = status (ctl s)
   \<or> \<not> usable (apply_event e s) \<and> (revoked (status (ctl (apply_event e s))) \<and> (has_cancel (ctl s) \<longrightarrow> work_done (apply_event e s))
       \<or> \<not> usable s \<and> status (ctl (apply_event e s)) = status (ctl s) \<and> (work_done s \<longrightarrow> work_done (apply_event e s)))"
  by (cases e) (auto simp: apply_event_def Cancel_def call_cancel_def Invalidate_def Close_def revokeLocked_def set_status_def
      revoke_def revoked_def usable_def Let_def)

lemma revoked_ok_event: "revoked_ok s \<Longrightarrow> revoked_ok (apply_event e s)"
  using apply_event_status [of e s] by (auto simp: revoked_ok_def stale_ok_def usable_def)

lemma usable_field [simp]:
  "usable (s\<lparr>world := w\<rparr>) = usable s" "usable (s\<lparr>work_done := b\<rparr>) = usable s" "usable (s\<lparr>cand_done := b\<rparr>) = usable s"
  "usable (s\<lparr>cleanup_done := b\<rparr>) = usable s" "usable (s\<lparr>calls := xs\<rparr>) = usable s"
  "usable (s\<lparr>moments := ms\<rparr>) = usable s"
  by (simp_all add: usable_def)

lemma set_status_simps [simp]:
  "status (ctl (set_status f s)) = f (status (ctl s))" "usable (set_status f s) = usable s"
  "has_cancel (ctl (set_status f s)) = has_cancel (ctl s)" "work_done (set_status f s) = work_done s"
  "calls (set_status f s) = calls s" "moments (set_status f s) = moments s" "currentConfig (ctl (set_status f s)) = currentConfig (ctl s)"
  "closed (ctl (set_status f s)) = closed (ctl s)" "invalid (ctl (set_status f s)) = invalid (ctl s)"
  by (simp_all add: set_status_def usable_def)

lemma stable_revoked_ok: "stable revoked_ok"
  by (auto simp: stable_def revoked_ok_event) (auto simp: revoked_ok_def)

lemma apply_event_unset:
  "Measured (status (ctl (apply_event e s))) \<Longrightarrow> Measured (status (ctl s)) \<and> EffectiveMTU (status (ctl (apply_event e s))) = EffectiveMTU (status (ctl s))"
  "Restored (status (ctl (apply_event e s))) \<Longrightarrow> Restored (status (ctl s)) \<and> status (ctl (apply_event e s)) = status (ctl s)"
  using apply_event_status [of e s] by (auto simp: revoked_def)

lemma stable_not_measured: "stable (\<lambda>s. \<not> Measured (status (ctl s)))"
  by (auto simp: stable_def dest: apply_event_unset)

lemma stable_not_restored: "stable (\<lambda>s. \<not> Restored (status (ctl s)))"
  by (auto simp: stable_def dest: apply_event_unset)

text \<open>The published operation \<open>request\<close> is running.\<close>

definition op_state :: "string \<Rightarrow> 'w sys \<Rightarrow> bool" where
  "op_state request s \<longleftrightarrow> revoked_ok s \<and> has_cancel (ctl s) \<and> Request_id (status (ctl s)) = request"

lemma stable_op_state: "stable (op_state request)"
  unfolding op_state_def by (intro stable_conj stable_revoked_ok) (simp_all add: stable_def)

lemma op_state_open: "op_state request s \<Longrightarrow> \<not> work_done s \<Longrightarrow> usable s"
  by (auto simp: op_state_def revoked_ok_def)

definition unmeasured :: "'w sys \<Rightarrow> bool" where
  "unmeasured s \<longleftrightarrow> \<not> Measured (status (ctl s)) \<and> \<not> Restored (status (ctl s))"

lemma stable_unmeasured: "stable unmeasured"
  unfolding unmeasured_def by (intro stable_conj stable_not_measured stable_not_restored)

text \<open>Since \<open>before\<close>, only MTUs of \<open>ms\<close> were requested, on the session and path of \<open>original\<close>.\<close>

definition requests :: "(State \<times> int) list \<Rightarrow> State \<Rightarrow> int set \<Rightarrow> 'w sys \<Rightarrow> bool" where
  "requests before original ms s \<longleftrightarrow> (\<exists>new. calls s = before @ new \<and> (\<forall>(st, m) \<in> set new. same_session original st \<and> m \<in> ms))"

lemma stable_requests: "stable (requests before original ms)"
  by (simp add: stable_def requests_def)

lemma requests_add:
  "requests before original ms s \<Longrightarrow> same_session original st \<Longrightarrow> m \<in> ms \<Longrightarrow>
   requests before original ms (s\<lparr>calls := calls s @ [(st, m)]\<rparr>)"
  unfolding requests_def by (elim exE) (rule_tac x = "new @ [(st, m)]" in exI, auto)

definition in_run :: "string \<Rightarrow> (State \<times> int) list \<Rightarrow> State \<Rightarrow> int set \<Rightarrow> 'w sys \<Rightarrow> bool" where
  "in_run request before original ms s \<longleftrightarrow> op_state request s \<and> unmeasured s \<and> requests before original ms s"

lemma stable_in_run: "stable (in_run request before original ms)"
  unfolding in_run_def by (intro stable_conj stable_op_state stable_unmeasured stable_requests)

lemma in_run_inv: "run_inv original ms (in_run request before original ms)"
proof -
  have "in_run request before original ms (set_status (\<lambda>st. st\<lparr>Phase := v\<rparr>) s)"
    if "in_run request before original ms s" "usable s" for s :: "'a sys" and v
    using that by (simp add: in_run_def op_state_def unmeasured_def requests_def revoked_ok_def)
  moreover have "in_run request before original ms (set_status (\<lambda>st. st\<lparr>Tried := Tried st @ [c]\<rparr>) s)"
    if "in_run request before original ms s" for s :: "'a sys" and c
    using that by (auto simp: in_run_def op_state_def unmeasured_def requests_def revoked_ok_def revoked_def)
  moreover have "in_run request before original ms (s\<lparr>calls := calls s @ [(st, m)]\<rparr>)"
    if "in_run request before original ms s" "same_session original st" "m \<in> ms" for s :: "'a sys" and st m
    using that(1) requests_add [OF _ that(2,3), of before s] by (auto simp: in_run_def op_state_def unmeasured_def revoked_ok_def)
  ultimately show ?thesis by (auto simp: stable_in_run run_inv_def)
qed

lemma in_run_failure: "keeps_failure (in_run request before original ms)"
  by (auto simp: keeps_failure_def in_run_def op_state_def unmeasured_def requests_def revoked_ok_def revoked_def)

section \<open>Outcomes of an operation\<close>

text \<open>\<open>sc\<close> relates the captured state, the plan and the MTUs that the operation may request, see \<open>run_scope\<close>.\<close>

type_synonym scope = "State \<Rightarrow> Plan \<Rightarrow> int set \<Rightarrow> bool"

definition op_log :: "scope \<Rightarrow> (State \<times> int) list \<Rightarrow> 'w sys \<Rightarrow> bool" where
  "op_log sc before s \<longleftrightarrow> calls s = before \<or> (\<exists>original plan ms. sc original plan ms \<and> requests before original ms s)"

text \<open>A \<open>Restored\<close> status is true: the last MTU requested is the original one.\<close>

definition restored_ok :: "scope \<Rightarrow> string \<Rightarrow> (State \<times> int) list \<Rightarrow> 'w sys \<Rightarrow> bool" where
  "restored_ok sc config before s \<longleftrightarrow> (Restored (status (ctl s)) \<longrightarrow>
     (\<exists>original plan ms. sc original plan ms \<and> requests before original ms s
        \<and> calls s \<noteq> [] \<and> snd (last (calls s)) = SMTU original \<and> EffectiveMTU (status (ctl s)) = SMTU original
        \<and> Source (status (ctl s)) = ''restored-unmeasured'' \<and> currentConfig (ctl s) = config))"

definition failed_state :: "scope \<Rightarrow> string \<Rightarrow> string \<Rightarrow> (State \<times> int) list \<Rightarrow> 'w sys \<Rightarrow> bool" where
  "failed_state sc config request before s \<longleftrightarrow> op_state request s \<and> \<not> Measured (status (ctl s))
     \<and> op_log sc before s \<and> restored_ok sc config before s"

definition vouches :: "settings \<Rightarrow> int \<Rightarrow> string \<Rightarrow> 'w sys \<Rightarrow> bool" where
  "vouches cfg m final s \<longleftrightarrow> Measured (status (ctl s)) \<and> EffectiveMTU (status (ctl s)) = m
     \<and> Source (status (ctl s)) = measured_source cfg \<and> Phase (status (ctl s)) = ''complete'' \<and> currentConfig (ctl s) = final"

text \<open>Unless it was closed or invalidated since, the controller reports the MTU adopted last.\<close>

definition adopted_state ::
  "settings \<Rightarrow> scope \<Rightarrow> string \<Rightarrow> (State \<times> int) list \<Rightarrow> State \<Rightarrow> Plan \<Rightarrow> int set \<Rightarrow> int \<Rightarrow> string \<Rightarrow> 'w sys \<Rightarrow> bool" where
  "adopted_state cfg sc request before original plan ms m final s \<longleftrightarrow> op_state request s
     \<and> sc original plan ms \<and> requests before original ms s \<and> m \<in> ms \<and> Config plan m = Inr final \<and> calls s \<noteq> [] \<and> snd (last (calls s)) = m
     \<and> (\<exists>c. recorded [c] s \<and> Working c \<and> CMTU c = m) \<and> \<not> Restored (status (ctl s))
     \<and> (usable s \<longrightarrow> vouches cfg m final s)"

lemma stable_log: "stable (op_log sc before)"
  by (simp add: stable_def op_log_def requests_def)

lemma restored_ok_event:
  assumes "restored_ok sc config before s"
  shows "restored_ok sc config before (apply_event e s)"
proof (cases "Restored (status (ctl (apply_event e s)))")
  case True
  then show ?thesis using assms apply_event_unset(2) [OF True] by (simp add: restored_ok_def requests_def)
qed (simp add: restored_ok_def)

lemma stable_restored_ok: "stable (restored_ok sc config before)"
  by (rule stableI) (erule restored_ok_event | simp add: restored_ok_def requests_def)+

lemma stable_failed_state: "stable (failed_state sc config request before)"
  unfolding failed_state_def by (intro stable_conj stable_op_state stable_not_measured stable_log stable_restored_ok)

lemma stable_vouches: "stable (\<lambda>s. usable s \<longrightarrow> vouches cfg m final s)"
proof (rule stableI)
  show "usable (apply_event e s) \<longrightarrow> vouches cfg m final (apply_event e s)" if "usable s \<longrightarrow> vouches cfg m final s"
    for e and s :: "'a sys" using that apply_event_status [of e s] by (auto simp: vouches_def)
qed (auto simp: vouches_def)

lemma stable_tried: "stable (\<lambda>s. \<exists>c. recorded [c] s \<and> Working c \<and> CMTU c = m)"
  by (rule stableI) (simp | simp add: recorded_def)+

lemma stable_adopted_state: "stable (adopted_state cfg sc request before original plan ms m final)"
  unfolding adopted_state_def
  by (intro stable_conj stable_op_state stable_requests stable_vouches stable_tried stable_not_restored) (simp_all add: stable_def)

lemma restored_failed_state:
  assumes "in_run request before original ms t" "sc original plan ms"
    "usable t" "calls t \<noteq> []" "snd (last (calls t)) = SMTU original"
  shows "failed_state sc config request before (restore_write original config t)"
proof -
  have r: "requests before original ms (restore_write original config t)"
    using assms(1) by (simp add: in_run_def requests_def restore_write_def)
  have u: "usable (restore_write original config t)" using assms(3) by (simp add: restore_write_def usable_def)
  have "op_state request (restore_write original config t)" using assms(1) u
    by (simp add: in_run_def op_state_def revoked_ok_def restore_write_def)
  moreover have "op_log sc before (restore_write original config t)" using r assms(2) by (auto simp: op_log_def)
  moreover have "restored_ok sc config before (restore_write original config t)"
    unfolding restored_ok_def by (intro impI exI conjI) (use r assms in \<open>auto simp: restore_write_def\<close>)
  moreover have "\<not> Measured (status (ctl (restore_write original config t)))"
    using assms(1) by (simp add: in_run_def unmeasured_def restore_write_def)
  ultimately show ?thesis by (simp add: failed_state_def)
qed

lemma adopted_adopted_state:
  assumes "adopted cfg plan (in_run request before original ms) ms s'" "sc original plan ms"
  shows "\<exists>m final. adopted_state cfg sc request before original plan ms m final s'"
proof -
  obtain t m final c where t: "m \<in> ms" "in_run request before original ms t" "usable t"
    "Config plan m = Inr final" "calls t \<noteq> []" "snd (last (calls t)) = m" "recorded [c] t" "Working c" "CMTU c = m"
    "s' = commit_write cfg m final t"
    using assms(1) unfolding adopted_def by blast
  have u: "usable s'" using t(3) by (simp add: t(10) commit_write_def usable_def)
  have "op_state request s'" "requests before original ms s'" "recorded [c] s'" "\<not> Restored (status (ctl s'))"
    using t(2,7) u by (simp_all add: t(10) in_run_def op_state_def revoked_ok_def requests_def commit_write_def recorded_def unmeasured_def)
  then have "adopted_state cfg sc request before original plan ms m final s'"
    unfolding adopted_state_def using assms(2) t by (auto simp: commit_write_def vouches_def)
  then show ?thesis by blast
qed

lemma in_run_start:
  assumes "op_state request t" "unmeasured t" "calls t = before" "\<not> work_done t"
  shows "in_run request before original ms
    (set_status (\<lambda>st. st\<lparr>OriginalMTU := m1, EffectiveMTU := m2, StKey := key\<rparr>) t)"
  using assms op_state_open [OF assms(1,4)]
  by (simp add: in_run_def op_state_def revoked_ok_def unmeasured_def requests_def)

context controller_env
begin

lemma in_run_nothing: "in_run request before original {} s \<Longrightarrow> calls s = before"
  by (auto simp: in_run_def requests_def) (metis list.set_intros(1) neq_Nil_conv surj_pair)

lemma run_result:
  assumes "run env cfg config force s = (r, s')" "op_state request s" "unmeasured s" "calls s = before"
  defines "sc \<equiv> run_scope env cfg config force (captured_state env s)"
  shows "(\<exists>e. r = Inl e) \<and> failed_state sc config request before s'
    \<or> r = Inr () \<and> (\<exists>original plan ms m final. adopted_state cfg sc request before original plan ms m final s')"
proof -
  let ?S = "\<lambda>s. op_state request s \<and> unmeasured s \<and> calls s = before"
  let ?P = "\<lambda>original ms. in_run request before original ms"
  have st0: "stable ?S" by (intro stable_conj stable_op_state stable_unmeasured stable_calls)
  have out: "(\<exists>e. r = Inl e) \<and> (?S s' \<or> (\<exists>original. ?P original {} s')
      \<or> (\<exists>original plan ms. sc original plan ms \<and> (?P original ms s'
          \<or> (\<exists>t. ?P original ms t \<and> usable t \<and> calls t \<noteq> [] \<and> snd (last (calls t)) = SMTU original
              \<and> s' = restore_write original config t))))
    \<or> r = Inr () \<and> (\<exists>original plan ms. sc original plan ms \<and> adopted cfg plan (?P original ms) ms s')"
    unfolding sc_def
    by (rule run_outcome [OF assms(1) st0]) (use assms(2-4) in_run_start in_run_inv in_run_failure in auto)
  have f0: "failed_state sc config request before s'" if "?S s'"
    using that by (simp add: failed_state_def op_log_def restored_ok_def unmeasured_def)
  have f1: "failed_state sc config request before s'" if "?P original {} s'" for original
    using that in_run_nothing [OF that] by (auto simp: failed_state_def op_log_def restored_ok_def unmeasured_def in_run_def)
  have f2: "failed_state sc config request before s'"
    if "?P original ms s'" "sc original plan ms" for original plan ms
    using that by (auto simp: failed_state_def op_log_def restored_ok_def unmeasured_def in_run_def)
  from out show ?thesis
  proof (elim disjE conjE exE)
    fix original plan ms t
    assume t: "sc original plan ms" "?P original ms t" "usable t" "calls t \<noteq> []"
      "snd (last (calls t)) = SMTU original" "s' = restore_write original config t"
    show ?thesis if "r = Inl e" for e using that restored_failed_state [where sc = sc, OF t(2,1,3-5)] t(6) by blast
  next
    fix original plan ms
    assume t: "r = Inr ()" "sc original plan ms" "adopted cfg plan (?P original ms) ms s'"
    show ?thesis using t(1) adopted_adopted_state [where sc = sc, OF t(3,2)] by blast
  qed (use f0 f1 f2 in blast)+
qed

end

text \<open>The end of \<open>execute\<close>: the locked writes after the run.\<close>

definition ended :: "'w sys \<Rightarrow> bool" where
  "ended s \<longleftrightarrow> Complete (status (ctl s)) \<and> \<not> Running (status (ctl s)) \<and> work_done s"

definition op_failed :: "scope \<Rightarrow> string \<Rightarrow> string \<Rightarrow> (State \<times> int) list \<Rightarrow> 'w sys \<Rightarrow> bool" where
  "op_failed sc config request before s \<longleftrightarrow> failed_state sc config request before s \<and> ended s
     \<and> (usable s \<longrightarrow> Failure (status (ctl s)) \<noteq> [] \<and> (\<not> Restored (status (ctl s)) \<longrightarrow> Phase (status (ctl s)) = ''failed''))
     \<and> (\<not> usable s \<longrightarrow> Phase (status (ctl s)) = (if closed (ctl s) then ''stopped'' else ''invalidated''))"

lemma finish_unusable:
  assumes "finish final_err err s = (e, s')" "\<not> usable s"
  shows "e = Some errCanceled \<and> ctl s' = (ctl s)\<lparr>status := status (ctl s')\<rparr>
    \<and> revoked (status (ctl s')) \<and> Phase (status (ctl s')) = (if closed (ctl s) then ''stopped'' else ''invalidated'')"
  using assms by (auto simp: finish_def Let_def revokeLocked_def usable_def revoke_def revoked_def set_status_def split: if_splits)

lemma finish_fields:
  assumes "finish final_err err s = (e, s')"
  shows "usable s' = usable s" "closed (ctl s') = closed (ctl s)" "has_cancel (ctl s') = has_cancel (ctl s)"
    "currentConfig (ctl s') = currentConfig (ctl s)" "calls s' = calls s" "work_done s' = work_done s"
    "moments s' = moments s"
    "Request_id (status (ctl s')) = Request_id (status (ctl s))" "Complete (status (ctl s')) \<and> \<not> Running (status (ctl s'))"
    "Tried (status (ctl s')) = Tried (status (ctl s))"
  using assms by (auto simp: finish_def Let_def revokeLocked_def revoke_def split: if_splits)

lemma finish_ok:
  assumes "finish final_err err s = (None, s')"
  shows "usable s \<and> err = None \<and> (\<not> final_err \<longrightarrow> status (ctl s') = (status (ctl s))\<lparr>Running := False, Complete := True\<rparr>)"
  using assms by (auto simp: finish_def Let_def revokeLocked_def usable_def split: if_splits)

lemma finish_failed:
  assumes "finish final_err err s = (Some e, s')" "usable s"
  shows "Failure (status (ctl s')) \<noteq> [] \<and> (\<not> Restored (status (ctl s')) \<longrightarrow> Phase (status (ctl s')) = ''failed'')
    \<and> (Measured (status (ctl s')) \<longrightarrow> \<not> final_err \<and> Measured (status (ctl s)))
    \<and> (Restored (status (ctl s')) \<longrightarrow> Restored (status (ctl s)) \<and> EffectiveMTU (status (ctl s')) = EffectiveMTU (status (ctl s))
        \<and> Source (status (ctl s')) = Source (status (ctl s)))"
  using assms by (auto simp: finish_def Let_def usable_def revoke_def split: if_splits)

lemma finish_op_state:
  assumes "finish final_err err s = (e, s')" "op_state request s"
  shows "op_state request s'"
proof (cases "usable s")
  case True
  then show ?thesis using assms(2) finish_fields [OF assms(1)] by (simp add: op_state_def revoked_ok_def)
next
  case False
  then show ?thesis using assms(2) finish_fields [OF assms(1)] finish_unusable [OF assms(1)]
    by (simp add: op_state_def revoked_ok_def)
qed

lemma requests_calls: "calls s' = calls s \<Longrightarrow> requests before original ms s \<Longrightarrow> requests before original ms s'"
  by (simp add: requests_def)

lemma op_log_calls: "calls s' = calls s \<Longrightarrow> op_log sc before s \<Longrightarrow> op_log sc before s'"
  by (simp add: op_log_def requests_def)

lemma finish_failed_state:
  assumes "finish final_err err s = (Some e, s')" "op_state request s" "op_log sc before s"
    "restored_ok sc config before s" "Measured (status (ctl s)) \<longrightarrow> final_err \<or> \<not> usable s"
  shows "op_failed sc config request before (s'\<lparr>work_done := True\<rparr>)"
proof -
  note f = finish_fields [OF assms(1)]
  have m: "\<not> Measured (status (ctl s'))"
  proof (cases "usable s")
    case True
    then show ?thesis using finish_failed [OF assms(1)] assms(5) by blast
  next
    case False
    then show ?thesis using finish_unusable [OF assms(1)] by (auto simp: revoked_def)
  qed
  have r: "restored_ok sc config before s'"
  proof (cases "usable s \<and> Restored (status (ctl s'))")
    case True
    then show ?thesis using finish_failed [OF assms(1)] assms(4) f by (simp add: restored_ok_def requests_def)
  next
    case False
    then show ?thesis using finish_unusable [OF assms(1)] by (auto simp: restored_ok_def revoked_def)
  qed
  have "op_state request s'" by (rule finish_op_state [OF assms(1,2)])
  moreover have "op_log sc before s'" by (rule op_log_calls [OF f(5) assms(3)])
  ultimately have st: "failed_state sc config request before s'" using m r by (simp add: failed_state_def)
  have "failed_state sc config request before (s'\<lparr>work_done := True\<rparr>)"
    using st by (auto simp: failed_state_def op_state_def revoked_ok_def op_log_def restored_ok_def requests_def)
  moreover have "Phase (status (ctl s')) = (if closed (ctl s) then ''stopped'' else ''invalidated'')" if "\<not> usable s"
    using finish_unusable [OF assms(1) that] by blast
  ultimately show ?thesis
    using f finish_failed [OF assms(1)] unfolding op_failed_def ended_def by simp
qed

lemma stable_unusable: "stable (\<lambda>s. \<not> usable s)"
  by (rule stableI) (use apply_event_status in fastforce)+

lemma usable_before_sync: "usable (sync env s) \<Longrightarrow> usable s"
  using stable_sync [OF stable_unusable, of s env] by blast

lemma usable_before_outside: "outside env f s = (r, s') \<Longrightarrow> usable s' \<Longrightarrow> usable s"
  using stable_outside [OF stable_unusable, of env f s r s'] by blast

lemma adopted_finish:
  assumes "finish final_err err s = (e, s')" "adopted_state cfg sc request before original plan ms m final s"
    and "usable s \<longrightarrow> (err \<noteq> None) = final_err"
  shows "(\<exists>x. e = Some x \<and> op_failed sc config request before (s'\<lparr>work_done := True\<rparr>))
    \<or> e = None \<and> ended (s'\<lparr>work_done := True\<rparr>) \<and> usable s'
      \<and> adopted_state cfg sc request before original plan ms m final (s'\<lparr>work_done := True\<rparr>)
      \<and> vouches cfg m final (s'\<lparr>work_done := True\<rparr>)"
proof (cases e)
  case (Some x)
  have "err \<noteq> None \<or> \<not> usable s" using Some assms(1) by (auto simp: finish_def Let_def usable_def split: if_splits)
  then have m: "Measured (status (ctl s)) \<longrightarrow> final_err \<or> \<not> usable s" using assms(3) by blast
  have "op_failed sc config request before (s'\<lparr>work_done := True\<rparr>)"
    by (rule finish_failed_state [OF assms(1) [unfolded Some] _ _ _ m])
      (use assms(2) in \<open>auto simp: adopted_state_def op_log_def restored_ok_def\<close>)
  with Some show ?thesis by blast
next
  case None
  note ok = finish_ok [OF assms(1) [unfolded None]] and f = finish_fields [OF assms(1)]
  then have u: "usable s" "\<not> final_err" using assms(3) by blast+
  have v: "vouches cfg m final (s'\<lparr>work_done := True\<rparr>)"
    using u ok f assms(2) by (auto simp: adopted_state_def vouches_def)
  have st: "status (ctl s') = (status (ctl s))\<lparr>Running := False, Complete := True\<rparr>" using ok u by blast
  have "adopted_state cfg sc request before original plan ms m final (s'\<lparr>work_done := True\<rparr>)"
    unfolding adopted_state_def
    using assms(2) v f u st by (auto simp: adopted_state_def op_state_def revoked_ok_def requests_def recorded_def)
  with None v f u show ?thesis by (simp add: ended_def)
qed

context controller_env
begin

lemma execute_outcome:
  assumes "execute env cfg finalize config force s = (res, s')" "op_state request s" "unmeasured s" "calls s = before"
  defines "sc \<equiv> run_scope env cfg config force (captured_state env s)"
  shows "(\<exists>e. res = Some e \<and> op_failed sc config request before s')
    \<or> res = None \<and> ended s' \<and> usable s' \<and> (\<exists>original plan ms m final.
        adopted_state cfg sc request before original plan ms m final s' \<and> vouches cfg m final s')"
proof -
  obtain r s1 where l1: "run env cfg config force s = (r, s1)" by (rule prod.exhaust)
  let ?s2 = "sync env s1"
  define ok where "ok = (is_ok r \<and> Measured (status (ctl ?s2)))"
  define e1 where "e1 = join_err (case r of Inl e \<Rightarrow> Some e | Inr _ \<Rightarrow> None) (ctx_error ok ?s2)"
  obtain fe s3 where l3: "(case finalize of None \<Rightarrow> (False, ?s2) | Some f \<Rightarrow> outside env f ?s2) = (fe, s3)" by (rule prod.exhaust)
  let ?s4 = "sync env s3"
  define e2 where "e2 = (if finalize = None then e1
    else join_err (join_err e1 (if fe then Some (Err ''finalization'') else None)) (ctx_error ok s3))"
  obtain e s5 where l5: "finish fe e2 ?s4 = (e, s5)" by (rule prod.exhaust)
  have res: "res = e" "s' = s5\<lparr>work_done := True\<rparr>"
    using assms(1) unfolding execute_def Let_def l1 prod.case ok_def [symmetric] e1_def [symmetric] l3 e2_def [symmetric] l5
    by simp_all
  have keep: "P ?s4" if "stable P" "P s1" for P
  proof -
    have "P ?s2" by (rule stable_sync [OF that])
    then have "P s3" using l3 stable_outside [OF that(1)] by (auto split: option.splits)
    then show ?thesis by (rule stable_sync [OF that(1)])
  qed
  from run_result [OF l1 assms(2-4), folded sc_def] show ?thesis
  proof (elim disjE conjE exE)
    fix err assume r: "r = Inl err" and "failed_state sc config request before s1"
    then have k: "failed_state sc config request before ?s4" using keep stable_failed_state by blast
    have "e2 \<noteq> None" by (simp add: e2_def e1_def join_err_def r)
    then obtain x where x: "e = Some x" using l5 by (auto simp: finish_def Let_def split: if_splits)
    have "op_failed sc config request before (s5\<lparr>work_done := True\<rparr>)"
      by (rule finish_failed_state [OF l5 [unfolded x]]) (use k in \<open>simp_all add: failed_state_def\<close>)
    then show ?thesis using x res by blast
  next
    fix original plan ms m final
    assume r: "r = Inr ()" and a: "adopted_state cfg sc request before original plan ms m final s1"
    have k: "adopted_state cfg sc request before original plan ms m final ?s4" by (rule keep [OF stable_adopted_state a])
    have e: "usable ?s4 \<longrightarrow> (e2 \<noteq> None) = fe"
    proof
      assume "usable ?s4"
      then have "usable ?s2" using l3 usable_before_sync usable_before_outside by (fastforce split: option.splits)
      moreover have "adopted_state cfg sc request before original plan ms m final ?s2" by (rule stable_sync [OF stable_adopted_state a])
      ultimately have ok by (auto simp: ok_def r is_ok_def adopted_state_def vouches_def)
      then show "(e2 \<noteq> None) = fe" using l3
        by (auto simp: e2_def e1_def r join_err_def ctx_error_def split: option.splits)
    qed
    show ?thesis using adopted_finish [OF l5 k e, where config = config] unfolding res usable_field by blast
  qed
qed

end

text \<open>The admission of an operation: refused, or published on a usable idle controller.\<close>

lemma publish_currentConfig [simp]: "currentConfig (ctl (publish request late t)) = currentConfig (ctl t)"
  by (simp add: publish_def)

lemma begin_op_outcome:
  assumes "begin_op env cfg a request s = (r, s')" "stable P" "P s" "revoked_ok s"
  shows "(\<exists>e. r = Inl e) \<and> P s' \<and> revoked_ok s'
    \<or> (\<exists>t late. r = Inr (currentConfig (ctl s')) \<and> P t \<and> usable t \<and> \<not> Running (status (ctl t)) \<and> requestPattern request
        \<and> Request_id (status (ctl t)) \<noteq> request \<and> Requested cfg \<and> revoked_ok t \<and> s' = publish request late t)"
proof -
  let ?Q = "\<lambda>s. P s \<and> revoked_ok s"
  have st: "stable ?Q" by (rule stable_conj [OF assms(2) stable_revoked_ok])
  have q: "?Q (sync env s)" by (rule stable_sync [OF st]) (use assms(3,4) in blast)
  then have w: "?Q ((sync env s)\<lparr>world := w\<rparr>)" for w using stableD(1) [OF st q] by blast
  define ex where "ex t \<longleftrightarrow> ?Q t \<and> usable t \<and> \<not> Running (status (ctl t)) \<and> requestPattern request
    \<and> Request_id (status (ctl t)) \<noteq> request \<and> Requested cfg" for t
  have "(\<exists>e. r = Inl e) \<and> ?Q s' \<or> (\<exists>t late. ex t \<and> r = Inr (currentConfig (ctl t)) \<and> s' = publish request late t)"
  proof (cases "(\<exists>e. r = Inl e)")
    case True
    then show ?thesis using assms(1,3,4) q w unfolding begin_op_def Let_def
      by (auto split: if_split_asm option.splits prod.splits)
  next
    case False
    show ?thesis
    proof (cases "admit a")
      case None
      then have "ex (sync env s) \<and> r = Inr (currentConfig (ctl (sync env s))) \<and> s' = publish request False (sync env s)"
        using assms(1) q False unfolding begin_op_def Let_def ex_def by (auto split: if_split_asm)
      then show ?thesis by blast
    next
      case (Some f)
      obtain err w' where f: "f (world (sync env s)) = (err, w')" by (rule prod.exhaust)
      let ?t = "(sync env s)\<lparr>world := w'\<rparr>"
      have "ex ?t \<and> r = Inr (currentConfig (ctl ?t)) \<and> s' = publish request (adm_done a w' \<or> parent_done a w') ?t"
        using assms(1) w [of w'] False Some unfolding begin_op_def Let_def ex_def by (auto simp: f split: if_split_asm)
      then show ?thesis by blast
    qed
  qed
  then show ?thesis unfolding ex_def by (elim disjE conjE exE) auto
qed

lemma publish_op_state: "usable t \<Longrightarrow> revoked_ok t \<Longrightarrow> op_state request (publish request late t) \<and> unmeasured (publish request late t)
    \<and> calls (publish request late t) = calls t"
  by (simp add: publish_def op_state_def revoked_ok_def unmeasured_def usable_def status0_def)

context controller_env
begin

text \<open>
  The outcome of a request: refused, or admitted with the configuration in force, and then failed or adopted within
  the scope of that configuration and of the state captured first.
\<close>

lemma Run_outcome:
  assumes "Run env cfg a finalize request force s = (res, s')" "revoked_ok s"
  shows "(\<exists>e. res = Some e \<and> fst (begin_op env cfg a request s) = Inl e) \<and> revoked_ok s' \<and> calls s' = calls s
      \<and> Request_id (status (ctl s')) = Request_id (status (ctl s))
    \<or> (\<exists>config s1. begin_op env cfg a request s = (Inr config, s1) \<and> config = currentConfig (ctl s1)
        \<and> (let sc = run_scope env cfg config force (captured_state env s1) in
            (\<exists>e. res = Some e \<and> op_failed sc config request (calls s) s')
            \<or> res = None \<and> ended s' \<and> usable s' \<and> (\<exists>original plan ms m final.
                adopted_state cfg sc request (calls s) original plan ms m final s' \<and> vouches cfg m final s')))"
proof -
  let ?P = "\<lambda>t. calls t = calls s \<and> Request_id (status (ctl t)) = Request_id (status (ctl s))"
  have st: "stable ?P" by (intro stable_conj stable_calls) (simp add: stable_def)
  obtain r s1 where b: "begin_op env cfg a request s = (r, s1)" by (rule prod.exhaust)
  note out = begin_op_outcome [OF b st _ assms(2)]
  show ?thesis
  proof (cases r)
    case (Inl e)
    then show ?thesis using assms(1) out unfolding Run_def b by auto
  next
    case (Inr config)
    then obtain t late where t: "?P t" "usable t" "revoked_ok t" "s1 = publish request late t" "config = currentConfig (ctl s1)"
      using out by auto
    have e: "execute env cfg finalize config force s1 = (res, s')" using assms(1) Inr unfolding Run_def b by simp
    have op: "op_state request s1" "unmeasured s1" "calls s1 = calls s"
      using publish_op_state [OF t(2,3), of request late] t(1,4) by simp_all
    show ?thesis using execute_outcome [OF e op] b Inr t(5) unfolding Let_def by blast
  qed
qed

end

lemma op_failed_log: "op_failed sc config request before s \<Longrightarrow> op_log sc before s"
  by (simp add: op_failed_def failed_state_def)

lemma op_failed_revoked: "op_failed sc config request before s \<Longrightarrow> revoked_ok s"
  by (simp add: op_failed_def failed_state_def op_state_def)

lemma adopted_state_log:
  "adopted_state cfg sc request before original plan ms m final s \<Longrightarrow> op_log sc before s \<and> revoked_ok s"
  by (auto simp: adopted_state_def op_log_def op_state_def)

text \<open>The states a controller with a preference cache can reach.\<close>

inductive reach :: "'w Preferences \<Rightarrow> ('w \<Rightarrow> int) \<Rightarrow> 'w env \<Rightarrow> settings \<Rightarrow> 'w sys \<Rightarrow> bool" for st now env cfg where
  created: "newControllerState cfg captured = Inr c \<Longrightarrow>
    reach st now env cfg \<lparr>ctl = c, world = w, work_done = b, cand_done = d, cleanup_done = e, calls = [], moments = []\<rparr>"
| other: "reach st now env cfg s \<Longrightarrow> reach st now env cfg (apply_event e s)"
| moved: "reach st now env cfg s \<Longrightarrow> reach st now env cfg (s\<lparr>world := w\<rparr>)"
| operated: "reach st now env cfg s \<Longrightarrow> Run (with_preferences st now env) cfg a finalize request force s = (res, s') \<Longrightarrow>
    reach st now env cfg s'"

lemma newControllerState_ok: "newControllerState cfg captured = Inr c \<Longrightarrow> \<not> closed c \<and> \<not> invalid c"
  by (auto simp: newControllerState_def res_bind_Inr_iff split: if_splits)

lemma reach_revoked_ok: "reach st now env cfg s \<Longrightarrow> revoked_ok s"
proof (induction rule: reach.induct)
  case (created captured c w b d e)
  then show ?case using newControllerState_ok [OF created] by (simp add: revoked_ok_def usable_def)
next
  case (operated s a finalize request force res s')
  then show ?case using pref.Run_outcome [OF operated(2) operated.IH] unfolding Let_def
    by (auto dest: op_failed_revoked adopted_state_log)
qed (auto simp: revoked_ok_event stableD [OF stable_revoked_ok])

end
