(* ===== verification/MtuControlProps.thy ===== *)
theory MtuControlProps
  imports MtuControlSafe
begin

text \<open>
  The properties of the MTU controller, each with a run of a concrete cooperative owner whose preferences
  are kept in memory.
\<close>

section \<open>A cooperative owner\<close>

definition demo_state :: State where
  "demo_state = \<lparr>Session = ''s'', SPath = ''p'', Interface = ''tun0'', SMTU = 1280\<rparr>"

definition demo_transfer :: Transfer where
  "demo_transfer = \<lparr>Bytes = 262144, Seconds = Fin 1, Mbps = Fin 50\<rparr>"

definition demo_measurement :: Measurement where
  "demo_measurement = \<lparr>MReady = True, MKind = ''public-path'', MID = ''n1'', MRole = ''exit'',
     MIdle = Some (3, Fin 10), MDownload = Some demo_transfer, MUpload = Some demo_transfer\<rparr>"

text \<open>The world: what the owner reports and the stored preferences. \<open>broken\<close> measurements fail.\<close>

definition demo_env :: "bool \<Rightarrow> (State \<times> string) env" where
  "demo_env broken = \<lparr>sched = (\<lambda>w. ([], w)), own_capture = (\<lambda>w. ((fst w, False), w)), own_rollback = None,
     own_change = (\<lambda>st m w. (((fst w)\<lparr>SMTU := m\<rparr>, False), ((fst w)\<lparr>SMTU := m\<rparr>, snd w))),
     own_dial = (\<lambda>_ _ _ w. ((True, False), w)), own_verify = (\<lambda>_ w. (False, w)), own_begin = None,
     own_release = (\<lambda>w. w), prove_path = (\<lambda>_ w. (False, w)),
     measure_path = (\<lambda>_ w. (if broken then None else Some demo_measurement, w)),
     conn_deadline = (\<lambda>w. (True, w)), conn_write = (\<lambda>_ w. (True, w)), conn_read = (\<lambda>_ w. ((None, 0), w)),
     unix_now = (\<lambda>_. 0), deadline_near = (\<lambda>_ _. False), cleanup_context = (\<lambda>w. (True, w)),
     cache_lookup = None, cache_save = (\<lambda>_ _ _ s. (Inr (), s))\<rparr>"

definition demo_store :: "(State \<times> string) Preferences" where
  "demo_store = \<lparr>ReadMTUCache = (\<lambda>w. (Inr (snd w), w)),
     CompareAndSwapMTUCache = (\<lambda>old new w. if snd w = old then (Inr True, (fst w, new)) else (Inr False, w))\<rparr>"

definition demo_settings :: settings where
  "demo_settings = \<lparr>profile = \<lparr>ID = ''n1'', Proof = [], API = [], Token = [], Sink = [], Automatic = True, Jumbo = False\<rparr>,
     frozenConfig = demo_config, bounded = False, api_host = [], external = Some False,
     plan_of = NewPlan demo_url (\<lambda>x. x) (\<lambda>_. False), key_of = (\<lambda>_ _ _. demo_key), round_of = (\<lambda>x. x),
     mac_of = (\<lambda>_ _. []), rand_of = (\<lambda>_. Inr [])\<rparr>"

definition demo_admission :: "(State \<times> string) admission" where
  "demo_admission = \<lparr>capable = True, adm_done = (\<lambda>_. False), parent_done = (\<lambda>_. False), admit = None\<rparr>"

definition demo_controller :: Controller where
  "demo_controller = \<lparr>closed = False, invalid = False, has_cancel = False,
     status = status0\<lparr>Phase := ''idle'', EffectiveMTU := 1280, Source := ''configured-unmeasured''\<rparr>,
     currentConfig = demo_config\<rparr>"

definition demo_sys :: "(State \<times> string) sys" where
  "demo_sys = \<lparr>ctl = demo_controller, world = (demo_state, []), work_done = False, cand_done = False,
     cleanup_done = False, calls = [], moments = []\<rparr>"

definition demo_request :: string where
  "demo_request = replicate 32 CHR ''a''"

definition demo_run :: "bool \<Rightarrow> goerror option \<times> (State \<times> string) sys" where
  "demo_run broken = Run (with_preferences demo_store (\<lambda>_. 1000) (demo_env broken)) demo_settings demo_admission None
     demo_request False demo_sys"

lemma demo_controller_new: "newControllerState demo_settings demo_state = Inr demo_controller"
  by code_simp

lemma demo_run_ok: "fst (demo_run False) = None \<and> map snd (calls (snd (demo_run False))) = [1280, 1280]"
  by code_simp

lemma demo_run_bad: "fst (demo_run True) \<noteq> None \<and> map snd (calls (snd (demo_run True))) = [1280, 1280]
   \<and> Restored (status (ctl (snd (demo_run True))))"
  by code_simp

section \<open>Properties\<close>

lemma demo_reach: "reach demo_store (\<lambda>_. 1000) (demo_env broken) demo_settings demo_sys"
  using reach.created [OF demo_controller_new] by (simp add: demo_sys_def)

lemma demo_run_eq:
  "Run (with_preferences demo_store (\<lambda>_. 1000) (demo_env broken)) demo_settings demo_admission None demo_request False demo_sys
     = (fst (demo_run broken), snd (demo_run broken))"
  by (simp add: demo_run_def)

text \<open>A scheduler that closes the controller as soon as a result is stored, in the middle of its operation.\<close>

definition closing_env :: "(State \<times> string) env" where
  "closing_env = (demo_env False)\<lparr>sched := (\<lambda>w. (if snd w \<noteq> [] then [EvClose] else [], w))\<rparr>"

definition closed_run :: "goerror option \<times> (State \<times> string) sys" where
  "closed_run = Run (with_preferences demo_store (\<lambda>_. 1000) closing_env) demo_settings demo_admission None
     demo_request False demo_sys"

lemma closed_run_moment: "list_ex (\<lambda>(c, ended). closed c \<and> has_cancel c \<and> Running (status c)) (moments (snd closed_run))"
  by code_simp

text \<open>
  C15. Whatever operations, cancellations, invalidations, closings and world steps came before, in the current
  state and at every earlier moment at which another goroutine acted, also in the middle of an operation: a
  controller that is closed or invalidated vouches for nothing (not measured, not restored, no effective MTU, the
  stale-owner source), and the context of its operation, if it has one, is cancelled.
\<close>

theorem stale_controller_vouches_for_nothing:
  assumes "reach st now env cfg s"
  shows "\<forall>(c, ended) \<in> set (moments s @ [(ctl s, work_done s)]). closed c \<or> invalid c \<longrightarrow>
    \<not> Measured (status c) \<and> \<not> Restored (status c) \<and> EffectiveMTU (status c) = 0
    \<and> Source (status c) = ''unavailable-stale-owner'' \<and> (has_cancel c \<longrightarrow> ended)"
  using reach_revoked_ok [OF assms]
  by (auto simp: revoked_ok_def stale_ok_def revoked_def usable_def list_all_iff)

theorem stale_controller_vouches_for_nothing_witness:
  "\<exists>(c, ended) \<in> set (moments (snd closed_run)). closed c \<and> has_cancel c \<and> Running (status c)
     \<and> \<not> Measured (status c) \<and> EffectiveMTU (status c) = 0 \<and> ended"
proof -
  have n: "reach demo_store (\<lambda>_. 1000) closing_env demo_settings demo_sys"
    using reach.created [OF demo_controller_new] by (simp add: demo_sys_def)
  have "Run (with_preferences demo_store (\<lambda>_. 1000) closing_env) demo_settings demo_admission None demo_request False demo_sys
      = (fst closed_run, snd closed_run)" by (simp add: closed_run_def)
  from stale_controller_vouches_for_nothing [OF reach.operated [OF n this]] closed_run_moment
  show ?thesis unfolding list_ex_iff by fastforce
qed

lemma requests_budget:
  assumes "plan_of cfg = NewPlan up rnd ve" "plan_of cfg config (SMTU original) = Inr plan" "m \<in> allowed original plan cached"
  shows "1280 \<le> m \<and> m \<le> Ceiling plan"
proof -
  have p: "MinMTU \<le> Original plan" "Original plan \<le> Ceiling plan" "Original plan = SMTU original"
    using NewPlan_parts [OF assms(2) [unfolded assms(1)]] by metis+
  show ?thesis using assms(3) candidates_ok_Candidates [OF p(1,2)] p by (auto simp: allowed_def candidates_ok_def MinMTU_def)
qed

text \<open>Where the cached MTU of a run comes from.\<close>

lemma cached_source:
  assumes "lookup_cached (with_preferences st now env) force key t = (Inr cached, t')"
  shows "cached = 0 \<or> \<not> force \<and> (\<exists>t t'. Lookup (Some (shared_store env st)) (now \<circ> world) key t = ((cached, True), t'))"
proof -
  obtain v found u where l: "Lookup (Some (shared_store env st)) (now \<circ> world) key t = ((v, found), u)" by (metis surj_pair)
  have "cached = 0 \<or> \<not> force \<and> found \<and> cached = v"
    using assms by (auto simp: lookup_cached_def with_preferences_def l split: if_split_asm)
  then show ?thesis
  proof (elim disjE conjE)
    assume "\<not> force" "found" "cached = v"
    moreover from this have "Lookup (Some (shared_store env st)) (now \<circ> world) key t = ((cached, True), u)" using l by simp
    ultimately show ?thesis by blast
  qed simp
qed

lemma captured_by_owner: "captured_state (with_preferences st now env) s = fst (fst (own_capture env (world s)))"
  by (simp add: captured_state_def with_preferences_def)

text \<open>
  C16. Whatever happens during a run, every MTU change the controller asks its owner for is on the session and
  path that the owner reported first, and is the MTU reported then or a candidate of the plan of that state and of
  the configuration in force when the request was admitted: never below 1280 and never above the ceiling of this
  plan. The candidates take in at most one cached MTU, found under the key of this plan, and none when a fresh
  measurement is forced. Nothing is requested when the request is refused or no interface was planned.
\<close>

theorem run_requests_stay_in_plan:
  assumes "reach st now env cfg s" and "plan_of cfg = NewPlan up rnd ve"
    and "Run (with_preferences st now env) cfg a finalize request force s = (res, s')"
  shows "\<exists>new. calls s' = calls s @ new \<and> (new = [] \<or> (\<exists>config s1 plan cached.
      begin_op (with_preferences st now env) cfg a request s = (Inr config, s1) \<and> config = currentConfig (ctl s1)
      \<and> (let original = fst (fst (own_capture env (world s1))) in
          NewPlan up rnd ve config (SMTU original) = Inr plan
          \<and> (cached = 0 \<or> \<not> force \<and> (\<exists>t t'. Lookup (Some (shared_store env st)) (now \<circ> world) (run_key cfg original plan) t
               = ((cached, True), t')))
          \<and> (\<forall>(target, m) \<in> set new. Session target = Session original \<and> SPath target = SPath original
               \<and> 1280 \<le> m \<and> m \<le> Ceiling plan \<and> (m = SMTU original \<or> m \<in> set (Candidates plan cached))))))"
proof (cases "calls s' = calls s")
  case False
  then obtain config s1 where b: "begin_op (with_preferences st now env) cfg a request s = (Inr config, s1)"
    "config = currentConfig (ctl s1)"
    and "op_log (run_scope (with_preferences st now env) cfg config force (captured_state (with_preferences st now env) s1)) (calls s) s'"
    using pref.Run_outcome [OF assms(3) reach_revoked_ok [OF assms(1)]] unfolding Let_def
    by (auto dest: op_failed_log adopted_state_log)
  with False obtain original plan ms new where
    sc: "run_scope (with_preferences st now env) cfg config force (captured_state (with_preferences st now env) s1) original plan ms"
    and n: "calls s' = calls s @ new" "\<forall>(st, m) \<in> set new. same_session original st \<and> m \<in> ms"
    unfolding op_log_def requests_def by blast
  obtain cached t t' where c: "lookup_cached (with_preferences st now env) force (run_key cfg original plan) t = (Inr cached, t')"
    "ms = allowed original plan cached" and p: "plan_of cfg config (SMTU original) = Inr plan"
    "original = fst (fst (own_capture env (world s1)))"
    using sc unfolding run_scope_def captured_by_owner by blast
  have new: "\<forall>(target, m) \<in> set new. Session target = Session original \<and> SPath target = SPath original \<and> 1280 \<le> m
      \<and> m \<le> Ceiling plan \<and> (m = SMTU original \<or> m \<in> set (Candidates plan cached))"
  proof (clarify, goal_cases)
    case (1 target m)
    then have m: "same_session original target" "m \<in> allowed original plan cached" using n(2) c(2) by auto
    show ?case using m requests_budget [OF assms(2) p(1) m(2)] by (auto simp: same_session_def allowed_def)
  qed
  have plan: "NewPlan up rnd ve config (SMTU original) = Inr plan" using p(1) assms(2) by simp
  show ?thesis
    by (rule exI [of _ new], rule conjI [OF n(1)], rule disjI2, rule exI [of _ config], rule exI [of _ s1],
      rule exI [of _ plan], rule exI [of _ cached], rule conjI [OF b(1)], rule conjI [OF b(2)])
      (unfold Let_def p(2) [symmetric], rule conjI [OF plan conjI [OF cached_source [OF c(1)] new]])
qed simp

theorem run_requests_stay_in_plan_witness:
  "\<exists>new. calls (snd (demo_run False)) = calls demo_sys @ new \<and> map snd new = [1280, 1280] \<and> (\<forall>(target, m) \<in> set new. 1280 \<le> m)"
proof -
  have p: "plan_of demo_settings = NewPlan demo_url (\<lambda>x. x) (\<lambda>_. False)" by (simp add: demo_settings_def)
  have c: "calls demo_sys = []" by (simp add: demo_sys_def)
  obtain new where n: "calls (snd (demo_run False)) = calls demo_sys @ new" "new = [] \<or> (\<forall>(target, m) \<in> set new. 1280 \<le> m)"
    using run_requests_stay_in_plan [OF demo_reach p demo_run_eq [of False]] unfolding Let_def by fast
  then show ?thesis using demo_run_ok c by (intro exI [of _ new]) auto
qed

text \<open>
  C17. A run that returns no error has measured: it is complete and no longer running, the controller is
  usable, the MTU it reports is the last one requested, it belongs to a tried candidate that worked, lies
  between 1280 and the ceiling of the plan made from the configuration in force at the admission and from the
  state that the owner reported first, and the configuration in force now is that plan's for this MTU.
\<close>

theorem run_success_is_measured:
  assumes "reach st now env cfg s" and "plan_of cfg = NewPlan up rnd ve"
    and "Run (with_preferences st now env) cfg a finalize request force s = (None, s')"
  shows "usable s' \<and> (\<exists>config s1 plan m final.
      begin_op (with_preferences st now env) cfg a request s = (Inr config, s1) \<and> config = currentConfig (ctl s1)
      \<and> (let original = fst (fst (own_capture env (world s1))); r = status (ctl s') in
      NewPlan up rnd ve config (SMTU original) = Inr plan \<and> 1280 \<le> m \<and> m \<le> Ceiling plan
      \<and> Config plan m = Inr final \<and> currentConfig (ctl s') = final
      \<and> Request_id r = request \<and> Complete r \<and> \<not> Running r \<and> Measured r \<and> \<not> Restored r \<and> Phase r = ''complete''
      \<and> EffectiveMTU r = m \<and> Source r = measured_source cfg \<and> snd (last (calls s')) = m
      \<and> (\<exists>c \<in> set (Tried r). Working c \<and> CMTU c = m)))"
proof -
  obtain config s1 original plan ms m final where b: "begin_op (with_preferences st now env) cfg a request s = (Inr config, s1)"
    "config = currentConfig (ctl s1)" and o: "ended s'" "usable s'" "vouches cfg m final s'"
    and ad: "adopted_state cfg (run_scope (with_preferences st now env) cfg config force
      (captured_state (with_preferences st now env) s1)) request (calls s) original plan ms m final s'"
    using pref.Run_outcome [OF assms(3) reach_revoked_ok [OF assms(1)]] unfolding Let_def by blast
  obtain cached where p: "plan_of cfg config (SMTU original) = Inr plan" "m \<in> allowed original plan cached"
    and cap: "original = fst (fst (own_capture env (world s1)))"
    using ad unfolding adopted_state_def run_scope_def captured_by_owner by blast
  have "1280 \<le> m \<and> m \<le> Ceiling plan" by (rule requests_budget [OF assms(2) p])
  moreover have "NewPlan up rnd ve config (SMTU original) = Inr plan" using p(1) assms(2) by simp
  moreover have "Config plan m = Inr final" "Request_id (status (ctl s')) = request" "\<not> Restored (status (ctl s'))"
    "snd (last (calls s')) = m" "\<exists>c \<in> set (Tried (status (ctl s'))). Working c \<and> CMTU c = m"
    using ad by (auto simp: adopted_state_def op_state_def recorded_def)
  ultimately have body: "let original = fst (fst (own_capture env (world s1))); r = status (ctl s') in
      NewPlan up rnd ve config (SMTU original) = Inr plan \<and> 1280 \<le> m \<and> m \<le> Ceiling plan
      \<and> Config plan m = Inr final \<and> currentConfig (ctl s') = final
      \<and> Request_id r = request \<and> Complete r \<and> \<not> Running r \<and> Measured r \<and> \<not> Restored r \<and> Phase r = ''complete''
      \<and> EffectiveMTU r = m \<and> Source r = measured_source cfg \<and> snd (last (calls s')) = m
      \<and> (\<exists>c \<in> set (Tried r). Working c \<and> CMTU c = m)"
    using o unfolding Let_def vouches_def ended_def cap [symmetric] by simp
  show ?thesis
    by (rule conjI [OF o(2)], rule exI [of _ config], rule exI [of _ s1], rule exI [of _ plan], rule exI [of _ m],
      rule exI [of _ final], rule conjI [OF b(1)], rule conjI [OF b(2)], rule body)
qed

theorem run_success_is_measured_witness:
  "Measured (status (ctl (snd (demo_run False)))) \<and> usable (snd (demo_run False))"
proof -
  have p: "plan_of demo_settings = NewPlan demo_url (\<lambda>x. x) (\<lambda>_. False)" by (simp add: demo_settings_def)
  have "demo_run False = (None, snd (demo_run False))" using demo_run_ok by (metis prod.collapse)
  then have "Run (with_preferences demo_store (\<lambda>_. 1000) (demo_env False)) demo_settings demo_admission None demo_request False
      demo_sys = (None, snd (demo_run False))" by (simp add: demo_run_def)
  from run_success_is_measured [OF demo_reach p this] show ?thesis by (auto simp: Let_def)
qed

lemma scope_plan: "run_scope env cfg config force captured original plan ms \<Longrightarrow> plan_of cfg config (SMTU original) = Inr plan"
  unfolding run_scope_def by blast

text \<open>
  C18. A run that was admitted and returns an error has not measured. It is complete and no longer running.
  Either it reports the exact rollback, and then the last MTU requested is the original one, which the
  status repeats together with the configuration of before; or its phase says failed, stopped or
  invalidated. While the controller is usable the failure has a text. A request that was refused leaves the
  request identity and the history of changes alone.
\<close>

theorem run_failure_is_reported:
  assumes "reach st now env cfg s"
    and "Run (with_preferences st now env) cfg a finalize request force s = (Some e, s')"
  shows "calls s' = calls s \<and> Request_id (status (ctl s')) = Request_id (status (ctl s))
    \<or> (let r = status (ctl s') in Request_id r = request \<and> \<not> Measured r \<and> Complete r \<and> \<not> Running r
        \<and> (usable s' \<longrightarrow> Failure r \<noteq> [])
        \<and> (if Restored r
           then usable s' \<and> Source r = ''restored-unmeasured'' \<and> EffectiveMTU r = snd (last (calls s'))
             \<and> (\<exists>(original :: State) plan. plan_of cfg (currentConfig (ctl s')) (SMTU original) = Inr plan \<and> EffectiveMTU r = SMTU original)
           else Phase r \<in> {''failed'', ''stopped'', ''invalidated''}))"
proof -
  have out: "calls s' = calls s \<and> Request_id (status (ctl s')) = Request_id (status (ctl s))
      \<or> (\<exists>sc config. (\<forall>original plan ms. sc original plan ms \<longrightarrow> plan_of cfg config (SMTU original) = Inr plan)
          \<and> op_failed sc config request (calls s) s')"
  proof -
    have "calls s' = calls s \<and> Request_id (status (ctl s')) = Request_id (status (ctl s))
      \<or> (\<exists>config force captured. op_failed (run_scope (with_preferences st now env) cfg config force captured) config request (calls s) s')"
      using pref.Run_outcome [OF assms(2) reach_revoked_ok [OF assms(1)]] unfolding Let_def by blast
    then show ?thesis
    proof (elim disjE exE)
      fix config force captured
      assume "op_failed (run_scope (with_preferences st now env) cfg config force captured) config request (calls s) s'"
      then show ?thesis by (intro disjI2 exI conjI allI impI) (rule scope_plan, assumption+)
    qed blast
  qed
  show ?thesis
  proof (cases "\<exists>sc config. (\<forall>original plan ms. sc original plan ms \<longrightarrow> plan_of cfg config (SMTU original) = Inr plan)
          \<and> op_failed sc config request (calls s) s'")
    case True
    then obtain sc config where sc: "\<And>original plan ms. sc original plan ms \<Longrightarrow> plan_of cfg config (SMTU original) = Inr plan"
      and f: "op_failed sc config request (calls s) s'" by blast
    have u: "usable s'" if "Restored (status (ctl s'))"
      using f that by (auto simp: op_failed_def failed_state_def op_state_def revoked_ok_def revoked_def)
    have r: "Source (status (ctl s')) = ''restored-unmeasured'' \<and> EffectiveMTU (status (ctl s')) = snd (last (calls s'))
        \<and> (\<exists>(original :: State) plan. plan_of cfg (currentConfig (ctl s')) (SMTU original) = Inr plan \<and> EffectiveMTU (status (ctl s')) = SMTU original)"
      if rr: "Restored (status (ctl s'))"
    proof -
      have "restored_ok sc config (calls s) s'" using f by (simp add: op_failed_def failed_state_def)
      then obtain original :: State and plan where p: "plan_of cfg config (SMTU original) = Inr plan" "snd (last (calls s')) = SMTU original"
        "EffectiveMTU (status (ctl s')) = SMTU original" "Source (status (ctl s')) = ''restored-unmeasured''" "currentConfig (ctl s') = config"
        using rr sc unfolding restored_ok_def by blast
      show ?thesis using p by (simp only: simp_thms) (rule exI [of _ original], simp)
    qed
    have "Request_id (status (ctl s')) = request" "\<not> Measured (status (ctl s'))" "Complete (status (ctl s'))" "\<not> Running (status (ctl s'))"
      "usable s' \<longrightarrow> Failure (status (ctl s')) \<noteq> []"
      "\<not> Restored (status (ctl s')) \<longrightarrow> Phase (status (ctl s')) \<in> {''failed'', ''stopped'', ''invalidated''}"
      using f by (auto simp: op_failed_def failed_state_def op_state_def ended_def split: if_splits)
    note facts = this
    show ?thesis
    proof (cases "Restored (status (ctl s'))")
      case True
      show ?thesis using facts(1-5) u [OF True] r [OF True] unfolding Let_def if_P [OF True] by blast
    next
      case False
      show ?thesis using facts False unfolding Let_def if_not_P [OF False] by blast
    qed
  qed (use out in blast)
qed

theorem run_failure_is_reported_witness:
  "\<not> Measured (status (ctl (snd (demo_run True)))) \<and> EffectiveMTU (status (ctl (snd (demo_run True)))) = 1280"
proof -
  obtain e where "demo_run True = (Some e, snd (demo_run True))" using demo_run_bad by (metis option.exhaust prod.collapse)
  then have r: "Run (with_preferences demo_store (\<lambda>_. 1000) (demo_env True)) demo_settings demo_admission None demo_request False
      demo_sys = (Some e, snd (demo_run True))" by (simp add: demo_run_def)
  have "calls demo_sys = []" by (simp add: demo_sys_def)
  moreover have "snd (last (calls (snd (demo_run True)))) = 1280" using demo_run_bad
    by (cases "calls (snd (demo_run True))" rule: rev_cases) auto
  moreover have "calls (snd (demo_run True)) \<noteq> []" "Restored (status (ctl (snd (demo_run True))))" using demo_run_bad by auto
  ultimately show ?thesis
    using run_failure_is_reported [OF demo_reach r] by (simp add: Let_def)
qed


text \<open>
  An owner that keeps the interface \<open>iface\<close> as it was and obeys MTU changes, while nobody else acts on the
  controller.
\<close>

definition cooperative :: "'w env \<Rightarrow> ('w \<Rightarrow> State) \<Rightarrow> bool" where
  "cooperative env iface \<longleftrightarrow> (\<forall>w. fst (sched env w) = [] \<and> iface (snd (sched env w)) = iface w)
     \<and> (\<forall>w. fst (cleanup_context env w) \<and> iface (snd (cleanup_context env w)) = iface w)
     \<and> (\<forall>w. fst (own_capture env w) = (iface w, False) \<and> iface (snd (own_capture env w)) = iface w)
     \<and> (\<forall>f st w. own_rollback env = Some f \<longrightarrow> fst (f st w) = (iface w, False) \<and> iface (snd (f st w)) = iface w)
     \<and> (\<forall>st m w. same_session st (iface w) \<longrightarrow> fst (own_change env st m w) = ((iface w)\<lparr>SMTU := m\<rparr>, False)
         \<and> iface (snd (own_change env st m w)) = (iface w)\<lparr>SMTU := m\<rparr>)"

text \<open>In a quiet environment a call leaves everything but the world alone.\<close>

definition quiet_to :: "('w \<Rightarrow> State) \<Rightarrow> State \<Rightarrow> 'w sys \<Rightarrow> 'w sys \<Rightarrow> bool" where
  "quiet_to iface x s s' \<longleftrightarrow> (\<exists>w. s' = s\<lparr>world := w\<rparr> \<and> iface w = x)"

lemma quiet_sync: "cooperative env iface \<Longrightarrow> quiet_to iface (iface (world s)) s (sync env s)"
  by (auto simp: cooperative_def sync_def quiet_to_def Let_def split_def)

lemma quiet_outside:
  assumes "cooperative env iface" "outside env f s = (r, s')"
  shows "r = fst (f (world s)) \<and> quiet_to iface (iface (snd (f (world s)))) s s'"
  using assms quiet_sync [OF assms(1), of "s\<lparr>world := snd (f (world s))\<rparr>"]
  by (auto simp: outside_def Let_def split_def quiet_to_def)

lemma ctx_err_world [simp]: "ctx_err k (s\<lparr>world := w\<rparr>) = ctx_err k s"
  by (cases k) simp_all

lemma quiet_refl: "quiet_to iface (iface (world s)) s s"
  by (auto simp: quiet_to_def intro!: exI [of _ "world s"])

lemma quiet_Lock:
  assumes "cooperative env iface" "LockContext env k s = (b, s')"
  shows "b = (\<not> ctx_err k s) \<and> quiet_to iface (iface (world s)) s s'"
proof (cases "ctx_err k s")
  case True
  then show ?thesis using assms(2) quiet_refl [of iface s] by (auto simp: LockContext_def)
next
  case False
  obtain w where w: "sync env s = s\<lparr>world := w\<rparr>" "iface w = iface (world s)"
    using quiet_sync [OF assms(1), of s] by (auto simp: quiet_to_def)
  have "s' = s\<lparr>world := w\<rparr> \<and> b" using assms(2) False by (simp add: LockContext_def Let_def w(1))
  with w(2) False show ?thesis by (auto simp: quiet_to_def)
qed

lemma quiet_live:
  assumes "cooperative env iface" "live env k (iface (world s)) s = (b, s')" "usable s" "\<not> ctx_err k s"
    "Session (iface (world s)) \<noteq> []" "SPath (iface (world s)) \<noteq> []" "Interface (iface (world s)) \<noteq> []"
  shows "b \<and> quiet_to iface (iface (world s)) s s'"
proof -
  obtain b1 s1 where l1: "LockContext env k s = (b1, s1)" by (rule prod.exhaust)
  obtain w1 where w1: "b1" "s1 = s\<lparr>world := w1\<rparr>" "iface w1 = iface (world s)"
    using quiet_Lock [OF assms(1) l1] assms(4) by (auto simp: quiet_to_def)
  obtain cur err s2 where l2: "outside env (own_capture env) s1 = ((cur, err), s2)" by (metis surj_pair)
  have w2: "cur = iface (world s) \<and> \<not> err \<and> quiet_to iface (iface (world s)) s1 s2"
    using quiet_outside [OF assms(1) l2] assms(1) w1 by (simp add: cooperative_def)
  then obtain w2' where s2: "s2 = s\<lparr>world := w2'\<rparr>" "iface w2' = iface (world s)" using w1 by (auto simp: quiet_to_def)
  obtain b3 s3 where l3: "LockContext env k s2 = (b3, s3)" by (rule prod.exhaust)
  have w3: "b3 \<and> quiet_to iface (iface (world s)) s2 s3" using quiet_Lock [OF assms(1) l3] s2 assms(4) by simp
  then obtain w3' where s3: "s3 = s\<lparr>world := w3'\<rparr>" "iface w3' = iface (world s)" using s2 by (auto simp: quiet_to_def)
  have "live env k (iface (world s)) s = (True, s3)"
    using assms(3-7) w1 w2 w3 s3 unfolding live_def Let_def l1 by (simp add: l2 [unfolded w1(2)] l3)
  then show ?thesis using assms(2) s3 by (auto simp: quiet_to_def)
qed


lemma quiet_sessionLive:
  assumes "cooperative env iface" "sessionLive env k expected s = ((st, b), s')" "usable s" "\<not> ctx_err k s"
    "iface (world s) = expected"
  shows "b \<and> st = expected \<and> quiet_to iface expected s s'"
proof -
  obtain b1 s1 where l1: "LockContext env k s = (b1, s1)" by (rule prod.exhaust)
  obtain w1 where w1: "b1" "s1 = s\<lparr>world := w1\<rparr>" "iface w1 = expected"
    using quiet_Lock [OF assms(1) l1] assms(4,5) by (auto simp: quiet_to_def)
  define f where "f = (case own_rollback env of Some f \<Rightarrow> f expected | None \<Rightarrow> own_capture env)"
  have f: "fst (f w) = (iface w, False) \<and> iface (snd (f w)) = iface w" for w
    using assms(1) by (auto simp: cooperative_def f_def split: option.split)
  obtain cur err s2 where l2: "outside env f s1 = ((cur, err), s2)" by (metis surj_pair)
  have w2: "cur = expected \<and> \<not> err \<and> quiet_to iface expected s1 s2"
    using quiet_outside [OF assms(1) l2] f [of w1] w1 by simp
  then obtain w2' where s2: "s2 = s\<lparr>world := w2'\<rparr>" "iface w2' = expected" using w1 by (auto simp: quiet_to_def)
  obtain b3 s3 where l3: "LockContext env k s2 = (b3, s3)" by (rule prod.exhaust)
  have w3: "b3 \<and> quiet_to iface expected s2 s3" using quiet_Lock [OF assms(1) l3] s2 assms(4) by simp
  then obtain w3' where s3: "s3 = s\<lparr>world := w3'\<rparr>" "iface w3' = expected" using s2 by (auto simp: quiet_to_def)
  have o: "(case own_rollback env of Some g \<Rightarrow> outside env (g expected) s1 | None \<Rightarrow> outside env (own_capture env) s1)
      = ((cur, err), s2)" using l2 by (auto simp: f_def split: option.splits)
  have "sessionLive env k expected s = ((expected, True), s3)"
    using assms(3,4) w1 w2 w3 s3 unfolding sessionLive_def Let_def l1 by (simp add: o [unfolded w1(2)] l3)
  then show ?thesis using assms(2) s3 by (auto simp: quiet_to_def)
qed

text \<open>
  C19. The rollback of a run that was not adopted succeeds when nothing stands in its way. If the owner obeys
  MTU changes, no other goroutine acts and the interface is still the expected one, with the session and path
  captured at the start, then the rollback sets the interface to exactly the original MTU, reports it as
  restored and puts the configuration of before in force.
\<close>

theorem rollback_restores_original:
  assumes "cooperative env iface" and "usable s" and "iface (world s) = expected" and "same_session original expected"
    and "Session expected \<noteq> []" and "SPath expected \<noteq> []" and "Interface expected \<noteq> []"
  shows "let s' = rollback env config original expected s; r = status (ctl s') in
    iface (world s') = expected\<lparr>SMTU := SMTU original\<rparr> \<and> Restored r \<and> EffectiveMTU r = SMTU original
    \<and> Source r = ''restored-unmeasured'' \<and> Phase r = ''restored'' \<and> currentConfig (ctl s') = config
    \<and> calls s' = calls s @ [(expected, SMTU original)]"
proof -
  let ?s0 = "s\<lparr>cleanup_done := False\<rparr>" and ?x = "expected\<lparr>SMTU := SMTU original\<rparr>"
  obtain g s1 where l1: "outside env (cleanup_context env) ?s0 = (g, s1)" by (rule prod.exhaust)
  have "g \<and> quiet_to iface expected ?s0 s1" using quiet_outside [OF assms(1) l1] assms(1,3) by (simp add: cooperative_def)
  then obtain w1 where w1: "g" "s1 = s\<lparr>cleanup_done := False, world := w1\<rparr>" "iface w1 = expected" by (auto simp: quiet_to_def)
  obtain rs b2 s2 where l2: "sessionLive env Cleanup expected s1 = ((rs, b2), s2)" by (metis surj_pair)
  have "b2 \<and> rs = expected \<and> quiet_to iface expected s1 s2"
    by (rule quiet_sessionLive [OF assms(1) l2]) (use w1 assms(2) in simp_all)
  then obtain w2 where w2: "b2" "rs = expected" "s2 = s\<lparr>cleanup_done := False, world := w2\<rparr>" "iface w2 = expected"
    using w1 by (auto simp: quiet_to_def)
  obtain st err s3 where l3: "change_mtu env rs (SMTU original) s2 = ((st, err), s3)" by (metis surj_pair)
  have "(st, err) = (?x, False) \<and> quiet_to iface ?x (s2\<lparr>calls := calls s2 @ [(rs, SMTU original)]\<rparr>) s3"
    using quiet_outside [OF assms(1) l3 [unfolded change_mtu_def]] assms(1) w2 by (simp add: cooperative_def same_session_def)
  then obtain w3 where w3: "st = ?x" "\<not> err" "iface w3 = ?x"
    "s3 = s\<lparr>cleanup_done := False, calls := calls s @ [(expected, SMTU original)], world := w3\<rparr>"
    using w2 by (auto simp: quiet_to_def)
  obtain b4 s4 where l4: "live env Cleanup ?x s3 = (b4, s4)" by (rule prod.exhaust)
  have "b4 \<and> quiet_to iface ?x s3 s4"
    using quiet_live [OF assms(1), of Cleanup s3 b4 s4] l4 w3 assms(2,5-7) by simp
  then obtain w4 where w4: "b4" "iface w4 = ?x"
    "s4 = s\<lparr>cleanup_done := False, calls := calls s @ [(expected, SMTU original)], world := w4\<rparr>"
    using w3 by (auto simp: quiet_to_def)
  obtain w5 where w5: "iface w5 = ?x"
    "sync env s4 = s\<lparr>cleanup_done := False, calls := calls s @ [(expected, SMTU original)], world := w5\<rparr>"
    using quiet_sync [OF assms(1), of s4] w4 by (auto simp: quiet_to_def)
  have eq: "rollback env config original expected s = restore_write original config (sync env s4)"
    using w1(1) w2(1) w3(1,2) w4(1) w5 assms(2,4) unfolding rollback_def Let_def l1 prod.case restore_write_def same_session_def
    by (simp add: l2 l3 l4)
  show ?thesis unfolding eq Let_def w5(2) using w5(1) by (simp add: restore_write_def set_status_def)
qed

theorem rollback_restores_original_witness:
  "Restored (status (ctl (rollback (demo_env True) demo_config (demo_state\<lparr>SMTU := 1400\<rparr>) demo_state demo_sys)))
    \<and> SMTU (fst (world (rollback (demo_env True) demo_config (demo_state\<lparr>SMTU := 1400\<rparr>) demo_state demo_sys))) = 1400"
proof -
  have c: "cooperative (demo_env True) fst" by (simp add: cooperative_def demo_env_def)
  have s: "usable demo_sys" "fst (world demo_sys) = demo_state" "same_session (demo_state\<lparr>SMTU := 1400\<rparr>) demo_state"
    "Session demo_state \<noteq> []" "SPath demo_state \<noteq> []" "Interface demo_state \<noteq> []"
    by (simp_all add: demo_sys_def demo_controller_def usable_def same_session_def demo_state_def)
  from rollback_restores_original [OF c s, of demo_config] show ?thesis by (simp add: Let_def demo_state_def)
qed

end
