(* ===== verification/UpdateManifest.thy ===== *)
theory UpdateManifest
  imports OvpnLayers "HOL-Library.Multiset"
begin

text \<open>
  \<^verbatim>\<open>src/internal/updatepolicy/manifest.go\<close> and \<^verbatim>\<open>package_provenance.go\<close>: signed update manifests, their
  validation and verification, the choice of an artifact, and the provenance record of a package. Ed25519,
  \<open>url.Parse\<close>, \<open>URL.EscapedPath\<close>, the text form of a time and the clock are parameters. A \<open>time.Time\<close>
  is its number of nanoseconds since 1970; the zone does not matter to the code. Text is ASCII where the
  code folds case.
\<close>

section \<open>Records\<close>

definition SchemaV1 :: int where
  "SchemaV1 = 1"

definition MaxManifestBytes :: int where
  "MaxManifestBytes = 1048576"

definition MaxArtifactBytes :: int where
  "MaxArtifactBytes = 8589934592"

record Artifact =
  Platform :: string
  Arch :: string
  Kind :: string
  URL :: string
  SHA256 :: string
  Size :: int

record Manifest =
  Schema :: int
  Channel :: string
  Sequence :: int
  CommitSHA :: string
  PublishedAt :: int
  ExpiresAt :: int
  ReleaseURL :: string
  Artifacts :: "Artifact list"
  Signature :: string

record VerifyOptions =
  Now :: int
  AllowedChannels :: "string list"
  AllowedHosts :: "string list"
  AllowLoopbackHTTP :: bool
  MaxClockSkew :: int

text \<open>What is not code of the repository.\<close>

record externals =
  url_parse :: url_parser
  escaped_path :: "url \<Rightarrow> string"
  time_text :: "int \<Rightarrow> string option"
  time_parse :: "string \<Rightarrow> int option"
  ed_sign :: "string \<Rightarrow> string \<Rightarrow> string"
  ed_verify :: "string \<Rightarrow> string \<Rightarrow> string \<Rightarrow> bool"
  wall_clock :: int
  goarch :: string

text \<open>The zero \<open>time.Time\<close> and durations in nanoseconds.\<close>

definition zero_time :: int where
  "zero_time = -62135596800000000000"

definition default_skew :: int where
  "default_skew = 600000000000"

definition max_window :: int where
  "max_window = 2678400000000000"

section \<open>Tokens, channels and platforms\<close>

definition token_char :: "char \<Rightarrow> bool" where
  "token_char c \<longleftrightarrow> (CHR ''a'' \<le> c \<and> c \<le> CHR ''z'') \<or> (CHR ''A'' \<le> c \<and> c \<le> CHR ''Z'')
     \<or> (CHR ''0'' \<le> c \<and> c \<le> CHR ''9'') \<or> c = CHR ''-'' \<or> c = CHR ''_'' \<or> c = CHR ''.''"

definition validToken :: "string \<Rightarrow> bool" where
  "validToken v \<longleftrightarrow> v \<noteq> [] \<and> int (length v) \<le> 64 \<and> list_all token_char v"

definition isHex :: "string \<Rightarrow> int \<Rightarrow> bool" where
  "isHex v n \<longleftrightarrow> int (length v) = n \<and> list_all (\<lambda>c. hex_digit c \<noteq> None) v"

definition NormalizePlatform :: "string \<Rightarrow> string" where
  "NormalizePlatform s =
     (let v = ToLower (TrimSpace s) in
      if v = ''darwin'' \<or> v = ''osx'' then ''macos''
      else if v = ''win'' \<or> v = ''win32'' then ''windows''
      else v)"

definition normal_arch :: "string \<Rightarrow> string" where
  "normal_arch v =
     (if v = ''x86_64'' \<or> v = ''x64'' then ''amd64''
      else if v = ''aarch64'' then ''arm64''
      else v)"

text \<open>The recursion on an empty name ends, as the architecture of the build is not empty.\<close>

definition NormalizeArch :: "externals \<Rightarrow> string \<Rightarrow> string" where
  "NormalizeArch ext s =
     (let v = ToLower (TrimSpace s) in
      if v = [] then normal_arch (ToLower (TrimSpace (goarch ext))) else normal_arch v)"

definition validChannel :: "string \<Rightarrow> string list \<Rightarrow> bool" where
  "validChannel s allowed =
     (let channel = ToLower (TrimSpace s) in
      if \<not> validToken channel then False
      else if allowed = [] then channel = ''stable'' \<or> channel = ''beta''
      else list_ex (\<lambda>a. EqualFold (TrimSpace a) channel) allowed)"

section \<open>URLs\<close>

text \<open>\<open>path.Clean\<close>: \<open>out\<close> holds the elements kept so far, the last one first.\<close>

fun clean_elems :: "bool \<Rightarrow> string list \<Rightarrow> string list \<Rightarrow> string list" where
  "clean_elems rooted out [] = rev out"
| "clean_elems rooted out (e # es) =
     (if e = [] \<or> e = ''.'' then clean_elems rooted out es
      else if e = ''..'' then
        (if out \<noteq> [] \<and> hd out \<noteq> ''..'' then clean_elems rooted (tl out) es
         else if rooted then clean_elems rooted out es
         else clean_elems rooted (e # out) es)
      else clean_elems rooted (e # out) es)"

definition path_Clean :: "string \<Rightarrow> string" where
  "path_Clean p =
     (let rooted = (p \<noteq> [] \<and> hd p = CHR ''/'');
          body = join1 (clean_elems rooted [] (Split1 p CHR ''/'')) CHR ''/''
      in if rooted then CHR ''/'' # body else if body = [] then ''.'' else body)"

definition moving_names :: "string list" where
  "moving_names = [''/latest'', ''/refs/heads/main'', ''/archive/main'', ''/heads/main'', ''latest.zip'', ''latest.tar'']"

definition loopback_host :: "string \<Rightarrow> bool" where
  "loopback_host host =
     (case ParseAddr host of
        Some ip \<Rightarrow> if Zone ip = [] then IsLoopback ip else host = ''localhost''
      | None \<Rightarrow> host = ''localhost'')"

definition validateImmutableURL :: "externals \<Rightarrow> string \<Rightarrow> VerifyOptions \<Rightarrow> unit res" where
  "validateImmutableURL ext raw opts =
     (case url_parse ext raw of
        None \<Rightarrow> fail ''malformed URL''
      | Some u \<Rightarrow>
          reject_if (Host u = [] \<or> User u \<or> Fragment u \<noteq> []) ''malformed URL''
          (reject_if (RawQuery u \<noteq> []) ''query strings are not allowed''
          (let host = ToLower (Hostname u) in
           reject_if (\<not> EqualFold (Scheme u) ''https''
               \<and> \<not> (AllowLoopbackHTTP opts \<and> EqualFold (Scheme u) ''http'' \<and> loopback_host host)) ''HTTPS required''
          (reject_if (AllowedHosts opts \<noteq> [] \<and> \<not> list_ex (\<lambda>h. EqualFold (TrimSpace h) (Hostname u)) (AllowedHosts opts))
             ''host is not allowlisted''
          (reject_if (list_ex (Contains (ToLower (path_Clean (escaped_path ext u)))) moving_names)
             ''moving release URL is forbidden'' (Inr ()))))))"

section \<open>Validation\<close>

definition Artifact_Validate :: "externals \<Rightarrow> VerifyOptions \<Rightarrow> Artifact \<Rightarrow> unit res" where
  "Artifact_Validate ext opts a =
     reject_if (\<not> validToken (Platform a) \<or> \<not> validToken (Arch a) \<or> \<not> validToken (Kind a)) ''invalid identity''
     (reject_if (Size a \<le> 0 \<or> Size a > MaxArtifactBytes) ''invalid size''
     (reject_if (\<not> isHex (SHA256 a) 64) ''SHA-256''
     (validateImmutableURL ext (URL a) opts)))"

definition artifact_key :: "Artifact \<Rightarrow> string" where
  "artifact_key a = ToLower (Platform a @ CHR 0x00 # Arch a @ CHR 0x00 # Kind a)"

fun validate_artifacts :: "externals \<Rightarrow> VerifyOptions \<Rightarrow> string list \<Rightarrow> Artifact list \<Rightarrow> unit res" where
  "validate_artifacts ext opts seen [] = Inr ()"
| "validate_artifacts ext opts seen (a # as) =
     res_bind (Artifact_Validate ext opts a) (\<lambda>_.
       reject_if (artifact_key a \<in> set seen) ''duplicate''
       (validate_artifacts ext opts (artifact_key a # seen) as))"

definition window_ok :: "externals \<Rightarrow> VerifyOptions \<Rightarrow> Manifest \<Rightarrow> unit res" where
  "window_ok ext opts m =
     (let now = (if Now opts = zero_time then wall_clock ext else Now opts);
          skew = (if MaxClockSkew opts \<le> 0 then default_skew else MaxClockSkew opts);
          published = PublishedAt m; expires = ExpiresAt m
      in reject_if (published = zero_time \<or> expires = zero_time \<or> \<not> expires > published) ''invalid validity window''
        (reject_if (published > now + skew) ''published in the future''
        (reject_if (\<not> expires > now - skew) ''expired''
        (reject_if (expires - published > max_window) ''validity window too large'' (Inr ())))))"

definition Validate :: "externals \<Rightarrow> VerifyOptions \<Rightarrow> Manifest \<Rightarrow> unit res" where
  "Validate ext opts m =
     reject_if (Schema m \<noteq> SchemaV1) ''unsupported schema''
     (reject_if (\<not> validChannel (Channel m) (AllowedChannels opts)) ''channel''
     (reject_if (Sequence m = 0) ''zero sequence''
     (reject_if (\<not> isHex (CommitSHA m) 40) ''commit SHA must be exact 40-hex''
     (res_bind (window_ok ext opts m) (\<lambda>_.
      res_bind (if ReleaseURL m \<noteq> [] then validateImmutableURL ext (ReleaseURL m) opts else Inr ()) (\<lambda>_.
      reject_if (Artifacts m = [] \<or> int (length (Artifacts m)) > 128) ''artifact count''
        (validate_artifacts ext opts [] (Artifacts m))))))))"

section \<open>The signed payload\<close>

text \<open>The order of \<open>Payload\<close>: platform, architecture, kind, URL.\<close>

definition artifact_rank :: "Artifact \<Rightarrow> string \<times> string \<times> string \<times> string" where
  "artifact_rank a = (Platform a, Arch a, Kind a, URL a)"

definition artifact_less :: "Artifact \<Rightarrow> Artifact \<Rightarrow> bool" where
  "artifact_less a b =
     (if Platform a \<noteq> Platform b then Platform a < Platform b
      else if Arch a \<noteq> Arch b then Arch a < Arch b
      else if Kind a \<noteq> Kind b then Kind a < Kind b
      else URL a < URL b)"

definition Payload :: "Manifest \<Rightarrow> Manifest" where
  "Payload m = m\<lparr>CommitSHA := ToLower (CommitSHA m), Artifacts := SliceStable artifact_less (Artifacts m), Signature := []\<rparr>"

definition artifact_json :: "Artifact \<Rightarrow> json" where
  "artifact_json a = JObj [(''platform'', JStr (Platform a)), (''arch'', JStr (Arch a)), (''kind'', JStr (Kind a)),
     (''url'', JStr (URL a)), (''sha256'', JStr (SHA256 a)), (''size'', JNum (Itoa (Size a)))]"

definition payload_json :: "string \<Rightarrow> string \<Rightarrow> Manifest \<Rightarrow> json" where
  "payload_json published expires p = JObj (
     [(''schema'', JNum (Itoa (Schema p))), (''channel'', JStr (Channel p)), (''sequence'', JNum (Itoa (Sequence p))),
      (''commit_sha'', JStr (CommitSHA p)), (''published_at'', JStr published), (''expires_at'', JStr expires)]
     @ (if ReleaseURL p = [] then [] else [(''release_url'', JStr (ReleaseURL p))])
     @ [(''artifacts'', if Artifacts p = [] then JNull else JArr (map artifact_json (Artifacts p)))])"

definition CanonicalPayload :: "externals \<Rightarrow> Manifest \<Rightarrow> string res" where
  "CanonicalPayload ext m =
     (let p = Payload m in
      case (time_text ext (PublishedAt p), time_text ext (ExpiresAt p)) of
        (Some a, Some b) \<Rightarrow> Inr (enc (payload_json a b p))
      | _ \<Rightarrow> fail ''time outside the range of JSON'')"

section \<open>Base64\<close>

text \<open>\<open>base64.StdEncoding\<close> on bytes as characters.\<close>

definition b64_char :: "nat \<Rightarrow> char" where
  "b64_char i = b64_alphabet ! i"

fun b64_encode :: "string \<Rightarrow> string" where
  "b64_encode [] = []"
| "b64_encode [a] = (let x = byte_of a in [b64_char (x div 4), b64_char (x mod 4 * 16), CHR ''='', CHR ''=''])"
| "b64_encode [a, b] =
     (let x = byte_of a; y = byte_of b
      in [b64_char (x div 4), b64_char (x mod 4 * 16 + y div 16), b64_char (y mod 16 * 4), CHR ''=''])"
| "b64_encode (a # b # c # s) =
     (let x = byte_of a; y = byte_of b; z = byte_of c
      in b64_char (x div 4) # b64_char (x mod 4 * 16 + y div 16) # b64_char (y mod 16 * 4 + z div 64)
         # b64_char (z mod 64) # b64_encode s)"

text \<open>The decoder skips line breaks and ignores the unused low bits of the last digit.\<close>

fun b64_loose :: "string \<Rightarrow> string option" where
  "b64_loose [] = Some []"
| "b64_loose (a # b # c # d # s) =
     (case (b64_digit a, b64_digit b) of
        (Some x, Some y) \<Rightarrow>
          (case (b64_digit c, b64_digit d) of
             (Some z, Some w) \<Rightarrow>
               map_option (\<lambda>r. chr (x * 4 + y div 16) # chr ((y mod 16) * 16 + z div 4) # chr ((z mod 4) * 64 + w) # r)
                 (b64_loose s)
           | (Some z, None) \<Rightarrow>
               if d = CHR ''='' \<and> s = [] then Some [chr (x * 4 + y div 16), chr ((y mod 16) * 16 + z div 4)] else None
           | (None, _) \<Rightarrow>
               if c = CHR ''='' \<and> d = CHR ''='' \<and> s = [] then Some [chr (x * 4 + y div 16)] else None)
      | _ \<Rightarrow> None)"
| "b64_loose _ = None"

definition DecodeString :: "string \<Rightarrow> string option" where
  "DecodeString s = b64_loose (filter (\<lambda>c. c \<noteq> CHR 0x0A \<and> c \<noteq> CHR 0x0D) s)"

section \<open>Signing and verifying\<close>

definition Sign :: "externals \<Rightarrow> string \<Rightarrow> Manifest \<Rightarrow> Manifest res" where
  "Sign ext privateKey m =
     reject_if (int (length privateKey) \<noteq> 64) ''invalid Ed25519 private key''
     (res_bind (CanonicalPayload ext m) (\<lambda>payload. Inr (m\<lparr>Signature := b64_encode (ed_sign ext privateKey payload)\<rparr>)))"

text \<open>
  A decoder replaces every byte of the text that does not start a well-formed character by U+FFFD.
\<close>

definition rune_width :: "string \<Rightarrow> nat" where
  "rune_width s =
     (if s \<noteq> [] \<and> ValidString (take 1 s) then 1
      else if 2 \<le> length s \<and> ValidString (take 2 s) then 2
      else if 3 \<le> length s \<and> ValidString (take 3 s) then 3
      else if 4 \<le> length s \<and> ValidString (take 4 s) then 4
      else 0)"

fun to_valid :: "nat \<Rightarrow> string \<Rightarrow> string" where
  "to_valid 0 s = []"
| "to_valid (Suc n) s =
     (if s = [] then []
      else if rune_width s = 0 then CHR 0xEF # CHR 0xBF # CHR 0xBD # to_valid n (tl s)
      else take (rune_width s) s @ to_valid n (drop (rune_width s) s))"

definition artifact0 :: Artifact where
  "artifact0 = \<lparr>Platform = [], Arch = [], Kind = [], URL = [], SHA256 = [], Size = 0\<rparr>"

definition manifest0 :: Manifest where
  "manifest0 = \<lparr>Schema = 0, Channel = [], Sequence = 0, CommitSHA = [], PublishedAt = zero_time, ExpiresAt = zero_time,
     ReleaseURL = [], Artifacts = [], Signature = []\<rparr>"

definition set_artifact_field :: "string \<Rightarrow> json \<Rightarrow> Artifact \<Rightarrow> Artifact option" where
  "set_artifact_field name v a =
     (if name = ''platform'' then map_option (\<lambda>x. a\<lparr>Platform := x\<rparr>) (string_member (Platform a) v)
      else if name = ''arch'' then map_option (\<lambda>x. a\<lparr>Arch := x\<rparr>) (string_member (Arch a) v)
      else if name = ''kind'' then map_option (\<lambda>x. a\<lparr>Kind := x\<rparr>) (string_member (Kind a) v)
      else if name = ''url'' then map_option (\<lambda>x. a\<lparr>URL := x\<rparr>) (string_member (URL a) v)
      else if name = ''sha256'' then map_option (\<lambda>x. a\<lparr>SHA256 := x\<rparr>) (string_member (SHA256 a) v)
      else if name = ''size'' then map_option (\<lambda>x. a\<lparr>Size := x\<rparr>) (int_member (Size a) v)
      else None)"

text \<open>A list is decoded into the elements it already has.\<close>

fun decode_artifacts :: "Artifact list \<Rightarrow> json list \<Rightarrow> Artifact list option" where
  "decode_artifacts old [] = Some []"
| "decode_artifacts old (v # vs) =
     (case decode_struct set_artifact_field v (case old of [] \<Rightarrow> artifact0 | a # _ \<Rightarrow> a) of
        None \<Rightarrow> None
      | Some a \<Rightarrow> map_option (Cons a) (decode_artifacts (tl old) vs))"

definition artifacts_member :: "Artifact list \<Rightarrow> json \<Rightarrow> Artifact list option" where
  "artifacts_member old v = (case v of JNull \<Rightarrow> Some [] | JArr vs \<Rightarrow> decode_artifacts old vs | _ \<Rightarrow> None)"

definition uint64_member :: "int \<Rightarrow> json \<Rightarrow> int option" where
  "uint64_member old v = (case v of JNull \<Rightarrow> Some old | JNum t \<Rightarrow> ParseUint t 64 | _ \<Rightarrow> None)"

text \<open>
  \<open>time.Time\<close> reads the bytes between the quotes as they stand. The value has its escapes resolved already, so a
  time spelled with escapes is read here where the code refuses it; every other text is read alike.
\<close>

definition time_member :: "externals \<Rightarrow> int \<Rightarrow> json \<Rightarrow> int option" where
  "time_member ext old v = (case v of JNull \<Rightarrow> Some old | JStr t \<Rightarrow> time_parse ext t | _ \<Rightarrow> None)"

definition set_manifest_field :: "externals \<Rightarrow> string \<Rightarrow> json \<Rightarrow> Manifest \<Rightarrow> Manifest option" where
  "set_manifest_field ext name v m =
     (if name = ''schema'' then map_option (\<lambda>x. m\<lparr>Schema := x\<rparr>) (int_member (Schema m) v)
      else if name = ''channel'' then map_option (\<lambda>x. m\<lparr>Channel := x\<rparr>) (string_member (Channel m) v)
      else if name = ''sequence'' then map_option (\<lambda>x. m\<lparr>Sequence := x\<rparr>) (uint64_member (Sequence m) v)
      else if name = ''commit_sha'' then map_option (\<lambda>x. m\<lparr>CommitSHA := x\<rparr>) (string_member (CommitSHA m) v)
      else if name = ''published_at'' then map_option (\<lambda>x. m\<lparr>PublishedAt := x\<rparr>) (time_member ext (PublishedAt m) v)
      else if name = ''expires_at'' then map_option (\<lambda>x. m\<lparr>ExpiresAt := x\<rparr>) (time_member ext (ExpiresAt m) v)
      else if name = ''release_url'' then map_option (\<lambda>x. m\<lparr>ReleaseURL := x\<rparr>) (string_member (ReleaseURL m) v)
      else if name = ''artifacts'' then map_option (\<lambda>x. m\<lparr>Artifacts := x\<rparr>) (artifacts_member (Artifacts m) v)
      else if name = ''signature'' then map_option (\<lambda>x. m\<lparr>Signature := x\<rparr>) (string_member (Signature m) v)
      else None)"

definition decode_manifest :: "externals \<Rightarrow> string \<Rightarrow> Manifest option" where
  "decode_manifest ext raw =
     (case json_decode (to_valid (length raw) raw) of
        None \<Rightarrow> None
      | Some v \<Rightarrow> decode_struct (set_manifest_field ext) v manifest0)"

text \<open>The checks of \<open>ParseAndVerify\<close> after the text was decoded.\<close>

definition verify_manifest :: "externals \<Rightarrow> string \<Rightarrow> VerifyOptions \<Rightarrow> Manifest \<Rightarrow> Manifest res" where
  "verify_manifest ext publicKey opts m =
     res_bind (Validate ext opts m) (\<lambda>_.
       reject_if (int (length publicKey) \<noteq> 32) ''invalid Ed25519 public key''
       (case DecodeString (Signature m) of
          None \<Rightarrow> fail ''malformed signature''
        | Some sig \<Rightarrow>
            reject_if (int (length sig) \<noteq> 64) ''malformed signature''
            (res_bind (CanonicalPayload ext m) (\<lambda>payload.
              reject_if (\<not> ed_verify ext publicKey payload sig) ''signature verification failed'' (Inr m)))))"

definition ParseAndVerify :: "externals \<Rightarrow> string \<Rightarrow> string \<Rightarrow> VerifyOptions \<Rightarrow> Manifest res" where
  "ParseAndVerify ext raw publicKey opts =
     reject_if (raw = [] \<or> int (length raw) > MaxManifestBytes) ''manifest size''
     (case decode_manifest ext raw of
        None \<Rightarrow> fail ''decode''
      | Some m \<Rightarrow> verify_manifest ext publicKey opts m)"

section \<open>Selecting an artifact\<close>

definition artifact_matches :: "externals \<Rightarrow> string \<Rightarrow> string \<Rightarrow> string \<Rightarrow> Artifact \<Rightarrow> bool" where
  "artifact_matches ext platform arch kind a \<longleftrightarrow> NormalizePlatform (Platform a) = platform
     \<and> NormalizeArch ext (Arch a) = arch \<and> EqualFold (Kind a) kind"

fun select_loop :: "(Artifact \<Rightarrow> bool) \<Rightarrow> Artifact option \<Rightarrow> Artifact list \<Rightarrow> Artifact option res" where
  "select_loop p found [] = Inr found"
| "select_loop p found (a # as) =
     (if p a then (if found \<noteq> None then fail ''ambiguous match'' else select_loop p (Some a) as)
      else select_loop p found as)"

definition SelectArtifact :: "externals \<Rightarrow> Manifest \<Rightarrow> string \<Rightarrow> string \<Rightarrow> string \<Rightarrow> Artifact res" where
  "SelectArtifact ext m platform arch kind =
     (case select_loop (artifact_matches ext (NormalizePlatform platform) (NormalizeArch ext arch) kind) None (Artifacts m) of
        Inl e \<Rightarrow> Inl e
      | Inr None \<Rightarrow> fail ''no artifact''
      | Inr (Some a) \<Rightarrow> Inr a)"

section \<open>Package provenance\<close>

definition MaxPackageProvenanceBytes :: int where
  "MaxPackageProvenanceBytes = 65536"

record PackageProvenance =
  SchemaVersion :: int
  Repository :: string
  SourceSHA :: string
  ArtifactFamily :: string

definition set_provenance_field :: "string \<Rightarrow> json \<Rightarrow> PackageProvenance \<Rightarrow> PackageProvenance option" where
  "set_provenance_field key v p =
     (if key = ''schema_version'' then map_option (\<lambda>x. p\<lparr>SchemaVersion := x\<rparr>) (int_member (SchemaVersion p) v)
      else if key = ''repository'' then map_option (\<lambda>x. p\<lparr>Repository := x\<rparr>) (string_member (Repository p) v)
      else if key = ''source_sha'' then map_option (\<lambda>x. p\<lparr>SourceSHA := x\<rparr>) (string_member (SourceSHA p) v)
      else if key = ''artifact_family'' then map_option (\<lambda>x. p\<lparr>ArtifactFamily := x\<rparr>) (string_member (ArtifactFamily p) v)
      else None)"

text \<open>The loop over the members: exact names, none twice.\<close>

fun provenance_members :: "string list \<Rightarrow> jobject \<Rightarrow> PackageProvenance \<Rightarrow> (string list \<times> PackageProvenance) option" where
  "provenance_members seen [] p = Some (seen, p)"
| "provenance_members seen ((k, v) # ms) p =
     (if k \<in> set seen then None
      else case set_provenance_field k v p of
          None \<Rightarrow> None
        | Some p \<Rightarrow> provenance_members (k # seen) ms p)"

definition sha_char :: "char \<Rightarrow> bool" where
  "sha_char c \<longleftrightarrow> (CHR ''0'' \<le> c \<and> c \<le> CHR ''9'') \<or> (CHR ''a'' \<le> c \<and> c \<le> CHR ''f'')"

definition provenance_ok :: "PackageProvenance \<Rightarrow> bool" where
  "provenance_ok p \<longleftrightarrow> SchemaVersion p = 1 \<and> Repository p = ''Eabusham2/router-vpn'' \<and> isHex (SourceSHA p) 40
     \<and> ArtifactFamily p \<noteq> [] \<and> int (length (ArtifactFamily p)) \<le> 64
     \<and> list_all sha_char (SourceSHA p) \<and> list_all token_char (ArtifactFamily p)"

definition ParsePackageProvenance :: "string \<Rightarrow> PackageProvenance option" where
  "ParsePackageProvenance raw =
     (if raw = [] \<or> int (length raw) > MaxPackageProvenanceBytes then None
      else case json_decode (to_valid (length raw) raw) of
          Some (JObj ms) \<Rightarrow>
            (case provenance_members [] ms \<lparr>SchemaVersion = 0, Repository = [], SourceSHA = [], ArtifactFamily = []\<rparr> of
               None \<Rightarrow> None
             | Some (seen, p) \<Rightarrow> if length seen = 4 \<and> provenance_ok p then Some p else None)
        | _ \<Rightarrow> None)"

section \<open>Base64 round trip\<close>

lemma b64_digits: "list_all (\<lambda>i. b64_digit (b64_char i) = Some i \<and> b64_char i \<noteq> CHR 0x0A \<and> b64_char i \<noteq> CHR 0x0D) [0..<64]"
  by code_simp

lemma b64_digit_char:
  assumes "i < 64"
  shows "b64_digit (b64_char i) = Some i \<and> b64_char i \<noteq> CHR 0x0A \<and> b64_char i \<noteq> CHR 0x0D"
proof -
  have "i \<in> set [0..<64]" using assms by simp
  with b64_digits show ?thesis unfolding list_all_iff by blast
qed

lemma b64_pad [simp]: "b64_digit CHR ''='' = None"
  by code_simp

lemma byte_small [simp]: "byte_of c < 256"
  by (simp add: byte_of_def)

lemma chr_byte [simp]: "chr (byte_of c) = c"
  by (simp add: chr_def byte_of_def)

lemma byte_split: "byte_of c div 4 < 64" "byte_of c div 16 < 16" "byte_of c div 64 < 4"
  using byte_small [of c] by linarith+

lemma b64_digit_bounds:
  "byte_of a mod 4 * 16 + byte_of b div 16 < 64" "byte_of a mod 16 * 4 + byte_of b div 64 < 64"
  "byte_of a mod 4 * 16 < 64" "byte_of a mod 16 * 4 < 64" "byte_of a mod 64 < 64"
proof -
  have "byte_of a mod 4 < 4" "byte_of a mod 16 < 16" by simp_all
  then show "byte_of a mod 4 * 16 + byte_of b div 16 < 64" "byte_of a mod 16 * 4 + byte_of b div 64 < 64"
    "byte_of a mod 4 * 16 < 64" "byte_of a mod 16 * 4 < 64" "byte_of a mod 64 < 64"
    using byte_split [of b] by simp_all
qed

lemma base_digits: "r < n \<Longrightarrow> (k * n + r) div n = (k :: nat)" "r < n \<Longrightarrow> (k * n + r) mod n = (r :: nat)"
  by simp_all

lemma b64_join:
  "byte_of a div 4 * 4 + (byte_of a mod 4 * 16 + byte_of b div 16) div 16 = byte_of a"
  "(byte_of a mod 4 * 16 + byte_of b div 16) mod 16 * 16 + (byte_of b mod 16 * 4 + byte_of c div 64) div 4 = byte_of b"
  "(byte_of b mod 16 * 4 + byte_of c div 64) mod 4 * 64 + byte_of c mod 64 = byte_of c"
  "byte_of a div 4 * 4 + byte_of a mod 4 * 16 div 16 = byte_of a"
  "(byte_of a mod 4 * 16 + byte_of b div 16) mod 16 * 16 + byte_of b mod 16 * 4 div 4 = byte_of b"
  using byte_split [of b] byte_split [of c] by (simp_all only: base_digits div_mult_mod_eq nonzero_mult_div_cancel_right)

lemma b64_loose_encode: "b64_loose (b64_encode s) = Some s"
  by (induction s rule: b64_encode.induct)
    (simp_all only: b64_encode.simps Let_def b64_loose.simps b64_digit_char b64_digit_bounds byte_split b64_pad option.case
      prod.case b64_join chr_byte simp_thms if_True option.map)

lemma b64_encode_lines: "c \<in> set (b64_encode s) \<Longrightarrow> c \<noteq> CHR 0x0A \<and> c \<noteq> CHR 0x0D"
  by (induction s rule: b64_encode.induct) (auto simp: Let_def b64_digit_char b64_digit_bounds byte_split)

lemma DecodeString_encode: "DecodeString (b64_encode s) = Some s"
proof -
  have "filter (\<lambda>c. c \<noteq> CHR 0x0A \<and> c \<noteq> CHR 0x0D) (b64_encode s) = b64_encode s"
    by (rule filter_True) (use b64_encode_lines in blast)
  then show ?thesis by (simp add: DecodeString_def b64_loose_encode)
qed

section \<open>The order of artifacts\<close>

lemma mset_insert_stable [simp]: "mset (insert_stable lt x ys) = add_mset x (mset ys)"
  by (induction ys) auto

lemma mset_SliceStable [simp]: "mset (SliceStable lt xs) = mset xs"
  by (induction xs) auto

interpretation artifact_order: strict_weak_less artifact_less
proof
  show "artifact_less a b \<Longrightarrow> \<not> artifact_less b a" for a b
    by (auto simp: artifact_less_def split: if_splits)
  show "\<not> artifact_less a b \<Longrightarrow> \<not> artifact_less b c \<Longrightarrow> \<not> artifact_less a c" for a b c
    by (auto simp: artifact_less_def not_less split: if_splits)
qed

text \<open>Artifacts with different keys are ordered one way or the other.\<close>

lemma artifact_order_total:
  "\<not> artifact_less a b \<Longrightarrow> \<not> artifact_less b a \<Longrightarrow> artifact_key a = artifact_key b"
  by (auto simp: artifact_less_def artifact_key_def not_less split: if_splits)

lemma sorted_unique:
  assumes "\<And>a b. a \<in> set xs \<Longrightarrow> b \<in> set xs \<Longrightarrow> R a b \<Longrightarrow> R b a \<Longrightarrow> a = b"
  shows "sorted_wrt R xs \<Longrightarrow> sorted_wrt R ys \<Longrightarrow> mset xs = mset ys \<Longrightarrow> xs = ys"
  using assms
proof (induction xs arbitrary: ys)
  case (Cons x xs)
  then obtain y ys' where ys: "ys = y # ys'" by (cases ys) auto
  have xy: "x = y"
  proof (rule ccontr)
    assume ne: "x \<noteq> y"
    have "x \<in> set ys'" "y \<in> set xs" using Cons.prems(3) ys ne
      by (metis mset_eq_setD set_ConsD list.set_intros(1))+
    then have "R x y" "R y x" using Cons.prems(1,2) ys by auto
    then show False using Cons.prems(4) [of x y] \<open>y \<in> set xs\<close> ne by auto
  qed
  have "xs = ys'" by (rule Cons.IH) (use Cons.prems ys xy in auto)
  with xy ys show ?case by simp
qed simp

lemma distinct_keys_inj:
  "distinct (map artifact_key xs) \<Longrightarrow> a \<in> set xs \<Longrightarrow> b \<in> set xs \<Longrightarrow> artifact_key a = artifact_key b \<Longrightarrow> a = b"
  by (metis distinct_map inj_onD)

lemma payload_artifacts_unique:
  assumes "distinct (map artifact_key xs)" "mset xs = mset ys"
  shows "SliceStable artifact_less xs = SliceStable artifact_less ys"
proof (rule sorted_unique)
  show "sorted_wrt (\<lambda>a b. \<not> artifact_less b a) (SliceStable artifact_less xs)"
    "sorted_wrt (\<lambda>a b. \<not> artifact_less b a) (SliceStable artifact_less ys)"
    by (rule artifact_order.sorted_SliceStable)+
  show "a = b" if "a \<in> set (SliceStable artifact_less xs)" "b \<in> set (SliceStable artifact_less xs)"
    "\<not> artifact_less b a" "\<not> artifact_less a b" for a b
    using distinct_keys_inj [OF assms(1)] artifact_order_total that by (metis set_SliceStable)
qed (use assms(2) in simp)

section \<open>What validation establishes\<close>

lemma validate_artifacts_ok:
  "validate_artifacts ext opts seen as = Inr () \<Longrightarrow>
   distinct (map artifact_key as) \<and> artifact_key ` set as \<inter> set seen = {} \<and> (\<forall>a \<in> set as. Artifact_Validate ext opts a = Inr ())"
proof (induction as arbitrary: seen)
  case (Cons a as)
  then have "artifact_key a \<notin> set seen" "Artifact_Validate ext opts a = Inr ()"
    "validate_artifacts ext opts (artifact_key a # seen) as = Inr ()"
    by (auto simp: res_bind_Inr_iff split: if_splits)
  with Cons.IH [OF this(3)] show ?case by auto
qed simp

definition valid_artifact :: "Artifact \<Rightarrow> bool" where
  "valid_artifact a \<longleftrightarrow> validToken (Platform a) \<and> validToken (Arch a) \<and> validToken (Kind a)
     \<and> 0 < Size a \<and> Size a \<le> MaxArtifactBytes \<and> isHex (SHA256 a) 64"

lemma Artifact_Validate_ok:
  "Artifact_Validate ext opts a = Inr () \<Longrightarrow> valid_artifact a \<and> validateImmutableURL ext (URL a) opts = Inr ()"
  by (auto simp: Artifact_Validate_def valid_artifact_def split: if_splits)

lemma Validate_parts:
  assumes "Validate ext opts m = Inr ()"
  shows "Schema m = 1" "Sequence m \<noteq> 0" "isHex (CommitSHA m) 40" "window_ok ext opts m = Inr ()"
    "Artifacts m \<noteq> []" "length (Artifacts m) \<le> 128" "validate_artifacts ext opts [] (Artifacts m) = Inr ()"
  using assms by (auto simp: Validate_def SchemaV1_def res_bind_Inr_iff split: if_split_asm)

lemma Validate_signature: "Validate ext opts (m\<lparr>Signature := x\<rparr>) = Validate ext opts m"
  by (simp add: Validate_def window_ok_def Let_def)

lemma CanonicalPayload_signature: "CanonicalPayload ext (m\<lparr>Signature := x\<rparr>) = CanonicalPayload ext m"
  by (simp add: CanonicalPayload_def Payload_def Let_def payload_json_def)

lemma https_only:
  "validateImmutableURL ext raw opts = Inr () \<Longrightarrow> \<not> AllowLoopbackHTTP opts \<Longrightarrow>
   \<exists>u. url_parse ext raw = Some u \<and> Host u \<noteq> [] \<and> ToLower (Scheme u) = ''https'' \<and> RawQuery u = [] \<and> Fragment u = []"
  by (auto simp: validateImmutableURL_def EqualFold_def ToLower_def lower_char_def Let_def split: option.splits if_split_asm)

text \<open>
  C20. An accepted manifest is signed and sound: its signature is an Ed25519 signature, under the key of
  the client, of the canonical payload of exactly the manifest handed out; the schema is known, the sequence
  number is not zero, the commit is exact, every artifact has a valid identity, digest, size and an HTTPS
  URL, no two have the same identity, and the moment of checking lies in the validity window up to the
  clock skew, so that a manifest is never accepted later than 31 days and the skew after its publication.
\<close>

theorem accepted_manifest_is_signed:
  assumes "ParseAndVerify ext raw publicKey opts = Inr m"
    and "now = (if Now opts = zero_time then wall_clock ext else Now opts)"
    and "skew = (if MaxClockSkew opts \<le> 0 then 600000000000 else MaxClockSkew opts)"
  shows "(\<exists>payload sig. CanonicalPayload ext m = Inr payload \<and> DecodeString (Signature m) = Some sig \<and> length sig = 64
      \<and> ed_verify ext publicKey payload sig)
    \<and> decode_manifest ext raw = Some m \<and> length publicKey = 32 \<and> Schema m = 1 \<and> Sequence m \<noteq> 0 \<and> isHex (CommitSHA m) 40
    \<and> PublishedAt m < ExpiresAt m \<and> PublishedAt m \<le> now + skew \<and> now - skew < ExpiresAt m
    \<and> now < PublishedAt m + 31 * 24 * 3600 * 1000000000 + skew
    \<and> Artifacts m \<noteq> [] \<and> length (Artifacts m) \<le> 128 \<and> distinct (map artifact_key (Artifacts m))
    \<and> (\<forall>a \<in> set (Artifacts m). valid_artifact a \<and> (AllowLoopbackHTTP opts \<or>
        (\<exists>u. url_parse ext (URL a) = Some u \<and> ToLower (Scheme u) = ''https'')))"
proof -
  have d: "decode_manifest ext raw = Some m" "verify_manifest ext publicKey opts m = Inr m"
    using assms(1) by (auto simp: ParseAndVerify_def verify_manifest_def res_bind_Inr_iff split: if_split_asm option.splits)
  then obtain sig payload where v: "Validate ext opts m = Inr ()" "length publicKey = 32" "DecodeString (Signature m) = Some sig"
    "length sig = 64" "CanonicalPayload ext m = Inr payload" "ed_verify ext publicKey payload sig"
    by (auto simp: verify_manifest_def res_bind_Inr_iff split: if_split_asm option.splits)
  note p = Validate_parts [OF v(1)]
  have arts: "distinct (map artifact_key (Artifacts m))" "\<forall>a \<in> set (Artifacts m). Artifact_Validate ext opts a = Inr ()"
    using validate_artifacts_ok [OF p(7)] by auto
  have each: "valid_artifact a \<and> (AllowLoopbackHTTP opts \<or> (\<exists>u. url_parse ext (URL a) = Some u \<and> ToLower (Scheme u) = ''https''))"
    if "a \<in> set (Artifacts m)" for a
    using Artifact_Validate_ok arts(2) that https_only by blast
  have w: "PublishedAt m < ExpiresAt m" "PublishedAt m \<le> now + skew" "now - skew < ExpiresAt m"
    "ExpiresAt m - PublishedAt m \<le> 2678400000000000"
    using p(4) assms(2,3)
    by (auto simp: window_ok_def default_skew_def max_window_def Let_def not_less split: if_split_asm)
  then show ?thesis using d(1) v p arts(1) each by auto
qed


text \<open>
  The signature covers the decision, not its spelling: two manifests that list the same artifacts in
  another order and write the commit in another case have the same canonical payload, so one signature is
  good for both. This needs what validation checks, that no identity occurs twice.
\<close>

theorem payload_ignores_order_and_case:
  assumes "Validate ext opts m = Inr ()" and "mset as = mset (Artifacts m)" and "ToLower sha = ToLower (CommitSHA m)"
  shows "CanonicalPayload ext (m\<lparr>Artifacts := as, CommitSHA := sha, Signature := x\<rparr>) = CanonicalPayload ext m"
proof -
  have "distinct (map artifact_key (Artifacts m))"
    using validate_artifacts_ok [OF Validate_parts(7) [OF assms(1)]] by blast
  then have "SliceStable artifact_less (Artifacts m) = SliceStable artifact_less as"
    by (rule payload_artifacts_unique) (use assms(2) in simp)
  then show ?thesis using assms(3) by (simp add: CanonicalPayload_def Payload_def Let_def payload_json_def)
qed

section \<open>Printing and reading a manifest\<close>

definition manifest_json :: "string \<Rightarrow> string \<Rightarrow> Manifest \<Rightarrow> json" where
  "manifest_json published expires m = JObj (
     [(''schema'', JNum (Itoa (Schema m))), (''channel'', JStr (Channel m)), (''sequence'', JNum (Itoa (Sequence m))),
      (''commit_sha'', JStr (CommitSHA m)), (''published_at'', JStr published), (''expires_at'', JStr expires)]
     @ (if ReleaseURL m = [] then [] else [(''release_url'', JStr (ReleaseURL m))])
     @ [(''artifacts'', if Artifacts m = [] then JNull else JArr (map artifact_json (Artifacts m))),
        (''signature'', JStr (Signature m))])"

definition ascii_artifact :: "Artifact \<Rightarrow> bool" where
  "ascii_artifact a \<longleftrightarrow> list_all ascii_char (Platform a) \<and> list_all ascii_char (Arch a) \<and> list_all ascii_char (Kind a)
     \<and> list_all ascii_char (URL a) \<and> list_all ascii_char (SHA256 a)"

definition ascii_manifest :: "Manifest \<Rightarrow> bool" where
  "ascii_manifest m \<longleftrightarrow> list_all ascii_char (Channel m) \<and> list_all ascii_char (CommitSHA m) \<and> list_all ascii_char (ReleaseURL m)
     \<and> list_all ascii_char (Signature m) \<and> list_all ascii_artifact (Artifacts m)"

lemma to_valid_ascii: "list_all ascii_char s \<Longrightarrow> length s \<le> n \<Longrightarrow> to_valid n s = s"
proof (induction s arbitrary: n)
  case Nil
  then show ?case by (cases n) auto
next
  case (Cons c s)
  then obtain k where n: "n = Suc k" by (cases n) auto
  have "rune_width (c # s) = 1" using Cons.prems(1) ascii_ValidString [of "[c]"] by (simp add: rune_width_def)
  then show ?case using Cons n by simp
qed

lemma artifact_json_ascii: "ascii_artifact a \<Longrightarrow> ascii_json (artifact_json a)"
  by (simp add: artifact_json_def ascii_artifact_def Itoa_ascii ascii_char_def byte_of_def)

lemma artifacts_json_ascii: "list_all ascii_artifact as \<Longrightarrow> ascii_list (map artifact_json as)"
  by (induction as) (auto simp: artifact_json_ascii)

lemma artifacts_json_nums: "nums_ok_list (map artifact_json as)"
  by (induction as) (auto simp: artifact_json_def num_ok_Itoa)

lemma ParseUint_Itoa: "0 \<le> n \<Longrightarrow> n < 2 ^ bits \<Longrightarrow> ParseUint (Itoa n) bits = Some n"
  using Itoa_pos_digits [of n] by (simp add: ParseUint_def Itoa_def all_digits_def)

definition range_ok :: "Manifest \<Rightarrow> bool" where
  "range_ok m \<longleftrightarrow> min_int64 \<le> Schema m \<and> Schema m \<le> max_int64 \<and> 0 \<le> Sequence m \<and> Sequence m < 2 ^ 64
     \<and> list_all (\<lambda>a. min_int64 \<le> Size a \<and> Size a \<le> max_int64) (Artifacts m)"

lemma b64_ascii: "list_all ascii_char (b64_encode s)"
proof -
  have all: "list_all (\<lambda>i. ascii_char (b64_char i)) [0..<64]" by code_simp
  have "i < 64 \<Longrightarrow> ascii_char (b64_char i)" for i
    using all unfolding list_all_iff set_upt by simp
  moreover have "ascii_char CHR ''=''" by code_simp
  ultimately show ?thesis
    by (induction s rule: b64_encode.induct) (simp_all add: Let_def b64_digit_bounds byte_split)
qed

lemma decode_artifact: "min_int64 \<le> Size a \<Longrightarrow> Size a \<le> max_int64 \<Longrightarrow> decode_struct set_artifact_field (artifact_json a) artifact0 = Some a"
  by (simp add: decode_struct_def artifact_json_def set_artifact_field_def string_member_def int_member_def number_int64_def
      Atoi_Itoa artifact0_def ToLower_def lower_char_def less_eq_char_def)

lemma decode_artifacts_json:
  "list_all (\<lambda>a. min_int64 \<le> Size a \<and> Size a \<le> max_int64) as \<Longrightarrow> decode_artifacts [] (map artifact_json as) = Some as"
  by (induction as) (auto simp: decode_artifact)

lemma decode_printed:
  assumes "ascii_manifest m" "range_ok m" "Artifacts m \<noteq> []" "list_all ascii_char p" "list_all ascii_char e"
    "time_parse ext p = Some (PublishedAt m)" "time_parse ext e = Some (ExpiresAt m)"
  shows "decode_manifest ext (enc (manifest_json p e m)) = Some m"
proof -
  let ?v = "manifest_json p e m"
  have asc: "ascii_json ?v"
    using assms(1,4,5) by (auto simp: manifest_json_def ascii_manifest_def Itoa_ascii artifacts_json_ascii ascii_char_def byte_of_def)
  have nums: "nums_ok ?v" by (simp add: manifest_json_def num_ok_Itoa artifacts_json_nums)
  have tv: "to_valid (length (enc ?v)) (enc ?v) = enc ?v" by (rule to_valid_ascii) (use enc_ascii(1) [OF asc] in simp_all)
  have "decode_struct (set_manifest_field ext) ?v manifest0 = Some m"
    using assms(2,3,6,7) decode_artifacts_json [of "Artifacts m"]
    by (simp add: decode_struct_def manifest_json_def set_manifest_field_def string_member_def int_member_def number_int64_def
        uint64_member_def time_member_def artifacts_member_def Atoi_Itoa ParseUint_Itoa range_ok_def manifest0_def
        ToLower_def lower_char_def less_eq_char_def)
  then show ?thesis by (simp add: decode_manifest_def tv json_decode_enc [OF nums])
qed

lemma Sign_ok:
  assumes "Sign ext privateKey m = Inr sm"
  obtains payload where "CanonicalPayload ext m = Inr payload" "sm = m\<lparr>Signature := b64_encode (ed_sign ext privateKey payload)\<rparr>"
  using assms by (auto simp: Sign_def res_bind_Inr_iff split: if_split_asm)

lemma verify_signed:
  assumes "Sign ext privateKey m = Inr sm" "Validate ext opts m = Inr ()" "length publicKey = 32"
    "\<And>msg. length (ed_sign ext privateKey msg) = 64 \<and> ed_verify ext publicKey msg (ed_sign ext privateKey msg)"
  shows "verify_manifest ext publicKey opts sm = Inr sm"
proof -
  obtain payload where c: "CanonicalPayload ext m = Inr payload" "sm = m\<lparr>Signature := b64_encode (ed_sign ext privateKey payload)\<rparr>"
    by (rule Sign_ok [OF assms(1)])
  show ?thesis
    using assms(2-4) c by (simp add: verify_manifest_def Validate_signature CanonicalPayload_signature DecodeString_encode)
qed

lemma decode_signed:
  assumes "Sign ext privateKey m = Inr sm" "ascii_manifest m" "range_ok m" "Artifacts m \<noteq> []" "list_all ascii_char p" "list_all ascii_char e"
    "time_parse ext p = Some (PublishedAt m)" "time_parse ext e = Some (ExpiresAt m)"
  shows "decode_manifest ext (enc (manifest_json p e sm)) = Some sm"
proof -
  obtain payload where c: "sm = m\<lparr>Signature := b64_encode (ed_sign ext privateKey payload)\<rparr>" by (rule Sign_ok [OF assms(1)])
  show ?thesis by (rule decode_printed) (use assms(2-8) b64_ascii in \<open>simp_all add: c ascii_manifest_def range_ok_def\<close>)
qed

text \<open>
  C21. Signing, printing and verifying are inverse: a valid manifest in ASCII that is signed with a key, and
  printed in the order of the struct's fields, is read back by \<open>ParseAndVerify\<close> under the matching public
  key as exactly the signed manifest. The hypotheses on the externals are that a signature has 64 bytes and
  verifies, and that the text of a time parses to that time.
\<close>

theorem signed_manifest_roundtrip:
  assumes "\<And>msg. length (ed_sign ext privateKey msg) = 64 \<and> ed_verify ext publicKey msg (ed_sign ext privateKey msg)"
    and "length publicKey = 32" and "Sign ext privateKey m = Inr sm" and "Validate ext opts m = Inr ()"
    and "ascii_manifest m" and "range_ok m"
    and "list_all ascii_char p" and "list_all ascii_char e"
    and "time_parse ext p = Some (PublishedAt m)" and "time_parse ext e = Some (ExpiresAt m)"
    and "raw = enc (manifest_json p e sm)" and "int (length raw) \<le> 1048576"
  shows "ParseAndVerify ext raw publicKey opts = Inr sm \<and> sm\<lparr>Signature := Signature m\<rparr> = m"
proof -
  have d: "decode_manifest ext raw = Some sm"
    unfolding assms(11) by (rule decode_signed [OF assms(3,5,6) Validate_parts(5) [OF assms(4)] assms(7-10)])
  have r: "raw \<noteq> []" by (simp add: assms(11) manifest_json_def)
  have v: "verify_manifest ext publicKey opts sm = Inr sm" by (rule verify_signed [OF assms(3,4,2,1)])
  obtain payload where c: "sm = m\<lparr>Signature := b64_encode (ed_sign ext privateKey payload)\<rparr>" by (rule Sign_ok [OF assms(3)])
  have "sm\<lparr>Signature := Signature m\<rparr> = m" by (simp add: c)
  then show ?thesis using d r v assms(12) by (simp add: ParseAndVerify_def MaxManifestBytes_def)
qed

section \<open>Selection\<close>

lemma select_loop_filter:
  "select_loop p found as = (case filter p as of
     [] \<Rightarrow> Inr found
   | a # rest \<Rightarrow> if found = None \<and> rest = [] then Inr (Some a) else fail ''ambiguous match'')"
  by (induction p found as rule: select_loop.induct) (auto split: list.splits)

text \<open>
  \<open>SelectArtifact\<close> returns an artifact exactly when it is the only one of the manifest whose
  platform, architecture and kind match after normalisation; it never guesses.
\<close>

theorem select_artifact_unique:
  "SelectArtifact ext m platform arch kind = Inr a \<longleftrightarrow>
     filter (\<lambda>b. NormalizePlatform (Platform b) = NormalizePlatform platform
       \<and> NormalizeArch ext (Arch b) = NormalizeArch ext arch \<and> EqualFold (Kind b) kind) (Artifacts m) = [a]"
  unfolding SelectArtifact_def select_loop_filter artifact_matches_def
  by (auto split: list.splits)

text \<open>
  Aliases of a platform or an architecture make a manifest useless without being refused: if two
  artifacts differ, but agree once the aliases are resolved, then every selection that one of them matches
  fails as ambiguous. Validation compares the identities before the aliases are resolved, so it accepts such a
  manifest.
\<close>

theorem aliased_artifacts_never_selected:
  assumes "a \<in> set (Artifacts m)" and "b \<in> set (Artifacts m)" and "a \<noteq> b"
    and "NormalizePlatform (Platform a) = NormalizePlatform (Platform b)"
    and "NormalizeArch ext (Arch a) = NormalizeArch ext (Arch b)" and "EqualFold (Kind a) (Kind b)"
    and "artifact_matches ext (NormalizePlatform platform) (NormalizeArch ext arch) kind a"
  shows "SelectArtifact ext m platform arch kind = fail ''ambiguous match''"
proof -
  let ?p = "artifact_matches ext (NormalizePlatform platform) (NormalizeArch ext arch) kind"
  have "?p b" using assms(4-7) by (simp add: artifact_matches_def EqualFold_def)
  then have "{a, b} \<subseteq> set (filter ?p (Artifacts m))" using assms(1,2,7) by simp
  then obtain x y zs where "filter ?p (Artifacts m) = x # y # zs"
    using assms(3) by (cases "filter ?p (Artifacts m)" rule: remdups_adj.cases) auto
  then show ?thesis by (simp add: SelectArtifact_def select_loop_filter)
qed

section \<open>A concrete manifest\<close>

definition demo_parsed :: url where
  "demo_parsed = \<lparr>Scheme = ''https'', Opaque = [], User = False, Host = ''updates.example'', Path = ''/r/1'', RawPath = [],
     ForceQuery = False, RawQuery = [], Fragment = []\<rparr>"

definition demo_ext :: externals where
  "demo_ext = \<lparr>url_parse = (\<lambda>_. Some demo_parsed), escaped_path = Path, time_text = (\<lambda>t. Some (Itoa t)), time_parse = Atoi,
     ed_sign = (\<lambda>_ msg. take 64 (rev msg @ replicate 64 CHR ''x'')),
     ed_verify = (\<lambda>_ msg sig. sig = take 64 (rev msg @ replicate 64 CHR ''x'')), wall_clock = 0, goarch = ''amd64''\<rparr>"

definition demo_opts :: VerifyOptions where
  "demo_opts = \<lparr>Now = 50, AllowedChannels = [], AllowedHosts = [], AllowLoopbackHTTP = False, MaxClockSkew = 0\<rparr>"

definition demo_artifact :: "string \<Rightarrow> Artifact" where
  "demo_artifact platform = \<lparr>Platform = platform, Arch = ''arm64'', Kind = ''app'', URL = ''https://updates.example/r/1'',
     SHA256 = replicate 64 CHR ''a'', Size = 10\<rparr>"

definition demo_manifest :: Manifest where
  "demo_manifest = \<lparr>Schema = 1, Channel = ''stable'', Sequence = 7, CommitSHA = replicate 40 CHR ''b'', PublishedAt = 10,
     ExpiresAt = 100, ReleaseURL = [], Artifacts = [demo_artifact ''macos'', demo_artifact ''darwin''], Signature = []\<rparr>"

definition demo_signed :: Manifest where
  "demo_signed = (case Sign demo_ext (replicate 64 CHR ''k'') demo_manifest of Inr s \<Rightarrow> s | Inl _ \<Rightarrow> demo_manifest)"

definition demo_text :: string where
  "demo_text = enc (manifest_json ''10'' ''100'' demo_signed)"

lemma demo_valid: "Validate demo_ext demo_opts demo_manifest = Inr ()"
  by code_simp

lemma demo_sign: "Sign demo_ext (replicate 64 CHR ''k'') demo_manifest = Inr demo_signed"
  by code_simp

lemma demo_text_short: "int (length demo_text) \<le> 1048576"
  by code_simp

lemma demo_manifest_ascii: "ascii_manifest demo_manifest" "range_ok demo_manifest"
  by code_simp+

lemma demo_times: "list_all ascii_char ''10''" "list_all ascii_char ''100''"
  "time_parse demo_ext ''10'' = Some (PublishedAt demo_manifest)" "time_parse demo_ext ''100'' = Some (ExpiresAt demo_manifest)"
  by code_simp+

lemma demo_ed:
  "length (ed_sign demo_ext sk msg) = 64 \<and> ed_verify demo_ext pk msg (ed_sign demo_ext sk msg)"
  by (simp add: demo_ext_def)

theorem accepted_manifest_is_signed_witness:
  "ParseAndVerify demo_ext demo_text (replicate 32 CHR ''p'') demo_opts = Inr demo_signed \<and> Sequence demo_signed \<noteq> 0"
proof -
  have d: "decode_manifest demo_ext demo_text = Some demo_signed"
    unfolding demo_text_def
    by (rule decode_signed [OF demo_sign demo_manifest_ascii _ demo_times]) (simp add: demo_manifest_def)
  have v: "verify_manifest demo_ext (replicate 32 CHR ''p'') demo_opts demo_signed = Inr demo_signed"
    by (rule verify_signed [OF demo_sign demo_valid _ demo_ed]) simp
  have ne: "demo_text \<noteq> []" by (simp add: demo_text_def manifest_json_def)
  have "ParseAndVerify demo_ext demo_text (replicate 32 CHR ''p'') demo_opts = Inr demo_signed"
    using d v ne demo_text_short by (simp add: ParseAndVerify_def MaxManifestBytes_def)
  from accepted_manifest_is_signed [OF this refl refl] this show ?thesis by blast
qed

theorem payload_ignores_order_and_case_witness:
  "CanonicalPayload demo_ext (demo_manifest\<lparr>Artifacts := rev (Artifacts demo_manifest), CommitSHA := replicate 40 CHR ''B'', Signature := []\<rparr>)
     = CanonicalPayload demo_ext demo_manifest"
proof -
  have "ToLower (replicate 40 CHR ''B'') = ToLower (CommitSHA demo_manifest)" by code_simp
  then show ?thesis
    using payload_ignores_order_and_case [OF demo_valid, of "rev (Artifacts demo_manifest)" "replicate 40 CHR ''B''" "[]"] by simp
qed

theorem signed_manifest_roundtrip_witness:
  "ParseAndVerify demo_ext demo_text (replicate 32 CHR ''p'') demo_opts = Inr demo_signed \<and> demo_signed\<lparr>Signature := []\<rparr> = demo_manifest"
  using signed_manifest_roundtrip [OF demo_ed _ demo_sign demo_valid demo_manifest_ascii demo_times demo_text_def demo_text_short,
      of "replicate 32 CHR ''p''"]
  by (simp add: demo_manifest_def)

theorem aliased_artifacts_never_selected_witness:
  "Validate demo_ext demo_opts demo_manifest = Inr ()
   \<and> SelectArtifact demo_ext demo_manifest ''macos'' ''arm64'' ''app'' = fail ''ambiguous match''"
proof -
  have a: "demo_artifact ''macos'' \<in> set (Artifacts demo_manifest)" "demo_artifact ''darwin'' \<in> set (Artifacts demo_manifest)"
    by (simp_all add: demo_manifest_def)
  have n: "demo_artifact ''macos'' \<noteq> demo_artifact ''darwin''" by (simp add: demo_artifact_def)
  have e: "NormalizePlatform (Platform (demo_artifact ''macos'')) = NormalizePlatform (Platform (demo_artifact ''darwin''))"
    "NormalizeArch demo_ext (Arch (demo_artifact ''macos'')) = NormalizeArch demo_ext (Arch (demo_artifact ''darwin''))"
    "EqualFold (Kind (demo_artifact ''macos'')) (Kind (demo_artifact ''darwin''))"
    "artifact_matches demo_ext (NormalizePlatform ''macos'') (NormalizeArch demo_ext ''arm64'') ''app'' (demo_artifact ''macos'')"
    by code_simp+
  from aliased_artifacts_never_selected [OF a n e] demo_valid show ?thesis by blast
qed

end
