(* ===== verification/UpdateStore.thy ===== *)
theory UpdateStore
  imports UpdateManifest
begin

text \<open>
  \<^verbatim>\<open>src/internal/updatepolicy/store.go\<close>: the durable update state, the download of a verified package and its
  verified removal, on a model of the file system. A disk maps paths to inodes and inodes to nodes. Every
  system call may fail, and before every system call other processes may change the disk: the
  record \<open>os\<close> says which (\<open>faults\<close>, \<open>others\<close>). The HTTP client, SHA-256 and the names of temporary
  files are parameters. Paths are in slash form. The history \<open>effects\<close> of the directory entries the code
  itself changed is not in the code.
\<close>

section \<open>The file system\<close>

datatype kind = Regular | Directory | Symlink | Special

record node =
  NKind :: kind
  NPerm :: int
  Content :: string

record disk =
  names :: "string \<Rightarrow> nat option"
  nodes :: "nat \<Rightarrow> node option"
  next_inode :: nat

text \<open>A change of a directory entry: the path, the inode it named before, the inode it names now.\<close>

type_synonym effect = "string \<times> nat option \<times> nat option"

record fsys =
  disk :: disk
  turn :: nat
  effects :: "effect list"

record response =
  StatusCode :: int
  ContentLength :: int
  Body :: string
  BodyBroken :: bool

record os =
  windows :: bool
  faults :: "nat \<Rightarrow> bool"
  others :: "nat \<Rightarrow> disk \<Rightarrow> disk"
  temp_name :: "nat \<Rightarrow> string"
  sha256 :: "string \<Rightarrow> string"
  http_get :: "string \<Rightarrow> response res"

type_synonym 'a io = "fsys \<Rightarrow> 'a res \<times> fsys"

definition io_bind :: "'a io \<Rightarrow> ('a \<Rightarrow> 'b io) \<Rightarrow> 'b io" where
  "io_bind m f s = (case m s of (Inl e, s) \<Rightarrow> (Inl e, s) | (Inr x, s) \<Rightarrow> f x s)"

definition io_return :: "'a \<Rightarrow> 'a io" where
  "io_return x s = (Inr x, s)"

definition io_fail :: "string \<Rightarrow> 'a io" where
  "io_fail msg s = (fail msg, s)"

definition io_assert :: "bool \<Rightarrow> string \<Rightarrow> unit io" where
  "io_assert b msg = (if b then io_return () else io_fail msg)"

definition io_of :: "'a res \<Rightarrow> 'a io" where
  "io_of r s = (r, s)"

text \<open>Run \<open>m\<close> and go on with its result, error or not.\<close>

definition io_try :: "'a io \<Rightarrow> ('a res \<Rightarrow> 'b io) \<Rightarrow> 'b io" where
  "io_try m f s = (let (r, s) = m s in f r s)"

definition errIO :: goerror where
  "errIO = Err ''input/output error''"

definition errNotExist :: goerror where
  "errNotExist = Err ''file does not exist''"

definition errExist :: goerror where
  "errExist = Err ''file already exists''"

definition syscall :: "os \<Rightarrow> (disk \<Rightarrow> 'a res \<times> disk \<times> effect list) \<Rightarrow> 'a io" where
  "syscall os f s =
     (let d = others os (turn s) (disk s) in
      if faults os (turn s) then (Inl errIO, s\<lparr>disk := d, turn := Suc (turn s)\<rparr>)
      else let (r, d, es) = f d in (r, s\<lparr>disk := d, turn := Suc (turn s), effects := effects s @ es\<rparr>))"

text \<open>What \<open>os.FileInfo\<close> tells; \<open>os.SameFile\<close> compares the inodes.\<close>

record info =
  Ino :: nat
  IKind :: kind
  IPerm :: int
  ISize :: int

definition node_info :: "nat \<Rightarrow> node \<Rightarrow> info" where
  "node_info i n = \<lparr>Ino = i, IKind = NKind n, IPerm = NPerm n, ISize = int (length (Content n))\<rparr>"

definition SameFile :: "info \<Rightarrow> info \<Rightarrow> bool" where
  "SameFile a b \<longleftrightarrow> Ino a = Ino b"

definition inode_info :: "disk \<Rightarrow> nat option \<Rightarrow> info res" where
  "inode_info d i =
     (case i of None \<Rightarrow> Inl errNotExist
      | Some i \<Rightarrow> (case nodes d i of None \<Rightarrow> Inl errNotExist | Some n \<Rightarrow> Inr (node_info i n)))"

definition Lstat :: "os \<Rightarrow> string \<Rightarrow> info io" where
  "Lstat os p = syscall os (\<lambda>d. (inode_info d (names d p), d, []))"

definition Fstat :: "os \<Rightarrow> nat \<Rightarrow> info io" where
  "Fstat os i = syscall os (\<lambda>d. (inode_info d (Some i), d, []))"

text \<open>The inode that a path names once a symbolic link is followed.\<close>

definition resolve :: "disk \<Rightarrow> string \<Rightarrow> nat option" where
  "resolve d p =
     (case names d p of
        None \<Rightarrow> None
      | Some i \<Rightarrow>
          (case nodes d i of
             None \<Rightarrow> None
           | Some n \<Rightarrow> if NKind n \<noteq> Symlink then Some i else names d (Content n)))"

definition Open :: "os \<Rightarrow> string \<Rightarrow> nat io" where
  "Open os p = syscall os (\<lambda>d. (case resolve d p of None \<Rightarrow> Inl errNotExist | Some i \<Rightarrow> Inr i, d, []))"

definition ReadAll :: "os \<Rightarrow> nat \<Rightarrow> string io" where
  "ReadAll os i = syscall os (\<lambda>d. (case nodes d i of None \<Rightarrow> Inl errIO | Some n \<Rightarrow> Inr (Content n), d, []))"

definition add_node :: "string \<Rightarrow> node \<Rightarrow> disk \<Rightarrow> disk" where
  "add_node p n d = d\<lparr>names := (names d)(p \<mapsto> next_inode d), nodes := (nodes d)(next_inode d \<mapsto> n),
     next_inode := Suc (next_inode d)\<rparr>"

definition create :: "os \<Rightarrow> kind \<Rightarrow> int \<Rightarrow> string \<Rightarrow> nat io" where
  "create os k perm p = syscall os (\<lambda>d.
     if names d p \<noteq> None then (Inl errExist, d, [])
     else (Inr (next_inode d), add_node p \<lparr>NKind = k, NPerm = perm, Content = []\<rparr> d, [(p, None, Some (next_inode d))]))"

definition is_directory :: "disk \<Rightarrow> nat option \<Rightarrow> bool" where
  "is_directory d i = (case i of None \<Rightarrow> False | Some i \<Rightarrow> (case nodes d i of None \<Rightarrow> False | Some n \<Rightarrow> NKind n = Directory))"

text \<open>A path without slashes at its end, and the directories on the way to it, the path itself first.\<close>

definition strip_slashes :: "string \<Rightarrow> string" where
  "strip_slashes p = rev (dropWhile (\<lambda>c. c = CHR ''/'') (rev p))"

definition ancestors :: "string \<Rightarrow> string list" where
  "ancestors p = map (\<lambda>k. take k p)
     (rev (filter (\<lambda>k. k = length p \<or> (p ! k = CHR ''/'' \<and> p ! (k - 1) \<noteq> CHR ''/'')) [1..<Suc (length p)]))"

text \<open>\<open>os.MkdirAll\<close>: nothing to do if the path leads to a directory, otherwise the parents come first.\<close>

definition new_directory :: "int \<Rightarrow> node" where
  "new_directory perm = \<lparr>NKind = Directory, NPerm = perm, Content = []\<rparr>"

fun make_dirs :: "int \<Rightarrow> string list \<Rightarrow> disk \<Rightarrow> unit res \<times> disk \<times> effect list" where
  "make_dirs perm [] d = (Inr (), d, [])"
| "make_dirs perm (p # parents) d =
     (if is_directory d (resolve d p) then (Inr (), d, [])
      else if resolve d p \<noteq> None then (fail ''not a directory'', d, [])
      else case make_dirs perm parents d of
        (Inl e, d, es) \<Rightarrow> (Inl e, d, es)
      | (Inr _, d, es) \<Rightarrow>
          if names d p \<noteq> None then (Inl errExist, d, es)
          else (Inr (), add_node p (new_directory perm) d, es @ [(p, None, Some (next_inode d))]))"

definition MkdirAll :: "os \<Rightarrow> string \<Rightarrow> int \<Rightarrow> unit io" where
  "MkdirAll os p perm = syscall os (make_dirs perm (ancestors (strip_slashes p)))"

text \<open>A temporary name in a directory; the inode and the path.\<close>

definition CreateTemp :: "os \<Rightarrow> kind \<Rightarrow> int \<Rightarrow> string \<Rightarrow> string \<Rightarrow> (nat \<times> string) io" where
  "CreateTemp os k perm dir prefix s =
     (let p = dir @ CHR ''/'' # prefix @ temp_name os (turn s) in
      io_bind (create os k perm p) (\<lambda>i. io_return (i, p)) s)"

definition Chmod :: "os \<Rightarrow> nat \<Rightarrow> int \<Rightarrow> unit io" where
  "Chmod os i perm = syscall os (\<lambda>d.
     case nodes d i of
       None \<Rightarrow> (Inl errIO, d, [])
     | Some n \<Rightarrow> (Inr (), d\<lparr>nodes := (nodes d)(i \<mapsto> n\<lparr>NPerm := perm\<rparr>)\<rparr>, []))"

definition WriteAll :: "os \<Rightarrow> nat \<Rightarrow> string \<Rightarrow> unit io" where
  "WriteAll os i text = syscall os (\<lambda>d.
     case nodes d i of
       None \<Rightarrow> (Inl errIO, d, [])
     | Some n \<Rightarrow> (Inr (), d\<lparr>nodes := (nodes d)(i \<mapsto> n\<lparr>Content := Content n @ text\<rparr>)\<rparr>, []))"

text \<open>\<open>Sync\<close> and \<open>Close\<close> of a file change nothing that other calls see.\<close>

definition Flush :: "os \<Rightarrow> unit io" where
  "Flush os = syscall os (\<lambda>d. (Inr (), d, []))"

text \<open>\<open>os.Rename\<close> replaces an existing file on every platform, but not a directory.\<close>

definition Rename :: "os \<Rightarrow> string \<Rightarrow> string \<Rightarrow> unit io" where
  "Rename os p q = syscall os (\<lambda>d.
     case names d p of
       None \<Rightarrow> (Inl errNotExist, d, [])
     | Some i \<Rightarrow>
         if is_directory d (names d q) then (Inl errExist, d, [])
         else (Inr (), d\<lparr>names := (names d)(p := None, q \<mapsto> i)\<rparr>,
           [(p, Some i, None), (q, if q = p then None else names d q, Some i)]))"

definition Link :: "os \<Rightarrow> string \<Rightarrow> string \<Rightarrow> unit io" where
  "Link os p q = syscall os (\<lambda>d.
     case names d p of
       None \<Rightarrow> (Inl errNotExist, d, [])
     | Some i \<Rightarrow>
         if names d q \<noteq> None then (Inl errExist, d, [])
         else (Inr (), d\<lparr>names := (names d)(q \<mapsto> i)\<rparr>, [(q, None, Some i)]))"

text \<open>
  \<open>os.Remove\<close>. That a directory is not empty is one of the failures that \<open>faults\<close> brings about; the removal of
  a directory that is not empty is possible here as well, so there are more runs than the code has.
\<close>

definition Remove :: "os \<Rightarrow> string \<Rightarrow> unit io" where
  "Remove os p = syscall os (\<lambda>d.
     case names d p of
       None \<Rightarrow> (Inl errNotExist, d, [])
     | Some i \<Rightarrow> (Inr (), d\<lparr>names := (names d)(p := None)\<rparr>, [(p, Some i, None)]))"

definition syncDirectory :: "os \<Rightarrow> string \<Rightarrow> unit io" where
  "syncDirectory os dir =
     (if windows os then io_return () else io_bind (Open os dir) (\<lambda>_. Flush os))"

text \<open>A regular file that is not a symbolic link.\<close>

definition plain :: "info \<Rightarrow> bool" where
  "plain i \<longleftrightarrow> \<not> (IKind i = Symlink \<or> IKind i \<noteq> Regular)"

section \<open>Hashing a file\<close>

definition fileMatchesSHA256 :: "os \<Rightarrow> string \<Rightarrow> string \<Rightarrow> bool io" where
  "fileMatchesSHA256 os path want =
     io_bind (Lstat os path) (\<lambda>before.
     io_bind (io_assert (plain before \<and> ISize before \<le> MaxArtifactBytes) ''artifact path is not one bounded regular file'') (\<lambda>_.
     io_bind (Open os path) (\<lambda>f.
     io_bind (Fstat os f) (\<lambda>opened.
     io_try (Lstat os path) (\<lambda>current.
     io_bind (io_assert (case current of Inl _ \<Rightarrow> False
        | Inr c \<Rightarrow> plain c \<and> SameFile before opened \<and> SameFile opened c) ''artifact identity changed while opening'') (\<lambda>_.
     io_try (ReadAll os f) (\<lambda>data.
     io_bind (io_assert (case data of Inl _ \<Rightarrow> False
        | Inr t \<Rightarrow> int (length t) = ISize opened \<and> int (length t) \<le> MaxArtifactBytes)
        ''artifact changed or exceeded its bound while hashing'') (\<lambda>_.
     io_try (Lstat os path) (\<lambda>after.
     io_bind (io_assert (case after of Inl _ \<Rightarrow> False
        | Inr a \<Rightarrow> SameFile opened a \<and> Inr (ISize a) = map_sum id (int \<circ> length) data)
        ''artifact identity changed while hashing'') (\<lambda>_.
     io_return (case data of Inl _ \<Rightarrow> False | Inr t \<Rightarrow> EqualFold (sha256 os t) want)))))))))))"

section \<open>Names\<close>

text \<open>\<open>filepath.Join\<close> and \<open>filepath.Dir\<close> on paths with slashes.\<close>

definition path_Join :: "string \<Rightarrow> string \<Rightarrow> string" where
  "path_Join dir name = (if dir = [] then path_Clean name else path_Clean (dir @ CHR ''/'' # name))"

definition path_Dir :: "string \<Rightarrow> string" where
  "path_Dir p = path_Clean (rev (dropWhile (\<lambda>c. c \<noteq> CHR ''/'') (rev p)))"

text \<open>The part of a URL after its last slash.\<close>

definition mustURLPath :: "string \<Rightarrow> string" where
  "mustURLPath raw = rev (takeWhile (\<lambda>c. c \<noteq> CHR ''/'') (rev raw))"

text \<open>Character by character: a character of several bytes, or a stray byte, becomes one underscore.\<close>

fun sanitize_runes :: "nat \<Rightarrow> string \<Rightarrow> string" where
  "sanitize_runes 0 s = []"
| "sanitize_runes (Suc n) s =
     (if s = [] then []
      else if rune_width s = 1 \<and> token_char (hd s) then hd s # sanitize_runes n (tl s)
      else CHR ''_'' # sanitize_runes n (drop (max 1 (rune_width s)) s))"

definition default_name :: string where
  "default_name = ''router-vpn-update.bin''"

definition sanitizeFilename :: "string \<Rightarrow> string" where
  "sanitizeFilename v =
     (let out = Trim (sanitize_runes (length v) v) ''._'' in if out = [] then default_name else take 128 out)"

definition artifact_base :: "Artifact \<Rightarrow> string" where
  "artifact_base a =
     (let base = TrimSpace (mustURLPath (URL a)) in sanitizeFilename (if base = [] then default_name else base))"

definition artifact_path :: "string \<Rightarrow> Artifact \<Rightarrow> string" where
  "artifact_path dir a = path_Join dir (ToLower (take 16 (SHA256 a)) @ CHR ''-'' # artifact_base a)"

section \<open>Download\<close>

record DownloadResult =
  DPath :: string
  Created :: bool

definition adoptNoClobber :: "os \<Rightarrow> string \<Rightarrow> string \<Rightarrow> info \<Rightarrow> unit io" where
  "adoptNoClobber os tmp final staged =
     io_bind (io_assert (plain staged) ''artifact staging identity is unsafe'') (\<lambda>_.
     io_bind (if windows os then Rename os tmp final else Link os tmp final) (\<lambda>_.
     io_try (Lstat os final) (\<lambda>adopted.
     io_bind (io_assert (case adopted of Inl _ \<Rightarrow> False | Inr a \<Rightarrow> plain a \<and> SameFile staged a)
        ''artifact adoption identity changed'') (\<lambda>_.
     if windows os then io_return () else io_try (Remove os tmp) (\<lambda>_. io_return ())))))"

text \<open>The bytes that reach the staged file: at most one more than the signed size.\<close>

definition copied :: "Artifact \<Rightarrow> response \<Rightarrow> string" where
  "copied a resp = take (nat (Size a + 1)) (Body resp)"

definition stage_artifact :: "os \<Rightarrow> Artifact \<Rightarrow> response \<Rightarrow> nat \<Rightarrow> info io" where
  "stage_artifact os a resp i =
     io_bind (Chmod os i 384) (\<lambda>_.
     io_bind (WriteAll os i (copied a resp)) (\<lambda>_.
     io_bind (io_assert (\<not> (BodyBroken resp \<and> int (length (Body resp)) \<le> Size a)) ''copy'') (\<lambda>_.
     io_bind (io_assert (int (length (copied a resp)) = Size a) ''artifact size mismatch'') (\<lambda>_.
     io_bind (io_assert (EqualFold (sha256 os (copied a resp)) (SHA256 a)) ''artifact SHA-256 mismatch'') (\<lambda>_.
     io_bind (Flush os) (\<lambda>_.
     io_bind (Fstat os i) (\<lambda>staged.
     io_bind (Flush os) (\<lambda>_. io_return staged))))))))"

text \<open>An artifact that is already there.\<close>

definition reuse_artifact :: "os \<Rightarrow> Artifact \<Rightarrow> string \<Rightarrow> info \<Rightarrow> DownloadResult io" where
  "reuse_artifact os a final info =
     io_bind (io_assert (plain info) ''unsafe existing artifact path'') (\<lambda>_.
     if ISize info = Size a then
       io_try (fileMatchesSHA256 os final (SHA256 a)) (\<lambda>r.
         if r = Inr True then io_return \<lparr>DPath = final, Created = False\<rparr>
         else io_fail ''existing artifact does not match signed metadata'')
     else io_fail ''existing artifact does not match signed metadata'')"

text \<open>Another download won the race: its file counts if it is the same.\<close>

definition lost_race :: "os \<Rightarrow> Artifact \<Rightarrow> string \<Rightarrow> goerror \<Rightarrow> DownloadResult io" where
  "lost_race os a final e =
     (if e \<noteq> errExist then io_of (Inl e)
      else io_try (Lstat os final) (\<lambda>r.
        if (case r of Inl _ \<Rightarrow> False | Inr i \<Rightarrow> plain i \<and> ISize i = Size a) then
          io_try (fileMatchesSHA256 os final (SHA256 a)) (\<lambda>ok.
            if ok = Inr True then io_return \<lparr>DPath = final, Created = False\<rparr> else io_of (Inl e))
        else io_of (Inl e)))"

definition discard :: "os \<Rightarrow> string \<Rightarrow> 'a res \<Rightarrow> 'a io" where
  "discard os tmp r = io_try (Remove os tmp) (\<lambda>_. io_of r)"

definition publish_artifact ::
  "os \<Rightarrow> Artifact \<Rightarrow> string \<Rightarrow> string \<Rightarrow> response \<Rightarrow> nat \<times> string \<Rightarrow> DownloadResult io" where
  "publish_artifact os a dir final resp it =
     (let (i, tmp) = it in
      io_try (stage_artifact os a resp i) (\<lambda>r.
        case r of
          Inl e \<Rightarrow> discard os tmp (Inl e)
        | Inr staged \<Rightarrow>
            io_try (adoptNoClobber os tmp final staged) (\<lambda>r.
              case r of
                Inl e \<Rightarrow> io_try (lost_race os a final e) (discard os tmp)
              | Inr _ \<Rightarrow> io_bind (syncDirectory os dir) (\<lambda>_. io_return \<lparr>DPath = final, Created = True\<rparr>))))"

definition download_fresh :: "os \<Rightarrow> Artifact \<Rightarrow> string \<Rightarrow> string \<Rightarrow> DownloadResult io" where
  "download_fresh os a dir final =
     io_bind (io_of (http_get os (URL a))) (\<lambda>resp.
     io_bind (io_assert (StatusCode resp = 200) ''artifact server status'') (\<lambda>_.
     io_bind (io_assert (\<not> (ContentLength resp \<ge> 0 \<and> ContentLength resp \<noteq> Size a))
        ''artifact Content-Length does not match signed size'') (\<lambda>_.
     io_bind (CreateTemp os Regular 384 dir ''.router-vpn-update-'') (publish_artifact os a dir final resp))))"

definition no_options :: VerifyOptions where
  "no_options = \<lparr>Now = zero_time, AllowedChannels = [], AllowedHosts = [], AllowLoopbackHTTP = False, MaxClockSkew = 0\<rparr>"

definition DownloadArtifactDetailed :: "externals \<Rightarrow> os \<Rightarrow> Artifact \<Rightarrow> string \<Rightarrow> DownloadResult io" where
  "DownloadArtifactDetailed ext os a dir =
     (let final = artifact_path dir a in
      io_bind (io_of (Artifact_Validate ext no_options a)) (\<lambda>_.
      io_bind (MkdirAll os dir 448) (\<lambda>_.
      io_try (Lstat os final) (\<lambda>r.
        case r of
          Inr info \<Rightarrow> reuse_artifact os a final info
        | Inl e \<Rightarrow> if e \<noteq> errNotExist then io_of (Inl e) else download_fresh os a dir final))))"

section \<open>Verified removal\<close>

definition restoreArtifactNoClobber :: "os \<Rightarrow> string \<Rightarrow> string \<Rightarrow> info \<Rightarrow> unit io" where
  "restoreArtifactNoClobber os tomb path moved =
     io_try (Lstat os path) (\<lambda>r.
       case r of
         Inr _ \<Rightarrow> io_fail ''original artifact path was recreated''
       | Inl e \<Rightarrow>
           if e \<noteq> errNotExist then io_of (Inl e)
           else if windows os then Rename os tomb path
           else
             io_bind (Link os tomb path) (\<lambda>_.
             io_try (Lstat os path) (\<lambda>restored.
             io_bind (io_assert (case restored of Inl _ \<Rightarrow> False | Inr i \<Rightarrow> SameFile moved i)
                ''restored artifact identity changed'') (\<lambda>_.
             Remove os tomb))))"

definition restore_tomb :: "os \<Rightarrow> string \<Rightarrow> string \<Rightarrow> string \<Rightarrow> info \<Rightarrow> string \<Rightarrow> unit io" where
  "restore_tomb os tombDir tomb path moved cause =
     io_try (restoreArtifactNoClobber os tomb path moved) (\<lambda>r.
       case r of
         Inl _ \<Rightarrow> io_fail ''artifact preserved because restore failed''
       | Inr _ \<Rightarrow> io_try (Remove os tombDir) (\<lambda>_. io_fail cause))"

text \<open>Once the artifact was moved into its tomb: check it again there, then delete it or put it back.\<close>

definition finish_removal :: "os \<Rightarrow> string \<Rightarrow> string \<Rightarrow> string \<Rightarrow> string \<Rightarrow> info \<Rightarrow> unit io" where
  "finish_removal os tombDir tomb path want before =
     io_bind (Lstat os tomb) (\<lambda>moved.
       if \<not> (plain moved \<and> SameFile before moved)
       then restore_tomb os tombDir tomb path moved ''artifact identity changed during cleanup''
       else io_try (fileMatchesSHA256 os tomb want) (\<lambda>ok.
         if ok \<noteq> Inr True then restore_tomb os tombDir tomb path moved ''artifact content changed during cleanup''
         else io_try (Remove os tomb) (\<lambda>r.
           case r of
             Inl _ \<Rightarrow> restore_tomb os tombDir tomb path moved ''remove verified artifact tombstone''
           | Inr _ \<Rightarrow> io_try (Remove os tombDir) (\<lambda>_. io_return ()))))"

text \<open>
  The permissions of the directory of the tomb are set through its inode: no other process changes the entries of
  the updater's own names, so the path that the code gives to \<open>os.Chmod\<close> names this inode.
\<close>

definition RemoveVerifiedArtifact :: "os \<Rightarrow> string \<Rightarrow> string \<Rightarrow> unit io" where
  "RemoveVerifiedArtifact os path0 want0 =
     (let path = path_Clean path0; want = ToLower (TrimSpace want0) in
      io_bind (io_assert (isHex want 64) ''verified artifact cleanup requires one SHA-256 digest'') (\<lambda>_.
      io_bind (Lstat os path) (\<lambda>before.
      io_bind (io_assert (plain before) ''verified artifact cleanup requires a regular non-symlink file'') (\<lambda>_.
      io_try (fileMatchesSHA256 os path want) (\<lambda>ok.
      io_bind (io_assert (ok = Inr True) ''artifact no longer matches its verified digest'') (\<lambda>_.
      io_try (Lstat os path) (\<lambda>current.
      io_bind (io_assert (case current of Inl _ \<Rightarrow> False | Inr c \<Rightarrow> SameFile before c)
         ''artifact identity changed before cleanup'') (\<lambda>_.
      io_bind (CreateTemp os Directory 448 (path_Dir path) ''.router-vpn-update-remove-'') (\<lambda>(i, tombDir).
      io_try (if windows os then io_return () else Chmod os i 448) (\<lambda>c.
      case c of
        Inl e \<Rightarrow> discard os tombDir (Inl e)
      | Inr _ \<Rightarrow>
          (let tomb = path_Join tombDir ''artifact'' in
           io_try (Rename os path tomb) (\<lambda>r.
             case r of
               Inl e \<Rightarrow> discard os tombDir (Inl e)
             | Inr _ \<Rightarrow> finish_removal os tombDir tomb path want before))))))))))))"

section \<open>The update state\<close>

definition maxStateBytes :: int where
  "maxStateBytes = 262144"

record UState =
  SSchema :: int
  SChannel :: string
  LastSequence :: int
  LastManifestSHA :: string
  InstalledSHA :: string
  AvailableSHA :: string
  ArtifactPath :: string
  ArtifactSHA256 :: string
  LastCheckedAt :: int
  DownloadedAt :: int
  InstallPending :: bool
  LastError :: string

definition State_Validate :: "UState \<Rightarrow> unit res" where
  "State_Validate s =
     reject_if (SSchema s \<noteq> SchemaV1) ''unsupported state schema''
     (reject_if (\<not> validChannel (SChannel s) []) ''invalid update channel''
     (reject_if (list_ex (\<lambda>sha. sha \<noteq> [] \<and> \<not> isHex sha 40) [LastManifestSHA s, InstalledSHA s, AvailableSHA s])
        ''invalid exact commit SHA in state''
     (reject_if (ArtifactSHA256 s \<noteq> [] \<and> \<not> isHex (ArtifactSHA256 s) 64) ''invalid artifact SHA-256 in state''
     (reject_if (int (length (LastError s)) > 4096) ''state error message is too large'' (Inr ())))))"

definition state0 :: UState where
  "state0 = \<lparr>SSchema = 0, SChannel = [], LastSequence = 0, LastManifestSHA = [], InstalledSHA = [], AvailableSHA = [],
     ArtifactPath = [], ArtifactSHA256 = [], LastCheckedAt = zero_time, DownloadedAt = zero_time, InstallPending = False,
     LastError = []\<rparr>"

definition set_state_field :: "externals \<Rightarrow> string \<Rightarrow> json \<Rightarrow> UState \<Rightarrow> UState option" where
  "set_state_field ext name v s =
     (if name = ''schema'' then map_option (\<lambda>x. s\<lparr>SSchema := x\<rparr>) (int_member (SSchema s) v)
      else if name = ''channel'' then map_option (\<lambda>x. s\<lparr>SChannel := x\<rparr>) (string_member (SChannel s) v)
      else if name = ''last_sequence'' then map_option (\<lambda>x. s\<lparr>LastSequence := x\<rparr>) (uint64_member (LastSequence s) v)
      else if name = ''last_manifest_sha'' then map_option (\<lambda>x. s\<lparr>LastManifestSHA := x\<rparr>) (string_member (LastManifestSHA s) v)
      else if name = ''installed_sha'' then map_option (\<lambda>x. s\<lparr>InstalledSHA := x\<rparr>) (string_member (InstalledSHA s) v)
      else if name = ''available_sha'' then map_option (\<lambda>x. s\<lparr>AvailableSHA := x\<rparr>) (string_member (AvailableSHA s) v)
      else if name = ''artifact_path'' then map_option (\<lambda>x. s\<lparr>ArtifactPath := x\<rparr>) (string_member (ArtifactPath s) v)
      else if name = ''artifact_sha256'' then map_option (\<lambda>x. s\<lparr>ArtifactSHA256 := x\<rparr>) (string_member (ArtifactSHA256 s) v)
      else if name = ''last_checked_at'' then map_option (\<lambda>x. s\<lparr>LastCheckedAt := x\<rparr>) (time_member ext (LastCheckedAt s) v)
      else if name = ''downloaded_at'' then map_option (\<lambda>x. s\<lparr>DownloadedAt := x\<rparr>) (time_member ext (DownloadedAt s) v)
      else if name = ''install_pending'' then map_option (\<lambda>x. s\<lparr>InstallPending := x\<rparr>) (bool_member (InstallPending s) v)
      else if name = ''last_error'' then map_option (\<lambda>x. s\<lparr>LastError := x\<rparr>) (string_member (LastError s) v)
      else None)"

definition decode_state :: "externals \<Rightarrow> string \<Rightarrow> UState option" where
  "decode_state ext raw =
     (let text = take (nat (maxStateBytes + 1)) raw in
      case json_decode (to_valid (length text) text) of
        None \<Rightarrow> None
      | Some v \<Rightarrow> decode_struct (set_state_field ext) v state0)"

definition is_plain :: "info res \<Rightarrow> bool" where
  "is_plain r = (case r of Inl _ \<Rightarrow> False | Inr i \<Rightarrow> plain i)"

definition LoadState :: "externals \<Rightarrow> os \<Rightarrow> string \<Rightarrow> UState io" where
  "LoadState ext os path =
     io_bind (Lstat os path) (\<lambda>info.
     io_bind (io_assert (plain info) ''update state must be a regular non-symlink file'') (\<lambda>_.
     io_bind (io_assert (windows os \<or> IPerm info mod 64 = 0) ''update state permissions must be private'') (\<lambda>_.
     io_bind (io_assert (0 < ISize info \<and> ISize info \<le> maxStateBytes) ''invalid update state size'') (\<lambda>_.
     io_try (Lstat os (path_Dir path)) (\<lambda>parent.
     io_bind (io_assert (case parent of Inl _ \<Rightarrow> False | Inr p \<Rightarrow> IKind p = Directory)
        ''update state parent must be a regular directory'') (\<lambda>_.
     io_bind (Open os path) (\<lambda>f.
     io_bind (Fstat os f) (\<lambda>opened.
     io_try (Lstat os path) (\<lambda>current.
     io_bind (io_assert (case current of Inl _ \<Rightarrow> False | Inr c \<Rightarrow> plain c \<and> SameFile opened c)
        ''update state identity changed during open'') (\<lambda>_.
     io_bind (ReadAll os f) (\<lambda>data.
     io_bind (io_of (case decode_state ext data of None \<Rightarrow> fail ''decode'' | Some s \<Rightarrow> Inr s)) (\<lambda>s.
     io_try (Lstat os (path_Dir path)) (\<lambda>parentAfter.
     io_bind (io_assert (case (parent, parentAfter) of (Inr p, Inr q) \<Rightarrow> SameFile p q | _ \<Rightarrow> False)
        ''update state parent identity changed during read'') (\<lambda>_.
     io_try (Lstat os path) (\<lambda>current.
     io_bind (io_assert (case current of Inl _ \<Rightarrow> False | Inr c \<Rightarrow> plain c \<and> SameFile opened c)
        ''update state identity changed during read'') (\<lambda>_.
     io_bind (io_of (State_Validate s)) (\<lambda>_. io_return s)))))))))))))))))"

text \<open>\<open>json.MarshalIndent\<close> of the flat struct, two spaces deep, and the line break.\<close>

definition str_member :: "string \<Rightarrow> string \<Rightarrow> (string \<times> string) list" where
  "str_member name v = (if v = [] then [] else [(name, encode_string v)])"

definition state_members :: "string \<Rightarrow> string \<Rightarrow> UState \<Rightarrow> (string \<times> string) list" where
  "state_members checked downloaded s =
     [(''schema'', Itoa (SSchema s)), (''channel'', encode_string (SChannel s)), (''last_sequence'', Itoa (LastSequence s))]
     @ str_member ''last_manifest_sha'' (LastManifestSHA s) @ str_member ''installed_sha'' (InstalledSHA s)
     @ str_member ''available_sha'' (AvailableSHA s) @ str_member ''artifact_path'' (ArtifactPath s)
     @ str_member ''artifact_sha256'' (ArtifactSHA256 s)
     @ [(''last_checked_at'', encode_string checked), (''downloaded_at'', encode_string downloaded),
        (''install_pending'', if InstallPending s then ''true'' else ''false'')]
     @ str_member ''last_error'' (LastError s)"

fun indent_members :: "(string \<times> string) list \<Rightarrow> string" where
  "indent_members [] = []"
| "indent_members [(k, v)] = CHR 0x0A # ''  '' @ encode_string k @ '': '' @ v"
| "indent_members ((k, v) # ms) = CHR 0x0A # ''  '' @ encode_string k @ '': '' @ v @ CHR '','' # indent_members ms"

definition state_text :: "externals \<Rightarrow> UState \<Rightarrow> string res" where
  "state_text ext s =
     (case (time_text ext (LastCheckedAt s), time_text ext (DownloadedAt s)) of
        (Some a, Some b) \<Rightarrow> Inr (CHR ''{'' # indent_members (state_members a b s) @ [CHR 0x0A, CHR ''}'', CHR 0x0A])
      | _ \<Rightarrow> fail ''time outside the range of JSON'')"

definition stage_state :: "os \<Rightarrow> string \<Rightarrow> string \<Rightarrow> nat \<times> string \<Rightarrow> info io" where
  "stage_state os path data it =
     (let (i, tmp) = it in
      io_bind (Chmod os i 384) (\<lambda>_.
      io_bind (WriteAll os i data) (\<lambda>_.
      io_bind (Flush os) (\<lambda>_.
      io_bind (Fstat os i) (\<lambda>staged.
      io_bind (Flush os) (\<lambda>_.
      io_try (Lstat os path) (\<lambda>r.
      io_bind (case r of
          Inr info \<Rightarrow> io_assert (plain info) ''refusing to replace unsafe update state path''
        | Inl e \<Rightarrow> if e \<noteq> errNotExist then io_of (Inl e) else io_return ()) (\<lambda>_.
      io_bind (Rename os tmp path) (\<lambda>_. io_return staged)))))))))"

definition publish_state :: "os \<Rightarrow> string \<Rightarrow> string \<Rightarrow> string \<Rightarrow> nat \<times> string \<Rightarrow> unit io" where
  "publish_state os dir path data it =
     io_try (stage_state os path data it) (\<lambda>r.
       case r of
         Inl e \<Rightarrow> discard os (snd it) (Inl e)
       | Inr staged \<Rightarrow>
           io_try (Lstat os path) (\<lambda>adopted.
           io_bind (io_assert (case adopted of Inl _ \<Rightarrow> False | Inr a \<Rightarrow> plain a \<and> SameFile staged a)
              ''update state adoption identity changed'') (\<lambda>_.
           syncDirectory os dir)))"

definition SaveState :: "externals \<Rightarrow> os \<Rightarrow> string \<Rightarrow> UState \<Rightarrow> unit io" where
  "SaveState ext os path s =
     (let dir = path_Dir path in
      io_bind (io_of (State_Validate s)) (\<lambda>_.
      io_bind (MkdirAll os dir 448) (\<lambda>_.
      io_bind (if windows os then io_return ()
               else io_try (Lstat os dir) (\<lambda>r. io_assert (case r of Inl _ \<Rightarrow> False | Inr i \<Rightarrow> IKind i = Directory)
                  ''update state directory is not a trusted directory'')) (\<lambda>_.
      io_bind (io_of (state_text ext s)) (\<lambda>data.
      io_bind (CreateTemp os Regular 384 dir ''.router-vpn-update-state-'') (publish_state os dir path data))))))"

end
