(* ===== verification/UpdateStoreSafe.thy ===== *)
theory UpdateStoreSafe
  imports UpdateStore
begin

text \<open>
  What the update store of \<open>UpdateStore\<close> guarantees while other processes replace files under it and system
  calls fail: a Hoare logic with an error postcondition, the rules of the system calls, and the properties
  of the download, the state file and the verified removal.
\<close>

section \<open>Other processes\<close>

text \<open>
  Other processes may create, replace and delete files at will, but they do not rewrite the files that
  exist and do not know the random names of the code's own temporary files.
\<close>

definition fresh_disk :: "disk \<Rightarrow> bool" where
  "fresh_disk d \<longleftrightarrow> (\<forall>i. next_inode d \<le> i \<longrightarrow> nodes d i = None)"

definition own_name :: "string \<Rightarrow> bool" where
  "own_name p \<longleftrightarrow> (\<exists>u v. p = u @ ''.router-vpn-update-'' @ v)"

definition polite_step :: "disk \<Rightarrow> disk \<Rightarrow> bool" where
  "polite_step d d' \<longleftrightarrow> (\<forall>i n. nodes d i = Some n \<longrightarrow> nodes d' i = Some n) \<and> (\<forall>p. own_name p \<longrightarrow> names d' p = names d p)
     \<and> fresh_disk d'"

definition polite :: "os \<Rightarrow> bool" where
  "polite os \<longleftrightarrow> (\<forall>t d. fresh_disk d \<longrightarrow> polite_step d (others os t d))"

definition idle :: "os \<Rightarrow> bool" where
  "idle os \<longleftrightarrow> (\<forall>t d. others os t d = d)"

text \<open>Other processes may make an entry at \<open>p\<close>, but neither replace nor remove one that is there.\<close>

definition keeps_entry :: "os \<Rightarrow> string \<Rightarrow> bool" where
  "keeps_entry os p \<longleftrightarrow> (\<forall>t d i. names d p = Some i \<longrightarrow> names (others os t d) p = Some i)"

lemma idle_keeps: "idle os \<Longrightarrow> keeps_entry os p"
  by (simp add: idle_def keeps_entry_def)

lemma idle_polite: "idle os \<Longrightarrow> polite os"
  by (simp add: idle_def polite_def polite_step_def)

section \<open>Hoare logic\<close>

definition hoare ::
  "(fsys \<Rightarrow> bool) \<Rightarrow> 'a io \<Rightarrow> ('a \<Rightarrow> fsys \<Rightarrow> bool) \<Rightarrow> (goerror \<Rightarrow> fsys \<Rightarrow> bool) \<Rightarrow> bool" where
  "hoare P m Q E \<longleftrightarrow> (\<forall>s r s'. fresh_disk (disk s) \<longrightarrow> P s \<longrightarrow> m s = (r, s') \<longrightarrow>
     fresh_disk (disk s') \<and> (case r of Inl e \<Rightarrow> E e s' | Inr x \<Rightarrow> Q x s'))"

lemma hoareI:
  assumes "\<And>s r s'. fresh_disk (disk s) \<Longrightarrow> P s \<Longrightarrow> m s = (r, s') \<Longrightarrow>
    fresh_disk (disk s') \<and> (case r of Inl e \<Rightarrow> E e s' | Inr x \<Rightarrow> Q x s')"
  shows "hoare P m Q E"
  using assms by (simp add: hoare_def)

lemma hoareD:
  "hoare P m Q E \<Longrightarrow> fresh_disk (disk s) \<Longrightarrow> P s \<Longrightarrow> m s = (r, s') \<Longrightarrow>
   fresh_disk (disk s') \<and> (case r of Inl e \<Rightarrow> E e s' | Inr x \<Rightarrow> Q x s')"
  by (simp add: hoare_def)

lemma hoare_conseq:
  assumes "hoare P' m Q' E'" "\<And>s. P s \<Longrightarrow> P' s" "\<And>x s. Q' x s \<Longrightarrow> Q x s" "\<And>e s. E' e s \<Longrightarrow> E e s"
  shows "hoare P m Q E"
proof (rule hoareI)
  fix s r s' assume "fresh_disk (disk s)" "P s" "m s = (r, s')"
  from hoareD [OF assms(1) this(1) assms(2) [OF this(2)] this(3)]
  show "fresh_disk (disk s') \<and> (case r of Inl e \<Rightarrow> E e s' | Inr x \<Rightarrow> Q x s')"
    using assms(3,4) by (auto split: sum.splits)
qed

lemma hoare_pre: "hoare P' m Q E \<Longrightarrow> (\<And>s. P s \<Longrightarrow> P' s) \<Longrightarrow> hoare P m Q E"
  by (rule hoare_conseq)

lemma hoare_bind:
  assumes "hoare P m R E" "\<And>x. hoare (R x) (f x) Q E"
  shows "hoare P (io_bind m f) Q E"
proof (rule hoareI)
  fix s r s' assume a: "fresh_disk (disk s)" "P s" "io_bind m f s = (r, s')"
  obtain r1 s1 where m: "m s = (r1, s1)" by (rule prod.exhaust)
  note h = hoareD [OF assms(1) a(1,2) m]
  show "fresh_disk (disk s') \<and> (case r of Inl e \<Rightarrow> E e s' | Inr x \<Rightarrow> Q x s')"
  proof (cases r1)
    case (Inl e)
    then show ?thesis using h a(3) by (auto simp: io_bind_def m)
  next
    case (Inr x)
    then have "f x s1 = (r, s')" using a(3) by (simp add: io_bind_def m)
    moreover have "R x s1" "fresh_disk (disk s1)" using h Inr by simp_all
    ultimately show ?thesis using hoareD [OF assms(2)] by blast
  qed
qed

lemma hoare_try:
  assumes "hoare P m R E1" "\<And>x. hoare (R x) (f (Inr x)) Q E" "\<And>e. hoare (E1 e) (f (Inl e)) Q E"
  shows "hoare P (io_try m f) Q E"
proof (rule hoareI)
  fix s r s' assume a: "fresh_disk (disk s)" "P s" "io_try m f s = (r, s')"
  obtain r1 s1 where m: "m s = (r1, s1)" by (rule prod.exhaust)
  note h = hoareD [OF assms(1) a(1,2) m]
  have f: "f r1 s1 = (r, s')" using a(3) by (simp add: io_try_def m)
  show "fresh_disk (disk s') \<and> (case r of Inl e \<Rightarrow> E e s' | Inr x \<Rightarrow> Q x s')"
  proof (cases r1)
    case (Inl e)
    then have "E1 e s1" "fresh_disk (disk s1)" using h by simp_all
    then show ?thesis using hoareD [OF assms(3)] f Inl by blast
  next
    case (Inr x)
    then have "R x s1" "fresh_disk (disk s1)" using h by simp_all
    then show ?thesis using hoareD [OF assms(2)] f Inr by blast
  qed
qed

lemma hoare_return: "hoare (Q x) (io_return x) Q E"
  by (auto simp: hoare_def io_return_def)

lemma hoare_fail: "hoare (E (Err msg)) (io_fail msg) Q E"
  by (auto simp: hoare_def io_fail_def)

lemma hoare_of: "hoare (\<lambda>s. case r of Inl e \<Rightarrow> E e s | Inr x \<Rightarrow> Q x s) (io_of r) Q E"
  by (auto simp: hoare_def io_of_def)

lemma hoare_bind_fail: "(\<And>s. P s \<Longrightarrow> E (Err msg) s) \<Longrightarrow> hoare P (io_bind (io_assert False msg) f) Q E"
  by (auto simp: hoare_def io_bind_def io_assert_def io_fail_def)

lemma hoare_assert: "hoare (\<lambda>s. if b then Q () s else E (Err msg) s) (io_assert b msg) Q E"
  by (auto simp: hoare_def io_assert_def io_return_def io_fail_def)

text \<open>A check that fails into a state where \<open>P\<close> still holds.\<close>

lemma hoare_check: "(\<And>s. P s \<Longrightarrow> E (Err msg) s) \<Longrightarrow> hoare P (io_assert b msg) (\<lambda>_ s. P s \<and> b) E"
  by (rule hoare_pre [OF hoare_assert]) auto

section \<open>System calls\<close>

text \<open>A property that the step of the others keeps.\<close>

definition settled :: "os \<Rightarrow> (fsys \<Rightarrow> bool) \<Rightarrow> bool" where
  "settled os P \<longleftrightarrow> (\<forall>s. fresh_disk (disk s) \<longrightarrow> P s \<longrightarrow> P (s\<lparr>disk := others os (turn s) (disk s), turn := Suc (turn s)\<rparr>))"

lemma settled_conj: "settled os P \<Longrightarrow> settled os Q \<Longrightarrow> settled os (\<lambda>s. P s \<and> Q s)"
  by (simp add: settled_def)

lemma settled_const: "settled os (\<lambda>s. b)"
  by (simp add: settled_def)

lemma settled_effects: "settled os (\<lambda>s. R (effects s))"
  by (simp add: settled_def)

lemma settled_node: "polite os \<Longrightarrow> settled os (\<lambda>s. nodes (disk s) i = Some n)"
  by (simp add: settled_def polite_def polite_step_def)

lemma settled_own: "polite os \<Longrightarrow> own_name p \<Longrightarrow> settled os (\<lambda>s. names (disk s) p = x)"
  by (simp add: settled_def polite_def polite_step_def)

lemma settled_idle: "settled os (\<lambda>s. idle os \<longrightarrow> R (disk s))"
  by (simp add: settled_def idle_def)

lemma settled_imp: "settled os P \<Longrightarrow> settled os (\<lambda>s. b \<longrightarrow> P s)"
  by (simp add: settled_def)

lemma settled_all: "(\<And>x. settled os (P x)) \<Longrightarrow> settled os (\<lambda>s. \<forall>x. P x s)"
  by (simp add: settled_def)

lemmas settled_intros = settled_conj settled_const settled_effects settled_node settled_own settled_idle

lemma hoare_syscall:
  assumes "polite os" "settled os P"
    and "\<And>s r d es. fresh_disk (disk s) \<Longrightarrow> P s \<Longrightarrow> f (disk s) = (r, d, es) \<Longrightarrow>
      fresh_disk d \<and> (case r of Inl e \<Rightarrow> E e (s\<lparr>disk := d, effects := effects s @ es\<rparr>)
        | Inr x \<Rightarrow> Q x (s\<lparr>disk := d, effects := effects s @ es\<rparr>))"
    and "\<And>s. P s \<Longrightarrow> E errIO s"
  shows "hoare P (syscall os f) Q E"
proof (rule hoareI)
  fix s r s' assume a: "fresh_disk (disk s)" "P s" "syscall os f s = (r, s')"
  let ?s = "s\<lparr>disk := others os (turn s) (disk s), turn := Suc (turn s)\<rparr>"
  have fr: "fresh_disk (disk ?s)" using assms(1) a(1) by (simp add: polite_def polite_step_def)
  have p: "P ?s" using assms(2) a(1,2) by (simp add: settled_def)
  show "fresh_disk (disk s') \<and> (case r of Inl e \<Rightarrow> E e s' | Inr x \<Rightarrow> Q x s')"
  proof (cases "faults os (turn s)")
    case True
    then have "r = Inl errIO" "s' = ?s" using a(3) by (auto simp: syscall_def Let_def)
    then show ?thesis using fr assms(4) [OF p] by simp
  next
    case False
    obtain r1 d es where f: "f (disk ?s) = (r1, d, es)" by (metis prod_cases3)
    have e: "r = r1" "s' = ?s\<lparr>disk := d, effects := effects ?s @ es\<rparr>"
      using a(3) False f by (auto simp: syscall_def Let_def)
    show ?thesis using assms(3) [OF fr p f] unfolding e by (simp split: sum.split)
  qed
qed

lemma hoare_read:
  assumes "polite os" "settled os P"
  shows "hoare P (syscall os (\<lambda>d. (g d, d, []))) (\<lambda>x s. P s \<and> g (disk s) = Inr x) (\<lambda>e s. P s)"
  by (rule hoare_syscall [OF assms]) (auto split: sum.splits)

lemma hoare_Lstat:
  "polite os \<Longrightarrow> settled os P \<Longrightarrow>
   hoare P (Lstat os p) (\<lambda>x s. P s \<and> inode_info (disk s) (names (disk s) p) = Inr x) (\<lambda>e s. P s)"
  unfolding Lstat_def by (rule hoare_read)

lemma hoare_Fstat:
  "polite os \<Longrightarrow> settled os P \<Longrightarrow> hoare P (Fstat os i) (\<lambda>x s. P s \<and> inode_info (disk s) (Some i) = Inr x) (\<lambda>e s. P s)"
  unfolding Fstat_def by (rule hoare_read)

lemma hoare_Open: "polite os \<Longrightarrow> settled os P \<Longrightarrow> hoare P (Open os p) (\<lambda>x. P) (\<lambda>e. P)"
  unfolding Open_def by (rule hoare_conseq [OF hoare_read]) auto

lemma hoare_ReadAll:
  "polite os \<Longrightarrow> settled os P \<Longrightarrow>
   hoare P (ReadAll os i) (\<lambda>x s. P s \<and> (\<exists>n. nodes (disk s) i = Some n \<and> Content n = x)) (\<lambda>e s. P s)"
  unfolding ReadAll_def by (rule hoare_conseq [OF hoare_read]) (auto split: option.splits)

lemma hoare_Flush: "polite os \<Longrightarrow> settled os P \<Longrightarrow> hoare P (Flush os) (\<lambda>_. P) (\<lambda>e. P)"
  unfolding Flush_def by (rule hoare_conseq [OF hoare_read]) auto

lemma hoare_syncDirectory: "polite os \<Longrightarrow> settled os P \<Longrightarrow> hoare P (syncDirectory os dir) (\<lambda>_. P) (\<lambda>e. P)"
  unfolding syncDirectory_def
  by (cases "windows os") (auto intro: hoare_return hoare_bind [OF hoare_Open] hoare_Flush)

lemma inode_info_Inr:
  "inode_info d i = Inr x \<Longrightarrow> \<exists>n. i = Some (Ino x) \<and> nodes d (Ino x) = Some n \<and> x = node_info (Ino x) n"
  by (auto simp: inode_info_def node_info_def split: option.splits)

text \<open>Removing a name keeps every property that does not mention that name.\<close>

lemma hoare_Remove:
  assumes "polite os" "settled os P"
    and "\<And>s i. P s \<Longrightarrow> names (disk s) p = Some i \<Longrightarrow>
      Q () (s\<lparr>disk := (disk s)\<lparr>names := (names (disk s))(p := None)\<rparr>, effects := effects s @ [(p, Some i, None)]\<rparr>)"
    and "\<And>e s. P s \<Longrightarrow> E e s"
  shows "hoare P (Remove os p) Q E"
  unfolding Remove_def
  by (rule hoare_syscall [OF assms(1,2)]) (auto simp: fresh_disk_def assms(3,4) split: option.splits)

lemma hoare_Link:
  assumes "polite os" "settled os P"
    and "\<And>s i. P s \<Longrightarrow> names (disk s) p = Some i \<Longrightarrow> names (disk s) q = None \<Longrightarrow>
      Q () (s\<lparr>disk := (disk s)\<lparr>names := (names (disk s))(q \<mapsto> i)\<rparr>, effects := effects s @ [(q, None, Some i)]\<rparr>)"
    and "\<And>e s. P s \<Longrightarrow> E e s"
  shows "hoare P (Link os p q) Q E"
  unfolding Link_def
  by (rule hoare_syscall [OF assms(1,2)]) (auto simp: fresh_disk_def assms(3,4) split: option.splits if_splits)

lemma hoare_Rename:
  assumes "polite os" "settled os P" "q \<noteq> p"
    and "\<And>s i. P s \<Longrightarrow> names (disk s) p = Some i \<Longrightarrow>
      Q () (s\<lparr>disk := (disk s)\<lparr>names := (names (disk s))(p := None, q \<mapsto> i)\<rparr>,
              effects := effects s @ [(p, Some i, None), (q, names (disk s) q, Some i)]\<rparr>)"
    and "\<And>e s. P s \<Longrightarrow> E e s"
  shows "hoare P (Rename os p q) Q E"
  unfolding Rename_def
  by (rule hoare_syscall [OF assms(1,2)]) (auto simp: fresh_disk_def assms(3-5) split: option.splits if_splits)

lemma fresh_add: "fresh_disk d \<Longrightarrow> fresh_disk (add_node p n d)"
  by (simp add: fresh_disk_def add_node_def)

lemma fresh_upd: "fresh_disk d \<Longrightarrow> nodes d i = Some m \<Longrightarrow> fresh_disk (d\<lparr>nodes := (nodes d)(i \<mapsto> n)\<rparr>)"
  by (auto simp: fresh_disk_def)

lemma hoare_create:
  assumes "polite os" "settled os P"
    and "\<And>s. fresh_disk (disk s) \<Longrightarrow> P s \<Longrightarrow> names (disk s) p = None \<Longrightarrow> Q (next_inode (disk s))
      (s\<lparr>disk := add_node p \<lparr>NKind = k, NPerm = perm, Content = []\<rparr> (disk s), effects := effects s @ [(p, None, Some (next_inode (disk s)))]\<rparr>)"
    and "\<And>e s. P s \<Longrightarrow> E e s"
  shows "hoare P (create os k perm p) Q E"
  unfolding create_def
  by (rule hoare_syscall [OF assms(1,2)]) (auto simp: fresh_add assms(3,4) split: if_splits)

lemma hoare_CreateTemp:
  assumes "polite os" "settled os P"
    and "\<And>s p t. fresh_disk (disk s) \<Longrightarrow> P s \<Longrightarrow> p = dir @ CHR ''/'' # prefix @ temp_name os t \<Longrightarrow> names (disk s) p = None \<Longrightarrow>
      Q (next_inode (disk s), p) (s\<lparr>disk := add_node p \<lparr>NKind = k, NPerm = perm, Content = []\<rparr> (disk s),
         effects := effects s @ [(p, None, Some (next_inode (disk s)))]\<rparr>)"
    and "\<And>e s. P s \<Longrightarrow> E e s"
  shows "hoare P (CreateTemp os k perm dir prefix) Q E"
proof (rule hoareI)
  fix s r s' assume a: "fresh_disk (disk s)" "P s" "CreateTemp os k perm dir prefix s = (r, s')"
  let ?p = "dir @ CHR ''/'' # prefix @ temp_name os (turn s)"
  have "hoare P (create os k perm ?p) (\<lambda>i. Q (i, ?p)) E"
    by (rule hoare_create [OF assms(1,2)]) (auto intro: assms(3) [OF _ _ refl] assms(4))
  then have "hoare P (io_bind (create os k perm ?p) (\<lambda>i. io_return (i, ?p))) Q E"
    by (rule hoare_bind) (rule hoare_return)
  from hoareD [OF this a(1,2)] show "fresh_disk (disk s') \<and> (case r of Inl e \<Rightarrow> E e s' | Inr x \<Rightarrow> Q x s')"
    using a(3) unfolding CreateTemp_def Let_def by blast
qed

lemma hoare_Chmod:
  assumes "polite os" "settled os P"
    and "\<And>s n. P s \<Longrightarrow> nodes (disk s) i = Some n \<Longrightarrow>
      Q () (s\<lparr>disk := (disk s)\<lparr>nodes := (nodes (disk s))(i \<mapsto> n\<lparr>NPerm := perm\<rparr>)\<rparr>\<rparr>)"
    and "\<And>e s. P s \<Longrightarrow> E e s"
  shows "hoare P (Chmod os i perm) Q E"
  unfolding Chmod_def
  by (rule hoare_syscall [OF assms(1,2)]) (auto simp: fresh_upd assms(3,4) split: option.splits)

lemma hoare_WriteAll:
  assumes "polite os" "settled os P"
    and "\<And>s n. P s \<Longrightarrow> nodes (disk s) i = Some n \<Longrightarrow>
      Q () (s\<lparr>disk := (disk s)\<lparr>nodes := (nodes (disk s))(i \<mapsto> n\<lparr>Content := Content n @ text\<rparr>)\<rparr>\<rparr>)"
    and "\<And>e s. P s \<Longrightarrow> E e s"
  shows "hoare P (WriteAll os i text) Q E"
  unfolding WriteAll_def
  by (rule hoare_syscall [OF assms(1,2)]) (auto simp: fresh_upd assms(3,4) split: option.splits)

lemma settled_ex: "(\<And>x. settled os (P x)) \<Longrightarrow> settled os (\<lambda>s. \<exists>x. P x s)"
  unfolding settled_def by blast

text \<open>The path names this inode, where nobody else may change that.\<close>

definition file_at :: "os \<Rightarrow> string \<Rightarrow> nat \<Rightarrow> fsys \<Rightarrow> bool" where
  "file_at os p i s \<longleftrightarrow> (own_name p \<or> keeps_entry os p \<longrightarrow> names (disk s) p = Some i)"

lemma settled_file_at: "polite os \<Longrightarrow> settled os (file_at os p i)"
  by (auto simp: settled_def file_at_def keeps_entry_def polite_def polite_step_def)

lemma settled_keeps: "settled os (\<lambda>s. keeps_entry os p \<longrightarrow> names (disk s) p = Some i)"
  by (auto simp: settled_def keeps_entry_def)

text \<open>The inode has the observed kind and size.\<close>

definition known :: "info \<Rightarrow> fsys \<Rightarrow> bool" where
  "known x s \<longleftrightarrow> (\<exists>n. nodes (disk s) (Ino x) = Some n \<and> x = node_info (Ino x) n)"

lemma settled_known: "polite os \<Longrightarrow> settled os (known x)"
  unfolding known_def by (intro settled_ex settled_conj settled_node settled_const)

lemma hoare_Lstat_known:
  assumes "polite os" "settled os P"
  shows "hoare P (Lstat os p) (\<lambda>x s. P s \<and> known x s \<and> file_at os p (Ino x) s) (\<lambda>e. P)"
  by (rule hoare_conseq [OF hoare_Lstat [OF assms]]) (auto simp: known_def file_at_def dest!: inode_info_Inr)

lemma hoare_Fstat_known:
  assumes "polite os" "settled os P"
  shows "hoare P (Fstat os i) (\<lambda>x s. P s \<and> known x s \<and> Ino x = i) (\<lambda>e. P)"
  by (rule hoare_conseq [OF hoare_Fstat [OF assms]]) (auto simp: known_def dest!: inode_info_Inr)

text \<open>Run a command that keeps \<open>P\<close>, whatever its result.\<close>

lemma hoare_try_same:
  assumes "hoare P m (\<lambda>_. P) (\<lambda>_. P)" "\<And>r. hoare P (f r) Q E"
  shows "hoare P (io_try m f) Q E"
  by (rule hoare_try [OF assms(1)]) (rule assms(2))+

lemma known_unique: "known x s \<Longrightarrow> known y s \<Longrightarrow> Ino x = Ino y \<Longrightarrow> x = y"
  by (auto simp: known_def)

text \<open>The inode is a regular file with the wanted digest.\<close>

definition digest_ok :: "os \<Rightarrow> string \<Rightarrow> nat \<Rightarrow> fsys \<Rightarrow> bool" where
  "digest_ok os want i s \<longleftrightarrow> (\<exists>n. nodes (disk s) i = Some n \<and> NKind n = Regular \<and> EqualFold (sha256 os (Content n)) want)"

lemma settled_digest_ok: "polite os \<Longrightarrow> settled os (digest_ok os want i)"
  unfolding digest_ok_def by (intro settled_ex settled_conj settled_node settled_const)

text \<open>Rules for the first command of a sequence.\<close>

lemma seq_assert:
  "(\<And>s. P s \<Longrightarrow> E (Err msg) s) \<Longrightarrow> (b \<Longrightarrow> hoare P (f ()) Q E) \<Longrightarrow> hoare P (io_bind (io_assert b msg) f) Q E"
  by (cases b) (auto simp: hoare_def io_bind_def io_assert_def io_fail_def io_return_def)

lemma seq_of:
  "(\<And>e s. r = Inl e \<Longrightarrow> P s \<Longrightarrow> E e s) \<Longrightarrow> (\<And>x. r = Inr x \<Longrightarrow> hoare P (f x) Q E) \<Longrightarrow> hoare P (io_bind (io_of r) f) Q E"
  by (cases r) (auto simp: hoare_def io_bind_def io_of_def)

lemma seq_Lstat:
  assumes "polite os" "settled os P" "\<And>e s. P s \<Longrightarrow> E e s"
    "\<And>x. hoare (\<lambda>s. P s \<and> known x s \<and> file_at os p (Ino x) s) (f x) Q E"
  shows "hoare P (io_bind (Lstat os p) f) Q E"
  by (rule hoare_bind [OF hoare_conseq [OF hoare_Lstat_known [OF assms(1,2)]] assms(4)]) (simp_all add: assms(3))

lemma seq_Fstat:
  assumes "polite os" "settled os P" "\<And>e s. P s \<Longrightarrow> E e s" "\<And>x. Ino x = i \<Longrightarrow> hoare (\<lambda>s. P s \<and> known x s) (f x) Q E"
  shows "hoare P (io_bind (Fstat os i) f) Q E"
proof (rule hoare_bind [where R = "\<lambda>x s. (P s \<and> known x s) \<and> Ino x = i"])
  show "hoare P (Fstat os i) (\<lambda>x s. (P s \<and> known x s) \<and> Ino x = i) E"
    by (rule hoare_conseq [OF hoare_Fstat_known [OF assms(1,2)]]) (auto simp: assms(3))
  show "hoare (\<lambda>s. (P s \<and> known x s) \<and> Ino x = i) (f x) Q E" for x
  proof (cases "Ino x = i")
    case True
    show ?thesis by (rule hoare_pre [OF assms(4) [OF True]]) blast
  qed (simp add: hoare_def)
qed

lemma seq_Open:
  assumes "polite os" "settled os P" "\<And>e s. P s \<Longrightarrow> E e s" "\<And>x. hoare P (f x) Q E"
  shows "hoare P (io_bind (Open os p) f) Q E"
  by (rule hoare_bind [OF hoare_conseq [OF hoare_Open [OF assms(1,2)]] assms(4)]) (simp_all add: assms(3))

lemma seq_Flush:
  assumes "polite os" "settled os P" "\<And>e s. P s \<Longrightarrow> E e s" "hoare P (f ()) Q E"
  shows "hoare P (io_bind (Flush os) f) Q E"
proof (rule hoare_bind [where R = "\<lambda>_. P"])
  show "hoare P (Flush os) (\<lambda>_. P) E" by (rule hoare_conseq [OF hoare_Flush [OF assms(1,2)]]) (auto simp: assms(3))
  show "hoare P (f x) Q E" for x using assms(4) by (cases x) simp
qed

lemma seq_try_Lstat:
  assumes "polite os" "settled os P" "\<And>x. hoare (\<lambda>s. P s \<and> known x s \<and> file_at os p (Ino x) s) (f (Inr x)) Q E"
    "\<And>e. hoare P (f (Inl e)) Q E"
  shows "hoare P (io_try (Lstat os p) f) Q E"
  by (rule hoare_try [OF hoare_Lstat_known [OF assms(1,2)]]) (rule assms(3,4))+

lemma seq_try_ReadAll:
  assumes "polite os" "settled os P"
    "\<And>n. hoare (\<lambda>s. P s \<and> nodes (disk s) i = Some n) (f (Inr (Content n))) Q E" "\<And>e. hoare P (f (Inl e)) Q E"
  shows "hoare P (io_try (ReadAll os i) f) Q E"
proof (rule hoare_try [OF hoare_ReadAll [OF assms(1,2)]])
  show "hoare (\<lambda>s. P s \<and> (\<exists>n. nodes (disk s) i = Some n \<and> Content n = x)) (f (Inr x)) Q E" for x
    using assms(3) by (auto simp: hoare_def)
qed (rule assms(4))

lemma seq_try_same:
  assumes "hoare P m (\<lambda>_. P) (\<lambda>_. P)" "\<And>r. hoare P (f r) Q E"
  shows "hoare P (io_try m f) Q E"
  by (rule hoare_try [OF assms(1)]) (rule assms(2))+

lemma hoare_fileMatches:
  assumes os: "polite os" and P: "settled os P"
  shows "hoare P (fileMatchesSHA256 os path want)
    (\<lambda>b s. P s \<and> (b \<longrightarrow> (\<exists>i. file_at os path i s \<and> digest_ok os want i s))) (\<lambda>e. P)"
  unfolding fileMatchesSHA256_def
  apply (rule seq_Lstat [OF os P], assumption)
  subgoal for x
    apply (rule seq_assert, blast)
    apply (rule seq_Open [OF os])
      apply (intro settled_conj P settled_known settled_file_at os)
     apply blast
    subgoal for f
      apply (rule seq_Fstat [OF os])
        apply (intro settled_conj P settled_known settled_file_at os)
       apply blast
      subgoal for y
        apply (rule seq_try_Lstat [OF os])
          apply (intro settled_conj P settled_known settled_file_at os)
         apply (rule seq_assert, blast)
         apply (rule seq_try_ReadAll [OF os])
           apply (intro settled_conj P settled_known settled_file_at os)
         subgoal for c n
           apply (rule seq_assert, blast)
           apply (rule seq_try_Lstat [OF os])
             apply (intro settled_conj P settled_known settled_file_at settled_node os)
           subgoal for z
             apply (rule seq_assert, blast)
             apply (rule hoare_pre [OF hoare_return])
             apply (auto simp: known_def digest_ok_def plain_def node_info_def SameFile_def)
             done
           apply (rule seq_assert, blast)
           apply simp
           done
         apply (rule seq_assert, blast)
         apply simp
        apply (rule seq_assert, blast)
        apply simp
        done
      done
    done
  done

section \<open>File names\<close>

lemma last_component: "CHR ''/'' \<notin> set b \<Longrightarrow> mustURLPath (a @ CHR ''/'' # b) = b"
proof -
  assume b: "CHR ''/'' \<notin> set b"
  have "takeWhile (\<lambda>c. c \<noteq> CHR ''/'') (rev b @ CHR ''/'' # rev a) = rev b"
    by (subst takeWhile_append2) (use b in auto)
  then show ?thesis by (simp add: mustURLPath_def)
qed

lemma last_component_whole: "CHR ''/'' \<notin> set b \<Longrightarrow> mustURLPath b = b"
proof -
  assume "CHR ''/'' \<notin> set b"
  then have "takeWhile (\<lambda>c. c \<noteq> CHR ''/'') (rev b) = rev b"
    by (intro takeWhile_eq_all_conv [THEN iffD2]) auto
  then show ?thesis unfolding mustURLPath_def by (simp only: rev_rev_ident)
qed

text \<open>An element that \<open>path.Clean\<close> leaves alone.\<close>

definition normal_name :: "string \<Rightarrow> bool" where
  "normal_name e \<longleftrightarrow> e \<noteq> [] \<and> e \<noteq> ''.'' \<and> e \<noteq> ''..'' \<and> CHR ''/'' \<notin> set e"

lemma clean_elems_append:
  "normal_name e \<Longrightarrow> clean_elems rooted out (xs @ [e]) = clean_elems rooted out xs @ [e]"
  by (induction rooted out xs rule: clean_elems.induct) (auto simp: normal_name_def)

lemma Split1_name: "CHR ''/'' \<notin> set e \<Longrightarrow> Split1 e CHR ''/'' = [e]"
  by (induction e) auto

lemma Split1_slash: "CHR ''/'' \<notin> set e \<Longrightarrow> Split1 (d @ CHR ''/'' # e) CHR ''/'' = Split1 d CHR ''/'' @ [e]"
proof (induction d)
  case (Cons c d)
  then show ?case using Split1_not_Nil [of d "CHR ''/''"] by (auto split: list.splits)
qed (simp add: Split1_name)

lemma join1_append: "join1 (xs @ [e]) sep = (if xs = [] then e else join1 xs sep @ sep # e)"
  by (induction xs sep rule: join1.induct) auto

lemma Clean_name: "normal_name e \<Longrightarrow> path_Clean e = e"
  by (auto simp: path_Clean_def Let_def Split1_name normal_name_def neq_Nil_conv)

lemma Join_clean:
  assumes "normal_name e"
  shows "path_Join dir e = (if dir = [] \<or> path_Clean dir = ''.'' then e
    else if path_Clean dir = ''/'' then CHR ''/'' # e else path_Clean dir @ CHR ''/'' # e)"
proof (cases "dir = []")
  case True
  then show ?thesis using Clean_name [OF assms] by (simp add: path_Join_def)
next
  case False
  define r where "r = (hd dir = CHR ''/'')"
  define xs where "xs = clean_elems r [] (Split1 dir CHR ''/'')"
  have nr: "CHR ''/'' \<notin> set e" using assms by (simp add: normal_name_def)
  have e: "path_Join dir e = (if r then CHR ''/'' # join1 (xs @ [e]) CHR ''/'' else join1 (xs @ [e]) CHR ''/'')"
    using False assms clean_elems_append [OF assms, of r "[]" "Split1 dir CHR ''/''"]
    by (auto simp: path_Join_def path_Clean_def Let_def Split1_slash [OF nr] join1_append normal_name_def r_def xs_def)
  have d: "path_Clean dir = (if r then CHR ''/'' # join1 xs CHR ''/'' else if join1 xs CHR ''/'' = [] then ''.'' else join1 xs CHR ''/'')"
    using False by (simp add: path_Clean_def Let_def r_def xs_def)
  have ne: "x \<in> set (clean_elems r out ys) \<Longrightarrow> x \<in> set out \<or> (x \<in> set ys \<and> x \<noteq> [] \<and> x \<noteq> ''.'')" for x r out ys
    by (induction r out ys rule: clean_elems.induct) (auto split: if_splits dest: list.set_sel(2))
  have dot: "join1 xs CHR ''/'' = [] \<longleftrightarrow> xs = []"
    using ne [of _ r "[]" "Split1 dir CHR ''/''", folded xs_def] by (cases xs rule: remdups_adj.cases) auto
  have "join1 xs CHR ''/'' \<noteq> ''.''"
  proof (cases xs rule: remdups_adj.cases)
    case (3 x y zs)
    have "x \<noteq> []" using 3 ne [of x r "[]" "Split1 dir CHR ''/''", folded xs_def] by simp
    then have "1 < length (join1 xs CHR ''/'')" using 3 by (cases x) simp_all
    then show ?thesis by (metis length_Cons list.size(3) less_irrefl One_nat_def)
  qed (use ne [of _ r "[]" "Split1 dir CHR ''/''", folded xs_def] in auto)
  moreover have "join1 xs CHR ''/'' \<noteq> ''/''" if "\<not> r"
  proof (cases xs rule: remdups_adj.cases)
    case (3 x y zs)
    then show ?thesis using ne [of x r "[]" "Split1 dir CHR ''/''", folded xs_def] by (auto simp: append_eq_Cons_conv)
  next
    case (2 x)
    have ns: "CHR ''/'' \<notin> set x" if "x \<in> set (Split1 w CHR ''/'')" for w x
      using that by (induction w arbitrary: x) (auto split: if_splits list.splits)
    have "x \<in> set (Split1 dir CHR ''/'')" using 2 ne [of x r "[]" "Split1 dir CHR ''/''", folded xs_def] by simp
    from ns [OF this] show ?thesis using 2 by auto
  qed simp
  ultimately show ?thesis using False dot unfolding e d by (auto simp: join1_append)
qed

lemma token_no_slash: "token_char c \<Longrightarrow> c \<noteq> CHR ''/''"
  by (auto simp: token_char_def less_eq_char_def)

lemma sanitize_tokens: "list_all token_char (sanitize_runes n s)"
  by (induction n s rule: sanitize_runes.induct) (auto simp: token_char_def)

lemma set_trim_by: "set (trim_by p s) \<subseteq> set s"
  by (auto simp: trim_by_def dest!: set_dropWhileD)

lemma sanitizeFilename_tokens:
  "sanitizeFilename v \<noteq> [] \<and> list_all token_char (sanitizeFilename v) \<and> int (length (sanitizeFilename v)) \<le> 128"
proof -
  have d: "default_name \<noteq> [] \<and> list_all token_char default_name \<and> int (length default_name) \<le> 128" by code_simp
  have t: "list_all token_char (Trim (sanitize_runes (length v) v) ''._'')"
    using sanitize_tokens [of "length v" v] set_trim_by unfolding Trim_def list_all_iff by blast
  show ?thesis
    using d t by (auto simp: sanitizeFilename_def Let_def list_all_iff dest: in_set_takeD)
qed

definition artifact_name :: "Artifact \<Rightarrow> string" where
  "artifact_name a = ToLower (take 16 (SHA256 a)) @ CHR ''-'' # artifact_base a"

lemma artifact_path_name: "artifact_path dir a = path_Join dir (artifact_name a)"
  by (simp add: artifact_path_def artifact_name_def)

lemma hex_digit_cases: "hex_digit c \<noteq> None \<Longrightarrow> token_char (lower_char c) \<and> lower_char c \<noteq> CHR ''.''"
proof -
  assume h: "hex_digit c \<noteq> None"
  define n :: nat where "n = of_char c"
  have c: "c = char_of n" by (simp add: n_def)
  have "(48 \<le> n \<and> n \<le> 57) \<or> (97 \<le> n \<and> n \<le> 102) \<or> (65 \<le> n \<and> n \<le> 70)"
    using h by (auto simp: hex_digit_def Let_def n_def [symmetric] split: if_splits)
  then have "n \<in> {48,49,50,51,52,53,54,55,56,57,97,98,99,100,101,102,65,66,67,68,69,70}"
    by (simp only: insert_iff empty_iff) arith
  then have "token_char (lower_char (char_of n)) \<and> (of_char (lower_char (char_of n)) :: nat) \<noteq> 46"
    by (elim insertE emptyE) (simp_all add: token_char_def lower_char_def less_eq_char_def)
  moreover have "(of_char CHR ''.'' :: nat) = 46" by simp
  ultimately show ?thesis unfolding c by metis
qed

lemma artifact_name_safe:
  assumes "isHex (SHA256 a) 64"
  shows "list_all token_char (artifact_name a)" "hd (artifact_name a) \<noteq> CHR ''.''" "normal_name (artifact_name a)"
proof -
  have hex: "\<forall>c \<in> set (SHA256 a). hex_digit c \<noteq> None" "int (length (SHA256 a)) = 64"
    using assms by (simp_all add: isHex_def list_all_iff)
  then obtain c r where cr: "SHA256 a = c # r" by (cases "SHA256 a") auto
  show t: "list_all token_char (artifact_name a)"
  proof -
    have "list_all token_char (ToLower (take 16 (SHA256 a)))"
      unfolding list_all_iff ToLower_def using hex(1) hex_digit_cases by (auto dest: in_set_takeD)
    moreover have "list_all token_char (artifact_base a)"
      using sanitizeFilename_tokens by (simp add: artifact_base_def Let_def)
    moreover have "token_char CHR ''-''" by (simp add: token_char_def)
    ultimately show ?thesis by (simp only: artifact_name_def list_all_append list.pred_inject simp_thms)
  qed
  show h: "hd (artifact_name a) \<noteq> CHR ''.''"
    using hex(1) cr hex_digit_cases [of c] by (simp add: artifact_name_def ToLower_def)
  have n: "artifact_name a \<noteq> []" by (simp add: artifact_name_def)
  have "artifact_name a \<noteq> ''.''" "artifact_name a \<noteq> ''..''" using h by (metis list.sel(1))+
  moreover have "CHR ''/'' \<notin> set (artifact_name a)" using t token_no_slash unfolding list_all_iff by blast
  ultimately show "normal_name (artifact_name a)" using n unfolding normal_name_def by blast
qed

section \<open>The download\<close>

text \<open>Since \<open>before\<close>, the code never replaced or removed what \<open>final\<close> named.\<close>

definition no_clobber :: "string \<Rightarrow> effect list \<Rightarrow> fsys \<Rightarrow> bool" where
  "no_clobber final before s \<longleftrightarrow> (\<exists>new. effects s = before @ new \<and> (\<forall>(p, b, c) \<in> set new. p = final \<longrightarrow> b = None))"

lemma no_clobber_field [simp]:
  "no_clobber final before (s\<lparr>disk := d\<rparr>) = no_clobber final before s"
  "no_clobber final before (s\<lparr>turn := t\<rparr>) = no_clobber final before s"
  by (simp_all add: no_clobber_def)

lemma no_clobber_add:
  assumes "no_clobber final before s" "p \<noteq> final \<or> b = None"
  shows "no_clobber final before (s\<lparr>disk := d, effects := effects s @ [(p, b, c)]\<rparr>)"
proof -
  obtain new where "effects s = before @ new" "\<forall>(p, b, c) \<in> set new. p = final \<longrightarrow> b = None"
    using assms(1) by (auto simp: no_clobber_def)
  then show ?thesis unfolding no_clobber_def
    by (intro exI [of _ "new @ [(p, b, c)]"]) (use assms(2) in auto)
qed

lemma settled_no_clobber: "settled os (no_clobber final before)"
  by (simp add: settled_def no_clobber_def)

lemmas settled_rules = settled_conj settled_const settled_node settled_own settled_idle settled_known settled_file_at
  settled_keeps settled_digest_ok settled_no_clobber settled_imp

text \<open>Where the published inode was recorded.\<close>

definition published :: "string \<Rightarrow> nat \<Rightarrow> fsys \<Rightarrow> bool" where
  "published final i s \<longleftrightarrow> (final, None, Some i) \<in> set (effects s)"

lemma settled_published: "settled os (published final i)"
  by (simp add: settled_def published_def)

lemma hoare_discard_tmp:
  assumes "polite os" "\<And>e. settled os (E e)" "\<And>x. settled os (Q x)"
    and "\<And>e s i. E e s \<Longrightarrow> names (disk s) tmp = Some i \<Longrightarrow>
      E e (s\<lparr>disk := (disk s)\<lparr>names := (names (disk s))(tmp := None)\<rparr>, effects := effects s @ [(tmp, Some i, None)]\<rparr>)"
    and "\<And>x s i. Q x s \<Longrightarrow> names (disk s) tmp = Some i \<Longrightarrow>
      Q x (s\<lparr>disk := (disk s)\<lparr>names := (names (disk s))(tmp := None)\<rparr>, effects := effects s @ [(tmp, Some i, None)]\<rparr>)"
  shows "hoare (\<lambda>s. case r of Inl e \<Rightarrow> E e s | Inr x \<Rightarrow> Q x s) (discard os tmp r) Q E"
proof (cases r)
  case (Inl e)
  show ?thesis unfolding discard_def Inl sum.case
    by (rule hoare_try_same [OF hoare_Remove [OF assms(1,2)]]) (auto simp: assms(4) intro: hoare_pre [OF hoare_of])
next
  case (Inr x)
  show ?thesis unfolding discard_def Inr sum.case
    by (rule hoare_try_same [OF hoare_Remove [OF assms(1,3)]]) (auto simp: assms(5) intro: hoare_pre [OF hoare_of])
qed

definition staged_node :: "string \<Rightarrow> node" where
  "staged_node text = \<lparr>NKind = Regular, NPerm = 384, Content = text\<rparr>"

definition own_file :: "string \<Rightarrow> nat \<Rightarrow> string \<Rightarrow> fsys \<Rightarrow> bool" where
  "own_file tmp i text s \<longleftrightarrow> names (disk s) tmp = Some i \<and> nodes (disk s) i = Some (staged_node text)"

lemma settled_own_file: "polite os \<Longrightarrow> own_name tmp \<Longrightarrow> settled os (own_file tmp i text)"
  unfolding own_file_def by (intro settled_conj settled_own settled_node)

text \<open>Setting the permissions again and writing the text into the empty staged file.\<close>

lemma seq_write:
  assumes os: "polite os" and tmp: "own_name tmp" and P: "settled os P" and E: "\<And>e s. P s \<Longrightarrow> E e s"
    and keep: "\<And>s d. P s \<Longrightarrow> P (s\<lparr>disk := (disk s)\<lparr>nodes := d\<rparr>\<rparr>)"
    and rest: "hoare (\<lambda>s. P s \<and> own_file tmp i text s) f Q E"
  shows "hoare (\<lambda>s. P s \<and> own_file tmp i [] s) (io_bind (Chmod os i 384) (\<lambda>_. io_bind (WriteAll os i text) (\<lambda>_. f))) Q E"
proof (rule hoare_bind [where R = "\<lambda>_ s. P s \<and> own_file tmp i [] s"])
  show "hoare (\<lambda>s. P s \<and> own_file tmp i [] s) (Chmod os i 384) (\<lambda>_ s. P s \<and> own_file tmp i [] s) E"
    by (rule hoare_Chmod [OF os]) (auto intro!: settled_conj P settled_own settled_node os tmp keep E simp: own_file_def staged_node_def)
  show "hoare (\<lambda>s. P s \<and> own_file tmp i [] s) (io_bind (WriteAll os i text) (\<lambda>_. f)) Q E"
  proof (rule hoare_bind [where R = "\<lambda>_ s. P s \<and> own_file tmp i text s"])
    show "hoare (\<lambda>s. P s \<and> own_file tmp i [] s) (WriteAll os i text) (\<lambda>_ s. P s \<and> own_file tmp i text s) E"
      by (rule hoare_WriteAll [OF os]) (auto intro!: settled_conj P settled_own settled_node os tmp keep E simp: own_file_def staged_node_def)
  qed (rule rest)
qed

definition right_content :: "os \<Rightarrow> Artifact \<Rightarrow> string \<Rightarrow> bool" where
  "right_content os a text \<longleftrightarrow> int (length text) = Size a \<and> EqualFold (sha256 os text) (SHA256 a)"

lemma hoare_stage_artifact:
  assumes os: "polite os" and tmp: "own_name tmp"
  shows "hoare (\<lambda>s. no_clobber final before s \<and> own_file tmp i [] s) (stage_artifact os a resp i)
    (\<lambda>x s. (no_clobber final before s \<and> own_file tmp i (copied a resp) s) \<and> right_content os a (copied a resp) \<and> Ino x = i)
    (\<lambda>e. no_clobber final before)"
  unfolding stage_artifact_def
  apply (rule seq_write [OF os tmp settled_no_clobber])
    apply assumption
   apply simp
  apply (rule seq_assert, blast)
  apply (rule seq_assert, blast)
  apply (rule seq_assert, blast)
  apply (rule seq_Flush [OF os])
    apply (intro settled_rules settled_own_file os tmp)
   apply blast
  apply (rule seq_Fstat [OF os])
    apply (intro settled_rules settled_own_file os tmp)
   apply blast
  apply (rule seq_Flush [OF os])
    apply (intro settled_rules settled_own_file os tmp)
   apply blast
  apply (rule hoare_pre [OF hoare_return])
  apply (simp add: right_content_def)
  done

lemma hoare_adopt:
  assumes os: "polite os" "\<not> windows os" and tmp: "own_name tmp" "tmp \<noteq> final" and i: "Ino x = i"
  shows "hoare (\<lambda>s. no_clobber final before s \<and> own_file tmp i text s) (adoptNoClobber os tmp final x)
    (\<lambda>_ s. no_clobber final before s \<and> nodes (disk s) i = Some (staged_node text) \<and> published final i s
       \<and> (keeps_entry os final \<longrightarrow> names (disk s) final = Some i)) (\<lambda>e. no_clobber final before)"
  (is "hoare ?P _ ?Q ?E")
proof -
  let ?R = "\<lambda>s. no_clobber final before s \<and> nodes (disk s) i = Some (staged_node text) \<and> published final i s
       \<and> (keeps_entry os final \<longrightarrow> names (disk s) final = Some i)"
  have st: "settled os ?R" by (intro settled_rules settled_published os)
  have link: "hoare ?P (Link os tmp final) (\<lambda>_. ?R) ?E"
    by (rule hoare_Link [OF os(1)])
      (auto intro!: settled_rules settled_own_file os tmp no_clobber_add simp: own_file_def published_def)
  have rm: "hoare ?R (Remove os tmp) (\<lambda>_. ?R) (\<lambda>_. ?R)"
    by (rule hoare_Remove [OF os(1) st]) (use tmp(2) in \<open>auto intro!: no_clobber_add simp: published_def\<close>)
  show ?thesis
    unfolding adoptNoClobber_def
    apply (rule seq_assert, blast)
    apply (simp only: os(2) if_False)
    apply (rule hoare_bind [OF link])
    apply (rule seq_try_Lstat [OF os(1) st])
     apply (rule seq_assert, blast)
     apply (rule hoare_pre [where P' = ?R])
      apply (rule hoare_try_same [OF rm])
      apply (rule hoare_return)
     apply blast
    apply (rule seq_assert, blast)
    apply simp
    done
qed

text \<open>What a download returns.\<close>

definition delivered :: "os \<Rightarrow> Artifact \<Rightarrow> string \<Rightarrow> effect list \<Rightarrow> DownloadResult \<Rightarrow> fsys \<Rightarrow> bool" where
  "delivered os a final before res s \<longleftrightarrow> no_clobber final before s \<and> DPath res = final
     \<and> (\<exists>i n. nodes (disk s) i = Some n \<and> NKind n = Regular \<and> EqualFold (sha256 os (Content n)) (SHA256 a)
          \<and> (keeps_entry os final \<longrightarrow> names (disk s) final = Some i)
          \<and> (Created res \<longrightarrow> published final i s)
          \<and> (Created res \<or> keeps_entry os final \<longrightarrow> int (length (Content n)) = Size a))"

lemma settled_delivered: "polite os \<Longrightarrow> settled os (delivered os a final before res)"
  unfolding delivered_def by (intro settled_ex settled_rules settled_published)

lemma delivered_keep:
  assumes "delivered os a final before res s" "tmp \<noteq> final"
  shows "delivered os a final before res (s\<lparr>disk := (disk s)\<lparr>names := (names (disk s))(tmp := None)\<rparr>, effects := effects s @ [(tmp, Some i, None)]\<rparr>)"
proof -
  obtain j n where j: "nodes (disk s) j = Some n" "NKind n = Regular" "EqualFold (sha256 os (Content n)) (SHA256 a)"
    "keeps_entry os final \<longrightarrow> names (disk s) final = Some j" "Created res \<longrightarrow> published final j s"
    "Created res \<or> keeps_entry os final \<longrightarrow> int (length (Content n)) = Size a"
    using assms(1) by (auto simp: delivered_def)
  show ?thesis unfolding delivered_def
    by (intro conjI exI [of _ j] exI [of _ n]) (use assms j in \<open>auto intro!: no_clobber_add simp: delivered_def published_def\<close>)
qed

text \<open>A file that was found, not created.\<close>

lemma found_delivered:
  assumes "no_clobber final before s" "known x s" "file_at os final (Ino x) s" "ISize x = Size a"
    and "file_at os final i s" "digest_ok os (SHA256 a) i s"
  shows "delivered os a final before \<lparr>DPath = final, Created = False\<rparr> s"
proof -
  obtain n where n: "nodes (disk s) i = Some n" "NKind n = Regular" "EqualFold (sha256 os (Content n)) (SHA256 a)"
    using assms(6) by (auto simp: digest_ok_def)
  have "int (length (Content n)) = Size a" if "keeps_entry os final"
  proof -
    have "i = Ino x" using that assms(3,5) by (simp add: file_at_def)
    then have "x = node_info i n" using assms(2) n(1) by (simp add: known_def)
    then have "ISize x = int (length (Content n))" by (simp add: node_info_def)
    then show ?thesis using assms(4) by simp
  qed
  then show ?thesis
    unfolding delivered_def using n assms(1,5) by (intro conjI exI [of _ i] exI [of _ n]) (simp_all add: file_at_def)
qed

lemma hoare_reuse_tail:
  assumes os: "polite os" and x: "ISize x = Size a"
  shows "hoare (\<lambda>s. no_clobber final before s \<and> known x s \<and> file_at os final (Ino x) s)
    (io_try (fileMatchesSHA256 os final (SHA256 a)) (\<lambda>r. if r = Inr True then io_return \<lparr>DPath = final, Created = False\<rparr> else io_of (Inl e)))
    (delivered os a final before) (\<lambda>e. no_clobber final before)"
proof (rule hoare_try [OF hoare_fileMatches [OF os]])
  show "settled os (\<lambda>s. no_clobber final before s \<and> known x s \<and> file_at os final (Ino x) s)" by (intro settled_rules os)
  fix b
  show "hoare (\<lambda>s. (no_clobber final before s \<and> known x s \<and> file_at os final (Ino x) s) \<and> (b \<longrightarrow> (\<exists>i. file_at os final i s \<and> digest_ok os (SHA256 a) i s)))
    (if Inr b = Inr True then io_return \<lparr>DPath = final, Created = False\<rparr> else io_of (Inl e))
    (delivered os a final before) (\<lambda>e. no_clobber final before)"
    by (cases b) (auto intro!: hoare_pre [OF hoare_return] hoare_pre [OF hoare_of] intro: found_delivered [OF _ _ _ x])
qed (auto intro: hoare_pre [OF hoare_of])

lemma io_fail_of: "io_fail msg = io_of (fail msg)"
  by (rule ext) (simp add: io_fail_def io_of_def)

lemma hoare_reuse:
  assumes os: "polite os"
  shows "hoare (\<lambda>s. no_clobber final before s \<and> known x s \<and> file_at os final (Ino x) s) (reuse_artifact os a final x)
    (delivered os a final before) (\<lambda>e. no_clobber final before)"
  unfolding reuse_artifact_def io_fail_of
  by (rule seq_assert) (auto intro: hoare_reuse_tail [OF os] hoare_pre [OF hoare_of])

lemma hoare_lost_race:
  assumes os: "polite os"
  shows "hoare (no_clobber final before) (lost_race os a final e) (delivered os a final before) (\<lambda>e. no_clobber final before)"
proof (cases "e = errExist")
  case True
  show ?thesis
    unfolding lost_race_def True
    apply (simp only: simp_thms if_False)
    apply (rule seq_try_Lstat [OF os settled_no_clobber])
     apply (auto intro: hoare_reuse_tail [OF os] hoare_pre [OF hoare_of])
    done
next
  case False
  then show ?thesis by (auto simp: lost_race_def intro: hoare_pre [OF hoare_of])
qed

lemma hoare_publish_artifact:
  assumes os: "polite os" "\<not> windows os" and tmp: "own_name tmp" "tmp \<noteq> final"
  shows "hoare (\<lambda>s. no_clobber final before s \<and> own_file tmp i [] s) (publish_artifact os a dir final resp (i, tmp))
    (delivered os a final before) (\<lambda>e. no_clobber final before)"
proof -
  let ?E = "\<lambda>_ :: goerror. no_clobber final before"
  let ?N = "\<lambda>s. no_clobber final before s \<and> nodes (disk s) i = Some (staged_node (copied a resp)) \<and> published final i s
       \<and> (keeps_entry os final \<longrightarrow> names (disk s) final = Some i)"
  have discard: "hoare (\<lambda>s. case r of Inl e \<Rightarrow> ?E e s | Inr x \<Rightarrow> delivered os a final before x s) (discard os tmp r)
      (delivered os a final before) ?E" for r
    by (rule hoare_discard_tmp [OF os(1)], rule settled_no_clobber, rule settled_delivered [OF os(1)],
      rule no_clobber_add [OF _ disjI1 [OF tmp(2)]], assumption, rule delivered_keep [OF _ tmp(2)])
  have fail: "hoare (?E e) (discard os tmp (Inl e)) (delivered os a final before) ?E" for e
    by (rule hoare_pre [OF discard]) simp
  have lost: "hoare (?E e) (io_try (lost_race os a final e) (discard os tmp)) (delivered os a final before) ?E" for e
  proof (rule hoare_try [OF hoare_lost_race [OF os(1)]])
    show "hoare (delivered os a final before x) (discard os tmp (Inr x)) (delivered os a final before) ?E" for x
      by (rule hoare_pre [OF discard]) simp
  qed (rule fail)
  show ?thesis
    unfolding publish_artifact_def Let_def prod.case
  proof (rule hoare_try [OF hoare_stage_artifact [OF os(1) tmp(1)]])
    fix x
    have sync: "hoare ?N (io_bind (syncDirectory os dir) (\<lambda>_. io_return \<lparr>DPath = final, Created = True\<rparr>)) (delivered os a final before) ?E"
      if "right_content os a (copied a resp)"
    proof (rule hoare_bind [where R = "\<lambda>_. ?N"])
      have "settled os ?N" by (intro settled_rules settled_published os)
      then show "hoare ?N (syncDirectory os dir) (\<lambda>_. ?N) ?E"
        using hoare_conseq [OF hoare_syncDirectory [OF os(1)], of ?N ?N "\<lambda>_. ?N" ?E dir] by blast
      show "hoare ?N (io_return \<lparr>DPath = final, Created = True\<rparr>) (delivered os a final before) ?E"
        by (rule hoare_pre [OF hoare_return])
          (use that in \<open>auto simp: delivered_def digest_ok_def right_content_def staged_node_def intro: exI [of _ i]\<close>)
    qed
    show "hoare (\<lambda>s. (no_clobber final before s \<and> own_file tmp i (copied a resp) s) \<and> right_content os a (copied a resp) \<and> Ino x = i)
      (case Inr x of Inl e \<Rightarrow> discard os tmp (Inl e)
       | Inr staged \<Rightarrow> io_try (adoptNoClobber os tmp final staged) (\<lambda>r. case r of
           Inl e \<Rightarrow> io_try (lost_race os a final e) (discard os tmp)
         | Inr _ \<Rightarrow> io_bind (syncDirectory os dir) (\<lambda>_. io_return \<lparr>DPath = final, Created = True\<rparr>)))
      (delivered os a final before) ?E"
    proof (cases "right_content os a (copied a resp) \<and> Ino x = i")
      case True
      have "hoare (\<lambda>s. no_clobber final before s \<and> own_file tmp i (copied a resp) s)
        (io_try (adoptNoClobber os tmp final x) (\<lambda>r. case r of
           Inl e \<Rightarrow> io_try (lost_race os a final e) (discard os tmp)
         | Inr _ \<Rightarrow> io_bind (syncDirectory os dir) (\<lambda>_. io_return \<lparr>DPath = final, Created = True\<rparr>)))
        (delivered os a final before) ?E"
        by (rule hoare_try [OF hoare_adopt [OF os tmp conjunct2 [OF True]]]) (use sync True lost in simp_all)
      then show ?thesis using True by simp
    qed (auto simp: hoare_def)
  qed (simp add: fail)
qed

end
