(* ===== verification/UpdateStoreProps.thy ===== *)
theory UpdateStoreProps
  imports UpdateStoreSafe
begin

text \<open>
  The properties of the update store: what a download leaves on the disk, what saving the state publishes,
  and what a verified removal can remove, each with a run of the code in which it applies.
\<close>

section \<open>The whole download\<close>

definition plain_temp_names :: "os \<Rightarrow> bool" where
  "plain_temp_names os \<longleftrightarrow> (\<forall>t. CHR ''/'' \<notin> set (temp_name os t))"

lemma make_dirs_creates:
  assumes "make_dirs perm ps d = (r, d', es)" "fresh_disk d"
  shows "fresh_disk d' \<and> (\<forall>x \<in> set es. fst x \<in> set ps \<and> fst (snd x) = None)"
  using assms
  by (induction ps arbitrary: r d' es)
    (auto intro: fresh_add split: if_splits prod.splits sum.splits dest!: meta_spec)

lemma hoare_MkdirAll:
  assumes "polite os" "settled os P"
    and "\<And>s d es. P s \<Longrightarrow> \<forall>x \<in> set es. fst x \<in> set (ancestors (strip_slashes p)) \<and> fst (snd x) = None
      \<Longrightarrow> P (s\<lparr>disk := d, effects := effects s @ es\<rparr>)"
    and "\<And>s. P s \<Longrightarrow> Q () s" "\<And>e s. P s \<Longrightarrow> E e s"
  shows "hoare P (MkdirAll os p perm) Q E"
  unfolding MkdirAll_def
proof (rule hoare_syscall [OF assms(1,2)])
  fix s :: fsys and r :: "unit res" and d and es
  assume a: "fresh_disk (disk s)" "P s" "make_dirs perm (ancestors (strip_slashes p)) (disk s) = (r, d, es)"
  show "fresh_disk d \<and> (case r of Inl e \<Rightarrow> E e (s\<lparr>disk := d, effects := effects s @ es\<rparr>)
        | Inr x \<Rightarrow> Q x (s\<lparr>disk := d, effects := effects s @ es\<rparr>))"
    using make_dirs_creates [OF a(3,1)] assms(3) [OF a(2), of es d] assms(4,5) by (simp split: sum.split)
qed (rule assms(5))

lemma no_clobber_creates:
  assumes "no_clobber final before s" "\<forall>x \<in> set es. fst x \<in> A \<and> fst (snd x) = None"
  shows "no_clobber final before (s\<lparr>disk := d, effects := effects s @ es\<rparr>)"
proof -
  obtain new where "effects s = before @ new" "\<forall>(p, b, c) \<in> set new. p = final \<longrightarrow> b = None"
    using assms(1) by (auto simp: no_clobber_def)
  then show ?thesis unfolding no_clobber_def
    by (intro exI [of _ "new @ es"]) (use assms(2) in auto)
qed

text \<open>The length of a cleaned path.\<close>

definition elems_length :: "string list \<Rightarrow> nat" where
  "elems_length xs = sum_list (map (\<lambda>x. Suc (length x)) xs)"

lemma join1_length: "length (join1 xs sep) = elems_length xs - 1"
  by (induction xs sep rule: join1.induct) (simp_all add: elems_length_def)

lemma Split1_length: "elems_length (Split1 s sep) = Suc (length s)"
  by (induction s) (auto simp: elems_length_def split: list.splits)

lemma clean_elems_length: "elems_length (clean_elems rooted out ys) \<le> elems_length out + elems_length ys"
proof (induction rooted out ys rule: clean_elems.induct)
  case (2 rooted out e es)
  have "elems_length (tl out) \<le> elems_length out" by (cases out) (simp_all add: elems_length_def)
  with 2 show ?case by (auto simp: elems_length_def)
qed (simp add: elems_length_def rev_map [symmetric] sum_list_rev)

lemma Clean_length: "length (path_Clean p) \<le> length p \<or> path_Clean p = ''.''"
proof (cases p)
  case (Cons c r)
  let ?xs = "clean_elems (c = CHR ''/'') [] (Split1 p CHR ''/'')"
  have w: "elems_length ?xs \<le> (if c = CHR ''/'' then length p else Suc (length p))"
  proof (cases "c = CHR ''/''")
    case True
    then have "?xs = clean_elems True [] (Split1 r CHR ''/'')" using Cons by simp
    then show ?thesis
      using True clean_elems_length [of True "[]" "Split1 r CHR ''/''"] Cons
      by (simp add: Split1_length) (simp add: elems_length_def)
  next
    case False
    then show ?thesis
      using clean_elems_length [of False "[]" "Split1 p CHR ''/''"] by (simp add: Split1_length) (simp add: elems_length_def)
  qed
  have "path_Clean p = (if c = CHR ''/'' then CHR ''/'' # join1 ?xs CHR ''/''
      else if join1 ?xs CHR ''/'' = [] then ''.'' else join1 ?xs CHR ''/'')"
    using Cons by (simp add: path_Clean_def Let_def)
  then show ?thesis using w join1_length [of ?xs "CHR ''/''"] Cons by auto
qed (simp add: path_Clean_def)

lemma ancestor_prefix: "x \<in> set (ancestors (strip_slashes p)) \<Longrightarrow> \<exists>y. p = x @ y \<and> x \<noteq> []"
proof -
  assume "x \<in> set (ancestors (strip_slashes p))"
  then obtain k where k: "x = take k (strip_slashes p)" "1 \<le> k" "k \<le> length (strip_slashes p)"
    by (auto simp: ancestors_def)
  obtain u where u: "rev p = u @ rev (strip_slashes p)"
    unfolding strip_slashes_def by (metis rev_rev_ident takeWhile_dropWhile_id)
  then have "p = strip_slashes p @ rev u" by (metis rev_append rev_rev_ident)
  then have "p = x @ drop k (strip_slashes p) @ rev u" unfolding k(1) by (metis append.assoc append_take_drop_id)
  moreover have "x \<noteq> []" using k by auto
  ultimately show ?thesis by blast
qed

lemma ancestor_shorter:
  assumes "path_Dir path \<noteq> path"
  shows "path \<notin> set (ancestors (strip_slashes (path_Dir path)))"
proof
  assume "path \<in> set (ancestors (strip_slashes (path_Dir path)))"
  then obtain y where y: "path_Dir path = path @ y" "path \<noteq> []" using ancestor_prefix by blast
  then have "y \<noteq> []" using assms by auto
  then have l: "length path < length (path_Dir path)" using y(1) by simp
  have "length (rev (dropWhile (\<lambda>c. c \<noteq> CHR ''/'') (rev path))) \<le> length path"
    using length_dropWhile_le [of _ "rev path"] by simp
  then have "path_Dir path = ''.''"
    using Clean_length [of "rev (dropWhile (\<lambda>c. c \<noteq> CHR ''/'') (rev path))"] l unfolding path_Dir_def by linarith
  then have "length (path @ y) = 1" using y(1) by simp
  then show False using y(2) \<open>y \<noteq> []\<close> by (cases path; cases y) simp_all
qed

lemma artifact_path_last:
  assumes "isHex (SHA256 a) 64"
  shows "mustURLPath (artifact_path dir a) = artifact_name a"
proof -
  note n = artifact_name_safe [OF assms]
  have s: "CHR ''/'' \<notin> set (artifact_name a)" using n(3) by (simp add: normal_name_def)
  show ?thesis
    unfolding artifact_path_name Join_clean [OF n(3)]
    using last_component [OF s] last_component [OF s, of "[]"] last_component_whole [OF s] by auto
qed

lemma temp_not_final:
  assumes "isHex (SHA256 a) 64" "CHR ''/'' \<notin> set v"
  shows "dir @ CHR ''/'' # ''.router-vpn-update-'' @ v \<noteq> artifact_path dir2 a"
proof
  assume e: "dir @ CHR ''/'' # ''.router-vpn-update-'' @ v = artifact_path dir2 a"
  have "mustURLPath (dir @ CHR ''/'' # ''.router-vpn-update-'' @ v) = ''.router-vpn-update-'' @ v"
    by (rule last_component) (use assms(2) in simp)
  then have "artifact_name a = ''.router-vpn-update-'' @ v" using artifact_path_last [OF assms(1)] e by metis
  then show False using artifact_name_safe(2) [OF assms(1)] by simp
qed

lemma own_temp: "own_name (dir @ CHR ''/'' # ''.router-vpn-update-'' @ v)"
  unfolding own_name_def by (intro exI [of _ "dir @ ''/''"] exI [of _ v]) simp

lemma hoare_given:
  assumes "b \<Longrightarrow> hoare P m Q E"
  shows "hoare (\<lambda>s. b \<and> P s) m Q E"
  using assms by (auto simp: hoare_def)

lemma hoare_download_fresh:
  fixes dir :: string and a :: Artifact
  assumes os: "polite os" "\<not> windows os" "plain_temp_names os" and hex: "isHex (SHA256 a) 64"
  defines "final \<equiv> artifact_path dir a"
  shows "hoare (no_clobber final before) (download_fresh os a dir final) (delivered os a final before) (\<lambda>e. no_clobber final before)"
  unfolding download_fresh_def
proof (rule seq_of)
  fix resp
  let ?R = "\<lambda>(i, tmp) s. (own_name tmp \<and> tmp \<noteq> final) \<and> no_clobber final before s \<and> own_file tmp i [] s"
  have temp: "hoare (no_clobber final before) (CreateTemp os Regular 384 dir ''.router-vpn-update-'') ?R (\<lambda>e. no_clobber final before)"
  proof (rule hoare_CreateTemp [OF os(1) settled_no_clobber])
    fix s p t
    assume a: "no_clobber final before s" "p = dir @ CHR ''/'' # ''.router-vpn-update-'' @ temp_name os t"
    have p: "own_name p" "p \<noteq> final"
      using own_temp temp_not_final [OF hex] os(3) unfolding a(2) final_def plain_temp_names_def by blast+
    then show "?R (next_inode (disk s), p) (s\<lparr>disk := add_node p \<lparr>NKind = Regular, NPerm = 384, Content = []\<rparr> (disk s),
         effects := effects s @ [(p, None, Some (next_inode (disk s)))]\<rparr>)"
      using no_clobber_add [OF a(1), of p None] by (simp add: own_file_def add_node_def staged_node_def)
  qed
  have publish: "hoare (?R it) (publish_artifact os a dir final resp it) (delivered os a final before) (\<lambda>e. no_clobber final before)" for it
  proof (cases it)
    case (Pair i tmp)
    show ?thesis unfolding Pair prod.case
      by (rule hoare_given) (use hoare_publish_artifact [OF os(1,2)] in blast)
  qed
  show "hoare (no_clobber final before)
    (io_bind (io_assert (StatusCode resp = 200) ''artifact server status'') (\<lambda>_.
     io_bind (io_assert (\<not> (ContentLength resp \<ge> 0 \<and> ContentLength resp \<noteq> Size a))
        ''artifact Content-Length does not match signed size'') (\<lambda>_.
     io_bind (CreateTemp os Regular 384 dir ''.router-vpn-update-'') (publish_artifact os a dir final resp))))
    (delivered os a final before) (\<lambda>e. no_clobber final before)"
    by (intro seq_assert hoare_bind [OF temp publish])
qed

lemma hoare_download:
  fixes dir :: string and a :: Artifact
  assumes os: "polite os" "\<not> windows os" "plain_temp_names os"
  defines "final \<equiv> artifact_path dir a"
  shows "hoare (no_clobber final before) (DownloadArtifactDetailed ext os a dir) (delivered os a final before) (\<lambda>e. no_clobber final before)"
  unfolding DownloadArtifactDetailed_def Let_def final_def [symmetric]
proof (rule seq_of)
  fix x assume v: "Artifact_Validate ext no_options a = Inr x"
  have hex: "isHex (SHA256 a) 64" using Artifact_Validate_ok [of ext no_options a] v by (simp add: valid_artifact_def)
  have tail: "hoare (no_clobber final before)
     (io_try (Lstat os final) (\<lambda>r.
        case r of
          Inr info \<Rightarrow> reuse_artifact os a final info
        | Inl e \<Rightarrow> if e \<noteq> errNotExist then io_of (Inl e) else download_fresh os a dir final))
     (delivered os a final before) (\<lambda>e. no_clobber final before)"
    by (rule seq_try_Lstat [OF os(1) settled_no_clobber])
      (auto intro: hoare_reuse [OF os(1)] hoare_pre [OF hoare_of]
        simp: hoare_download_fresh [OF os hex, of dir before, folded final_def])
  have "hoare (no_clobber final before) (MkdirAll os dir 448) (\<lambda>_. no_clobber final before) (\<lambda>e. no_clobber final before)"
    by (rule hoare_MkdirAll [OF os(1) settled_no_clobber]) (auto intro: no_clobber_creates)
  then show "hoare (no_clobber final before) (io_bind (MkdirAll os dir 448) (\<lambda>_.
      io_try (Lstat os final) (\<lambda>r.
        case r of
          Inr info \<Rightarrow> reuse_artifact os a final info
        | Inl e \<Rightarrow> if e \<noteq> errNotExist then io_of (Inl e) else download_fresh os a dir final)))
     (delivered os a final before) (\<lambda>e. no_clobber final before)"
    by (rule hoare_bind) (rule tail)
qed

text \<open>
  C22. A download on a system with hard links never replaces or removes what the path of the artifact names,
  whatever other processes do and whichever calls fail. When it succeeds it names a regular file whose
  digest is the signed one. A file it created was published there with exactly the signed size. A file it found
  there, before the transfer or after another download won the race, has the signed size too as long as nobody
  replaces or removes the entry; and then the path still names the file.
\<close>

theorem download_delivers_verified:
  assumes "polite os" "\<not> windows os" "plain_temp_names os" "fresh_disk (disk s)"
    and "DownloadArtifactDetailed ext os a dir s = (r, s')"
  shows "(\<exists>new. effects s' = effects s @ new \<and> (\<forall>(p, old, now) \<in> set new. p = artifact_path dir a \<longrightarrow> old = None))
    \<and> (case r of Inl e \<Rightarrow> True
       | Inr res \<Rightarrow> DPath res = artifact_path dir a
           \<and> (\<exists>i n. nodes (disk s') i = Some n \<and> NKind n = Regular \<and> EqualFold (sha256 os (Content n)) (SHA256 a)
                \<and> (keeps_entry os (artifact_path dir a) \<longrightarrow> names (disk s') (artifact_path dir a) = Some i)
                \<and> (Created res \<longrightarrow> (artifact_path dir a, None, Some i) \<in> set (effects s'))
                \<and> (Created res \<or> keeps_entry os (artifact_path dir a) \<longrightarrow> int (length (Content n)) = Size a)))"
proof -
  let ?f = "artifact_path dir a"
  have p: "no_clobber ?f (effects s) s" by (simp add: no_clobber_def)
  from hoareD [OF hoare_download [OF assms(1-3)] assms(4) p assms(5)]
  have h: "case r of Inl e \<Rightarrow> no_clobber ?f (effects s) s' | Inr res \<Rightarrow> delivered os a ?f (effects s) res s'" by blast
  show ?thesis
  proof (cases r)
    case (Inl e)
    then show ?thesis using h by (auto simp: no_clobber_def)
  next
    case (Inr res)
    have d: "delivered os a ?f (effects s) res s'" using h Inr by simp
    then show ?thesis using Inr unfolding delivered_def no_clobber_def published_def by auto
  qed
qed

section \<open>Publishing the state\<close>

text \<open>Since \<open>before\<close> the code changed no entry at \<open>path\<close>.\<close>

definition untouched :: "string \<Rightarrow> effect list \<Rightarrow> fsys \<Rightarrow> bool" where
  "untouched path before s \<longleftrightarrow> (\<exists>new. effects s = before @ new \<and> (\<forall>x \<in> set new. fst x \<noteq> path))"

text \<open>Since \<open>before\<close> the only change at \<open>path\<close> was the publication of the complete inode \<open>i\<close>.\<close>

definition replaced :: "string \<Rightarrow> effect list \<Rightarrow> nat \<Rightarrow> string \<Rightarrow> fsys \<Rightarrow> bool" where
  "replaced path before i data s \<longleftrightarrow> nodes (disk s) i = Some (staged_node data)
     \<and> (\<exists>new old. effects s = before @ new \<and> filter (\<lambda>x. fst x = path) new = [(path, old, Some i)])"

lemma untouched_add:
  "untouched path before s \<Longrightarrow> fst x \<noteq> path \<Longrightarrow> untouched path before (s\<lparr>disk := d, effects := effects s @ [x]\<rparr>)"
  unfolding untouched_def by (elim exE conjE) (rule exI [of _ "_ @ [x]"], simp)

lemma untouched_disk [simp]: "untouched path before (s\<lparr>disk := d\<rparr>) = untouched path before s"
  by (simp add: untouched_def)

lemma replaced_add:
  "replaced path before i data s \<Longrightarrow> fst x \<noteq> path \<Longrightarrow> nodes d = nodes (disk s) \<Longrightarrow>
   replaced path before i data (s\<lparr>disk := d, effects := effects s @ [x]\<rparr>)"
  unfolding replaced_def by auto

lemma replace_untouched:
  assumes "untouched path before s" "nodes (disk s) i = Some (staged_node data)" "tmp \<noteq> path"
  shows "replaced path before i data (s\<lparr>disk := (disk s)\<lparr>names := n\<rparr>,
    effects := effects s @ [(tmp, Some j, None), (path, old, Some i)]\<rparr>)"
proof -
  obtain new where n: "effects s = before @ new" "\<forall>x \<in> set new. fst x \<noteq> path" using assms(1) by (auto simp: untouched_def)
  then have "filter (\<lambda>x. fst x = path) new = []" by (simp add: filter_empty_conv)
  then show ?thesis unfolding replaced_def
    by (intro conjI exI [of _ "new @ [(tmp, Some j, None), (path, old, Some i)]"] exI [of _ old])
      (use n assms(2,3) in simp_all)
qed

lemma untouched_creates:
  assumes "untouched path before s" "path \<notin> A" "\<forall>x \<in> set es. fst x \<in> A \<and> fst (snd x) = None"
  shows "untouched path before (s\<lparr>disk := d, effects := effects s @ es\<rparr>)"
proof -
  obtain new where "effects s = before @ new" "\<forall>x \<in> set new. fst x \<noteq> path" using assms(1) by (auto simp: untouched_def)
  then show ?thesis unfolding untouched_def
    by (intro exI [of _ "new @ es"]) (use assms(2,3) in auto)
qed

lemma settled_untouched: "settled os (untouched path before)"
  by (simp add: settled_def untouched_def)

lemma settled_replaced: "polite os \<Longrightarrow> settled os (replaced path before i data)"
  by (simp add: settled_def replaced_def polite_def polite_step_def)

lemma hoare_stage_state:
  assumes os: "polite os" and tmp: "own_name tmp" "tmp \<noteq> path"
  shows "hoare (\<lambda>s. untouched path before s \<and> own_file tmp i [] s) (stage_state os path data (i, tmp))
    (\<lambda>x s. replaced path before i data s \<and> (idle os \<longrightarrow> names (disk s) path = Some i)) (\<lambda>e. untouched path before)"
  unfolding stage_state_def Let_def prod.case
  apply (rule seq_write [OF os tmp(1) settled_untouched])
    apply assumption
   apply simp
  apply (rule seq_Flush [OF os])
    apply (intro settled_rules settled_untouched settled_own_file os tmp)
   apply blast
  apply (rule seq_Fstat [OF os])
    apply (intro settled_rules settled_untouched settled_own_file os tmp)
   apply blast
  apply (rule seq_Flush [OF os])
    apply (intro settled_rules settled_untouched settled_own_file os tmp)
   apply blast
  subgoal premises prems for x
  proof -
    let ?P = "\<lambda>s. untouched path before s \<and> own_file tmp i data s"
    let ?Q = "\<lambda>s. replaced path before i data s \<and> (idle os \<longrightarrow> names (disk s) path = Some i)"
    have st: "settled os ?P" by (intro settled_rules settled_untouched settled_own_file os tmp)
    have "hoare ?P (Rename os tmp path) (\<lambda>_. ?Q) (\<lambda>e. untouched path before)"
      by (rule hoare_Rename [OF os st]) (use tmp(2) in \<open>auto simp: own_file_def intro: replace_untouched\<close>)
    then have r: "hoare ?P (io_bind (Rename os tmp path) (\<lambda>_. io_return x)) (\<lambda>x. ?Q) (\<lambda>e. untouched path before)"
      by (rule hoare_bind) (rule hoare_return)
    have check: "hoare ?P (case c of Inr info \<Rightarrow> io_assert (plain info) msg
          | Inl e \<Rightarrow> if e \<noteq> errNotExist then io_of (Inl e) else io_return ())
        (\<lambda>_. ?P) (\<lambda>e. untouched path before)" for c msg
      by (cases c) (auto simp: hoare_def io_assert_def io_return_def io_fail_def io_of_def)
    show ?thesis
      by (rule hoare_pre [OF hoare_try_same [OF hoare_conseq [OF hoare_Lstat [OF os st]] hoare_bind [OF check r]]]) auto
  qed
  done

lemma hoare_publish_state:
  assumes os: "polite os" and tmp: "own_name tmp" "tmp \<noteq> path"
  shows "hoare (\<lambda>s. untouched path before s \<and> own_file tmp i [] s) (publish_state os dir path data (i, tmp))
    (\<lambda>_ s. \<exists>i. replaced path before i data s \<and> (idle os \<longrightarrow> names (disk s) path = Some i)) (\<lambda>e s. untouched path before s \<or> (\<exists>i. replaced path before i data s))"
  unfolding publish_state_def snd_conv
proof (rule hoare_try [OF hoare_stage_state [OF os tmp]])
  let ?Q = "\<lambda>s. replaced path before i data s \<and> (idle os \<longrightarrow> names (disk s) path = Some i)"
  fix x
  have st: "settled os ?Q" by (intro settled_rules settled_replaced os)
  have sync: "hoare ?Q (syncDirectory os dir) (\<lambda>_ s. \<exists>i. replaced path before i data s \<and> (idle os \<longrightarrow> names (disk s) path = Some i)) (\<lambda>e s. untouched path before s \<or> (\<exists>i. replaced path before i data s))"
    by (rule hoare_conseq [OF hoare_syncDirectory [OF os st]]) auto
  show "hoare ?Q
    (case Inr x of Inl e \<Rightarrow> discard os tmp (Inl e)
       | Inr staged \<Rightarrow>
           io_try (Lstat os path) (\<lambda>adopted.
           io_bind (io_assert (case adopted of Inl _ \<Rightarrow> False | Inr a \<Rightarrow> plain a \<and> SameFile staged a)
              ''update state adoption identity changed'') (\<lambda>_.
           syncDirectory os dir)))
    (\<lambda>_ s. \<exists>i. replaced path before i data s \<and> (idle os \<longrightarrow> names (disk s) path = Some i)) (\<lambda>e s. untouched path before s \<or> (\<exists>i. replaced path before i data s))"
    unfolding sum.case
    by (rule hoare_try_same [OF hoare_conseq [OF hoare_Lstat [OF os st]]]) (auto intro: seq_assert sync)
next
  fix e :: goerror
  have "hoare (untouched path before) (Remove os tmp) (\<lambda>_. untouched path before) (\<lambda>_. untouched path before)"
    by (rule hoare_Remove [OF os settled_untouched]) (use tmp(2) in \<open>auto intro: untouched_add\<close>)
  then show "hoare (untouched path before)
    (case Inl e of Inl e \<Rightarrow> discard os tmp (Inl e)
       | Inr staged \<Rightarrow>
           io_try (Lstat os path) (\<lambda>adopted.
           io_bind (io_assert (case adopted of Inl _ \<Rightarrow> False | Inr a \<Rightarrow> plain a \<and> SameFile staged a)
              ''update state adoption identity changed'') (\<lambda>_.
           syncDirectory os dir)))
    (\<lambda>_ s. \<exists>i. replaced path before i data s \<and> (idle os \<longrightarrow> names (disk s) path = Some i)) (\<lambda>e s. untouched path before s \<or> (\<exists>i. replaced path before i data s))"
    unfolding sum.case discard_def
    by (rule hoare_try_same) (auto intro!: hoare_pre [OF hoare_of])
qed

lemma hoare_SaveState:
  assumes os: "polite os" and path: "\<not> own_name path" "path_Dir path \<noteq> path"
  shows "hoare (untouched path before) (SaveState ext os path st)
    (\<lambda>_ s. \<exists>data i. state_text ext st = Inr data \<and> replaced path before i data s \<and> (idle os \<longrightarrow> names (disk s) path = Some i))
    (\<lambda>e s. untouched path before s \<or> (\<exists>data i. state_text ext st = Inr data \<and> replaced path before i data s))"
  (is "hoare ?P _ ?Q ?E")
proof -
  let ?d = "path_Dir path"
  let ?R = "\<lambda>(i, tmp) s. (own_name tmp \<and> tmp \<noteq> path) \<and> untouched path before s \<and> own_file tmp i [] s"
  have mk: "hoare ?P (MkdirAll os ?d 448) (\<lambda>_. ?P) ?E"
    by (rule hoare_MkdirAll [OF os settled_untouched]) (use path(2) in \<open>auto intro!: untouched_creates [OF _ ancestor_shorter]\<close>)
  have trusted: "hoare ?P (if windows os then io_return ()
      else io_try (Lstat os ?d) (\<lambda>r. io_assert (case r of Inl _ \<Rightarrow> False | Inr i \<Rightarrow> IKind i = Directory) msg)) (\<lambda>_. ?P) ?E" for msg
    by (auto intro!: hoare_return hoare_try_same [OF hoare_conseq [OF hoare_Lstat [OF os settled_untouched]]]
        hoare_pre [OF hoare_assert])
  have temp: "hoare ?P (CreateTemp os Regular 384 ?d ''.router-vpn-update-state-'') ?R ?E"
  proof (rule hoare_CreateTemp [OF os settled_untouched])
    fix s p t
    assume a: "untouched path before s" "p = ?d @ CHR ''/'' # ''.router-vpn-update-state-'' @ temp_name os t"
    have p: "own_name p" using own_temp [of ?d "''state-'' @ temp_name os t"] unfolding a(2) by simp
    then have q: "p \<noteq> path" using path(1) by blast
    show "?R (next_inode (disk s), p) (s\<lparr>disk := add_node p \<lparr>NKind = Regular, NPerm = 384, Content = []\<rparr> (disk s),
         effects := effects s @ [(p, None, Some (next_inode (disk s)))]\<rparr>)"
      using untouched_add [OF a(1), of "(p, None, Some (next_inode (disk s)))"] p q
      by (simp add: own_file_def add_node_def staged_node_def)
  qed simp
  have publish: "hoare (?R it) (publish_state os ?d path data it) ?Q ?E" if d: "state_text ext st = Inr data" for data it
  proof (cases it)
    case (Pair i tmp)
    have "hoare (\<lambda>s. untouched path before s \<and> own_file tmp i [] s) (publish_state os ?d path data (i, tmp)) ?Q ?E"
      if "own_name tmp \<and> tmp \<noteq> path"
      by (rule hoare_conseq [OF hoare_publish_state [OF os conjunct1 [OF that] conjunct2 [OF that], where before = before and data = data]])
        (use d in blast)+
    then show ?thesis unfolding Pair prod.case by (rule hoare_given)
  qed
  show ?thesis
    unfolding SaveState_def Let_def
    apply (rule seq_of, blast)
    apply (rule hoare_bind [OF mk])
    apply (rule hoare_bind [OF trusted])
    apply (rule seq_of, blast)
    apply (rule hoare_bind [OF temp])
    apply (rule publish)
    apply assumption
    done
qed

text \<open>
  C23. Saving the state is atomic: either the directory entry of the state is left alone, and then an error is
  reported, or its only change is that it names one new private regular file that holds the whole text of the
  state. This holds whatever other processes do and whichever calls fail; with no other process acting a
  successful save leaves the path naming that file.
\<close>

theorem save_state_atomic:
  assumes "polite os" "fresh_disk (disk s)" "\<not> own_name path" "path_Dir path \<noteq> path"
    and "SaveState ext os path st s = (r, s')"
  shows "(\<exists>e new. r = Inl e \<and> effects s' = effects s @ new \<and> (\<forall>x \<in> set new. fst x \<noteq> path))
    \<or> (\<exists>data i new old. state_text ext st = Inr data
         \<and> nodes (disk s') i = Some \<lparr>NKind = Regular, NPerm = 384, Content = data\<rparr>
         \<and> effects s' = effects s @ new \<and> filter (\<lambda>x. fst x = path) new = [(path, old, Some i)]
         \<and> (r = Inr () \<and> idle os \<longrightarrow> names (disk s') path = Some i))"
proof -
  have p: "untouched path (effects s) s" by (simp add: untouched_def)
  note h = hoareD [OF hoare_SaveState [OF assms(1,3,4)] assms(2) p assms(5)]
  show ?thesis
  proof (cases r)
    case (Inl e)
    then show ?thesis using h unfolding untouched_def replaced_def staged_node_def by fastforce
  next
    case (Inr u)
    then show ?thesis using h unfolding replaced_def staged_node_def by auto
  qed
qed

section \<open>Verified removal\<close>

text \<open>
  Since \<open>before\<close> the code never replaced an entry at \<open>path\<close>, and it took no inode but \<open>i\<close> away from it.
\<close>

definition hist :: "string \<Rightarrow> effect list \<Rightarrow> nat option \<Rightarrow> fsys \<Rightarrow> bool" where
  "hist path before i s \<longleftrightarrow> (\<exists>new. effects s = before @ new
     \<and> (\<forall>(p, b, c) \<in> set new. p = path \<longrightarrow> b = None \<or> (b = i \<and> c = None)))"

definition seen :: "effect list \<Rightarrow> effect \<Rightarrow> fsys \<Rightarrow> bool" where
  "seen before x s \<longleftrightarrow> (\<exists>new. effects s = before @ new \<and> x \<in> set new)"

lemma hist_add:
  "hist path before i s \<Longrightarrow> p \<noteq> path \<or> b = None \<or> (b = i \<and> c = None) \<Longrightarrow>
   hist path before i (s\<lparr>disk := d, effects := effects s @ [(p, b, c)]\<rparr>)"
  unfolding hist_def by (elim exE conjE) (rule exI [of _ "_ @ [(p, b, c)]"], auto)

lemma seen_add: "seen before x s \<Longrightarrow> seen before x (s\<lparr>disk := d, effects := effects s @ [y]\<rparr>)"
  by (auto simp: seen_def)

lemma seen_new: "hist path before i s \<Longrightarrow> seen before x (s\<lparr>disk := d, effects := effects s @ [x]\<rparr>)"
  by (auto simp: seen_def hist_def)

lemma settled_hist: "settled os (hist path before i)" "settled os (seen before x)"
  by (simp_all add: settled_def hist_def seen_def)

text \<open>The inode waits in the tomb, or it was put back, or it was removed as verified.\<close>

definition held :: "string \<Rightarrow> effect list \<Rightarrow> string \<Rightarrow> nat \<Rightarrow> fsys \<Rightarrow> bool" where
  "held path before tomb i s \<longleftrightarrow> hist path before (Some i) s \<and> seen before (path, Some i, None) s \<and> names (disk s) tomb = Some i"

definition returned :: "string \<Rightarrow> effect list \<Rightarrow> nat \<Rightarrow> fsys \<Rightarrow> bool" where
  "returned path before i s \<longleftrightarrow> hist path before (Some i) s \<and> seen before (path, None, Some i) s"

definition gone :: "os \<Rightarrow> string \<Rightarrow> string \<Rightarrow> effect list \<Rightarrow> nat \<Rightarrow> fsys \<Rightarrow> bool" where
  "gone os want path before i s \<longleftrightarrow> hist path before (Some i) s \<and> seen before (path, Some i, None) s \<and> digest_ok os want i s"

definition kept :: "string \<Rightarrow> effect list \<Rightarrow> string \<Rightarrow> nat \<Rightarrow> fsys \<Rightarrow> bool" where
  "kept path before tomb i s \<longleftrightarrow> held path before tomb i s \<or> returned path before i s"

lemma settled_held: "polite os \<Longrightarrow> own_name tomb \<Longrightarrow> settled os (held path before tomb i)"
  unfolding held_def by (intro settled_conj settled_hist settled_own)

lemma settled_returned: "settled os (returned path before i)"
  unfolding returned_def by (intro settled_conj settled_hist)

lemma settled_disj: "settled os P \<Longrightarrow> settled os Q \<Longrightarrow> settled os (\<lambda>s. P s \<or> Q s)"
  by (auto simp: settled_def)

lemma settled_kept: "polite os \<Longrightarrow> own_name tomb \<Longrightarrow> settled os (kept path before tomb i)"
  unfolding kept_def by (intro settled_disj settled_held settled_returned)

lemma settled_gone: "polite os \<Longrightarrow> settled os (gone os want path before i)"
  unfolding gone_def by (intro settled_conj settled_hist settled_digest_ok)

lemma hoare_restore:
  assumes os: "polite os" "\<not> windows os" and t: "own_name tomb" "tomb \<noteq> path"
  shows "hoare (held path before tomb i) (restoreArtifactNoClobber os tomb path moved)
    (\<lambda>_. returned path before i) (\<lambda>e. kept path before tomb i)"
proof -
  let ?B = "\<lambda>s. held path before tomb i s \<and> returned path before i s"
  let ?E = "\<lambda>e :: goerror. kept path before tomb i"
  have st: "settled os ?B" by (intro settled_conj settled_held settled_returned os t)
  have link: "hoare (held path before tomb i) (Link os tomb path) (\<lambda>_. ?B) ?E"
    by (rule hoare_Link [OF os(1) settled_held [OF os(1) t(1)]])
      (use t(2) in \<open>auto simp: held_def returned_def kept_def intro: hist_add seen_add seen_new\<close>)
  have remove: "hoare ?B (Remove os tomb) (\<lambda>_. returned path before i) ?E"
    by (rule hoare_Remove [OF os(1) st]) (use t(2) in \<open>auto simp: held_def returned_def kept_def intro: hist_add seen_add\<close>)
  show ?thesis
    unfolding restoreArtifactNoClobber_def
    apply (rule seq_try_Lstat [OF os(1) settled_held [OF os(1) t(1)]])
     apply (simp add: io_fail_of)
     apply (rule hoare_pre [OF hoare_of])
     apply (simp add: kept_def)
    subgoal for e
      apply (cases "e = errNotExist")
       apply (simp add: os(2))
       apply (rule hoare_bind [OF link])
       apply (rule seq_try_Lstat [OF os(1) st])
        apply (rule seq_assert)
         apply (simp add: kept_def)
        apply (rule hoare_pre [OF remove], blast)
       apply (rule seq_assert)
        apply (simp add: kept_def)
       apply simp
      apply simp
      apply (rule hoare_pre [OF hoare_of])
      apply (simp add: kept_def)
      done
    done
qed

lemma hoare_restore_tomb:
  assumes os: "polite os" "\<not> windows os" and t: "own_name tomb" "tomb \<noteq> path" "tombDir \<noteq> path"
  shows "hoare (held path before tomb i) (restore_tomb os tombDir tomb path moved cause) Q (\<lambda>e. kept path before tomb i)"
proof -
  have dir: "hoare (returned path before i) (Remove os tombDir) (\<lambda>_. returned path before i) (\<lambda>_. returned path before i)"
    by (rule hoare_Remove [OF os(1) settled_returned]) (use t(3) in \<open>auto simp: returned_def intro: hist_add seen_add\<close>)
  show ?thesis
    unfolding restore_tomb_def io_fail_of
    apply (rule hoare_try [OF hoare_restore [OF os t(1,2)]])
     apply (simp only: sum.case)
     apply (rule hoare_try_same [OF dir])
     apply (rule hoare_pre [OF hoare_of])
     apply (simp add: kept_def)
    apply (simp only: sum.case)
    apply (rule hoare_pre [OF hoare_of])
    apply simp
    done
qed

lemma hoare_finish_removal:
  assumes os: "polite os" "\<not> windows os" and t: "own_name tomb" "tomb \<noteq> path" "tombDir \<noteq> path"
  shows "hoare (held path before tomb i) (finish_removal os tombDir tomb path want info)
    (\<lambda>_. gone os want path before i) (\<lambda>e. kept path before tomb i)"
proof -
  let ?H = "held path before tomb i"
  let ?Q = "\<lambda>_ :: unit. gone os want path before i"
  let ?E = "\<lambda>e :: goerror. kept path before tomb i"
  note st = settled_held [OF os(1) t(1)]
  have undo: "hoare ?H (restore_tomb os tombDir tomb path moved cause) ?Q ?E" for moved cause
    by (rule hoare_restore_tomb [OF os t])
  have dir: "hoare (gone os want path before i) (Remove os tombDir) (\<lambda>_. gone os want path before i) (\<lambda>_. gone os want path before i)"
    by (rule hoare_Remove [OF os(1) settled_gone [OF os(1)]]) (use t(3) in \<open>auto simp: gone_def digest_ok_def intro: hist_add seen_add\<close>)
  have delete: "hoare (\<lambda>s. ?H s \<and> digest_ok os want i s)
     (io_try (Remove os tomb) (\<lambda>r. case r of
         Inl _ \<Rightarrow> restore_tomb os tombDir tomb path moved cause
       | Inr _ \<Rightarrow> io_try (Remove os tombDir) (\<lambda>_. io_return ()))) ?Q ?E" for moved cause
  proof (rule hoare_try [where R = "?Q" and ?E1.0 = "\<lambda>_. ?H"])
    show "hoare (\<lambda>s. ?H s \<and> digest_ok os want i s) (Remove os tomb) ?Q (\<lambda>_. ?H)"
      by (rule hoare_Remove [OF os(1) settled_conj [OF st settled_digest_ok [OF os(1)]]])
        (use t(2) in \<open>auto simp: held_def gone_def digest_ok_def intro: hist_add seen_add\<close>)
    show "hoare (gone os want path before i) (case Inr x of
         Inl _ \<Rightarrow> restore_tomb os tombDir tomb path moved cause
       | Inr _ \<Rightarrow> io_try (Remove os tombDir) (\<lambda>_. io_return ())) ?Q ?E" for x
      unfolding sum.case by (rule hoare_try_same [OF dir]) (rule hoare_return)
    show "hoare ?H (case Inl e of
         Inl _ \<Rightarrow> restore_tomb os tombDir tomb path moved cause
       | Inr _ \<Rightarrow> io_try (Remove os tombDir) (\<lambda>_. io_return ())) ?Q ?E" for e
      unfolding sum.case by (rule undo)
  qed
  show ?thesis
    unfolding finish_removal_def
    apply (rule hoare_bind [OF hoare_conseq [OF hoare_Lstat [OF os(1) st]]])
       apply assumption
      apply (erule conjunct1)
     apply (simp add: kept_def)
    subgoal for moved
      apply (simp only: split: if_split)
      apply (intro conjI impI)
       apply (rule undo)
      apply (rule hoare_try [OF hoare_fileMatches [OF os(1) st]])
      subgoal for ok
      proof (cases "ok = True")
        case True
        have "?H s \<and> (\<exists>j. file_at os tomb j s \<and> digest_ok os want j s) \<Longrightarrow> ?H s \<and> digest_ok os want i s" for s
          using t(1) by (auto simp: file_at_def held_def)
        then show ?thesis unfolding True by (auto intro: hoare_pre [OF delete])
      next
        case False
        then show ?thesis by (auto intro: hoare_pre [OF undo])
      qed
      apply (auto intro: undo)
      done
    done
qed

lemma Clean_not_Nil: "path_Clean p \<noteq> []"
  by (auto simp: path_Clean_def Let_def)

lemma tomb_name:
  assumes "CHR ''/'' \<notin> set v"
  shows "own_name (path_Join (path_Dir p @ CHR ''/'' # ''.router-vpn-update-remove-'' @ v) ''artifact'')"
proof -
  let ?n = "''.router-vpn-update-remove-'' @ v"
  let ?d = "path_Dir p"
  have n: "normal_name ?n" using assms by (simp add: normal_name_def)
  have a: "normal_name ''artifact''" by (simp add: normal_name_def)
  have d: "?d \<noteq> []" unfolding path_Dir_def by (rule Clean_not_Nil)
  obtain u where u: "path_Clean (?d @ CHR ''/'' # ?n) = u @ ?n"
    using Join_clean [OF n, of ?d] d unfolding path_Join_def
    by (metis append_Cons append_Nil append_assoc)
  have "path_Join (?d @ CHR ''/'' # ?n) ''artifact'' = u @ ?n @ CHR ''/'' # ''artifact''"
    using Join_clean [OF a, of "?d @ CHR ''/'' # ?n"] unfolding u by (auto simp: append_eq_Cons_conv)
  then show ?thesis unfolding own_name_def by (intro exI [of _ u] exI [of _ "''remove-'' @ v @ CHR ''/'' # ''artifact''"]) simp
qed

lemma hoare_RemoveVerified:
  assumes os: "polite os" "\<not> windows os" "plain_temp_names os" and path: "\<not> own_name path" and p: "path = path_Clean path0"
  shows "hoare (hist path before None) (RemoveVerifiedArtifact os path0 want0)
    (\<lambda>_ s. \<exists>i. gone os (ToLower (TrimSpace want0)) path before i s)
    (\<lambda>e s. hist path before None s \<or> (\<exists>i t. own_name t \<and> kept path before t i s))"
  (is "hoare ?P _ ?Q ?E")
proof -
  let ?want = "ToLower (TrimSpace want0)"
  let ?dir = "path_Dir path @ CHR ''/'' # ''.router-vpn-update-remove-''"
  have stat: "hoare ?P (Lstat os path) (\<lambda>_. ?P) (\<lambda>_. ?P)"
    by (rule hoare_conseq [OF hoare_Lstat [OF os(1) settled_hist(1)]]) auto
  have first: "hoare ?P (Lstat os path) (\<lambda>_. ?P) ?E" by (rule hoare_conseq [OF stat]) blast+
  have matches: "hoare ?P (fileMatchesSHA256 os path ?want) (\<lambda>_. ?P) (\<lambda>_. ?P)"
    by (rule hoare_conseq [OF hoare_fileMatches [OF os(1) settled_hist(1)]]) blast+
  let ?R = "\<lambda>(i, d) s. (\<exists>v. d = ?dir @ v \<and> CHR ''/'' \<notin> set v) \<and> ?P s"
  have temp: "hoare ?P (CreateTemp os Directory 448 (path_Dir path) ''.router-vpn-update-remove-'') ?R ?E"
    by (rule hoare_CreateTemp [OF os(1) settled_hist(1)])
      (use os(3) in \<open>auto simp: plain_temp_names_def intro!: hist_add\<close>)
  have finish: "hoare (?R it) (case it of (i, tombDir) \<Rightarrow>
      io_try (if windows os then io_return () else Chmod os i 448) (\<lambda>c.
      case c of
        Inl e \<Rightarrow> discard os tombDir (Inl e)
      | Inr _ \<Rightarrow>
          (let tomb = path_Join tombDir ''artifact'' in
           io_try (Rename os path tomb) (\<lambda>r.
             case r of
               Inl e \<Rightarrow> discard os tombDir (Inl e)
             | Inr _ \<Rightarrow> finish_removal os tombDir tomb path ?want info)))) ?Q ?E" for it info
  proof (cases it)
    case (Pair i d)
    show ?thesis unfolding Pair prod.case
    proof (rule hoare_given, elim exE conjE)
      fix v assume v: "d = ?dir @ v" "CHR ''/'' \<notin> set v"
      let ?tomb = "path_Join d ''artifact''"
      have t: "own_name ?tomb" using tomb_name [OF v(2), of path] unfolding v(1) by simp
      have "own_name d" using own_temp [of "path_Dir path" "''remove-'' @ v"] unfolding v(1) by simp
      then have ne: "?tomb \<noteq> path" "d \<noteq> path" using path t by blast+
      have chmod: "hoare ?P (if windows os then io_return () else Chmod os i 448) (\<lambda>_. ?P) (\<lambda>_. ?P)"
        using os(2) by (auto intro!: hoare_Chmod [OF os(1) settled_hist(1)] simp: hist_def)
      have drop: "hoare ?P (discard os d (Inl e)) ?Q ?E" for e
      proof -
        have "hoare ?P (Remove os d) (\<lambda>_. ?P) (\<lambda>_. ?P)"
          by (rule hoare_Remove [OF os(1) settled_hist(1)]) (use ne(2) in \<open>auto intro!: hist_add\<close>)
        then show ?thesis unfolding discard_def
          by (rule hoare_try_same) (auto intro!: hoare_pre [OF hoare_of])
      qed
      have move: "hoare ?P (Rename os path ?tomb) (\<lambda>_ s. \<exists>j. held path before ?tomb j s) (\<lambda>_. ?P)"
      proof (rule hoare_Rename [OF os(1) settled_hist(1) ne(1)])
        fix s :: fsys and j
        assume a: "?P s" "names (disk s) path = Some j"
        let ?s = "s\<lparr>disk := (disk s)\<lparr>names := (names (disk s))(path := None, ?tomb \<mapsto> j)\<rparr>,
              effects := effects s @ [(path, Some j, None), (?tomb, names (disk s) ?tomb, Some j)]\<rparr>"
        have "hist path before (Some j) ?s" "seen before (path, Some j, None) ?s"
          using a(1) ne(1) by (auto simp: hist_def seen_def)
        then show "\<exists>j. held path before ?tomb j ?s" unfolding held_def by auto
      qed
      have finished: "hoare (\<lambda>s. \<exists>j. held path before ?tomb j s) (finish_removal os d ?tomb path ?want info) ?Q ?E"
      proof -
        have "hoare (held path before ?tomb j) (finish_removal os d ?tomb path ?want info) ?Q ?E" for j
          by (rule hoare_conseq [OF hoare_finish_removal [OF os(1,2) t ne]]) (use t in blast)+
        then show ?thesis unfolding hoare_def by blast
      qed
      show "hoare ?P (io_try (if windows os then io_return () else Chmod os i 448) (\<lambda>c.
      case c of
        Inl e \<Rightarrow> discard os d (Inl e)
      | Inr _ \<Rightarrow>
          (let tomb = path_Join d ''artifact'' in
           io_try (Rename os path tomb) (\<lambda>r.
             case r of
               Inl e \<Rightarrow> discard os d (Inl e)
             | Inr _ \<Rightarrow> finish_removal os d tomb path ?want info)))) ?Q ?E"
        unfolding Let_def
        by (rule hoare_try [OF chmod]; simp only: sum.case; rule drop hoare_try [OF move]; simp only: sum.case; rule drop finished)
    qed
  qed
  show ?thesis
    unfolding RemoveVerifiedArtifact_def Let_def p [symmetric]
    apply (rule seq_assert, blast)
    apply (rule hoare_bind [OF first])
    apply (rule seq_assert, blast)
    apply (rule hoare_try_same [OF matches])
    apply (rule seq_assert, blast)
    apply (rule hoare_try_same [OF stat])
    apply (rule seq_assert, blast)
    apply (rule hoare_bind [OF temp])
    apply (rule finish [unfolded Let_def])
    done
qed

text \<open>
  C24. A verified removal never loses a file: on a system with hard links, whatever other processes do and
  whichever calls fail, it takes at most one inode away from the path and never replaces an entry there. When
  it reports success, the inode it took was a regular file with the wanted digest. When it reports an error, an
  inode that it took still has its name in the tomb directory, or was linked back under the path.
\<close>

theorem verified_removal_loses_nothing:
  assumes "polite os" "\<not> windows os" "plain_temp_names os" "fresh_disk (disk s)" "\<not> own_name (path_Clean path)"
    and "RemoveVerifiedArtifact os path want s = (r, s')"
  shows "\<exists>new taken. effects s' = effects s @ new
    \<and> (\<forall>(p, old, now) \<in> set new. p = path_Clean path \<longrightarrow> old = None \<or> (old = taken \<and> now = None))
    \<and> (case r of
         Inr _ \<Rightarrow> (\<exists>i n. taken = Some i \<and> (path_Clean path, Some i, None) \<in> set new \<and> nodes (disk s') i = Some n
           \<and> NKind n = Regular \<and> EqualFold (sha256 os (Content n)) (ToLower (TrimSpace want)))
       | Inl _ \<Rightarrow> (\<forall>i. taken = Some i \<longrightarrow>
           (\<exists>t. own_name t \<and> names (disk s') t = Some i) \<or> (path_Clean path, None, Some i) \<in> set new))"
proof -
  let ?p = "path_Clean path"
  have p: "hist ?p (effects s) None s" by (simp add: hist_def)
  note h = hoareD [OF hoare_RemoveVerified [OF assms(1-3,5) refl] assms(4) p assms(6)]
  show ?thesis
  proof (cases r)
    case (Inl e)
    then have "hist ?p (effects s) None s' \<or> (\<exists>i t. own_name t \<and> kept ?p (effects s) t i s')" using h by simp
    then show ?thesis
    proof (elim disjE exE conjE)
      assume "hist ?p (effects s) None s'"
      then show ?thesis using Inl unfolding hist_def by (intro exI [of _ "drop (length (effects s)) (effects s')"] exI [of _ None]) auto
    next
      fix i t assume "own_name t" "kept ?p (effects s) t i s'"
      then show ?thesis using Inl unfolding kept_def held_def returned_def hist_def seen_def
        by (intro exI [of _ "drop (length (effects s)) (effects s')"] exI [of _ "Some i"]) auto
    qed
  next
    case (Inr u)
    then obtain i where "gone os (ToLower (TrimSpace want)) ?p (effects s) i s'" using h by auto
    then show ?thesis using Inr unfolding gone_def hist_def seen_def digest_ok_def
      by (intro exI [of _ "drop (length (effects s)) (effects s')"] exI [of _ "Some i"]) auto
  qed
qed

text \<open>
  The file name of an artifact cannot leave its directory: it is the cleaned directory followed by one
  element, made of the first sixteen digits of the signed digest, a dash and at most 128 letters, digits,
  dots, dashes and underscores, and it is neither hidden nor a reference to a directory.
\<close>

theorem artifact_path_confined:
  assumes "Artifact_Validate ext opts a = Inr ()"
  shows "\<exists>name base. artifact_path dir a = (if dir = [] \<or> path_Clean dir = ''.'' then name
      else if path_Clean dir = ''/'' then CHR ''/'' # name else path_Clean dir @ CHR ''/'' # name)
    \<and> name = ToLower (take 16 (SHA256 a)) @ CHR ''-'' # base \<and> base \<noteq> [] \<and> int (length base) \<le> 128
    \<and> list_all token_char name \<and> hd name \<noteq> CHR ''.'' \<and> CHR ''/'' \<notin> set name"
proof -
  have hex: "isHex (SHA256 a) 64" using Artifact_Validate_ok [OF assms] by (simp add: valid_artifact_def)
  note n = artifact_name_safe [OF hex]
  have "artifact_base a \<noteq> [] \<and> int (length (artifact_base a)) \<le> 128"
    using sanitizeFilename_tokens by (simp add: artifact_base_def Let_def)
  moreover have "CHR ''/'' \<notin> set (artifact_name a)" using n(3) by (simp add: normal_name_def)
  ultimately show ?thesis
    using n(1,2) unfolding artifact_path_name Join_clean [OF n(3)]
    by (intro exI [of _ "artifact_name a"] exI [of _ "artifact_base a"]) (simp add: artifact_name_def)
qed

section \<open>Windows\<close>

text \<open>
  On Windows the adoption of a download does replace a file that another process created at the final
  path: \<open>os.Rename\<close> replaces an existing file there too, so with no fault and nobody else acting the
  adoption succeeds and the other file has lost its name.
\<close>

theorem windows_adoption_clobbers:
  assumes "windows os" "idle os" "\<forall>t. \<not> faults os t" "tmp \<noteq> final"
    and "names (disk s) tmp = Some i" "nodes (disk s) i = Some n" "NKind n = Regular"
    and "names (disk s) final = Some j" "nodes (disk s) j = Some m" "NKind m = Regular"
  shows "\<exists>s'. adoptNoClobber os tmp final (node_info i n) s = (Inr (), s')
    \<and> (final, Some j, Some i) \<in> set (effects s') \<and> names (disk s') final = Some i"
proof -
  have p: "plain (node_info i n)" using assms(7) by (simp add: plain_def node_info_def)
  show ?thesis
    using assms p
    by (simp add: adoptNoClobber_def io_bind_def io_try_def io_assert_def io_return_def io_fail_def Rename_def Lstat_def syscall_def
        Let_def idle_def is_directory_def inode_info_def SameFile_def)
qed

section \<open>A run of each operation\<close>

definition demo_os :: os where
  "demo_os = \<lparr>windows = False, faults = (\<lambda>_. False), others = (\<lambda>_ d. d), temp_name = (\<lambda>_. ''1''),
     sha256 = (\<lambda>_. replicate 64 CHR ''a''),
     http_get = (\<lambda>_. Inr \<lparr>StatusCode = 200, ContentLength = -1, Body = ''0123456789'', BodyBroken = False\<rparr>)\<rparr>"

definition empty_fs :: fsys where
  "empty_fs = \<lparr>disk = \<lparr>names = (\<lambda>_. None), nodes = (\<lambda>_. None), next_inode = 0\<rparr>, turn = 0, effects = []\<rparr>"

lemma demo_os_polite: "idle demo_os" "polite demo_os" "\<not> windows demo_os" "plain_temp_names demo_os" "fresh_disk (disk empty_fs)"
proof -
  show "idle demo_os" by (simp add: idle_def demo_os_def)
  then show "polite demo_os" by (rule idle_polite)
  show "\<not> windows demo_os" by (simp add: demo_os_def)
  show "plain_temp_names demo_os" by (simp add: plain_temp_names_def demo_os_def)
  show "fresh_disk (disk empty_fs)" by (simp add: fresh_disk_def empty_fs_def)
qed

definition demo_download :: "DownloadResult res \<times> fsys" where
  "demo_download = DownloadArtifactDetailed demo_ext demo_os (demo_artifact ''linux'') ''/u'' empty_fs"

lemma demo_downloaded: "fst demo_download = Inr \<lparr>DPath = ''/u/aaaaaaaaaaaaaaaa-1'', Created = True\<rparr>"
  by code_simp

theorem download_delivers_verified_witness:
  "\<exists>i n. nodes (disk (snd demo_download)) i = Some n \<and> NKind n = Regular \<and> EqualFold (sha256 demo_os (Content n)) (replicate 64 CHR ''a'')
     \<and> names (disk (snd demo_download)) (artifact_path ''/u'' (demo_artifact ''linux'')) = Some i \<and> int (length (Content n)) = 10"
proof -
  have r: "DownloadArtifactDetailed demo_ext demo_os (demo_artifact ''linux'') ''/u'' empty_fs
      = (Inr \<lparr>DPath = ''/u/aaaaaaaaaaaaaaaa-1'', Created = True\<rparr>, snd demo_download)"
    by (metis demo_downloaded demo_download_def surjective_pairing)
  show ?thesis
    using download_delivers_verified [OF demo_os_polite(2-5) r] idle_keeps [OF demo_os_polite(1)] by (auto simp: demo_artifact_def)
qed

definition demo_state :: UState where
  "demo_state = state0\<lparr>SSchema := 1, SChannel := ''stable''\<rparr>"

definition demo_save :: "unit res \<times> fsys" where
  "demo_save = SaveState demo_ext demo_os ''/u/s'' demo_state empty_fs"

lemma demo_saved: "fst demo_save = Inr ()" "path_Dir ''/u/s'' \<noteq> ''/u/s''"
  by code_simp+

lemma not_own: "length p < 19 \<Longrightarrow> \<not> own_name p"
  by (auto simp: own_name_def)

lemma own_name_dot: "own_name p \<Longrightarrow> CHR ''.'' \<in> set p"
  by (auto simp: own_name_def)

theorem save_state_atomic_witness:
  "\<exists>data i. state_text demo_ext demo_state = Inr data \<and> names (disk (snd demo_save)) ''/u/s'' = Some i
     \<and> nodes (disk (snd demo_save)) i = Some \<lparr>NKind = Regular, NPerm = 384, Content = data\<rparr>"
proof -
  have r: "SaveState demo_ext demo_os ''/u/s'' demo_state empty_fs = (Inr (), snd demo_save)"
    by (metis demo_saved(1) demo_save_def surjective_pairing)
  show ?thesis
    using save_state_atomic [OF demo_os_polite(2,5) not_own demo_saved(2) r] demo_os_polite(1) by auto
qed

definition demo_remove :: "unit res \<times> fsys" where
  "demo_remove = RemoveVerifiedArtifact demo_os ''/u/aaaaaaaaaaaaaaaa-1'' (replicate 64 CHR ''a'')
     (empty_fs\<lparr>disk := add_node ''/u/aaaaaaaaaaaaaaaa-1'' \<lparr>NKind = Regular, NPerm = 384, Content = ''x''\<rparr> (disk empty_fs)\<rparr>)"

lemma demo_removed: "fst demo_remove = Inr ()" "path_Clean ''/u/aaaaaaaaaaaaaaaa-1'' = ''/u/aaaaaaaaaaaaaaaa-1''"
  by code_simp+

theorem verified_removal_loses_nothing_witness:
  "\<exists>new i n. effects (snd demo_remove) = new \<and> (''/u/aaaaaaaaaaaaaaaa-1'', Some i, None) \<in> set new
     \<and> nodes (disk (snd demo_remove)) i = Some n \<and> NKind n = Regular"
proof -
  let ?p = "''/u/aaaaaaaaaaaaaaaa-1''"
  let ?s = "empty_fs\<lparr>disk := add_node ?p \<lparr>NKind = Regular, NPerm = 384, Content = ''x''\<rparr> (disk empty_fs)\<rparr>"
  have r: "RemoveVerifiedArtifact demo_os ?p (replicate 64 CHR ''a'') ?s = (Inr (), snd demo_remove)"
    by (metis demo_removed(1) demo_remove_def surjective_pairing)
  have f: "fresh_disk (disk ?s)" using fresh_add [OF demo_os_polite(5)] by simp
  have o: "\<not> own_name (path_Clean ?p)" unfolding demo_removed(2) by (auto dest: own_name_dot)
  show ?thesis
    using verified_removal_loses_nothing [OF demo_os_polite(2-4) f o r] unfolding demo_removed(2) by (auto simp: empty_fs_def)
qed

theorem artifact_path_confined_witness:
  "\<exists>name. artifact_path ''/u'' (demo_artifact ''linux'') = ''/u/'' @ name \<and> CHR ''/'' \<notin> set name"
proof -
  have v: "Artifact_Validate demo_ext demo_opts (demo_artifact ''linux'') = Inr ()" by code_simp
  have "path_Clean ''/u'' = ''/u''" by code_simp
  then show ?thesis using artifact_path_confined [OF v, of "''/u''"] by auto
qed

theorem windows_adoption_clobbers_witness:
  "\<exists>s'. adoptNoClobber (demo_os\<lparr>windows := True\<rparr>) ''t'' ''f'' (node_info 0 (staged_node ''new''))
      \<lparr>disk = \<lparr>names = [''t'' \<mapsto> 0, ''f'' \<mapsto> 1], nodes = [0 \<mapsto> staged_node ''new'', 1 \<mapsto> staged_node ''old''], next_inode = 2\<rparr>,
        turn = 0, effects = []\<rparr> = (Inr (), s') \<and> (''f'', Some 1, Some 0) \<in> set (effects s')"
proof -
  let ?s = "\<lparr>disk = \<lparr>names = [''t'' \<mapsto> 0, ''f'' \<mapsto> 1], nodes = [0 \<mapsto> staged_node ''new'', 1 \<mapsto> staged_node ''old''], next_inode = 2\<rparr>,
        turn = 0, effects = []\<rparr>"
  have "windows (demo_os\<lparr>windows := True\<rparr>)" "idle (demo_os\<lparr>windows := True\<rparr>)" "\<forall>t. \<not> faults (demo_os\<lparr>windows := True\<rparr>) t"
    by (simp_all add: idle_def demo_os_def)
  then show ?thesis
    using windows_adoption_clobbers [of "demo_os\<lparr>windows := True\<rparr>" "''t''" "''f''" ?s 0 "staged_node ''new''" 1 "staged_node ''old''"]
    by (auto simp: staged_node_def)
qed

end
