(* ===== verification/ArtifactDir.thy ===== *)
theory ArtifactDir
  imports UpdateStoreProps
begin

text \<open>
  \<^verbatim>\<open>src/internal/updatepolicy/artifact_directory.go\<close>: the private directory of staged packages and the check
  that ties a saved path to that directory and to the digest it was verified with. The working directory of
  the process is a parameter, \<open>cwd\<close>; paths are in slash form.
\<close>

section \<open>The code\<close>

text \<open>\<open>filepath.Abs\<close>; the working directory may be unknown.\<close>

definition path_Abs :: "string res \<Rightarrow> string \<Rightarrow> string res" where
  "path_Abs cwd p =
     (if p \<noteq> [] \<and> hd p = CHR ''/'' then Inr (path_Clean p)
      else case cwd of Inl e \<Rightarrow> Inl e | Inr wd \<Rightarrow> Inr (path_Join wd p))"

text \<open>\<open>filepath.Rel\<close> of two absolute paths: up from what is left of the base, then down to the target.\<close>

definition path_elems :: "string \<Rightarrow> string list" where
  "path_elems p = filter (\<lambda>e. e \<noteq> []) (Split1 p CHR ''/'')"

fun strip_common :: "string list \<Rightarrow> string list \<Rightarrow> string list \<times> string list" where
  "strip_common (b # bs) (t # ts) = (if b = t then strip_common bs ts else (b # bs, t # ts))"
| "strip_common bs ts = (bs, ts)"

definition path_Rel :: "string \<Rightarrow> string \<Rightarrow> string" where
  "path_Rel base targ =
     (let base = path_Clean base; targ = path_Clean targ in
      if targ = base then ''.''
      else let (up, down) = strip_common (path_elems base) (path_elems targ)
        in join1 (replicate (length up) ''..'' @ down) CHR ''/'')"

text \<open>\<open>filepath.Base\<close>.\<close>

definition path_Base :: "string \<Rightarrow> string" where
  "path_Base p =
     (if p = [] then ''.''
      else let b = mustURLPath (strip_slashes p) in if b = [] then ''/'' else b)"

definition real_directory :: "info res \<Rightarrow> bool" where
  "real_directory r = (case r of Inl _ \<Rightarrow> False | Inr i \<Rightarrow> \<not> (IKind i = Symlink \<or> IKind i \<noteq> Directory))"

definition same_directory :: "info res \<Rightarrow> info \<Rightarrow> info res \<Rightarrow> bool" where
  "same_directory before opened after =
     (case (before, after) of (Inr b, Inr a) \<Rightarrow> SameFile b opened \<and> SameFile opened a | _ \<Rightarrow> False)"

definition EnsurePrivateArtifactDirectory :: "os \<Rightarrow> string \<Rightarrow> unit io" where
  "EnsurePrivateArtifactDirectory os dir0 =
     (let raw = TrimSpace dir0; dir = path_Clean raw in
      io_bind (io_assert (raw \<noteq> []) ''update artifact directory is required'') (\<lambda>_.
      io_bind (MkdirAll os dir 448) (\<lambda>_.
      io_try (Lstat os dir) (\<lambda>before.
      io_bind (io_assert (real_directory before) ''update artifact directory must be a real non-symlink directory'') (\<lambda>_.
      io_bind (io_assert (windows os \<or> (case before of Inl _ \<Rightarrow> False | Inr b \<Rightarrow> IPerm b mod 64 = 0))
         ''update artifact directory permissions must be private'') (\<lambda>_.
      io_bind (Open os dir) (\<lambda>f.
      io_bind (Fstat os f) (\<lambda>opened.
      io_try (Lstat os dir) (\<lambda>after.
      io_assert (real_directory after \<and> same_directory before opened after)
         ''update artifact directory identity changed during validation'')))))))))"

definition owned_rel :: "string \<Rightarrow> bool" where
  "owned_rel rel \<longleftrightarrow> \<not> (rel = ''.'' \<or> (rel \<noteq> [] \<and> hd rel = CHR ''/'') \<or> path_Dir rel \<noteq> ''.'' \<or> rel = ''..''
     \<or> HasPrefix rel ''../'')"

definition ValidateOwnedArtifactPath :: "os \<Rightarrow> string res \<Rightarrow> string \<Rightarrow> string \<Rightarrow> string \<Rightarrow> unit io" where
  "ValidateOwnedArtifactPath os cwd dir path digest0 =
     (if TrimSpace path = [] then io_return ()
      else io_bind (EnsurePrivateArtifactDirectory os dir) (\<lambda>_.
        let digest = ToLower (TrimSpace digest0) in
        io_bind (io_assert (isHex digest 64) ''owned update artifact requires a valid SHA-256 digest'') (\<lambda>_.
        io_bind (io_of (path_Abs cwd (path_Clean dir))) (\<lambda>dirAbs.
        io_bind (io_of (path_Abs cwd (path_Clean path))) (\<lambda>pathAbs.
        io_bind (io_assert (owned_rel (path_Rel dirAbs pathAbs))
           ''staged update artifact is outside the configured private update directory'') (\<lambda>_.
        io_assert (HasPrefix (ToLower (path_Base pathAbs)) (take 16 digest @ ''-''))
           ''staged update artifact filename is not bound to its verified digest''))))))"

section \<open>Cleaned paths\<close>

text \<open>What is left of a path after cleaning: some steps up, none if it is rooted, and then names.\<close>

definition clean_shape :: "bool \<Rightarrow> string list \<Rightarrow> bool" where
  "clean_shape rooted xs \<longleftrightarrow> (\<exists>k names. xs = replicate k ''..'' @ names \<and> (rooted \<longrightarrow> k = 0) \<and> list_all normal_name names)"

lemma Split1_no_sep: "e \<in> set (Split1 p sep) \<Longrightarrow> sep \<notin> set e"
  by (induction p arbitrary: e) (auto split: if_splits list.splits)

lemma shape_name: "clean_shape r xs \<Longrightarrow> normal_name e \<Longrightarrow> clean_shape r (xs @ [e])"
proof -
  assume "clean_shape r xs" "normal_name e"
  then obtain k ns where "xs = replicate k ''..'' @ ns" "r \<longrightarrow> k = 0" "list_all normal_name (ns @ [e])"
    by (auto simp: clean_shape_def)
  then show ?thesis unfolding clean_shape_def by (intro exI [of _ k] exI [of _ "ns @ [e]"]) simp
qed

lemma shape_pop:
  assumes "clean_shape r (xs @ [e])" "e \<noteq> ''..''"
  shows "clean_shape r xs"
proof -
  obtain k ns where k: "xs @ [e] = replicate k ''..'' @ ns" "r \<longrightarrow> k = 0" "list_all normal_name ns"
    using assms(1) by (auto simp: clean_shape_def)
  show ?thesis
  proof (cases ns rule: rev_cases)
    case Nil
    then have "e \<in> set (replicate k ''..'')" using k(1) by (metis append_Nil2 in_set_conv_decomp)
    then show ?thesis using assms(2) by simp
  next
    case (snoc ms x)
    then have "xs = replicate k ''..'' @ ms" using k(1) by simp
    then show ?thesis using k(2,3) snoc by (auto simp: clean_shape_def)
  qed
qed

lemma shape_up: "clean_shape False xs \<Longrightarrow> xs = [] \<or> last xs = ''..'' \<Longrightarrow> clean_shape False (xs @ [''..''])"
proof -
  assume "clean_shape False xs" and l: "xs = [] \<or> last xs = ''..''"
  then obtain k ns where k: "xs = replicate k ''..'' @ ns" "list_all normal_name ns" by (auto simp: clean_shape_def)
  have "ns = []" using k l by (cases ns rule: rev_cases) (auto simp: normal_name_def)
  then have "xs @ [''..''] = replicate (Suc k) ''..''" using k(1) by (simp add: replicate_append_same)
  then show ?thesis unfolding clean_shape_def by (intro exI [of _ "Suc k"] exI [of _ "[]"]) simp
qed

lemma clean_elems_shape:
  "clean_shape r (rev out) \<Longrightarrow> \<forall>e \<in> set ys. CHR ''/'' \<notin> set e \<Longrightarrow> clean_shape r (clean_elems r out ys)"
proof (induction r out ys rule: clean_elems.induct)
  case (2 r out e es)
  have pop: "out \<noteq> [] \<Longrightarrow> hd out \<noteq> ''..'' \<Longrightarrow> clean_shape r (rev (tl out))"
    using 2(6) shape_pop [of r "rev (tl out)" "hd out"] by (cases out) simp_all
  have up: "\<not> r \<Longrightarrow> out = [] \<or> hd out = ''..'' \<Longrightarrow> clean_shape r (rev out @ [''..''])"
    using 2(6) shape_up [of "rev out"] by (cases r) (simp_all add: last_rev)
  show ?case
    using 2 pop up shape_name [OF 2(6), of e] by (auto simp: normal_name_def)
qed simp

lemma clean_elems_fixed:
  assumes "clean_shape r xs"
  shows "clean_elems r [] xs = xs"
proof -
  obtain k ns where k: "xs = replicate k ''..'' @ ns" "r \<longrightarrow> k = 0" "list_all normal_name ns"
    using assms by (auto simp: clean_shape_def)
  have names: "list_all normal_name ns \<Longrightarrow> clean_elems r out ns = rev out @ ns" for out
    by (induction ns arbitrary: out) (auto simp: normal_name_def)
  have ups: "clean_elems False (replicate j ''..'') (replicate k ''..'' @ ns) = clean_elems False (replicate (j + k) ''..'') ns" for j
  proof (induction k arbitrary: j)
    case (Suc k)
    have "clean_elems False (replicate j ''..'') (replicate (Suc k) ''..'' @ ns)
        = clean_elems False (replicate (Suc j) ''..'') (replicate k ''..'' @ ns)"
      by (cases j) simp_all
    then show ?case using Suc [of "Suc j"] by simp
  qed simp
  show ?thesis
    using names [OF k(3), of "[]"] names [OF k(3), of "replicate k ''..''"] ups [of 0] k(1,2) by (cases r) simp_all
qed

definition clean_of :: "bool \<Rightarrow> string list \<Rightarrow> string" where
  "clean_of r xs = (if r then CHR ''/'' # join1 xs CHR ''/'' else if xs = [] then ''.'' else join1 xs CHR ''/'')"

lemma shape_elem: "clean_shape r xs \<Longrightarrow> e \<in> set xs \<Longrightarrow> e \<noteq> [] \<and> e \<noteq> ''.'' \<and> CHR ''/'' \<notin> set e"
proof -
  assume "clean_shape r xs" and e: "e \<in> set xs"
  then obtain k ns where k: "xs = replicate k ''..'' @ ns" "list_all normal_name ns" by (auto simp: clean_shape_def)
  then have "e = ''..'' \<or> normal_name e" using e by (auto simp: list_all_iff)
  then show ?thesis by (auto simp: normal_name_def)
qed

lemma join1_first: "join1 (x # xs) sep = x @ (if xs = [] then [] else sep # join1 xs sep)"
  by (cases xs) simp_all

lemma join1_shape:
  assumes "clean_shape r xs" "xs \<noteq> []"
  shows "join1 xs CHR ''/'' \<noteq> [] \<and> join1 xs CHR ''/'' \<noteq> ''.'' \<and> hd (join1 xs CHR ''/'') \<noteq> CHR ''/''"
proof -
  obtain x ys where x: "xs = x # ys" using assms(2) by (cases xs) auto
  have e: "x \<noteq> []" "x \<noteq> ''.''" "CHR ''/'' \<notin> set x" using shape_elem [OF assms(1), of x] x by simp_all
  obtain c cs where c: "x = c # cs" using e(1) by (cases x) auto
  have "c \<noteq> CHR ''/''" using e(3) c by auto
  moreover have "x @ (if ys = [] then [] else CHR ''/'' # join1 ys CHR ''/'') \<noteq> ''.''" using e(2) c by auto
  ultimately show ?thesis unfolding x join1_first using c by simp
qed

lemma Split1_first: "sep \<notin> set x \<Longrightarrow> Split1 (x @ sep # p) sep = x # Split1 p sep"
  by (induction x) auto

lemma Split1_join1:
  assumes "\<forall>e \<in> set xs. sep \<notin> set e" "xs \<noteq> []"
  shows "Split1 (join1 xs sep) sep = xs"
  using assms
proof (induction xs sep rule: join1.induct)
  case (2 w sep)
  then have "sep \<notin> set w" by simp
  then have "Split1 w sep = [w]" by (induction w) auto
  then show ?case by simp
qed (simp_all add: Split1_first)

definition rooted :: "string \<Rightarrow> bool" where
  "rooted p \<longleftrightarrow> p \<noteq> [] \<and> hd p = CHR ''/''"

definition kept_elems :: "string \<Rightarrow> string list" where
  "kept_elems p = clean_elems (rooted p) [] (Split1 p CHR ''/'')"

lemma Clean_form: "path_Clean p = clean_of (rooted p) (kept_elems p)" "clean_shape (rooted p) (kept_elems p)"
proof -
  show s: "clean_shape (rooted p) (kept_elems p)"
    unfolding kept_elems_def by (rule clean_elems_shape) (auto simp: clean_shape_def dest: Split1_no_sep)
  have "join1 (kept_elems p) CHR ''/'' = [] \<longleftrightarrow> kept_elems p = []" using join1_shape [OF s] by auto
  then show "path_Clean p = clean_of (rooted p) (kept_elems p)"
    unfolding path_Clean_def clean_of_def rooted_def [symmetric] Let_def kept_elems_def [symmetric] by simp
qed

lemma clean_elems_end: "clean_elems r out (ys @ [[]]) = clean_elems r out ys"
  by (induction r out ys rule: clean_elems.induct) auto

lemma rooted_clean_of: "clean_shape r xs \<Longrightarrow> rooted (clean_of r xs) = r"
  using join1_shape [of r xs] by (auto simp: rooted_def clean_of_def)

lemma kept_clean_of:
  assumes "clean_shape r xs"
  shows "kept_elems (clean_of r xs) = xs"
proof (cases "xs = []")
  case True
  then show ?thesis by (cases r) (simp_all add: kept_elems_def rooted_def clean_of_def)
next
  case False
  have "Split1 (join1 xs CHR ''/'') CHR ''/'' = xs" using Split1_join1 [OF _ False] shape_elem [OF assms] by blast
  then show ?thesis
    using False clean_elems_fixed [OF assms] unfolding kept_elems_def rooted_clean_of [OF assms]
    by (cases r) (simp_all add: clean_of_def)
qed

lemma Clean_clean_of: "clean_shape r xs \<Longrightarrow> path_Clean (clean_of r xs) = clean_of r xs"
  by (simp add: Clean_form(1) rooted_clean_of kept_clean_of)

lemma Clean_idem [simp]: "path_Clean (path_Clean p) = path_Clean p"
  using Clean_form [of p] Clean_clean_of by metis

lemma elems_clean_of: "clean_shape True xs \<Longrightarrow> path_elems (clean_of True xs) = xs"
proof (cases "xs = []")
  case False
  assume s: "clean_shape True xs"
  have "Split1 (join1 xs CHR ''/'') CHR ''/'' = xs" using Split1_join1 [OF _ False] shape_elem [OF s] by blast
  moreover have "filter (\<lambda>e. e \<noteq> []) xs = xs" using shape_elem [OF s] by (simp add: filter_id_conv)
  ultimately show ?thesis by (simp add: path_elems_def clean_of_def)
qed (simp add: path_elems_def clean_of_def)

lemma Join_clean_of:
  assumes "clean_shape True xs" "normal_name e"
  shows "path_Join (clean_of True xs) e = clean_of True (xs @ [e])"
  using Join_clean [OF assms(2), of "clean_of True xs"] Clean_clean_of [OF assms(1)] join1_shape [OF assms(1)]
  by (auto simp: clean_of_def join1_append)

section \<open>Relative paths\<close>

lemma strip_common_append: "strip_common bs ts = (up, down) \<Longrightarrow> \<exists>c. bs = c @ up \<and> ts = c @ down"
proof (induction bs ts rule: strip_common.induct)
  case (1 b bs t ts)
  show ?case
  proof (cases "b = t")
    case True
    then obtain c where "bs = c @ up \<and> ts = c @ down" using 1 by auto
    then show ?thesis using True by (intro exI [of _ "t # c"]) simp
  qed (use 1 in auto)
qed auto

lemma strip_common_child: "strip_common bs (bs @ [n]) = ([], [n])"
  by (induction bs) simp_all

lemma path_Rel_abs:
  assumes "clean_shape True bs" "clean_shape True ts"
  shows "path_Rel (clean_of True bs) (clean_of True ts) =
    (if ts = bs then ''.''
     else let (up, down) = strip_common bs ts in join1 (replicate (length up) ''..'' @ down) CHR ''/'')"
proof -
  have "clean_of True ts = clean_of True bs \<longleftrightarrow> ts = bs" using elems_clean_of assms by metis
  then show ?thesis
    unfolding path_Rel_def Let_def Clean_clean_of [OF assms(1)] Clean_clean_of [OF assms(2)] elems_clean_of [OF assms(1)]
      elems_clean_of [OF assms(2)] by simp
qed

lemma Dir_name: "CHR ''/'' \<notin> set n \<Longrightarrow> path_Dir n = ''.''"
proof -
  assume "CHR ''/'' \<notin> set n"
  then have "dropWhile (\<lambda>c. c \<noteq> CHR ''/'') (rev n) = []" unfolding dropWhile_eq_Nil_conv by auto
  then have "path_Dir n = path_Clean []" unfolding path_Dir_def by (simp only: rev.simps(1))
  moreover have "path_Clean [] = ''.''" by code_simp
  ultimately show ?thesis by simp
qed

lemma Dir_join:
  assumes "clean_shape False ws" "ws \<noteq> []" "CHR ''/'' \<notin> set z"
  shows "path_Dir (join1 (ws @ [z]) CHR ''/'') = join1 ws CHR ''/''"
proof -
  let ?j = "join1 ws CHR ''/''"
  have "rev (join1 (ws @ [z]) CHR ''/'') = rev z @ CHR ''/'' # rev ?j" using assms(2) by (simp add: join1_append)
  moreover have "dropWhile (\<lambda>c. c \<noteq> CHR ''/'') (rev z @ CHR ''/'' # rev ?j) = CHR ''/'' # rev ?j"
    by (subst dropWhile_append2) (use assms(3) in auto)
  ultimately have d: "path_Dir (join1 (ws @ [z]) CHR ''/'') = path_Clean (?j @ [CHR ''/''])" by (simp add: path_Dir_def)
  note j = join1_shape [OF assms(1,2)]
  have sp: "Split1 (?j @ [CHR ''/'']) CHR ''/'' = ws @ [[]]"
    using Split1_slash [of "[]" ?j] Split1_join1 [OF _ assms(2), of "CHR ''/''"] shape_elem [OF assms(1)] by simp
  have r: "\<not> rooted (?j @ [CHR ''/''])" using j by (simp add: rooted_def)
  then have "kept_elems (?j @ [CHR ''/'']) = ws"
    unfolding kept_elems_def sp clean_elems_end using clean_elems_fixed [OF assms(1)] by simp
  then have "path_Clean (?j @ [CHR ''/'']) = ?j" using r assms(2) by (simp add: Clean_form(1) clean_of_def)
  then show ?thesis unfolding d .
qed

lemma owned_rel_name:
  assumes "normal_name n"
  shows "owned_rel n"
proof -
  have n: "n \<noteq> []" "n \<noteq> ''.''" "n \<noteq> ''..''" "CHR ''/'' \<notin> set n" using assms by (simp_all add: normal_name_def)
  have "hd n \<noteq> CHR ''/''" using n(1,4) by (metis hd_in_set)
  moreover have "\<not> HasPrefix n ''../''"
  proof
    assume "HasPrefix n ''../''"
    then have "take 3 n = ''../''" by (simp add: HasPrefix_def numeral_3_eq_3)
    then have "CHR ''/'' \<in> set (take 3 n)" by simp
    then show False using n(4) in_set_takeD by metis
  qed
  ultimately show ?thesis using n Dir_name [OF n(4)] by (simp add: owned_rel_def)
qed

lemma owned_rel_child:
  assumes bs: "list_all normal_name bs" and ts: "list_all normal_name ts"
    and o: "owned_rel (path_Rel (clean_of True bs) (clean_of True ts))"
  shows "\<exists>n. ts = bs @ [n] \<and> normal_name n"
proof -
  have sb: "clean_shape True bs" and st: "clean_shape True ts"
    using bs ts by (auto simp: clean_shape_def intro!: exI [of _ "0::nat"])
  obtain up down where s: "strip_common bs ts = (up, down)" by (rule prod.exhaust)
  obtain c where c: "bs = c @ up" "ts = c @ down" using strip_common_append [OF s] by auto
  let ?zs = "replicate (length up) ''..'' @ down"
  have ne: "ts \<noteq> bs" using o path_Rel_abs [OF sb st] by (auto simp: owned_rel_def)
  then have o: "owned_rel (join1 ?zs CHR ''/'')" and z: "?zs \<noteq> []"
    using o path_Rel_abs [OF sb st] s c by auto
  have shape: "clean_shape False ?zs" using ts c(2) unfolding clean_shape_def by auto
  obtain ws z where w: "?zs = ws @ [z]" using z by (cases ?zs rule: rev_cases) auto
  have "ws = []"
  proof (rule ccontr)
    assume n: "ws \<noteq> []"
    have wz: "clean_shape False ws"
    proof (cases down rule: rev_cases)
      case Nil
      then have "ws @ [z] = replicate (length up) ''..''" using w by simp
      then have "ws = replicate (length ws) ''..''" by (metis append_eq_append_conv length_append_singleton length_replicate
            replicate_Suc replicate_append_same)
      then show ?thesis unfolding clean_shape_def by (intro exI [of _ "length ws"] exI [of _ "[]"]) simp
    next
      case (snoc ys y)
      then show ?thesis using w ts c(2) unfolding clean_shape_def by auto
    qed
    have "CHR ''/'' \<notin> set z" using shape_elem [OF shape, of z] w by simp
    from Dir_join [OF wz n this] o join1_shape [OF wz n] show False unfolding w owned_rel_def by simp
  qed
  then have single: "?zs = [z]" using w by simp
  have "up = []"
  proof (rule ccontr)
    assume "up \<noteq> []"
    then have "?zs = [''..'']" using single by (cases up) auto
    then show False using o by (simp add: owned_rel_def)
  qed
  then show ?thesis using c single ts by auto
qed

text \<open>The absolute form of a path, with an absolute working directory.\<close>

definition known_dir :: "string res \<Rightarrow> bool" where
  "known_dir cwd = (case cwd of Inl _ \<Rightarrow> False | Inr wd \<Rightarrow> rooted wd)"

lemma Abs_form:
  assumes "known_dir cwd"
  obtains xs where "path_Abs cwd p = Inr (clean_of True xs)" "list_all normal_name xs"
proof -
  obtain wd where wd: "cwd = Inr wd" "rooted wd" using assms by (auto simp: known_dir_def split: sum.splits)
  have c: "\<exists>xs. path_Clean q = clean_of True xs \<and> list_all normal_name xs" if "rooted q" for q
    using Clean_form [of q] that by (auto simp: clean_shape_def)
  have "\<exists>q. rooted q \<and> path_Abs cwd p = Inr (path_Clean q)"
    using wd by (cases "rooted p") (auto simp: path_Abs_def rooted_def path_Join_def)
  then obtain q where q: "rooted q" "path_Abs cwd p = Inr (path_Clean q)" by blast
  obtain xs where "path_Clean q = clean_of True xs" "list_all normal_name xs" using c [OF q(1)] by blast
  then show thesis using that q(2) by simp
qed

lemma names_shape: "list_all normal_name xs \<Longrightarrow> clean_shape r xs"
  unfolding clean_shape_def by (intro exI [of _ 0] exI [of _ xs]) simp

lemma Clean_child:
  assumes "normal_name n" "d \<noteq> []"
  shows "path_Clean (d @ CHR ''/'' # n) = path_Join (path_Clean d) n"
proof -
  have "path_Clean (d @ CHR ''/'' # n) = path_Join d n" using assms(2) by (simp add: path_Join_def)
  also have "\<dots> = path_Join (path_Clean d) n"
    unfolding Join_clean [OF assms(1)] using assms(2) Clean_not_Nil [of d] by simp
  finally show ?thesis .
qed

lemma clean_elems_dot: "clean_elems r out (ys @ [''.'']) = clean_elems r out ys"
  by (induction r out ys rule: clean_elems.induct) auto

lemma Clean_dot: "d \<noteq> [] \<Longrightarrow> path_Clean (d @ ''/.'') = path_Clean d"
  using Split1_slash [of "''.''" d] by (simp add: path_Clean_def clean_elems_dot Let_def)

lemma Clean_none: "path_Clean [] = ''.''" "path_Clean ''.'' = ''.''"
  by code_simp+

lemma Join_assoc:
  assumes "normal_name n" "\<not> rooted dir"
  shows "path_Join wd (path_Join dir n) = path_Join (path_Join wd (path_Clean dir)) n"
proof (cases "wd = []")
  case True
  have "path_Join dir n = path_Join (path_Clean dir) n"
    unfolding Join_clean [OF assms(1)] using Clean_not_Nil [of dir] by (auto simp: Clean_none)
  moreover have "path_Clean (path_Join dir n) = path_Join dir n" by (simp add: path_Join_def)
  ultimately show ?thesis using True by (simp add: path_Join_def)
next
  case False
  show ?thesis
  proof (cases "path_Clean dir = ''.''")
    case True
    have "path_Join wd n = path_Join (path_Clean wd) n"
      using Clean_child [OF assms(1) False] False by (simp add: path_Join_def)
    then show ?thesis using True False Clean_dot [OF False] by (simp add: Join_clean [OF assms(1), of dir]) (simp add: path_Join_def)
  next
    case d: False
    have "path_Clean dir \<noteq> ''/''" using Clean_form [of dir] rooted_clean_of assms(2) by (metis list.sel(1) list.simps(3) rooted_def)
    moreover have "dir \<noteq> []" using d by (auto simp: Clean_none)
    ultimately have "path_Join dir n = path_Clean dir @ CHR ''/'' # n" using d by (simp add: Join_clean [OF assms(1)])
    then show ?thesis
      using False Clean_child [OF assms(1), of "wd @ CHR ''/'' # path_Clean dir"] by (simp add: path_Join_def)
  qed
qed

lemma rooted_Clean: "rooted (path_Clean p) = rooted p"
  using Clean_form [of p] rooted_clean_of by metis

lemma rooted_Join: "normal_name n \<Longrightarrow> rooted (path_Join dir n) = rooted dir"
proof -
  assume "normal_name n"
  then have "\<not> rooted n" unfolding normal_name_def rooted_def by (metis hd_in_set)
  then show ?thesis by (cases dir) (simp_all add: path_Join_def rooted_Clean, simp_all add: rooted_def)
qed

lemma Abs_child:
  assumes "normal_name n"
  shows "path_Abs cwd (path_Join dir n) =
    (case path_Abs cwd (path_Clean dir) of Inl e \<Rightarrow> Inl e | Inr base \<Rightarrow> Inr (path_Join base n))"
proof (cases "rooted dir")
  case True
  then have "dir \<noteq> []" by (simp add: rooted_def)
  have "path_Abs cwd (path_Join dir n) = Inr (path_Clean (path_Join dir n))"
    using True rooted_Join [OF assms, of dir] by (simp add: path_Abs_def rooted_def)
  also have "\<dots> = Inr (path_Join (path_Clean dir) n)"
    using Clean_child [OF assms \<open>dir \<noteq> []\<close>] \<open>dir \<noteq> []\<close> by (simp add: path_Join_def)
  finally show ?thesis using True rooted_Clean [of dir] by (simp add: path_Abs_def rooted_def)
next
  case False
  then show ?thesis
    using Join_assoc [OF assms False] rooted_Join [OF assms, of dir] rooted_Clean [of dir]
    unfolding path_Abs_def rooted_def [symmetric] by (cases cwd) simp_all
qed

section \<open>The ownership check\<close>

text \<open>
  What the check is for: in absolute form the path is one ordinary name directly below the directory, and
  the name begins with the first sixteen digits of the digest and a dash.
\<close>

definition owned_child :: "string res \<Rightarrow> string \<Rightarrow> string \<Rightarrow> string \<Rightarrow> bool" where
  "owned_child cwd dir digest q \<longleftrightarrow> (\<exists>base name. path_Abs cwd (path_Clean dir) = Inr base
     \<and> path_Abs cwd q = Inr (path_Join base name) \<and> normal_name name \<and> HasPrefix (ToLower name) (take 16 digest @ ''-''))"

lemma Base_child:
  assumes "normal_name n"
  shows "path_Base (clean_of True (bs @ [n])) = n"
proof -
  have n: "n \<noteq> []" "CHR ''/'' \<notin> set n" using assms by (simp_all add: normal_name_def)
  obtain u where u: "clean_of True (bs @ [n]) = u @ CHR ''/'' # n"
    using join1_append [of bs n "CHR ''/''"] by (cases "bs = []") (auto simp: clean_of_def)
  obtain m c where c: "n = m @ [c]" "c \<noteq> CHR ''/''" using n by (cases n rule: rev_cases) auto
  then have "strip_slashes (u @ CHR ''/'' # n) = u @ CHR ''/'' # n" by (simp add: strip_slashes_def)
  then show ?thesis unfolding u path_Base_def using last_component [OF n(2), of u] n(1) by simp
qed

lemma owned_check:
  assumes "known_dir cwd" "path_Abs cwd p = Inr base" "path_Abs cwd q = Inr target"
  shows "owned_rel (path_Rel base target) \<and> HasPrefix (ToLower (path_Base target)) pre \<longleftrightarrow>
    (\<exists>name. target = path_Join base name \<and> normal_name name \<and> HasPrefix (ToLower name) pre)"
proof -
  obtain bs where bs: "base = clean_of True bs" "list_all normal_name bs" using Abs_form [OF assms(1), of p] assms(2) by auto
  obtain ts where ts: "target = clean_of True ts" "list_all normal_name ts" using Abs_form [OF assms(1), of q] assms(3) by auto
  note sb = names_shape [OF bs(2), of True]
  have join: "normal_name n \<Longrightarrow> path_Join base n = clean_of True (bs @ [n])" for n
    unfolding bs(1) by (rule Join_clean_of [OF sb])
  show ?thesis
  proof
    assume o: "owned_rel (path_Rel base target) \<and> HasPrefix (ToLower (path_Base target)) pre"
    then obtain n where n: "ts = bs @ [n]" "normal_name n"
      using owned_rel_child [OF bs(2) ts(2)] unfolding bs(1) ts(1) by blast
    then show "\<exists>name. target = path_Join base name \<and> normal_name name \<and> HasPrefix (ToLower name) pre"
      using o join Base_child [OF n(2), of bs] ts(1) by metis
  next
    assume "\<exists>name. target = path_Join base name \<and> normal_name name \<and> HasPrefix (ToLower name) pre"
    then obtain n where n: "target = path_Join base n" "normal_name n" "HasPrefix (ToLower n) pre" by blast
    then have t: "target = clean_of True (bs @ [n])" by (simp add: join)
    have "path_Rel base target = n"
      using path_Rel_abs [OF sb names_shape, of "bs @ [n]"] bs(2) n(2) strip_common_child [of bs n] unfolding bs(1) t by simp
    then show "owned_rel (path_Rel base target) \<and> HasPrefix (ToLower (path_Base target)) pre"
      using owned_rel_name [OF n(2)] Base_child [OF n(2), of bs] n(3) unfolding t by simp
  qed
qed

lemma ValidateOwned_result:
  assumes "known_dir cwd" "TrimSpace path \<noteq> []" "EnsurePrivateArtifactDirectory os dir s = (e, s1)"
    and "ValidateOwnedArtifactPath os cwd dir path digest s = (r, s2)"
  shows "s2 = s1 \<and> (r = Inr () \<longleftrightarrow> e = Inr () \<and> isHex (ToLower (TrimSpace digest)) 64
    \<and> owned_child cwd dir (ToLower (TrimSpace digest)) (path_Clean path))"
proof -
  let ?dg = "ToLower (TrimSpace digest)"
  obtain base where b: "path_Abs cwd (path_Clean dir) = Inr base" using Abs_form [OF assms(1), of "path_Clean dir"] by metis
  obtain target where t: "path_Abs cwd (path_Clean path) = Inr target"
    using Abs_form [OF assms(1), of "path_Clean path"] by metis
  have "owned_rel (path_Rel base target) \<and> HasPrefix (ToLower (path_Base target)) (take 16 ?dg @ ''-'')
      \<longleftrightarrow> owned_child cwd dir ?dg (path_Clean path)"
    using owned_check [OF assms(1) b t] unfolding owned_child_def b t by auto
  then show ?thesis
    using assms(2-4) unfolding ValidateOwnedArtifactPath_def
    by (cases e) (auto simp: Let_def io_bind_def io_of_def io_assert_def io_return_def io_fail_def b t split: if_split_asm)
qed

text \<open>
  C25. \<open>ValidateOwnedArtifactPath\<close> accepts a saved path exactly when the directory passes its check, the digest
  is one SHA-256 digest, and the path, made absolute, is one ordinary file name directly below the
  directory that begins with the digest. No sequence of dots, slashes or links of names gets around it.
\<close>

theorem owned_path_exact:
  assumes "known_dir cwd" and "TrimSpace path \<noteq> []"
  shows "fst (ValidateOwnedArtifactPath os cwd dir path digest s) = Inr () \<longleftrightarrow>
    fst (EnsurePrivateArtifactDirectory os dir s) = Inr () \<and> isHex (ToLower (TrimSpace digest)) 64
    \<and> (\<exists>base name. path_Abs cwd (path_Clean dir) = Inr base
         \<and> path_Abs cwd (path_Clean path) = Inr (path_Join base name) \<and> normal_name name
         \<and> HasPrefix (ToLower name) (take 16 (ToLower (TrimSpace digest)) @ ''-''))"
proof -
  obtain e s1 where e: "EnsurePrivateArtifactDirectory os dir s = (e, s1)" by (rule prod.exhaust)
  obtain r s2 where r: "ValidateOwnedArtifactPath os cwd dir path digest s = (r, s2)" by (rule prod.exhaust)
  show ?thesis using ValidateOwned_result [OF assms e r] unfolding e r owned_child_def fst_conv by (rule conjunct2)
qed

section \<open>Downloads are owned\<close>

lemma space_code: "is_space_char c \<Longrightarrow> (of_char c :: nat) \<le> 32"
  by (auto simp: is_space_char_def)

lemma lower_code:
  "of_char (lower_char c) = (if 65 \<le> (of_char c :: nat) \<and> of_char c \<le> (90 :: nat) then of_char c + 32 else of_char c :: nat)"
  by (simp add: lower_char_def less_eq_char_def)

lemma lower_char_idem: "lower_char (lower_char c) = lower_char c"
proof -
  have "(of_char (lower_char (lower_char c)) :: nat) = of_char (lower_char c)" by (simp add: lower_code)
  then show ?thesis by (simp only: of_char_eq_iff)
qed

lemma hex_code: "hex_digit c \<noteq> None \<longleftrightarrow> (let n = of_char c :: nat in
    (48 \<le> n \<and> n \<le> 57) \<or> (97 \<le> n \<and> n \<le> 102) \<or> (65 \<le> n \<and> n \<le> 70))"
  by (auto simp: hex_digit_def Let_def)

lemma hex_char_cases: "hex_digit c \<noteq> None \<Longrightarrow> \<not> is_space_char c \<and> hex_digit (lower_char c) \<noteq> None"
  using space_code [of c] unfolding hex_code Let_def lower_code by auto

lemma ToLower_idem [simp]: "ToLower (ToLower s) = ToLower s"
  by (simp add: ToLower_def lower_char_idem comp_def)

lemma ToLower_append: "ToLower (a @ b) = ToLower a @ ToLower b"
  by (simp add: ToLower_def)

lemma TrimSpace_none: "\<forall>c \<in> set s. \<not> is_space_char c \<Longrightarrow> TrimSpace s = s"
proof -
  assume a: "\<forall>c \<in> set s. \<not> is_space_char c"
  then have "dropWhile is_space_char s = s" "dropWhile is_space_char (rev s) = rev s"
    by (simp_all add: dropWhile_eq_self_iff) (metis hd_in_set hd_rev last_in_set list.set_sel(1))+
  then show ?thesis by (simp add: TrimSpace_def trim_by_def)
qed

lemma isHex_lower:
  assumes "isHex v n"
  shows "TrimSpace v = v" "isHex (ToLower v) n"
  using assms hex_char_cases TrimSpace_none [of v] by (auto simp: isHex_def list_all_iff ToLower_def)

lemma owned_name:
  assumes "isHex (SHA256 a) 64"
  shows "HasPrefix (ToLower (artifact_name a)) (take 16 (ToLower (SHA256 a)) @ ''-'')"
proof -
  have l: "length (SHA256 a) = 64" using assms by (simp add: isHex_def)
  have "lower_char CHR ''-'' = CHR ''-''" by code_simp
  then have "ToLower (artifact_name a) = (take 16 (ToLower (SHA256 a)) @ ''-'') @ ToLower (artifact_base a)"
    unfolding artifact_name_def ToLower_append ToLower_idem by (simp add: ToLower_def take_map)
  moreover have "length (take 16 (ToLower (SHA256 a)) @ ''-'') = 17" using l by (simp add: ToLower_def)
  ultimately show ?thesis by (simp add: HasPrefix_def)
qed

lemma download_owned_child:
  assumes "known_dir cwd" "isHex (SHA256 a) 64"
  shows "owned_child cwd dir (ToLower (SHA256 a)) (artifact_path dir a)"
proof -
  note n = artifact_name_safe(3) [OF assms(2)]
  obtain base where b: "path_Abs cwd (path_Clean dir) = Inr base" using Abs_form [OF assms(1), of "path_Clean dir"] by metis
  then have "path_Abs cwd (artifact_path dir a) = Inr (path_Join base (artifact_name a))"
    using Abs_child [OF n, of cwd dir] unfolding artifact_path_name by simp
  then show ?thesis using b n owned_name [OF assms(2)] unfolding owned_child_def by blast
qed

lemma artifact_path_clean: "path_Clean (artifact_path dir a) = artifact_path dir a"
  by (simp add: artifact_path_def path_Join_def)

lemma artifact_path_not_blank:
  assumes "isHex (SHA256 a) 64"
  shows "TrimSpace (artifact_path dir a) \<noteq> []"
proof -
  obtain c cs where c: "SHA256 a = c # cs" using assms by (cases "SHA256 a") (simp_all add: isHex_def)
  have h: "hex_digit c \<noteq> None" using assms c by (simp add: isHex_def)
  then have "\<not> is_space_char (lower_char c)" using hex_char_cases by blast
  moreover have "lower_char c \<in> set (artifact_name a)" using c by (simp add: artifact_name_def ToLower_def)
  moreover have "set (artifact_name a) \<subseteq> set (artifact_path dir a)"
    unfolding artifact_path_name Join_clean [OF artifact_name_safe(3) [OF assms]] by auto
  ultimately show ?thesis unfolding TrimSpace_def trim_by_Nil_iff by blast
qed

text \<open>
  Every path a download can return is owned: for an artifact that passes validation, the check of
  the path of its download is exactly the check of the directory, whatever directory is configured, and it
  runs the same system calls with the same outcome.
\<close>

theorem downloads_are_owned:
  assumes "known_dir cwd" and "Artifact_Validate ext opts a = Inr ()"
  shows "ValidateOwnedArtifactPath os cwd dir (artifact_path dir a) (SHA256 a) s = EnsurePrivateArtifactDirectory os dir s"
proof -
  have hex: "isHex (SHA256 a) 64" using Artifact_Validate_ok [OF assms(2)] by (simp add: valid_artifact_def)
  obtain e s1 where e: "EnsurePrivateArtifactDirectory os dir s = (e, s1)" by (rule prod.exhaust)
  show ?thesis
  proof (cases e)
    case (Inl x)
    then show ?thesis
      using artifact_path_not_blank [OF hex, of dir] e by (simp add: ValidateOwnedArtifactPath_def io_bind_def)
  next
    case (Inr u)
    obtain r s2 where r: "ValidateOwnedArtifactPath os cwd dir (artifact_path dir a) (SHA256 a) s = (r, s2)" by (rule prod.exhaust)
    show ?thesis
      using ValidateOwned_result [OF assms(1) artifact_path_not_blank [OF hex] e r] isHex_lower [OF hex]
        download_owned_child [OF assms(1) hex, of dir] Inr
      unfolding e r by (simp add: artifact_path_clean)
  qed
qed

section \<open>The directory\<close>

text \<open>A directory that exists, is no link and is private to its owner.\<close>

definition private_dir :: "os \<Rightarrow> string \<Rightarrow> fsys \<Rightarrow> bool" where
  "private_dir os dir s \<longleftrightarrow> (\<exists>i n. nodes (disk s) i = Some n \<and> NKind n = Directory \<and> (windows os \<or> NPerm n mod 64 = 0)
     \<and> (idle os \<longrightarrow> names (disk s) dir = Some i))"

lemma settled_private: "polite os \<Longrightarrow> settled os (private_dir os dir)"
  unfolding private_dir_def by (intro settled_ex settled_conj settled_node settled_const settled_idle)

lemma known_private:
  assumes "known b s" "file_at os dir (Ino b) s" "IKind b = Directory" "windows os \<or> IPerm b mod 64 = 0"
  shows "private_dir os dir s"
proof -
  obtain n where n: "nodes (disk s) (Ino b) = Some n" "b = node_info (Ino b) n" using assms(1) by (auto simp: known_def)
  have "NKind n = IKind b" "NPerm n = IPerm b" by (subst n(2), simp add: node_info_def)+
  then show ?thesis
    using n(1) assms(2-4) unfolding private_dir_def file_at_def by (intro exI [of _ "Ino b"] exI [of _ n]) (auto simp: idle_keeps)
qed

lemma hoare_EnsurePrivate:
  assumes os: "polite os" and st: "settled os P"
    and add: "\<And>s d es. P s \<Longrightarrow> \<forall>x \<in> set es. fst (snd x) = None \<Longrightarrow> P (s\<lparr>disk := d, effects := effects s @ es\<rparr>)"
  shows "hoare P (EnsurePrivateArtifactDirectory os dir) (\<lambda>_ s. P s \<and> private_dir os (path_Clean (TrimSpace dir)) s) (\<lambda>_. P)"
proof -
  let ?d = "path_Clean (TrimSpace dir)"
  let ?K = "\<lambda>b s. P s \<and> known b s \<and> IKind b = Directory \<and> (windows os \<or> IPerm b mod 64 = 0)"
  let ?Q = "\<lambda>_ :: unit. \<lambda>s. P s \<and> private_dir os ?d s"
  have k: "settled os (?K b)" for b by (intro settled_conj settled_const settled_known st os)
  have opened: "hoare (?K b) (Open os ?d) (\<lambda>_. ?K b) (\<lambda>_. P)" for b
    by (rule hoare_conseq [OF hoare_Open [OF os k [of b]]]) auto
  have stat: "hoare (?K b) (Fstat os f) (\<lambda>_. ?K b) (\<lambda>_. P)" for b f
    by (rule hoare_conseq [OF hoare_Fstat [OF os k [of b]]]) auto
  have look: "hoare (?K b) (io_try (Lstat os ?d) (\<lambda>after.
      io_assert (real_directory after \<and> same_directory (Inr b) opened after) msg)) ?Q (\<lambda>_. P)" for b opened msg
  proof (rule hoare_try [OF hoare_Lstat_known [OF os k [of b]]])
    fix a
    show "hoare (\<lambda>s. ?K b s \<and> known a s \<and> file_at os ?d (Ino a) s)
      (io_assert (real_directory (Inr a) \<and> same_directory (Inr b) opened (Inr a)) msg) ?Q (\<lambda>_. P)"
      by (rule hoare_pre [OF hoare_assert])
        (auto simp: same_directory_def SameFile_def intro!: known_private [of b])
  next
    fix e :: goerror
    show "hoare (?K b) (io_assert (real_directory (Inl e) \<and> same_directory (Inr b) opened (Inl e)) msg) ?Q (\<lambda>_. P)"
      by (rule hoare_pre [OF hoare_assert]) (simp add: real_directory_def)
  qed
  show ?thesis
    unfolding EnsurePrivateArtifactDirectory_def Let_def
    apply (rule seq_assert, blast)
    apply (rule hoare_bind [OF hoare_MkdirAll [where Q = "\<lambda>_. P" and E = "\<lambda>_. P", OF os st]])
       apply (rule add, assumption, blast)
      apply assumption
     apply assumption
    apply (rule hoare_try [OF hoare_Lstat_known [OF os st]])
    subgoal for x b
      apply (rule seq_assert, blast)
      apply (rule seq_assert, blast)
      apply (rule hoare_pre [OF hoare_bind [OF opened [of b] hoare_bind [OF stat look]]])
      apply (auto simp: real_directory_def)
      done
    subgoal
      by (rule seq_assert, blast) (simp add: real_directory_def)
    done
qed

section \<open>Examples\<close>

text \<open>
  White space around the directory is dropped when the directory is checked, but not when the path is bound
  to it: the accepted path lies below another directory than the one that was checked.
\<close>

lemma padded_directory_not_the_checked_one:
  "fst (ValidateOwnedArtifactPath demo_os (Inr ''/'') '' /u'' ''/ /u/aaaaaaaaaaaaaaaa-1'' (replicate 64 CHR ''a'') empty_fs) = Inr ()"
  "path_Abs (Inr ''/'') (path_Clean (TrimSpace '' /u'')) = Inr ''/u''"
  by code_simp+

theorem owned_path_exact_witness:
  "(\<exists>name. path_Abs (Inr ''/'') (path_Clean ''/u/./aaaaaaaaaaaaaaaa-1'') = Inr (path_Join ''/u'' name) \<and> normal_name name)
   \<and> fst (ValidateOwnedArtifactPath demo_os (Inr ''/'') ''/u'' ''/u/../v/aaaaaaaaaaaaaaaa-1'' (replicate 64 CHR ''a'') empty_fs) \<noteq> Inr ()"
proof -
  have k: "known_dir (Inr ''/'')" by (simp add: known_dir_def rooted_def)
  have b: "TrimSpace ''/u/./aaaaaaaaaaaaaaaa-1'' \<noteq> []" "path_Abs (Inr ''/'') (path_Clean ''/u'') = Inr ''/u''"
    "fst (ValidateOwnedArtifactPath demo_os (Inr ''/'') ''/u'' ''/u/./aaaaaaaaaaaaaaaa-1'' (replicate 64 CHR ''a'') empty_fs) = Inr ()"
    "fst (ValidateOwnedArtifactPath demo_os (Inr ''/'') ''/u'' ''/u/../v/aaaaaaaaaaaaaaaa-1'' (replicate 64 CHR ''a'') empty_fs) \<noteq> Inr ()"
    by code_simp+
  show ?thesis
    using owned_path_exact [OF k b(1), of demo_os "''/u''" "replicate 64 CHR ''a''" empty_fs] b(2-4) by auto
qed

theorem downloads_are_owned_witness:
  "fst (ValidateOwnedArtifactPath demo_os (Inr ''/w'') ''u'' (artifact_path ''u'' (demo_artifact ''linux'')) (replicate 64 CHR ''a'') empty_fs) = Inr ()"
proof -
  have k: "known_dir (Inr ''/w'')" by (simp add: known_dir_def rooted_def)
  have v: "Artifact_Validate demo_ext demo_opts (demo_artifact ''linux'') = Inr ()" by code_simp
  have e: "fst (EnsurePrivateArtifactDirectory demo_os ''u'' empty_fs) = Inr ()" by code_simp
  have "SHA256 (demo_artifact ''linux'') = replicate 64 CHR ''a''" by (simp add: demo_artifact_def)
  then show ?thesis using downloads_are_owned [OF k v, of demo_os "''u''" empty_fs] e by simp
qed

end
