(* ===== verification/NativeUpdate.thy ===== *)
theory NativeUpdate
  imports ArtifactDir
begin

text \<open>
  \<^verbatim>\<open>src/cmd/client/native_auto_update.go\<close>: the update of the native client, which composes the manifest, the
  store and the ownership check of \<^verbatim>\<open>internal/updatepolicy\<close>. An error is returned without the status that the
  code returns beside it, because every caller drops that status. The working directory and the client that
  fetches the manifest are parameters (\<open>surroundings\<close>).
\<close>

section \<open>Errors\<close>

text \<open>
  \<open>fmt.Errorf\<close> with a label before the cause. (\<open>os.IsNotExist\<close> does not look through such an error, and
  neither does a comparison with \<open>errNotExist\<close>.)
\<close>

definition error_text :: "goerror \<Rightarrow> string" where
  "error_text e = (case e of Err msg \<Rightarrow> msg | Panic msg \<Rightarrow> msg)"

definition labelled :: "string \<Rightarrow> goerror \<Rightarrow> goerror" where
  "labelled label e = (case e of Err msg \<Rightarrow> Err (label @ '': '' @ msg) | Panic msg \<Rightarrow> Panic msg)"

definition io_label :: "string \<Rightarrow> 'a io \<Rightarrow> 'a io" where
  "io_label label m = io_try m (\<lambda>r. io_of (map_sum (labelled label) id r))"

section \<open>Configuration\<close>

record update_config =
  CfgMode :: string
  CfgManifestURL :: string
  CfgPublicKey :: string
  CfgChannel :: string
  CfgPlatform :: string
  CfgArch :: string
  CfgKind :: string
  CfgInstalledSHA :: string
  CfgStatePath :: string
  CfgDownloadDir :: string
  CfgRequestTimeout :: int
  CfgAllowedHosts :: "string list"

record surroundings =
  Cwd :: "string res"
  Fetch :: "string \<Rightarrow> response res"

definition moving_manifests :: "string list" where
  "moving_manifests = [''/latest'', ''/refs/heads/main'', ''/archive/main'', ''latest.json'', ''latest.zip'', ''latest.tar'']"

definition rvValidateManifestURL :: "externals \<Rightarrow> string \<Rightarrow> unit res" where
  "rvValidateManifestURL ext raw =
     (case url_parse ext (TrimSpace raw) of
        None \<Rightarrow> fail ''native update manifest URL is malformed''
      | Some u \<Rightarrow>
          reject_if (Host u = [] \<or> User u \<or> Fragment u \<noteq> [] \<or> RawQuery u \<noteq> []) ''native update manifest URL is malformed''
          (reject_if (\<not> EqualFold (Scheme u) ''https'') ''native update manifest URL must use HTTPS''
          (reject_if (list_ex (Contains (ToLower (escaped_path ext u))) moving_manifests)
             ''moving native update manifest URL is forbidden'' (Inr ()))))"

definition rvExactSHA :: "string \<Rightarrow> bool" where
  "rvExactSHA v \<longleftrightarrow> length v = 40 \<and> list_all (\<lambda>c. hex_digit c \<noteq> None) v"

definition rvToken :: "string \<Rightarrow> bool" where
  "rvToken v \<longleftrightarrow> v \<noteq> [] \<and> length v \<le> 64 \<and> list_all token_char v"

definition rvValidateNativeUpdateConfig :: "externals \<Rightarrow> update_config \<Rightarrow> unit res" where
  "rvValidateNativeUpdateConfig ext cfg =
     reject_if (CfgMode cfg \<noteq> ''check'' \<and> CfgMode cfg \<noteq> ''download'') ''invalid native update mode''
     (res_bind (rvValidateManifestURL ext (CfgManifestURL cfg)) (\<lambda>_.
      reject_if (length (CfgPublicKey cfg) \<noteq> 32) ''signed update public key is not configured''
      (reject_if (CfgChannel cfg \<noteq> ''stable'' \<and> CfgChannel cfg \<noteq> ''beta'') ''native update channel must be stable or beta''
      (reject_if (\<not> rvToken (CfgPlatform cfg) \<or> \<not> rvToken (CfgArch cfg) \<or> \<not> rvToken (CfgKind cfg))
         ''invalid native update platform, architecture, or kind''
      (reject_if (\<not> rvExactSHA (CfgInstalledSHA cfg)) ''current package exact source SHA is unavailable''
      (reject_if (CfgStatePath cfg = [] \<or> CfgDownloadDir cfg = []) ''native update state and download paths are required''
      (reject_if (CfgRequestTimeout cfg < 5000000000 \<or> CfgRequestTimeout cfg > 900000000000)
         ''native update request timeout is outside the safe range'' (Inr ()))))))))"

section \<open>The status\<close>

record NativeStatus =
  Configured :: bool
  StSchema :: int
  StChannel :: string
  StPlatform :: string
  StArch :: string
  StKind :: string
  StInstalledSHA :: string
  StAvailableSHA :: string
  StArtifactPath :: string
  StArtifactSHA256 :: string
  StLastCheckedAt :: int
  StDownloadedAt :: int
  StInstallPending :: bool
  RequiresUserInstall :: bool
  StLastError :: string

definition rvStatus :: "externals \<Rightarrow> update_config \<Rightarrow> UState \<Rightarrow> NativeStatus" where
  "rvStatus ext cfg state =
     \<lparr>Configured = (length (CfgPublicKey cfg) = 32 \<and> CfgManifestURL cfg \<noteq> [] \<and> rvExactSHA (CfgInstalledSHA cfg)),
      StSchema = SchemaV1, StChannel = CfgChannel cfg, StPlatform = NormalizePlatform (CfgPlatform cfg),
      StArch = NormalizeArch ext (CfgArch cfg), StKind = CfgKind cfg, StInstalledSHA = InstalledSHA state,
      StAvailableSHA = AvailableSHA state, StArtifactPath = ArtifactPath state, StArtifactSHA256 = ArtifactSHA256 state,
      StLastCheckedAt = LastCheckedAt state, StDownloadedAt = DownloadedAt state, StInstallPending = InstallPending state,
      RequiresUserInstall = InstallPending state, StLastError = LastError state\<rparr>"

definition rvNativeMobilePlatform :: "string \<Rightarrow> bool" where
  "rvNativeMobilePlatform platform \<longleftrightarrow> NormalizePlatform platform \<in> {''android'', ''ios'', ''ipados''}"

definition rvNativeErrorText :: "goerror \<Rightarrow> string" where
  "rvNativeErrorText e = take 4096 (error_text e)"

text \<open>The state of a client that has none yet, and a state without a staged package.\<close>

definition fresh_state :: "update_config \<Rightarrow> UState" where
  "fresh_state cfg = state0\<lparr>SSchema := SchemaV1, SChannel := CfgChannel cfg, InstalledSHA := ToLower (CfgInstalledSHA cfg)\<rparr>"

definition forget_artifact :: "UState \<Rightarrow> UState" where
  "forget_artifact s = s\<lparr>ArtifactPath := [], ArtifactSHA256 := [], DownloadedAt := zero_time, InstallPending := False\<rparr>"

definition rvSaveNativeStatus :: "externals \<Rightarrow> os \<Rightarrow> update_config \<Rightarrow> UState \<Rightarrow> string \<Rightarrow> NativeStatus io" where
  "rvSaveNativeStatus ext os cfg state label =
     io_bind (io_label label (SaveState ext os (CfgStatePath cfg) state)) (\<lambda>_. io_return (rvStatus ext cfg state))"

text \<open>Whether a saved package is the updater's own.\<close>

definition not_owned :: string where
  "not_owned = ''saved native update artifact ownership is invalid''"

definition saved_is_owned :: "os \<Rightarrow> surroundings \<Rightarrow> update_config \<Rightarrow> UState \<Rightarrow> unit io" where
  "saved_is_owned os env cfg s = ValidateOwnedArtifactPath os (Cwd env) (CfgDownloadDir cfg) (ArtifactPath s) (ArtifactSHA256 s)"

definition rvReadNativeUpdateStatus :: "externals \<Rightarrow> os \<Rightarrow> surroundings \<Rightarrow> update_config \<Rightarrow> NativeStatus io" where
  "rvReadNativeUpdateStatus ext os env cfg =
     io_try (LoadState ext os (CfgStatePath cfg)) (\<lambda>r.
       case r of
         Inr s \<Rightarrow>
           if TrimSpace (ArtifactPath s) \<noteq> [] then
             io_try (saved_is_owned os env cfg s) (\<lambda>owned.
               io_return (rvStatus ext cfg (case owned of Inr _ \<Rightarrow> s
                 | Inl e \<Rightarrow> (forget_artifact s)\<lparr>LastError := rvNativeErrorText (labelled not_owned e)\<rparr>)))
           else io_return (rvStatus ext cfg s)
       | Inl e \<Rightarrow>
           let status = rvStatus ext cfg (fresh_state cfg)
           in io_return (if e = errNotExist then status else status\<lparr>StLastError := rvNativeErrorText (labelled ''load private native update state'' e)\<rparr>))"

section \<open>One run\<close>

definition rvClearNativeArtifact :: "os \<Rightarrow> surroundings \<Rightarrow> update_config \<Rightarrow> UState \<Rightarrow> UState io" where
  "rvClearNativeArtifact os env cfg s =
     (let path = TrimSpace (ArtifactPath s); digest = ToLower (TrimSpace (ArtifactSHA256 s)) in
      io_bind (if path = [] then io_return ()
        else io_bind (io_assert (digest \<noteq> []) ''staged native update is missing its verified digest'') (\<lambda>_.
             io_bind (io_label not_owned (ValidateOwnedArtifactPath os (Cwd env) (CfgDownloadDir cfg) path digest)) (\<lambda>_.
             io_try (RemoveVerifiedArtifact os path digest) (\<lambda>r.
               case r of Inr _ \<Rightarrow> io_return () | Inl e \<Rightarrow> if e = errNotExist then io_return () else io_of (Inl e)))))
      (\<lambda>_. io_return (forget_artifact s)))"

definition rvFetchManifest :: "externals \<Rightarrow> surroundings \<Rightarrow> string \<Rightarrow> string res" where
  "rvFetchManifest ext env rawURL =
     res_bind (rvValidateManifestURL ext rawURL) (\<lambda>_.
     res_bind (Fetch env rawURL) (\<lambda>resp.
     reject_if (StatusCode resp \<noteq> 200) ''manifest server returned HTTP''
     (reject_if (ContentLength resp > MaxManifestBytes) ''manifest exceeds maximum size''
     (let raw = take (nat (MaxManifestBytes + 1)) (Body resp) in
      reject_if ((BodyBroken resp \<and> int (length (Body resp)) \<le> MaxManifestBytes) \<or> raw = []
          \<or> int (length raw) > MaxManifestBytes) ''invalid manifest body'' (Inr raw)))))"

definition manifest_options :: "update_config \<Rightarrow> VerifyOptions" where
  "manifest_options cfg = \<lparr>Now = zero_time, AllowedChannels = [CfgChannel cfg], AllowedHosts = CfgAllowedHosts cfg,
     AllowLoopbackHTTP = False, MaxClockSkew = 0\<rparr>"

definition load_or_fresh :: "externals \<Rightarrow> os \<Rightarrow> surroundings \<Rightarrow> update_config \<Rightarrow> UState io" where
  "load_or_fresh ext os env cfg =
     io_try (LoadState ext os (CfgStatePath cfg)) (\<lambda>r.
       case r of
         Inr old \<Rightarrow>
           io_bind (io_assert (EqualFold (SChannel old) (CfgChannel cfg))
              ''saved native update channel does not match configured channel'') (\<lambda>_.
           io_bind (if TrimSpace (ArtifactPath old) \<noteq> [] then io_label not_owned (saved_is_owned os env cfg old)
             else io_return ()) (\<lambda>_. io_return old))
       | Inl e \<Rightarrow> if e = errNotExist then io_return (fresh_state cfg)
                  else io_of (Inl (labelled ''load private native update state'' e)))"

text \<open>No older sequence, and no other commit under the same sequence.\<close>

definition admit_sequence :: "UState \<Rightarrow> Manifest \<Rightarrow> unit res" where
  "admit_sequence s m =
     reject_if (Sequence m < LastSequence s) ''signed native update manifest rolled back to an older sequence''
     (let observed = (if LastManifestSHA s = [] then AvailableSHA s else LastManifestSHA s) in
      reject_if (Sequence m = LastSequence s \<and> observed \<noteq> [] \<and> \<not> EqualFold observed (CommitSHA m))
        ''signed native update sequence changed target identity'' (Inr ()))"

definition record_manifest :: "externals \<Rightarrow> update_config \<Rightarrow> Manifest \<Rightarrow> UState \<Rightarrow> UState" where
  "record_manifest ext cfg m s =
     s\<lparr>SSchema := SchemaV1, SChannel := CfgChannel cfg, InstalledSHA := ToLower (CfgInstalledSHA cfg),
       LastCheckedAt := wall_clock ext, LastError := [],
       LastSequence := (if Sequence m > LastSequence s then Sequence m else LastSequence s),
       LastManifestSHA := ToLower (CommitSHA m)\<rparr>"

text \<open>Stage the package and publish the state that points to it; take it back if that fails.\<close>

definition take_back :: "os \<Rightarrow> Artifact \<Rightarrow> DownloadResult \<Rightarrow> goerror \<Rightarrow> 'a io" where
  "take_back os a downloaded saveErr =
     (if \<not> Created downloaded then io_of (Inl saveErr)
      else io_try (RemoveVerifiedArtifact os (DPath downloaded) (SHA256 a)) (\<lambda>cleaned.
        case cleaned of
          Inr _ \<Rightarrow> io_of (Inl saveErr)
        | Inl e \<Rightarrow> if e = errNotExist then io_of (Inl saveErr)
            else io_of (Inl (labelled (error_text saveErr @ ''; cleanup newly staged native update'') e))))"

definition drop_escaped :: "os \<Rightarrow> Artifact \<Rightarrow> DownloadResult \<Rightarrow> goerror \<Rightarrow> 'a io" where
  "drop_escaped os a downloaded e =
     io_bind (if Created downloaded then io_try (RemoveVerifiedArtifact os (DPath downloaded) (SHA256 a)) (\<lambda>_. io_return ())
        else io_return ())
      (\<lambda>_. io_of (Inl (labelled ''staged native update escaped private ownership'' e)))"

definition stage_update :: "externals \<Rightarrow> os \<Rightarrow> surroundings \<Rightarrow> update_config \<Rightarrow> Artifact \<Rightarrow> UState \<Rightarrow> NativeStatus io" where
  "stage_update ext os env cfg a s =
     io_bind (io_label ''validate private native update staging directory''
        (EnsurePrivateArtifactDirectory os (CfgDownloadDir cfg))) (\<lambda>_.
     io_bind (io_label ''stage verified native update'' (DownloadArtifactDetailed ext os a (CfgDownloadDir cfg))) (\<lambda>downloaded.
     io_try (ValidateOwnedArtifactPath os (Cwd env) (CfgDownloadDir cfg) (DPath downloaded) (SHA256 a)) (\<lambda>owned.
       case owned of
         Inl e \<Rightarrow> drop_escaped os a downloaded e
       | Inr _ \<Rightarrow>
           io_try (rvSaveNativeStatus ext os cfg (s\<lparr>ArtifactPath := DPath downloaded, ArtifactSHA256 := ToLower (SHA256 a),
               DownloadedAt := wall_clock ext, InstallPending := True\<rparr>) ''persist staged native update'') (\<lambda>saved.
             case saved of
               Inr status \<Rightarrow> io_return status
             | Inl e \<Rightarrow> take_back os a downloaded e))))"

definition apply_manifest ::
  "externals \<Rightarrow> os \<Rightarrow> surroundings \<Rightarrow> update_config \<Rightarrow> bool \<Rightarrow> Manifest \<Rightarrow> UState \<Rightarrow> NativeStatus io" where
  "apply_manifest ext os env cfg download m s =
     (if EqualFold (CommitSHA m) (CfgInstalledSHA cfg) then
        io_bind (io_label ''remove obsolete staged native update'' (rvClearNativeArtifact os env cfg s)) (\<lambda>s.
        rvSaveNativeStatus ext os cfg (s\<lparr>AvailableSHA := []\<rparr>) ''persist current native update state'')
      else
        io_bind (io_of (SelectArtifact ext m (CfgPlatform cfg) (CfgArch cfg) (CfgKind cfg))) (\<lambda>a.
        let superseded = (ArtifactPath s \<noteq> [] \<and> \<not> EqualFold (AvailableSHA s) (CommitSHA m));
            s = s\<lparr>AvailableSHA := ToLower (CommitSHA m)\<rparr> in
        io_bind (if superseded then io_label ''remove superseded staged native update'' (rvClearNativeArtifact os env cfg s)
          else io_return s) (\<lambda>s.
        if \<not> download then rvSaveNativeStatus ext os cfg s ''persist native update check''
        else io_bind (if superseded then
            io_bind (rvSaveNativeStatus ext os cfg s ''persist superseded native update cleanup'') (\<lambda>_. io_return ())
          else io_return ()) (\<lambda>_. stage_update ext os env cfg a s))))"

definition rvNativeUpdateOnce ::
  "externals \<Rightarrow> os \<Rightarrow> surroundings \<Rightarrow> update_config \<Rightarrow> bool \<Rightarrow> NativeStatus io" where
  "rvNativeUpdateOnce ext os env cfg download =
     io_bind (io_of (rvValidateNativeUpdateConfig ext cfg)) (\<lambda>_.
     io_bind (io_assert (\<not> (download \<and> rvNativeMobilePlatform (CfgPlatform cfg)))
        ''mobile updates remain under Android or Apple signed install control'') (\<lambda>_.
     io_bind (load_or_fresh ext os env cfg) (\<lambda>s.
     io_bind (io_label ''fetch signed native update manifest'' (io_of (rvFetchManifest ext env (CfgManifestURL cfg)))) (\<lambda>raw.
     io_bind (io_label ''verify signed native update manifest''
        (io_of (ParseAndVerify ext raw (CfgPublicKey cfg) (manifest_options cfg)))) (\<lambda>m.
     io_bind (io_of (admit_sequence s m)) (\<lambda>_.
     apply_manifest ext os env cfg download m (record_manifest ext cfg m s)))))))"

section \<open>The request\<close>

definition rvPersistNativeUpdateError ::
  "externals \<Rightarrow> os \<Rightarrow> surroundings \<Rightarrow> update_config \<Rightarrow> goerror \<Rightarrow> unit io" where
  "rvPersistNativeUpdateError ext os env cfg cause =
     (if CfgStatePath cfg = [] then io_return ()
      else io_try (LoadState ext os (CfgStatePath cfg)) (\<lambda>r.
        let s = (case r of Inl _ \<Rightarrow> fresh_state cfg | Inr old \<Rightarrow> old) in
        io_bind (if TrimSpace (ArtifactPath s) = [] then io_return s
          else io_try (saved_is_owned os env cfg s) (\<lambda>owned.
            case owned of
              Inl _ \<Rightarrow> io_return (forget_artifact s)
            | Inr _ \<Rightarrow> io_try (Lstat os (ArtifactPath s)) (\<lambda>found.
                io_return (if found = Inl errNotExist then forget_artifact s else s)))) (\<lambda>s.
        io_try (SaveState ext os (CfgStatePath cfg)
            (s\<lparr>SSchema := SchemaV1, InstalledSHA := ToLower (CfgInstalledSHA cfg), LastCheckedAt := wall_clock ext,
               SChannel := (if SChannel s = [] then CfgChannel cfg else SChannel s), LastError := rvNativeErrorText cause\<rparr>))
          (\<lambda>_. io_return ()))))"

text \<open>The check and download requests of the local API, once the caller is known to be the local app.\<close>

definition native_update_request ::
  "externals \<Rightarrow> os \<Rightarrow> surroundings \<Rightarrow> update_config \<Rightarrow> bool \<Rightarrow> NativeStatus io" where
  "native_update_request ext os env cfg download =
     io_try (rvNativeUpdateOnce ext os env cfg download) (\<lambda>r.
       case r of
         Inr status \<Rightarrow> io_return status
       | Inl e \<Rightarrow> io_bind (rvPersistNativeUpdateError ext os env cfg e) (\<lambda>_. io_of (Inl e)))"

end
