(* ===== verification/NativeUpdateProps.thy ===== *)
theory NativeUpdateProps
  imports NativeUpdate
begin

text \<open>
  What an update of the native client touches and what it trusts. The first part is a frame logic: the
  directory entries a command changes are recorded in the history, and the history replays the change of the
  disk when nobody else acts. The second part follows a run from the signed manifest to the staged file.
\<close>

section \<open>Frames\<close>

text \<open>Carry out the recorded changes; every record must know the entry it replaces.\<close>

fun replay :: "(string \<Rightarrow> nat option) \<Rightarrow> effect list \<Rightarrow> (string \<Rightarrow> nat option) option" where
  "replay m [] = Some m"
| "replay m ((p, b, c) # es) = (if m p = b then replay (m(p := c)) es else None)"

lemma replay_append: "replay m (xs @ ys) = (case replay m xs of None \<Rightarrow> None | Some m \<Rightarrow> replay m ys)"
  by (induction m xs rule: replay.induct) (simp_all add: fun_upd_def)

lemma replay_keeps:
  "replay m es = Some m' \<Longrightarrow> m p = Some i \<Longrightarrow> \<forall>(q, b, c) \<in> set es. q = p \<longrightarrow> b = None \<Longrightarrow> m' p = Some i"
proof (induction m es rule: replay.induct)
  case (2 m q b c es)
  then have "m q = b" "p \<noteq> q" by (auto split: if_splits)
  then show ?case using 2 by (simp add: fun_upd_def)
qed simp

text \<open>
  From \<open>s\<close> to \<open>s'\<close> only entries in the frame changed, and no file but those in \<open>X\<close> was rewritten.
\<close>

definition framed :: "os \<Rightarrow> nat set \<Rightarrow> (effect \<Rightarrow> bool) \<Rightarrow> fsys \<Rightarrow> fsys \<Rightarrow> bool" where
  "framed os X S s s' \<longleftrightarrow> (\<exists>new. effects s' = effects s @ new \<and> (\<forall>x \<in> set new. S x)
     \<and> (idle os \<longrightarrow> replay (names (disk s)) new = Some (names (disk s'))))
   \<and> (polite os \<longrightarrow> fresh_disk (disk s) \<longrightarrow> fresh_disk (disk s')
        \<and> (\<forall>i n. i \<notin> X \<longrightarrow> nodes (disk s) i = Some n \<longrightarrow> nodes (disk s') i = Some n))"

definition touches :: "os \<Rightarrow> nat set \<Rightarrow> (effect \<Rightarrow> bool) \<Rightarrow> 'a io \<Rightarrow> bool" where
  "touches os X S m \<longleftrightarrow> (\<forall>s r s'. m s = (r, s') \<longrightarrow> framed os X S s s')"

named_theorems frame

lemma touchesD: "touches os X S m \<Longrightarrow> m s = (r, s') \<Longrightarrow> framed os X S s s'"
  unfolding touches_def by blast

lemma framed_refl: "framed os X S s s"
  unfolding framed_def by (intro conjI exI [of _ "[]"]) simp_all

lemma framed_trans:
  assumes "framed os X S s s1" "framed os X S s1 s2"
  shows "framed os X S s s2"
proof -
  obtain xs where x: "effects s1 = effects s @ xs" "\<forall>x \<in> set xs. S x"
    "idle os \<longrightarrow> replay (names (disk s)) xs = Some (names (disk s1))" using assms(1) unfolding framed_def by blast
  obtain ys where y: "effects s2 = effects s1 @ ys" "\<forall>x \<in> set ys. S x"
    "idle os \<longrightarrow> replay (names (disk s1)) ys = Some (names (disk s2))" using assms(2) unfolding framed_def by blast
  have "\<exists>new. effects s2 = effects s @ new \<and> (\<forall>x \<in> set new. S x)
     \<and> (idle os \<longrightarrow> replay (names (disk s)) new = Some (names (disk s2)))"
    by (intro exI [of _ "xs @ ys"]) (use x y in \<open>auto simp: replay_append\<close>)
  then show ?thesis using assms unfolding framed_def by blast
qed

lemma framed_more: "framed os X S s s' \<Longrightarrow> framed os (insert i X) S s s'"
  unfolding framed_def by auto

lemma framed_less:
  assumes "framed os (insert i X) S s s'" "polite os \<Longrightarrow> fresh_disk (disk s) \<Longrightarrow> nodes (disk s) i = None"
  shows "framed os X S s s'"
proof -
  have "polite os \<longrightarrow> fresh_disk (disk s) \<longrightarrow> (\<forall>j n. j \<notin> X \<longrightarrow> nodes (disk s) j = Some n \<longrightarrow> nodes (disk s') j = Some n)"
  proof (intro allI impI)
    fix j n assume a: "polite os" "fresh_disk (disk s)" "j \<notin> X" "nodes (disk s) j = Some n"
    then have "j \<noteq> i" using assms(2) by auto
    then show "nodes (disk s') j = Some n" using assms(1) a unfolding framed_def by blast
  qed
  then show ?thesis using assms(1) unfolding framed_def by blast
qed

lemma touches_nothing: "(\<And>s r s'. m s = (r, s') \<Longrightarrow> s' = s) \<Longrightarrow> touches os X S m"
  unfolding touches_def using framed_refl by metis

lemma touches_pure [frame]:
  "touches os X S (io_return x)" "touches os X S (io_fail msg)" "touches os X S (io_of r)" "touches os X S (io_assert b msg)"
  by (rule touches_nothing, simp add: io_return_def io_fail_def io_of_def io_assert_def split: if_splits)+

text \<open>The second command may rely on the result it gets.\<close>

lemma touches_bind:
  assumes "touches os X S m" "\<And>x s s'. m s = (Inr x, s') \<Longrightarrow> touches os X S (f x)"
  shows "touches os X S (io_bind m f)"
  unfolding touches_def
proof (intro allI impI)
  fix s r s2 assume a: "io_bind m f s = (r, s2)"
  obtain q s1 where m: "m s = (q, s1)" by (rule prod.exhaust)
  note f = touchesD [OF assms(1) m]
  show "framed os X S s s2"
  proof (cases q)
    case (Inl e)
    then show ?thesis using a m f by (simp add: io_bind_def)
  next
    case (Inr x)
    then have "f x s1 = (r, s2)" using a m by (simp add: io_bind_def)
    then show ?thesis using framed_trans [OF f] touchesD [OF assms(2)] m Inr by blast
  qed
qed

lemma touches_try:
  assumes "touches os X S m" "\<And>r s s'. m s = (r, s') \<Longrightarrow> touches os X S (f r)"
  shows "touches os X S (io_try m f)"
  unfolding touches_def
proof (intro allI impI)
  fix s r s2 assume a: "io_try m f s = (r, s2)"
  obtain q s1 where m: "m s = (q, s1)" by (rule prod.exhaust)
  then have "f q s1 = (r, s2)" using a by (simp add: io_try_def)
  then show "framed os X S s s2" using framed_trans [OF touchesD [OF assms(1) m]] touchesD [OF assms(2)] m by blast
qed

lemma touches_if [frame]: "(b \<Longrightarrow> touches os X S m) \<Longrightarrow> (\<not> b \<Longrightarrow> touches os X S n) \<Longrightarrow> touches os X S (if b then m else n)"
  by simp

lemma touches_sum [frame]:
  "(\<And>e. r = Inl e \<Longrightarrow> touches os X S (f e)) \<Longrightarrow> (\<And>x. r = Inr x \<Longrightarrow> touches os X S (g x)) \<Longrightarrow>
   touches os X S (case r of Inl e \<Rightarrow> f e | Inr x \<Rightarrow> g x)"
  by (simp split: sum.split)

lemma touches_label [frame]: "touches os X S m \<Longrightarrow> touches os X S (io_label label m)"
  unfolding io_label_def by (intro touches_try frame)

lemma io_label_Inr: "io_label label m s = (Inr y, s') \<longleftrightarrow> m s = (Inr y, s')"
proof -
  obtain r s1 where "m s = (r, s1)" by (rule prod.exhaust)
  then show ?thesis by (cases r) (auto simp: io_label_def io_try_def io_of_def)
qed

section \<open>The frames of the system calls\<close>

lemma touches_syscall:
  assumes "\<And>d r d' es. f d = (r, d', es) \<Longrightarrow> (\<forall>x \<in> set es. S x) \<and> replay (names d) es = Some (names d')"
    and "\<And>d r d' es. f d = (r, d', es) \<Longrightarrow> fresh_disk d \<Longrightarrow>
      fresh_disk d' \<and> (\<forall>i n. i \<notin> X \<longrightarrow> nodes d i = Some n \<longrightarrow> nodes d' i = Some n)"
  shows "touches os X S (syscall os f)"
  unfolding touches_def
proof (intro allI impI)
  fix s r s' assume a: "syscall os f s = (r, s')"
  let ?d = "others os (turn s) (disk s)"
  have idle: "idle os \<Longrightarrow> ?d = disk s" by (simp add: idle_def)
  have polite: "polite os \<Longrightarrow> fresh_disk (disk s) \<Longrightarrow> polite_step (disk s) ?d" by (simp add: polite_def)
  obtain q d es where f: "f ?d = (q, d, es)" by (metis prod_cases3)
  show "framed os X S s s'"
  proof (cases "faults os (turn s)")
    case True
    then have s: "effects s' = effects s @ []" "disk s' = ?d" using a by (auto simp: syscall_def Let_def)
    show ?thesis unfolding framed_def
      by (intro conjI exI [of _ "[]"]) (use s idle polite in \<open>auto simp: polite_step_def\<close>)
  next
    case False
    then have s: "effects s' = effects s @ es" "disk s' = d" using a f by (auto simp: syscall_def Let_def)
    show ?thesis unfolding framed_def
      by (intro conjI exI [of _ es]) (use s idle polite assms [OF f] in \<open>auto simp: polite_step_def\<close>)
  qed
qed

lemma touches_reads [frame]:
  "touches os X S (Lstat os p)" "touches os X S (Fstat os i)" "touches os X S (Open os p)" "touches os X S (ReadAll os i)"
  "touches os X S (Flush os)"
  unfolding Lstat_def Fstat_def Open_def ReadAll_def Flush_def by (rule touches_syscall, auto)+

lemma touches_writes:
  "i \<in> X \<Longrightarrow> touches os X S (Chmod os i perm)" "i \<in> X \<Longrightarrow> touches os X S (WriteAll os i t)"
  unfolding Chmod_def WriteAll_def by (rule touches_syscall; auto intro!: fresh_upd split: option.splits)+

lemma fresh_names: "fresh_disk (d\<lparr>names := m\<rparr>) = fresh_disk d"
  by (simp add: fresh_disk_def)

lemma fresh_unused: "fresh_disk d \<Longrightarrow> nodes d (next_inode d) = None"
  by (simp add: fresh_disk_def)

lemma touches_create: "(\<And>i. S (p, None, Some i)) \<Longrightarrow> touches os X S (create os k perm p)"
  unfolding create_def
  by (rule touches_syscall) (auto simp: add_node_def fresh_unused dest: fresh_add [unfolded add_node_def] split: if_splits)

lemma touches_Remove: "(\<And>i. S (p, Some i, None)) \<Longrightarrow> touches os X S (Remove os p)"
  unfolding Remove_def by (rule touches_syscall) (auto simp: fresh_names split: option.splits)

lemma touches_Link: "(\<And>i. S (q, None, Some i)) \<Longrightarrow> touches os X S (Link os p q)"
  unfolding Link_def by (rule touches_syscall) (auto simp: fresh_names split: option.splits if_splits)

lemma touches_Rename: "(\<And>i. S (p, Some i, None)) \<Longrightarrow> (\<And>b i. S (q, b, Some i)) \<Longrightarrow> touches os X S (Rename os p q)"
  unfolding Rename_def by (rule touches_syscall) (auto simp: fresh_names split: option.splits if_splits)

lemma make_dirs_replay:
  "make_dirs perm ps d = (r, d', es) \<Longrightarrow>
   (\<forall>(q, b, c) \<in> set es. q \<in> set ps \<and> b = None) \<and> replay (names d) es = Some (names d')
   \<and> (fresh_disk d \<longrightarrow> fresh_disk d' \<and> (\<forall>i n. nodes d i = Some n \<longrightarrow> nodes d' i = Some n))"
proof (induction ps arbitrary: r d' es)
  case (Cons p ps)
  show ?case
  proof (cases "is_directory d (resolve d p) \<or> resolve d p \<noteq> None")
    case False
    obtain q d1 es1 where m: "make_dirs perm ps d = (q, d1, es1)" by (metis prod_cases3)
    note ih = Cons.IH [OF m]
    have made: "fresh_disk d \<Longrightarrow> fresh_disk (add_node p (new_directory perm) d1)
        \<and> (\<forall>i n. nodes d i = Some n \<longrightarrow> nodes (add_node p (new_directory perm) d1) i = Some n)"
      using ih fresh_add [of d1] fresh_unused [of d1] by (auto simp: add_node_def)
    have n: "names (add_node p (new_directory perm) d1) = (names d1)(p \<mapsto> next_inode d1)" by (simp add: add_node_def)
    show ?thesis using Cons.prems ih made m False
      by (auto simp: replay_append n split: sum.splits if_splits)
  qed (use Cons.prems in \<open>auto split: if_splits\<close>)
qed simp

lemma touches_MkdirAll:
  assumes "\<And>q c. q \<in> set (ancestors (strip_slashes p)) \<Longrightarrow> S (q, None, c)"
  shows "touches os X S (MkdirAll os p perm)"
  unfolding MkdirAll_def
proof (rule touches_syscall)
  fix d r d' es assume m: "make_dirs perm (ancestors (strip_slashes p)) d = (r, d', es)"
  note r = make_dirs_replay [OF m]
  show "(\<forall>x \<in> set es. S x) \<and> replay (names d) es = Some (names d')" using r assms by fast
  show "fresh_disk d \<Longrightarrow> fresh_disk d' \<and> (\<forall>i n. i \<notin> X \<longrightarrow> nodes d i = Some n \<longrightarrow> nodes d' i = Some n)" using r by blast
qed

lemma touches_CreateTemp:
  assumes "\<And>t i. S (dir @ CHR ''/'' # prefix @ temp_name os t, None, Some i)"
  shows "touches os X S (CreateTemp os k perm dir prefix)"
proof -
  have "touches os X S (io_bind (create os k perm p) (\<lambda>i. io_return (i, p)))" if "\<And>i. S (p, None, Some i)" for p
    by (intro touches_bind touches_create touches_pure that)
  then show ?thesis using assms unfolding touches_def CreateTemp_def Let_def by blast
qed

lemma temp_fresh:
  assumes "CreateTemp os k perm dir v s = (Inr (i, p), s')" "polite os" "fresh_disk (disk s)"
  shows "nodes (disk s) i = None"
proof -
  let ?d = "others os (turn s) (disk s)"
  have st: "polite_step (disk s) ?d" using assms(2,3) by (simp add: polite_def)
  have "i = next_inode ?d"
    using assms(1) by (auto simp: CreateTemp_def create_def syscall_def io_bind_def io_return_def Let_def split: if_splits)
  then have "nodes ?d i = None" using st fresh_unused [of ?d] by (simp add: polite_step_def)
  then show ?thesis using st by (cases "nodes (disk s) i") (auto simp: polite_step_def)
qed

lemma temp_path: "CreateTemp os k perm dir v s = (Inr (i, p), s') \<Longrightarrow> \<exists>t. p = dir @ CHR ''/'' # v @ temp_name os t"
  by (auto simp: CreateTemp_def Let_def io_bind_def io_return_def split: prod.splits sum.splits)

text \<open>Writing to the temporary file rewrites nothing that existed before.\<close>

lemma touches_fresh_bind:
  assumes "\<And>t i. S (dir @ CHR ''/'' # v @ temp_name os t, None, Some i)"
    and "\<And>i t. touches os (insert i X) S (f (i, dir @ CHR ''/'' # v @ temp_name os t))"
  shows "touches os X S (io_bind (CreateTemp os k perm dir v) f)"
  unfolding touches_def
proof (intro allI impI)
  fix s r s2 assume a: "io_bind (CreateTemp os k perm dir v) f s = (r, s2)"
  obtain q s1 where m: "CreateTemp os k perm dir v s = (q, s1)" by (rule prod.exhaust)
  have c: "framed os X S s s1" by (rule touchesD [OF touches_CreateTemp m]) (rule assms(1))
  show "framed os X S s s2"
  proof (cases q)
    case (Inl e)
    then show ?thesis using a m c by (simp add: io_bind_def)
  next
    case (Inr it)
    obtain i p where it: "it = (i, p)" by (rule prod.exhaust)
    obtain t where t: "p = dir @ CHR ''/'' # v @ temp_name os t" using temp_path m Inr it by blast
    have "f (i, p) s1 = (r, s2)" using a m Inr it by (simp add: io_bind_def)
    then have "framed os (insert i X) S s1 s2" using touchesD [OF assms(2)] t by blast
    then have "framed os (insert i X) S s s2" by (rule framed_trans [OF framed_more [OF c]])
    moreover have "polite os \<Longrightarrow> fresh_disk (disk s) \<Longrightarrow> nodes (disk s) i = None" using temp_fresh m Inr it by blast
    ultimately show ?thesis by (rule framed_less)
  qed
qed

section \<open>The frames of the store\<close>

lemma touches_Match [frame]: "touches os X S (fileMatchesSHA256 os path want)"
  unfolding fileMatchesSHA256_def by (intro touches_bind touches_try frame)

lemma touches_sync [frame]: "touches os X S (syncDirectory os dir)"
  unfolding syncDirectory_def by (intro touches_bind frame)

lemma touches_LoadState [frame]: "touches os X S (LoadState ext os path)"
  unfolding LoadState_def by (intro touches_bind touches_try frame)

lemma touches_let: "touches os X S (f x) \<Longrightarrow> touches os X S (Let x f)"
  by simp

text \<open>A frame that allows everything at the names of temporary files.\<close>

locale own_frame =
  fixes os :: os and S :: "effect \<Rightarrow> bool"
  assumes own: "own_name p \<Longrightarrow> S (p, b, c)"
begin

lemma touches_temp:
  assumes "\<And>i tmp. own_name tmp \<Longrightarrow> touches os (insert i X) S (f (i, tmp))"
  shows "touches os X S (io_bind (CreateTemp os k perm dir (''.router-vpn-update-'' @ u)) f)"
  by (rule touches_fresh_bind) (use own_temp [of dir] in \<open>simp_all add: own assms\<close>)

lemma touches_discard: "own_name tmp \<Longrightarrow> touches os X S (discard os tmp r)"
  unfolding discard_def by (intro touches_try touches_Remove own frame)

lemma touches_download:
  assumes final: "\<And>b c. isHex (SHA256 a) 64 \<Longrightarrow> S (artifact_path dir a, b, c)"
    and mk: "\<And>q c. q \<in> set (ancestors (strip_slashes dir)) \<Longrightarrow> S (q, None, c)"
  shows "touches os X S (DownloadArtifactDetailed ext os a dir)"
proof (cases "Artifact_Validate ext no_options a")
  case (Inl e)
  then have "DownloadArtifactDetailed ext os a dir = io_of (Inl e)"
    by (simp add: DownloadArtifactDetailed_def Let_def io_bind_def io_of_def fun_eq_iff)
  then show ?thesis by (simp add: frame)
next
  case (Inr u)
  let ?f = "artifact_path dir a"
  have "isHex (SHA256 a) 64" using Artifact_Validate_ok [of ext no_options a] Inr by (simp add: valid_artifact_def)
  note final = final [OF this]
  have adopt: "own_name tmp \<Longrightarrow> touches os X S (adoptNoClobber os tmp ?f staged)" for tmp staged X
    unfolding adoptNoClobber_def by (intro touches_bind touches_try touches_Rename touches_Link touches_Remove own final frame)
  have stage: "i \<in> X \<Longrightarrow> touches os X S (stage_artifact os a resp i)" for resp i X
    unfolding stage_artifact_def by (intro touches_bind touches_writes frame)
  have race: "touches os X S (lost_race os a ?f e)" for e X
    unfolding lost_race_def by (intro touches_try frame)
  have publish: "own_name tmp \<Longrightarrow> i \<in> X \<Longrightarrow> touches os X S (publish_artifact os a dir ?f resp (i, tmp))" for resp i tmp X
    unfolding publish_artifact_def Let_def prod.case
    by (intro touches_bind touches_try touches_discard adopt stage race frame)
  have reuse: "touches os X S (reuse_artifact os a ?f info)" for info
    unfolding reuse_artifact_def by (intro touches_bind touches_try frame)
  have temp: "touches os X S (io_bind (CreateTemp os Regular 384 dir ''.router-vpn-update-'') (publish_artifact os a dir ?f resp))" for resp
    using touches_temp [of X "publish_artifact os a dir ?f resp" Regular 384 dir "[]"] publish by simp
  have fresh: "touches os X S (download_fresh os a dir ?f)"
    unfolding download_fresh_def by (intro touches_bind temp frame)
  show ?thesis
    unfolding DownloadArtifactDetailed_def Let_def
    by (intro touches_bind touches_try touches_MkdirAll mk reuse fresh frame)
qed

lemma touches_save:
  assumes path: "\<And>b c. S (path, b, c)"
    and mk: "\<And>q c. q \<in> set (ancestors (strip_slashes (path_Dir path))) \<Longrightarrow> S (q, None, c)"
  shows "touches os X S (SaveState ext os path st)"
proof -
  have stage: "own_name tmp \<Longrightarrow> i \<in> X \<Longrightarrow> touches os X S (stage_state os path data (i, tmp))" for data i tmp X
    unfolding stage_state_def Let_def prod.case by (intro touches_bind touches_try touches_Rename touches_writes path own frame)
  have publish: "own_name tmp \<Longrightarrow> i \<in> X \<Longrightarrow> touches os X S (publish_state os d path data (i, tmp))" for d data i tmp X
    unfolding publish_state_def snd_conv by (intro touches_bind touches_try touches_discard stage frame)
  have temp: "touches os X S (io_bind (CreateTemp os Regular 384 d ''.router-vpn-update-state-'') (publish_state os d path data))" for d data
    using touches_temp [of X "publish_state os d path data" Regular 384 d "''state-''"] publish by simp
  show ?thesis
    unfolding SaveState_def Let_def
    by (intro touches_bind touches_try touches_MkdirAll mk temp frame)
qed

lemma touches_remove:
  assumes path: "\<And>b c. S (path_Clean path, b, c)" and names: "plain_temp_names os"
  shows "touches os X S (RemoveVerifiedArtifact os path want)"
proof -
  let ?p = "path_Clean path"
  have restore: "own_name tomb \<Longrightarrow> touches os X S (restoreArtifactNoClobber os tomb ?p moved)" for tomb moved X
    unfolding restoreArtifactNoClobber_def
    by (intro touches_bind touches_try touches_Rename touches_Link touches_Remove own path frame)
  have undo: "own_name tomb \<Longrightarrow> own_name d \<Longrightarrow> touches os X S (restore_tomb os d tomb ?p moved cause)" for d tomb moved cause X
    unfolding restore_tomb_def by (intro touches_try touches_Remove own restore frame)
  have finish: "own_name tomb \<Longrightarrow> own_name d \<Longrightarrow> touches os X S (finish_removal os d tomb ?p w before)" for d tomb w before X
    unfolding finish_removal_def by (intro touches_bind touches_try touches_Remove own undo frame)
  have tomb: "own_name (path_Dir ?p @ CHR ''/'' # ''.router-vpn-update-remove-'' @ temp_name os t)"
    "own_name (path_Join (path_Dir ?p @ CHR ''/'' # ''.router-vpn-update-remove-'' @ temp_name os t) ''artifact'')" for t
    using tomb_name [of "temp_name os t" ?p] own_temp [of "path_Dir ?p" "''remove-'' @ temp_name os t"] names
    unfolding plain_temp_names_def by simp_all
  show ?thesis
    unfolding RemoveVerifiedArtifact_def Let_def split_def
    by (intro touches_fresh_bind touches_bind touches_try touches_discard touches_Rename touches_writes finish path own frame)
      (simp_all only: fst_conv snd_conv tomb insertI1)
qed

end

section \<open>The frame of an update\<close>

text \<open>The directories an update may create: the download directory, the one of the state, and those above.\<close>

definition update_dirs :: "update_config \<Rightarrow> string set" where
  "update_dirs cfg = set (ancestors (strip_slashes (CfgDownloadDir cfg)))
     \<union> set (ancestors (strip_slashes (path_Clean (TrimSpace (CfgDownloadDir cfg)))))
     \<union> set (ancestors (strip_slashes (path_Dir (CfgStatePath cfg))))"

definition update_effect :: "surroundings \<Rightarrow> update_config \<Rightarrow> effect \<Rightarrow> bool" where
  "update_effect env cfg = (\<lambda>(p, b, c). own_name p \<or> p = CfgStatePath cfg
     \<or> (\<exists>dg. isHex dg 64 \<and> owned_child (Cwd env) (CfgDownloadDir cfg) dg p)
     \<or> (b = None \<and> p \<in> update_dirs cfg))"

interpretation upd: own_frame os "update_effect env cfg" for os env cfg
  by unfold_locales (simp add: update_effect_def)

lemma touches_private:
  assumes "\<And>q c. q \<in> set (ancestors (strip_slashes (path_Clean (TrimSpace dir)))) \<Longrightarrow> S (q, None, c)"
  shows "touches os X S (EnsurePrivateArtifactDirectory os dir)"
  unfolding EnsurePrivateArtifactDirectory_def Let_def
  by (intro touches_bind touches_try touches_MkdirAll assms frame)

lemma touches_validate:
  assumes "\<And>q c. q \<in> set (ancestors (strip_slashes (path_Clean (TrimSpace dir)))) \<Longrightarrow> S (q, None, c)"
  shows "touches os X S (ValidateOwnedArtifactPath os cwd dir path digest)"
  unfolding ValidateOwnedArtifactPath_def Let_def by (intro touches_bind touches_private assms frame)

lemma touches_ensure [frame]:
  "touches os X (update_effect env cfg) (EnsurePrivateArtifactDirectory os (CfgDownloadDir cfg))"
  by (rule touches_private) (simp add: update_effect_def update_dirs_def)

lemma touches_owned [frame]:
  "touches os X (update_effect env cfg) (ValidateOwnedArtifactPath os cwd (CfgDownloadDir cfg) path digest)"
  by (rule touches_validate) (simp add: update_effect_def update_dirs_def)

lemma touches_saved [frame]: "touches os X (update_effect env cfg) (saved_is_owned os env cfg s)"
  unfolding saved_is_owned_def by (rule touches_owned)

lemma touches_save_status [frame]:
  "touches os X (update_effect env cfg) (SaveState ext os (CfgStatePath cfg) st)"
  "touches os X (update_effect env cfg) (rvSaveNativeStatus ext os cfg st label)"
proof -
  show "touches os X (update_effect env cfg) (SaveState ext os (CfgStatePath cfg) st)" for st
    by (rule upd.touches_save) (simp_all add: update_effect_def update_dirs_def)
  then show "touches os X (update_effect env cfg) (rvSaveNativeStatus ext os cfg st label)"
    unfolding rvSaveNativeStatus_def by (intro touches_bind frame)
qed

text \<open>A removal stays within the frame once the ownership check has passed.\<close>

lemma touches_owned_removal:
  assumes "known_dir (Cwd env)" "plain_temp_names os" "TrimSpace path \<noteq> []"
    and "ValidateOwnedArtifactPath os (Cwd env) (CfgDownloadDir cfg) path digest s = (Inr x, s')"
  shows "touches os X (update_effect env cfg) (RemoveVerifiedArtifact os path want)"
proof (rule upd.touches_remove [OF _ assms(2)])
  obtain e s1 where e: "EnsurePrivateArtifactDirectory os (CfgDownloadDir cfg) s = (e, s1)" by (rule prod.exhaust)
  show "update_effect env cfg (path_Clean path, b, c)" for b c
    using ValidateOwned_result [OF assms(1,3) e assms(4)] by (auto simp: update_effect_def)
qed

lemma TrimSpace_idem: "TrimSpace (TrimSpace s) = TrimSpace s"
proof -
  have "dropWhile p (rev (dropWhile p (rev (dropWhile p s)))) = rev (dropWhile p (rev (dropWhile p s)))" for p :: "char \<Rightarrow> bool"
  proof (cases "dropWhile p (rev (dropWhile p s))")
    case (Cons c cs)
    let ?t = "dropWhile p s"
    have ne: "?t \<noteq> []" by (metis Cons dropWhile.simps(1) list.discI rev.simps(1))
    obtain u where "rev ?t = u @ dropWhile p (rev ?t)" by (metis takeWhile_dropWhile_id)
    then have "?t = rev (dropWhile p (rev ?t)) @ rev u" by (metis rev_append rev_rev_ident)
    then have "hd (rev (dropWhile p (rev ?t))) = hd ?t" using Cons by (metis hd_append2 list.discI rev_is_Nil_conv)
    then show ?thesis unfolding dropWhile_eq_self_iff using hd_dropWhile [OF ne] by metis
  next
    case Nil
    show ?thesis unfolding Nil by simp
  qed
  then show ?thesis by (simp add: TrimSpace_def trim_by_def)
qed

lemma touches_clear [frame]:
  assumes "known_dir (Cwd env)" "plain_temp_names os"
  shows "touches os X (update_effect env cfg) (rvClearNativeArtifact os env cfg s)"
  unfolding rvClearNativeArtifact_def Let_def
  by (intro touches_bind touches_try touches_owned_removal [OF assms] frame) (simp_all add: TrimSpace_idem io_label_Inr)

lemma touches_load [frame]: "touches os X (update_effect env cfg) (load_or_fresh ext os env cfg)"
  unfolding load_or_fresh_def by (intro touches_bind touches_try frame)

text \<open>A successful command yields a value with this property.\<close>

definition yields :: "'a io \<Rightarrow> ('a \<Rightarrow> bool) \<Rightarrow> bool" where
  "yields m P \<longleftrightarrow> (\<forall>s x s'. m s = (Inr x, s') \<longrightarrow> P x)"

lemma yields_bind: "(\<And>x. yields (f x) P) \<Longrightarrow> yields (io_bind m f) P"
  by (auto simp: yields_def io_bind_def split: prod.splits sum.splits)

lemma yields_try: "(\<And>r. yields (f r) P) \<Longrightarrow> yields (io_try m f) P"
  by (auto simp: yields_def io_try_def split: prod.splits)

lemma yields_end: "P x \<Longrightarrow> yields (io_return x) P" "yields (io_fail msg) P" "yields (io_of (Inl e)) P"
  by (auto simp: yields_def io_return_def io_fail_def io_of_def)

lemma yields_discard: "(\<And>x. r = Inr x \<Longrightarrow> P x) \<Longrightarrow> yields (discard os tmp r) P"
  by (auto simp: yields_def discard_def io_try_def io_of_def split: prod.splits)

lemma yields_race: "yields (lost_race os a final e) (\<lambda>x. DPath x = final)"
  unfolding lost_race_def by (auto intro!: yields_try yields_end)

lemma yields_publish: "yields (publish_artifact os a dir final resp it) (\<lambda>x. DPath x = final)"
proof -
  have "yields (io_try (lost_race os a final e) (discard os tmp)) (\<lambda>x. DPath x = final)" for e tmp
    using yields_race [of os a final e] by (auto simp: yields_def io_try_def discard_def io_of_def split: prod.splits)
  then show ?thesis
    unfolding publish_artifact_def Let_def
    by (auto intro!: yields_try yields_bind yields_end yields_discard split: prod.split sum.split)
qed

lemma yields_download: "yields (DownloadArtifactDetailed ext os a dir) (\<lambda>x. DPath x = artifact_path dir a)"
  unfolding DownloadArtifactDetailed_def reuse_artifact_def download_fresh_def Let_def
  by (auto intro!: yields_try yields_bind yields_end yields_publish split: sum.split)

lemma update_effect_download:
  "known_dir (Cwd env) \<Longrightarrow> isHex (SHA256 a) 64 \<Longrightarrow> update_effect env cfg (artifact_path (CfgDownloadDir cfg) a, b, c)"
  using download_owned_child [of "Cwd env" a "CfgDownloadDir cfg"] isHex_lower(2) by (auto simp: update_effect_def)

lemma touches_fetch:
  "known_dir (Cwd env) \<Longrightarrow> touches os X (update_effect env cfg) (DownloadArtifactDetailed ext os a (CfgDownloadDir cfg))"
  by (rule upd.touches_download) (simp_all add: update_effect_download, simp add: update_effect_def update_dirs_def)

lemma touches_stage:
  assumes "known_dir (Cwd env)" "plain_temp_names os"
  shows "touches os X (update_effect env cfg) (stage_update ext os env cfg a s)"
proof -
  let ?S = "update_effect env cfg"
  let ?dir = "CfgDownloadDir cfg"
  note hex = update_effect_download [OF assms(1)] and load = touches_fetch [OF assms(1)]
  have undo: "touches os X ?S (RemoveVerifiedArtifact os (DPath d) (SHA256 a))"
    if d: "DownloadArtifactDetailed ext os a ?dir s = (Inr d, s')" for d s s'
  proof -
    have "isHex (SHA256 a) 64"
      using d Artifact_Validate_ok [of ext no_options a]
      by (cases "Artifact_Validate ext no_options a")
        (auto simp: DownloadArtifactDetailed_def Let_def io_bind_def io_of_def valid_artifact_def)
    moreover have "DPath d = artifact_path ?dir a" using yields_download [of ext os a ?dir] d unfolding yields_def by blast
    ultimately have "?S (path_Clean (DPath d), b, c)" for b c using hex by (simp add: artifact_path_clean)
    then show ?thesis by (rule upd.touches_remove [OF _ assms(2)])
  qed
  have lost: "io_label l (DownloadArtifactDetailed ext os a ?dir) s = (Inr d, s') \<Longrightarrow> touches os X ?S (drop_escaped os a d e)"
    "io_label l (DownloadArtifactDetailed ext os a ?dir) s = (Inr d, s') \<Longrightarrow> touches os X ?S (take_back os a d e)" for l d s s' e
    unfolding drop_escaped_def take_back_def io_label_Inr by (intro touches_bind touches_try undo frame; assumption)+
  show ?thesis
    unfolding stage_update_def by (intro touches_bind touches_try load frame) (erule lost)+
qed

lemma touches_apply:
  assumes "known_dir (Cwd env)" "plain_temp_names os"
  shows "touches os X (update_effect env cfg) (apply_manifest ext os env cfg download m s)"
  unfolding apply_manifest_def Let_def
  by (intro touches_bind touches_stage [OF assms] touches_clear [OF assms] frame)

lemma touches_once:
  assumes "known_dir (Cwd env)" "plain_temp_names os"
  shows "touches os X (update_effect env cfg) (rvNativeUpdateOnce ext os env cfg download)"
  unfolding rvNativeUpdateOnce_def by (intro touches_bind touches_apply [OF assms] frame)

lemma touches_persist: "touches os X (update_effect env cfg) (rvPersistNativeUpdateError ext os env cfg e)"
  unfolding rvPersistNativeUpdateError_def Let_def by (intro touches_bind touches_try frame)

lemma touches_request:
  assumes "known_dir (Cwd env)" "plain_temp_names os"
  shows "touches os X (update_effect env cfg) (native_update_request ext os env cfg download)"
  unfolding native_update_request_def by (intro touches_bind touches_try touches_once [OF assms] touches_persist frame)

section \<open>What an update trusts\<close>

text \<open>A file keeps its content, and with nobody else acting its name, while a command works elsewhere.\<close>

lemma framed_file:
  assumes "framed os {} S s s'" "polite os" "fresh_disk (disk s)" "nodes (disk s) i = Some n"
    and "\<And>b c. S (p, b, c) \<Longrightarrow> b = None"
  shows "fresh_disk (disk s') \<and> nodes (disk s') i = Some n \<and> (idle os \<and> names (disk s) p = Some i \<longrightarrow> names (disk s') p = Some i)"
proof -
  obtain new where new: "\<forall>x \<in> set new. S x" "idle os \<longrightarrow> replay (names (disk s)) new = Some (names (disk s'))"
    using assms(1) unfolding framed_def by blast
  have "\<forall>(q, b, c) \<in> set new. q = p \<longrightarrow> b = None" using new(1) assms(5) by fast
  then show ?thesis using assms(1-4) new(2) replay_keeps [of "names (disk s)" new "names (disk s')" p i]
    unfolding framed_def by auto
qed

definition save_effect :: "string \<Rightarrow> effect \<Rightarrow> bool" where
  "save_effect path = (\<lambda>(p, b, c). own_name p \<or> p = path \<or> b = None)"

interpretation saved: own_frame os "save_effect path" for os path
  by unfold_locales (simp add: save_effect_def)

lemma framed_save: "SaveState ext os path st s = (r, s') \<Longrightarrow> framed os X (save_effect path) s s'"
  by (rule touchesD [OF saved.touches_save]) (simp_all add: save_effect_def)

lemma framed_validate: "ValidateOwnedArtifactPath os cwd dir path digest s = (r, s') \<Longrightarrow> framed os X (\<lambda>(p, b, c). b = None) s s'"
  by (rule touchesD [OF touches_validate]) simp

lemma touches_fresh: "touches os {} S m \<Longrightarrow> m s = (r, s') \<Longrightarrow> polite os \<Longrightarrow> fresh_disk (disk s) \<Longrightarrow> fresh_disk (disk s')"
  unfolding touches_def framed_def by blast

lemma io_bind_Inr: "io_bind m f s = (Inr y, s') \<longleftrightarrow> (\<exists>x s1. m s = (Inr x, s1) \<and> f x s1 = (Inr y, s'))"
  by (auto simp: io_bind_def split: prod.splits sum.splits)

lemma io_of_Inr: "io_of r s = (Inr y, s') \<longleftrightarrow> r = Inr y \<and> s' = s"
  by (auto simp: io_of_def)

lemma io_assert_Inr: "io_assert b msg s = (Inr y, s') \<longleftrightarrow> b \<and> s' = s"
  by (auto simp: io_assert_def io_return_def io_fail_def)

lemma io_return_Inr: "io_return x s = (Inr y, s') \<longleftrightarrow> y = x \<and> s' = s"
  by (auto simp: io_return_def)

lemmas io_Inr = io_label_Inr io_bind_Inr io_of_Inr io_assert_Inr io_return_Inr

text \<open>The stages of a run that succeeds.\<close>

lemma once_stages:
  assumes "rvNativeUpdateOnce ext os env cfg download s = (Inr st, s')"
  obtains u s1 raw m where "load_or_fresh ext os env cfg s = (Inr u, s1)"
    "rvFetchManifest ext env (CfgManifestURL cfg) = Inr raw"
    "ParseAndVerify ext raw (CfgPublicKey cfg) (manifest_options cfg) = Inr m" "admit_sequence u m = Inr ()"
    "apply_manifest ext os env cfg download m (record_manifest ext cfg m u) s1 = (Inr st, s')"
  using assms unfolding rvNativeUpdateOnce_def by (auto simp: io_Inr)

lemma try_Inr:
  "io_try m f s = (Inr y, s') \<Longrightarrow> (\<And>e t. f (Inl e) t \<noteq> (Inr y, s')) \<Longrightarrow> \<exists>x s1. m s = (Inr x, s1) \<and> f (Inr x) s1 = (Inr y, s')"
proof -
  assume t: "io_try m f s = (Inr y, s')" and e: "\<And>e t. f (Inl e) t \<noteq> (Inr y, s')"
  obtain r s1 where m: "m s = (r, s1)" by (rule prod.exhaust)
  then have "f r s1 = (Inr y, s')" using t by (simp add: io_try_def)
  then show ?thesis using m e by (cases r) blast+
qed

text \<open>The state \<open>u\<close> was saved and \<open>st\<close> reports it.\<close>

definition saved_as :: "externals \<Rightarrow> os \<Rightarrow> update_config \<Rightarrow> UState \<Rightarrow> fsys \<Rightarrow> NativeStatus \<Rightarrow> fsys \<Rightarrow> bool" where
  "saved_as ext os cfg u s st s' \<longleftrightarrow> SaveState ext os (CfgStatePath cfg) u s = (Inr (), s') \<and> st = rvStatus ext cfg u"

lemma save_status_Inr: "rvSaveNativeStatus ext os cfg u label s = (Inr st, s') \<longleftrightarrow> saved_as ext os cfg u s st s'"
  by (auto simp: rvSaveNativeStatus_def io_Inr saved_as_def)

lemma stage_parts:
  assumes "stage_update ext os env cfg a u s = (Inr st, s')"
  obtains d s1 s2 s3 where "EnsurePrivateArtifactDirectory os (CfgDownloadDir cfg) s = (Inr (), s1)"
    "DownloadArtifactDetailed ext os a (CfgDownloadDir cfg) s1 = (Inr d, s2)"
    "ValidateOwnedArtifactPath os (Cwd env) (CfgDownloadDir cfg) (DPath d) (SHA256 a) s2 = (Inr (), s3)"
    "saved_as ext os cfg (u\<lparr>ArtifactPath := DPath d, ArtifactSHA256 := ToLower (SHA256 a),
       DownloadedAt := wall_clock ext, InstallPending := True\<rparr>) s3 st s'"
proof -
  have no: "drop_escaped os a d e t \<noteq> (Inr y, t')" "take_back os a d e t \<noteq> (Inr y, t')" for d e t y t'
    by (auto simp: drop_escaped_def take_back_def io_Inr io_try_def io_of_def split: prod.splits sum.splits if_splits)
  let ?save = "\<lambda>d. rvSaveNativeStatus ext os cfg (u\<lparr>ArtifactPath := DPath d, ArtifactSHA256 := ToLower (SHA256 a),
       DownloadedAt := wall_clock ext, InstallPending := True\<rparr>) ''persist staged native update''"
  let ?k = "\<lambda>d saved. case saved of Inr status \<Rightarrow> io_return status | Inl e \<Rightarrow> take_back os a d e"
  let ?j = "\<lambda>d owned. case owned of Inl e \<Rightarrow> drop_escaped os a d e | Inr _ \<Rightarrow> io_try (?save d) (?k d)"
  obtain d s1 s2 where a: "EnsurePrivateArtifactDirectory os (CfgDownloadDir cfg) s = (Inr (), s1)"
    "DownloadArtifactDetailed ext os a (CfgDownloadDir cfg) s1 = (Inr d, s2)"
    and rest: "io_try (ValidateOwnedArtifactPath os (Cwd env) (CfgDownloadDir cfg) (DPath d) (SHA256 a)) (?j d) s2 = (Inr st, s')"
    using assms unfolding stage_update_def by (auto simp: io_bind_Inr io_label_Inr)
  from try_Inr [OF rest] obtain s3 where v:
      "ValidateOwnedArtifactPath os (Cwd env) (CfgDownloadDir cfg) (DPath d) (SHA256 a) s2 = (Inr (), s3)"
    and save: "io_try (?save d) (?k d) s3 = (Inr st, s')"
    by (auto simp: no)
  from try_Inr [OF save] show thesis using that a v by (auto simp: no io_return_Inr save_status_Inr)
qed

lemma clear_Inr: "rvClearNativeArtifact os env cfg u s = (Inr v, s') \<Longrightarrow> v = forget_artifact u"
  by (auto simp: rvClearNativeArtifact_def io_Inr Let_def)

text \<open>How a run that succeeds ends: the state it saves, and what led there.\<close>

definition same_manifest :: "UState \<Rightarrow> UState \<Rightarrow> bool" where
  "same_manifest u v \<longleftrightarrow> LastSequence v = LastSequence u \<and> LastManifestSHA v = LastManifestSHA u"

lemma apply_parts:
  assumes "apply_manifest ext os env cfg download m u s = (Inr st, s')" "known_dir (Cwd env)" "plain_temp_names os"
  shows "\<exists>v s1. same_manifest u v \<and> framed os {} (update_effect env cfg) s s1 \<and>
    (if EqualFold (CommitSHA m) (CfgInstalledSHA cfg) then
       saved_as ext os cfg v s1 st s' \<and> ArtifactPath v = [] \<and> \<not> InstallPending v
     else \<exists>a. SelectArtifact ext m (CfgPlatform cfg) (CfgArch cfg) (CfgKind cfg) = Inr a \<and>
       (if download then stage_update ext os env cfg a v s1 = (Inr st, s')
        else saved_as ext os cfg v s1 st s'))"
proof (cases "EqualFold (CommitSHA m) (CfgInstalledSHA cfg)")
  case True
  then obtain v s1 where c: "rvClearNativeArtifact os env cfg u s = (Inr v, s1)"
    "saved_as ext os cfg (v\<lparr>AvailableSHA := []\<rparr>) s1 st s'"
    using assms(1) by (auto simp: apply_manifest_def io_bind_Inr io_label_Inr save_status_Inr)
  have "framed os {} (update_effect env cfg) s s1" by (rule touchesD [OF touches_clear [OF assms(2,3)] c(1)])
  then show ?thesis
    using True c(2) clear_Inr [OF c(1)]
    by (intro exI [of _ "v\<lparr>AvailableSHA := []\<rparr>"] exI [of _ s1]) (simp add: same_manifest_def forget_artifact_def)
next
  case False
  let ?u = "u\<lparr>AvailableSHA := ToLower (CommitSHA m)\<rparr>"
  let ?sup = "ArtifactPath u \<noteq> [] \<and> \<not> EqualFold (AvailableSHA u) (CommitSHA m)"
  let ?clear = "if ?sup then io_label ''remove superseded staged native update'' (rvClearNativeArtifact os env cfg ?u) else io_return ?u"
  let ?note = "\<lambda>v. if ?sup then io_bind (rvSaveNativeStatus ext os cfg v ''persist superseded native update cleanup'') (\<lambda>_. io_return ()) else io_return ()"
  obtain a v s1 where a: "SelectArtifact ext m (CfgPlatform cfg) (CfgArch cfg) (CfgKind cfg) = Inr a"
    and c: "?clear s = (Inr v, s1)"
    and r: "(if \<not> download then rvSaveNativeStatus ext os cfg v ''persist native update check''
        else io_bind (?note v) (\<lambda>_. stage_update ext os env cfg a v)) s1 = (Inr st, s')"
    using assms(1) False unfolding apply_manifest_def Let_def by (simp only: if_False io_bind_Inr io_of_Inr) blast
  have v: "same_manifest u v"
    using c by (auto simp: same_manifest_def forget_artifact_def io_return_Inr io_label_Inr dest!: clear_Inr split: if_split_asm)
  have "touches os {} (update_effect env cfg) ?clear" by (intro touches_clear [OF assms(2,3)] frame)
  note f1 = touchesD [OF this c]
  show ?thesis
  proof (cases download)
    case d: True
    then obtain x s2 where n: "?note v s1 = (Inr x, s2)" and g: "stage_update ext os env cfg a v s2 = (Inr st, s')"
      using r by (simp only: if_False not_True_eq_False io_bind_Inr) blast
    have "touches os {} (update_effect env cfg) (?note v)" by (intro touches_bind frame)
    from framed_trans [OF f1 touchesD [OF this n]] have "framed os {} (update_effect env cfg) s s2" .
    then show ?thesis using False a v g d by (intro exI [of _ v] exI [of _ s2]) simp
  next
    case d: False
    then show ?thesis using False a v f1 r by (intro exI [of _ v] exI [of _ s1]) (simp add: save_status_Inr)
  qed
qed

lemma apply_saves:
  assumes "apply_manifest ext os env cfg download m u s = (Inr st, s')" "known_dir (Cwd env)" "plain_temp_names os"
  obtains w t where "SaveState ext os (CfgStatePath cfg) w t = (Inr (), s')" "st = rvStatus ext cfg w" "same_manifest u w"
    "framed os {} (update_effect env cfg) s t"
proof -
  obtain v s1 where v: "same_manifest u v" "framed os {} (update_effect env cfg) s s1"
    and e: "saved_as ext os cfg v s1 st s' \<or> (\<exists>a. stage_update ext os env cfg a v s1 = (Inr st, s'))"
    using apply_parts [OF assms] by metis
  show thesis
  proof (cases "saved_as ext os cfg v s1 st s'")
    case True
    then show ?thesis using that v by (auto simp: saved_as_def)
  next
    case False
    then obtain a where "stage_update ext os env cfg a v s1 = (Inr st, s')" using e by blast
    then obtain d t1 t2 t3 where t: "EnsurePrivateArtifactDirectory os (CfgDownloadDir cfg) s1 = (Inr (), t1)"
      "DownloadArtifactDetailed ext os a (CfgDownloadDir cfg) t1 = (Inr d, t2)"
      "ValidateOwnedArtifactPath os (Cwd env) (CfgDownloadDir cfg) (DPath d) (SHA256 a) t2 = (Inr (), t3)"
      "saved_as ext os cfg (v\<lparr>ArtifactPath := DPath d, ArtifactSHA256 := ToLower (SHA256 a),
         DownloadedAt := wall_clock ext, InstallPending := True\<rparr>) t3 st s'"
      by (rule stage_parts)
    have "framed os {} (update_effect env cfg) s t3"
      using framed_trans [OF framed_trans [OF framed_trans [OF v(2) touchesD [OF touches_ensure t(1)]]
        touchesD [OF touches_fetch [OF assms(2)] t(2)]] touchesD [OF touches_owned t(3)]] .
    then show ?thesis using that t(4) v(1) by (auto simp: saved_as_def same_manifest_def)
  qed
qed

lemma load_Inr:
  assumes "load_or_fresh ext os env cfg s = (Inr u, s1)"
  shows "LoadState ext os (CfgStatePath cfg) s = (Inr old, s2) \<Longrightarrow> u = old"
  using assms by (auto simp: load_or_fresh_def io_try_def io_Inr)

lemma admit_Inr:
  "admit_sequence u m = Inr () \<Longrightarrow> LastSequence u \<le> Sequence m
   \<and> (Sequence m = LastSequence u \<longrightarrow>
        (if LastManifestSHA u \<noteq> [] then EqualFold (LastManifestSHA u) (CommitSHA m)
         else AvailableSHA u = [] \<or> EqualFold (AvailableSHA u) (CommitSHA m)))"
  by (auto simp: admit_sequence_def Let_def split: if_split_asm)

text \<open>
  C27. No rollback: a request that succeeds has accepted a manifest whose signature and validity were
  verified, whose sequence is not below the one in the saved state and which, under that same sequence, names
  no other commit than the one the saved state records: the commit of its last manifest or, in a state that
  records none, the commit it offers, if any; and the state file it leaves holds, complete and private, this sequence and this commit.
\<close>

theorem update_never_rolls_back:
  assumes "polite os" and "fresh_disk (disk s)" and "known_dir (Cwd env)" and "plain_temp_names os"
    and "\<not> own_name (CfgStatePath cfg)" and "path_Dir (CfgStatePath cfg) \<noteq> CfgStatePath cfg"
    and "rvNativeUpdateOnce ext os env cfg download s = (Inr st, s')"
  shows "\<exists>raw m saved data i old. rvFetchManifest ext env (CfgManifestURL cfg) = Inr raw
    \<and> ParseAndVerify ext raw (CfgPublicKey cfg) (manifest_options cfg) = Inr m
    \<and> (\<forall>u t. LoadState ext os (CfgStatePath cfg) s = (Inr u, t) \<longrightarrow> LastSequence u \<le> Sequence m
         \<and> (Sequence m = LastSequence u \<longrightarrow>
              (if LastManifestSHA u \<noteq> [] then EqualFold (LastManifestSHA u) (CommitSHA m)
               else AvailableSHA u = [] \<or> EqualFold (AvailableSHA u) (CommitSHA m))))
    \<and> LastSequence saved = Sequence m \<and> LastManifestSHA saved = ToLower (CommitSHA m) \<and> state_text ext saved = Inr data
    \<and> nodes (disk s') i = Some \<lparr>NKind = Regular, NPerm = 384, Content = data\<rparr>
    \<and> (CfgStatePath cfg, old, Some i) \<in> set (effects s') \<and> (idle os \<longrightarrow> names (disk s') (CfgStatePath cfg) = Some i)
    \<and> st = rvStatus ext cfg saved"
proof -
  obtain u s1 raw m where r: "load_or_fresh ext os env cfg s = (Inr u, s1)"
    and raw: "rvFetchManifest ext env (CfgManifestURL cfg) = Inr raw"
    and r2: "ParseAndVerify ext raw (CfgPublicKey cfg) (manifest_options cfg) = Inr m" "admit_sequence u m = Inr ()"
    "apply_manifest ext os env cfg download m (record_manifest ext cfg m u) s1 = (Inr st, s')"
    by (rule once_stages [OF assms(7)])
  note adm = admit_Inr [OF r2(2)]
  obtain w t where w: "SaveState ext os (CfgStatePath cfg) w t = (Inr (), s')" "st = rvStatus ext cfg w"
    "same_manifest (record_manifest ext cfg m u) w" "framed os {} (update_effect env cfg) s1 t"
    by (rule apply_saves [OF r2(3) assms(3,4)])
  have "fresh_disk (disk t)"
    using framed_trans [OF touchesD [OF touches_load r] w(4)] assms(1,2) unfolding framed_def by blast
  moreover have "untouched (CfgStatePath cfg) (effects t) t" by (simp add: untouched_def)
  ultimately obtain data i where d: "state_text ext w = Inr data" "replaced (CfgStatePath cfg) (effects t) i data s'"
    "idle os \<longrightarrow> names (disk s') (CfgStatePath cfg) = Some i"
    using hoareD [OF hoare_SaveState [OF assms(1,5,6), of "effects t" ext w] _ _ w(1)] by auto
  obtain new old where new: "nodes (disk s') i = Some (staged_node data)" "effects s' = effects t @ new"
    "filter (\<lambda>x. fst x = CfgStatePath cfg) new = [(CfgStatePath cfg, old, Some i)]"
    using d(2) unfolding replaced_def by blast
  have "(CfgStatePath cfg, old, Some i) \<in> set (filter (\<lambda>x. fst x = CfgStatePath cfg) new)" unfolding new(3) by simp
  then have "(CfgStatePath cfg, old, Some i) \<in> set (effects s')" using new(2) by simp
  moreover have "LastSequence w = Sequence m \<and> LastManifestSHA w = ToLower (CommitSHA m)"
    using w(3) adm by (auto simp: same_manifest_def record_manifest_def)
  ultimately show ?thesis
    using raw r2(1) adm load_Inr [OF r] d w(2) new(1)
    by (intro exI [of _ raw] exI [of _ m] exI [of _ w] exI [of _ data] exI [of _ i] exI [of _ old]) (auto simp: staged_node_def)
qed

text \<open>Staging delivers the file that the state then points to.\<close>

lemma stage_delivers:
  assumes os: "polite os" "\<not> windows os" "plain_temp_names os" and fr0: "fresh_disk (disk s)"
    and g: "stage_update ext os env cfg a v s = (Inr st, s')"
  defines "p \<equiv> artifact_path (CfgDownloadDir cfg) a"
  shows "StArtifactPath st = p \<and> StArtifactSHA256 st = ToLower (SHA256 a) \<and> StInstallPending st
    \<and> (\<exists>i n. nodes (disk s') i = Some n \<and> NKind n = Regular \<and> EqualFold (sha256 os (Content n)) (SHA256 a)
         \<and> (idle os \<and> \<not> own_name p \<and> p \<noteq> CfgStatePath cfg \<longrightarrow> names (disk s') p = Some i))"
proof -
  obtain d t1 t2 t3 where t: "EnsurePrivateArtifactDirectory os (CfgDownloadDir cfg) s = (Inr (), t1)"
    "DownloadArtifactDetailed ext os a (CfgDownloadDir cfg) t1 = (Inr d, t2)"
    "ValidateOwnedArtifactPath os (Cwd env) (CfgDownloadDir cfg) (DPath d) (SHA256 a) t2 = (Inr (), t3)"
    "saved_as ext os cfg (v\<lparr>ArtifactPath := DPath d, ArtifactSHA256 := ToLower (SHA256 a),
       DownloadedAt := wall_clock ext, InstallPending := True\<rparr>) t3 st s'"
    by (rule stage_parts [OF g])
  have "fresh_disk (disk t1)" by (rule touches_fresh [OF touches_ensure t(1) os(1) fr0])
  moreover have "no_clobber p (effects t1) t1" by (simp add: no_clobber_def)
  ultimately have fr: "fresh_disk (disk t2)" and dl: "delivered os a p (effects t1) d t2"
    using hoareD [OF hoare_download [OF os, where before = "effects t1"] _ _ t(2)] unfolding p_def by auto
  then obtain i n where n: "nodes (disk t2) i = Some n" "NKind n = Regular" "EqualFold (sha256 os (Content n)) (SHA256 a)"
    "idle os \<longrightarrow> names (disk t2) p = Some i" and d: "DPath d = p"
    using idle_keeps [of os p] unfolding delivered_def by blast
  have v3: "fresh_disk (disk t3) \<and> nodes (disk t3) i = Some n \<and> (idle os \<and> names (disk t2) p = Some i \<longrightarrow> names (disk t3) p = Some i)"
    by (rule framed_file [OF framed_validate [OF t(3)] os(1) fr n(1)]) simp
  obtain w where save: "SaveState ext os (CfgStatePath cfg) w t3 = (Inr (), s')" and st: "st = rvStatus ext cfg w"
    and w: "ArtifactPath w = DPath d" "ArtifactSHA256 w = ToLower (SHA256 a)" "InstallPending w"
  proof (rule that)
    let ?w = "v\<lparr>ArtifactPath := DPath d, ArtifactSHA256 := ToLower (SHA256 a), DownloadedAt := wall_clock ext, InstallPending := True\<rparr>"
    show "SaveState ext os (CfgStatePath cfg) ?w t3 = (Inr (), s')" "st = rvStatus ext cfg ?w"
      using t(4) by (simp_all only: saved_as_def)
  qed simp_all
  have kept: "nodes (disk s') i = Some n"
    using framed_save [OF save, where X = "{}"] os(1) v3 unfolding framed_def by blast
  have named: "idle os \<and> \<not> own_name p \<and> p \<noteq> CfgStatePath cfg \<longrightarrow> names (disk s') p = Some i"
  proof
    assume a: "idle os \<and> \<not> own_name p \<and> p \<noteq> CfgStatePath cfg"
    have "idle os \<and> names (disk t3) p = Some i \<longrightarrow> names (disk s') p = Some i"
      using framed_file [OF framed_save [OF save] os(1) conjunct1 [OF v3], of i n p] v3 a by (auto simp: save_effect_def)
    then show "names (disk s') p = Some i" using v3 n(4) a by blast
  qed
  show ?thesis using n(2,3) kept named st w d by (auto simp: rvStatus_def)
qed

text \<open>
  C28. What a download request stages is what was signed: when it succeeds, either the package in use already
  is the signed release and nothing is pending, or the status points to the path of the one artifact that the
  signed manifest offers for this platform, and a regular file with the signed digest was put or found there. With
  nobody else acting the path still names that file after the state was saved.
\<close>

theorem update_stages_what_was_signed:
  assumes "polite os" and "fresh_disk (disk s)" and "known_dir (Cwd env)" and "plain_temp_names os" and "\<not> windows os"
    and "rvNativeUpdateOnce ext os env cfg True s = (Inr st, s')"
  shows "\<exists>raw m. rvFetchManifest ext env (CfgManifestURL cfg) = Inr raw
    \<and> ParseAndVerify ext raw (CfgPublicKey cfg) (manifest_options cfg) = Inr m
    \<and> (if EqualFold (CommitSHA m) (CfgInstalledSHA cfg) then StArtifactPath st = [] \<and> \<not> StInstallPending st
       else \<exists>a i n. SelectArtifact ext m (CfgPlatform cfg) (CfgArch cfg) (CfgKind cfg) = Inr a
         \<and> StInstallPending st \<and> StArtifactPath st = artifact_path (CfgDownloadDir cfg) a
         \<and> StArtifactSHA256 st = ToLower (SHA256 a)
         \<and> nodes (disk s') i = Some n \<and> NKind n = Regular \<and> EqualFold (sha256 os (Content n)) (SHA256 a)
         \<and> (idle os \<and> \<not> own_name (StArtifactPath st) \<and> StArtifactPath st \<noteq> CfgStatePath cfg \<longrightarrow>
              names (disk s') (StArtifactPath st) = Some i))"
proof -
  obtain u s1 raw m where r: "load_or_fresh ext os env cfg s = (Inr u, s1)"
    and raw: "rvFetchManifest ext env (CfgManifestURL cfg) = Inr raw"
    and r2: "ParseAndVerify ext raw (CfgPublicKey cfg) (manifest_options cfg) = Inr m"
    "apply_manifest ext os env cfg True m (record_manifest ext cfg m u) s1 = (Inr st, s')"
    by (rule once_stages [OF assms(6)])
  obtain v s2 where f2: "framed os {} (update_effect env cfg) s1 s2"
    and e: "if EqualFold (CommitSHA m) (CfgInstalledSHA cfg) then
       saved_as ext os cfg v s2 st s' \<and> ArtifactPath v = [] \<and> \<not> InstallPending v
     else \<exists>a. SelectArtifact ext m (CfgPlatform cfg) (CfgArch cfg) (CfgKind cfg) = Inr a \<and> stage_update ext os env cfg a v s2 = (Inr st, s')"
    using apply_parts [OF r2(2) assms(3,4)] by (auto simp: if_bool_eq_conj)
  show ?thesis
  proof (cases "EqualFold (CommitSHA m) (CfgInstalledSHA cfg)")
    case True
    then show ?thesis using e raw r2(1) by (auto simp: saved_as_def rvStatus_def)
  next
    case False
    then obtain a where a: "SelectArtifact ext m (CfgPlatform cfg) (CfgArch cfg) (CfgKind cfg) = Inr a"
      and g: "stage_update ext os env cfg a v s2 = (Inr st, s')" using e by auto
    have "fresh_disk (disk s2)"
      using framed_trans [OF touchesD [OF touches_load r] f2] assms(1,2) unfolding framed_def by blast
    note d = stage_delivers [OF assms(1,5,4) this g]
    show ?thesis
      unfolding conjunct1 [OF d]
      by (intro exI [of _ raw] exI [of _ m] conjI raw r2(1)) (use d a in \<open>simp only: False if_False, blast\<close>)
  qed
qed

section \<open>A run of the updater\<close>

lemma label_Inr: "m s = (Inr y, s') \<Longrightarrow> io_label label m s = (Inr y, s')"
  by (simp add: io_label_Inr)

definition client_manifest :: Manifest where
  "client_manifest = demo_manifest\<lparr>Artifacts := [demo_artifact ''linux'']\<rparr>"

definition client_signed :: Manifest where
  "client_signed = (case Sign demo_ext (replicate 64 CHR ''k'') client_manifest of Inr s \<Rightarrow> s | Inl _ \<Rightarrow> client_manifest)"

definition client_text :: string where
  "client_text = enc (manifest_json ''10'' ''100'' client_signed)"

definition client_config :: update_config where
  "client_config = \<lparr>CfgMode = ''download'', CfgManifestURL = ''https://updates.example/m/1'', CfgPublicKey = replicate 32 CHR ''p'',
     CfgChannel = ''stable'', CfgPlatform = ''linux'', CfgArch = ''arm64'', CfgKind = ''app'', CfgInstalledSHA = replicate 40 CHR ''c'',
     CfgStatePath = ''/s/state.json'', CfgDownloadDir = ''/u'', CfgRequestTimeout = 120000000000, CfgAllowedHosts = []\<rparr>"

definition client_env :: surroundings where
  "client_env = \<lparr>Cwd = Inr ''/'', Fetch = (\<lambda>_. Inr \<lparr>StatusCode = 200, ContentLength = -1, Body = client_text, BodyBroken = False\<rparr>)\<rparr>"

lemma client_sign: "Sign demo_ext (replicate 64 CHR ''k'') client_manifest = Inr client_signed"
  by code_simp

lemma client_valid: "Validate demo_ext (manifest_options client_config) client_manifest = Inr ()"
  by code_simp

lemma client_text_length: "client_text \<noteq> [] \<and> int (length client_text) \<le> 1048576"
  by code_simp

lemma client_parsed:
  "ParseAndVerify demo_ext client_text (CfgPublicKey client_config) (manifest_options client_config) = Inr client_signed"
proof -
  have m: "ascii_manifest client_manifest" "range_ok client_manifest" by code_simp+
  have t: "list_all ascii_char ''10''" "list_all ascii_char ''100''"
    "time_parse demo_ext ''10'' = Some (PublishedAt client_manifest)" "time_parse demo_ext ''100'' = Some (ExpiresAt client_manifest)"
    by code_simp+
  have "decode_manifest demo_ext client_text = Some client_signed"
    unfolding client_text_def by (rule decode_signed [OF client_sign m _ t]) (simp add: client_manifest_def)
  moreover have "verify_manifest demo_ext (CfgPublicKey client_config) (manifest_options client_config) client_signed = Inr client_signed"
    by (rule verify_signed [OF client_sign client_valid _ demo_ed]) (simp add: client_config_def)
  ultimately show ?thesis using client_text_length by (simp add: ParseAndVerify_def MaxManifestBytes_def)
qed

lemma client_fetched: "rvFetchManifest demo_ext client_env (CfgManifestURL client_config) = Inr client_text"
proof -
  have "rvValidateManifestURL demo_ext (CfgManifestURL client_config) = Inr ()" by code_simp
  moreover have "take (nat (MaxManifestBytes + 1)) client_text = client_text"
    using client_text_length by (simp add: MaxManifestBytes_def)
  ultimately show ?thesis
    using client_text_length by (simp add: rvFetchManifest_def client_env_def MaxManifestBytes_def)
qed

text \<open>The signature plays no part once it was verified.\<close>

lemma signature_unused:
  "admit_sequence u (m\<lparr>Signature := x\<rparr>) = admit_sequence u m"
  "record_manifest ext cfg (m\<lparr>Signature := x\<rparr>) u = record_manifest ext cfg m u"
  "apply_manifest ext os env cfg d (m\<lparr>Signature := x\<rparr>) u = apply_manifest ext os env cfg d m u"
  by (simp_all add: admit_sequence_def record_manifest_def apply_manifest_def SelectArtifact_def)

definition client_state :: UState where
  "client_state = (record_manifest demo_ext client_config client_manifest (fresh_state client_config))
     \<lparr>AvailableSHA := replicate 40 CHR ''b'', ArtifactPath := ''/u/aaaaaaaaaaaaaaaa-1'',
      ArtifactSHA256 := replicate 64 CHR ''a'', DownloadedAt := 0, InstallPending := True\<rparr>"

text \<open>The package was staged before: the steps of the run only read, until the state is saved.\<close>

definition client_path :: string where
  "client_path = ''/u/aaaaaaaaaaaaaaaa-1''"

definition client_at :: "nat \<Rightarrow> fsys" where
  "client_at t = \<lparr>disk = \<lparr>names = [''/u'' \<mapsto> 0, client_path \<mapsto> 7],
     nodes = [0 \<mapsto> new_directory 448, 7 \<mapsto> staged_node ''0123456789''], next_inode = 8\<rparr>, turn = t, effects = []\<rparr>"

lemma client_reads:
  "Lstat demo_os ''/u'' (client_at t) = (Inr (node_info 0 (new_directory 448)), client_at (Suc t))"
  "Lstat demo_os client_path (client_at t) = (Inr (node_info 7 (staged_node ''0123456789'')), client_at (Suc t))"
  "Lstat demo_os ''/s/state.json'' (client_at t) = (Inl errNotExist, client_at (Suc t))"
  "Open demo_os ''/u'' (client_at t) = (Inr 0, client_at (Suc t))"
  "Open demo_os client_path (client_at t) = (Inr 7, client_at (Suc t))"
  "Fstat demo_os 0 (client_at t) = (Inr (node_info 0 (new_directory 448)), client_at (Suc t))"
  "Fstat demo_os 7 (client_at t) = (Inr (node_info 7 (staged_node ''0123456789'')), client_at (Suc t))"
  "ReadAll demo_os 7 (client_at t) = (Inr ''0123456789'', client_at (Suc t))"
  "MkdirAll demo_os ''/u'' perm (client_at t) = (Inr (), client_at (Suc t))"
proof -
  have a: "ancestors (strip_slashes ''/u'') = [''/u'']" by code_simp
  show "MkdirAll demo_os ''/u'' perm (client_at t) = (Inr (), client_at (Suc t))"
    by (simp add: MkdirAll_def a syscall_def demo_os_def client_at_def client_path_def Let_def resolve_def is_directory_def
        new_directory_def)
qed (simp_all add: Lstat_def Open_def Fstat_def ReadAll_def syscall_def demo_os_def client_at_def client_path_def Let_def
      resolve_def inode_info_def new_directory_def staged_node_def)

lemmas client_io = io_bind_def io_try_def io_of_def io_assert_def io_return_def Let_def client_reads node_info_def
  new_directory_def staged_node_def SameFile_def plain_def

lemma client_prepared: "EnsurePrivateArtifactDirectory demo_os ''/u'' (client_at t) = (Inr (), client_at (t + 5))"
proof -
  have c: "path_Clean (TrimSpace ''/u'') = ''/u''" "TrimSpace ''/u'' \<noteq> []" by code_simp+
  show ?thesis
    unfolding EnsurePrivateArtifactDirectory_def Let_def c using c(2)
    by (simp add: client_io real_directory_def same_directory_def eval_nat_numeral)
qed

lemma client_downloaded:
  "DownloadArtifactDetailed demo_ext demo_os (demo_artifact ''linux'') ''/u'' (client_at t)
     = (Inr \<lparr>DPath = client_path, Created = False\<rparr>, client_at (t + 8))"
proof -
  have c: "artifact_path ''/u'' (demo_artifact ''linux'') = client_path"
    "Artifact_Validate demo_ext no_options (demo_artifact ''linux'') = Inr ()"
    "EqualFold (replicate 64 CHR ''a'') (SHA256 (demo_artifact ''linux''))" by code_simp+
  have m: "fileMatchesSHA256 demo_os client_path (SHA256 (demo_artifact ''linux'')) (client_at u) = (Inr True, client_at (u + 6))" for u
    unfolding fileMatchesSHA256_def using c(3)
    by (simp add: client_io MaxArtifactBytes_def) (simp add: demo_os_def eval_nat_numeral)
  have z: "Size (demo_artifact ''linux'') = 10" by (simp add: demo_artifact_def)
  show ?thesis
    unfolding DownloadArtifactDetailed_def reuse_artifact_def c
    by (simp add: client_io c(2) m z eval_nat_numeral)
qed

lemma client_dir: "known_dir (Cwd client_env)"
  by (simp add: client_env_def known_dir_def rooted_def)

lemma client_checked:
  "ValidateOwnedArtifactPath demo_os (Cwd client_env) ''/u'' client_path (SHA256 (demo_artifact ''linux'')) (client_at t) = (Inr (), client_at (t + 5))"
proof -
  let ?a = "demo_artifact ''linux''"
  have c: "artifact_path ''/u'' ?a = client_path" "isHex (SHA256 ?a) 64" by code_simp+
  obtain r s2 where v: "ValidateOwnedArtifactPath demo_os (Cwd client_env) ''/u'' client_path (SHA256 ?a) (client_at t) = (r, s2)"
    by (rule prod.exhaust)
  show ?thesis
    using ValidateOwned_result [OF client_dir _ client_prepared v] artifact_path_not_blank [OF c(2), of "''/u''"]
      artifact_path_clean [of "''/u''" ?a] isHex_lower [OF c(2)] download_owned_child [OF client_dir c(2), of "''/u''"] v
    unfolding c(1) by simp
qed

lemma client_state_path: "CfgStatePath client_config = ''/s/state.json''"
  by (simp add: client_config_def)

lemma client_saved: "\<exists>s'. SaveState demo_ext demo_os ''/s/state.json'' client_state (client_at t) = (Inr (), s')"
proof -
  have c: "path_Dir ''/s/state.json'' = ''/s''" "State_Validate client_state = Inr ()" "ancestors (strip_slashes ''/s'') = [''/s'']"
    by code_simp+
  obtain data where d: "state_text demo_ext client_state = Inr data" by (simp add: state_text_def demo_ext_def)
  show ?thesis
    unfolding SaveState_def Let_def c d MkdirAll_def CreateTemp_def create_def publish_state_def stage_state_def
    by (simp add: io_bind_def io_try_def io_of_def io_assert_def io_return_def Let_def c d syscall_def demo_os_def client_at_def
      client_path_def resolve_def is_directory_def new_directory_def staged_node_def add_node_def Lstat_def Fstat_def Open_def
      inode_info_def node_info_def plain_def SameFile_def Chmod_def WriteAll_def Flush_def Rename_def syncDirectory_def)
qed

lemma client_reports:
  "\<exists>s'. rvSaveNativeStatus demo_ext demo_os client_config client_state label (client_at 19)
     = (Inr (rvStatus demo_ext client_config client_state), s')"
  using client_saved [of 19] by (simp add: save_status_Inr saved_as_def client_state_path)

definition client_run :: "NativeStatus res \<times> fsys" where
  "client_run = rvNativeUpdateOnce demo_ext demo_os client_env client_config True (client_at 0)"

lemma client_loaded:
  "load_or_fresh demo_ext demo_os client_env client_config (client_at 0) = (Inr (fresh_state client_config), client_at 1)"
proof -
  show ?thesis
    by (simp add: load_or_fresh_def LoadState_def io_try_def io_bind_def io_return_def client_reads client_state_path)
qed

lemma client_applied:
  "apply_manifest demo_ext demo_os client_env client_config True client_manifest
     (record_manifest demo_ext client_config client_manifest (fresh_state client_config)) (client_at 1)
   = rvSaveNativeStatus demo_ext demo_os client_config client_state ''persist staged native update'' (client_at 19)"
proof -
  let ?u = "record_manifest demo_ext client_config client_manifest (fresh_state client_config)"
  have c: "\<not> EqualFold (CommitSHA client_manifest) (CfgInstalledSHA client_config)"
    "SelectArtifact demo_ext client_manifest (CfgPlatform client_config) (CfgArch client_config) (CfgKind client_config)
       = Inr (demo_artifact ''linux'')"
    "ArtifactPath ?u = []" "CfgDownloadDir client_config = ''/u''"
    by code_simp+
  have s: "?u\<lparr>AvailableSHA := ToLower (CommitSHA client_manifest), ArtifactPath := client_path,
      ArtifactSHA256 := ToLower (SHA256 (demo_artifact ''linux'')), DownloadedAt := wall_clock demo_ext, InstallPending := True\<rparr>
     = client_state"
    by code_simp
  obtain st s' where w: "rvSaveNativeStatus demo_ext demo_os client_config client_state ''persist staged native update'' (client_at 19) = (Inr st, s')"
    using client_reports by blast
  have run: "io_label l (EnsurePrivateArtifactDirectory demo_os ''/u'') (client_at 1) = (Inr (), client_at 6)"
    "io_label l (DownloadArtifactDetailed demo_ext demo_os (demo_artifact ''linux'') ''/u'') (client_at 6)
       = (Inr \<lparr>DPath = client_path, Created = False\<rparr>, client_at 14)"
    "ValidateOwnedArtifactPath demo_os (Cwd client_env) ''/u'' client_path (SHA256 (demo_artifact ''linux'')) (client_at 14)
       = (Inr (), client_at 19)" for l
    using client_prepared [of 1] client_downloaded [of 6] client_checked [of 14] by (simp_all add: io_label_Inr)
  have stage: "stage_update demo_ext demo_os client_env client_config (demo_artifact ''linux'')
      (?u\<lparr>AvailableSHA := ToLower (CommitSHA client_manifest)\<rparr>) (client_at 1) = (Inr st, s')"
    unfolding stage_update_def c(4) io_bind_def io_try_def run DownloadResult.simps prod.case sum.case Let_def s w io_return_def
    by (rule refl)
  show ?thesis
    unfolding apply_manifest_def Let_def
    by (simp only: c(1-3) if_False if_True not_True_eq_False simp_thms io_bind_def io_of_def io_return_def prod.case sum.case stage w)
qed

lemma client_ran: "\<exists>s'. client_run = (Inr (rvStatus demo_ext client_config client_state), s')"
proof -
  have v: "rvValidateNativeUpdateConfig demo_ext client_config = Inr ()"
    "\<not> rvNativeMobilePlatform (CfgPlatform client_config)"
    "admit_sequence (fresh_state client_config) client_manifest = Inr ()"
    by code_simp+
  obtain x where x: "client_signed = client_manifest\<lparr>Signature := x\<rparr>" by (rule Sign_ok [OF client_sign])
  have "client_run = rvSaveNativeStatus demo_ext demo_os client_config client_state ''persist staged native update'' (client_at 19)"
    unfolding client_run_def rvNativeUpdateOnce_def client_applied [symmetric]
    by (simp add: io_bind_def io_of_def io_assert_def io_return_def v client_loaded client_fetched client_parsed io_label_def io_try_def)
      (simp add: x signature_unused v)
  then show ?thesis using client_reports by metis
qed

lemma client_world: "fresh_disk (disk (client_at t))" "\<not> own_name ''/s/state.json''" "path_Dir ''/s/state.json'' \<noteq> ''/s/state.json''"
proof -
  show "fresh_disk (disk (client_at t))" by (simp add: fresh_disk_def client_at_def)
  show "\<not> own_name ''/s/state.json''" by (rule not_own) simp
  show "path_Dir ''/s/state.json'' \<noteq> ''/s/state.json''" by code_simp
qed

lemma client_sequence: "Sequence client_signed = 7"
proof -
  obtain x where x: "client_signed = client_manifest\<lparr>Signature := x\<rparr>" by (rule Sign_ok [OF client_sign])
  show ?thesis unfolding x by (simp add: client_manifest_def demo_manifest_def)
qed

theorem update_never_rolls_back_witness:
  "\<exists>saved data i. LastSequence saved = 7 \<and> state_text demo_ext saved = Inr data
     \<and> names (disk (snd client_run)) ''/s/state.json'' = Some i
     \<and> nodes (disk (snd client_run)) i = Some \<lparr>NKind = Regular, NPerm = 384, Content = data\<rparr>"
proof -
  obtain s' where r: "rvNativeUpdateOnce demo_ext demo_os client_env client_config True (client_at 0)
      = (Inr (rvStatus demo_ext client_config client_state), s')" and s: "snd client_run = s'"
    using client_ran unfolding client_run_def by auto
  from update_never_rolls_back [OF demo_os_polite(2) client_world(1) client_dir demo_os_polite(4) _ _ r] client_world(2,3)
  obtain raw m saved data i where e: "rvFetchManifest demo_ext client_env (CfgManifestURL client_config) = Inr raw"
    "ParseAndVerify demo_ext raw (CfgPublicKey client_config) (manifest_options client_config) = Inr m"
    "LastSequence saved = Sequence m" "state_text demo_ext saved = Inr data"
    "nodes (disk s') i = Some \<lparr>NKind = Regular, NPerm = 384, Content = data\<rparr>" "idle demo_os \<longrightarrow> names (disk s') ''/s/state.json'' = Some i"
    unfolding client_state_path by blast
  have "m = client_signed" using e(1,2) client_fetched client_parsed by simp
  then have "LastSequence saved = 7" using e(3) client_sequence by simp
  then show ?thesis using e(4-6) demo_os_polite(1) s by blast
qed

theorem update_stages_what_was_signed_witness:
  "\<exists>i n. names (disk (snd client_run)) client_path = Some i \<and> nodes (disk (snd client_run)) i = Some n \<and> NKind n = Regular
     \<and> EqualFold (sha256 demo_os (Content n)) (replicate 64 CHR ''a'')"
proof -
  obtain s' where r: "rvNativeUpdateOnce demo_ext demo_os client_env client_config True (client_at 0)
      = (Inr (rvStatus demo_ext client_config client_state), s')" and s: "snd client_run = s'"
    using client_ran unfolding client_run_def by auto
  from update_stages_what_was_signed [OF demo_os_polite(2) client_world(1) client_dir demo_os_polite(4,3) r]
  obtain raw m where e: "rvFetchManifest demo_ext client_env (CfgManifestURL client_config) = Inr raw"
    "ParseAndVerify demo_ext raw (CfgPublicKey client_config) (manifest_options client_config) = Inr m"
    and rest: "if EqualFold (CommitSHA m) (CfgInstalledSHA client_config) then
        StArtifactPath (rvStatus demo_ext client_config client_state) = [] \<and> \<not> StInstallPending (rvStatus demo_ext client_config client_state)
      else \<exists>a i n. SelectArtifact demo_ext m (CfgPlatform client_config) (CfgArch client_config) (CfgKind client_config) = Inr a
         \<and> StInstallPending (rvStatus demo_ext client_config client_state)
         \<and> StArtifactPath (rvStatus demo_ext client_config client_state) = artifact_path (CfgDownloadDir client_config) a
         \<and> StArtifactSHA256 (rvStatus demo_ext client_config client_state) = ToLower (SHA256 a)
         \<and> nodes (disk s') i = Some n \<and> NKind n = Regular \<and> EqualFold (sha256 demo_os (Content n)) (SHA256 a)
         \<and> (idle demo_os \<and> \<not> own_name (StArtifactPath (rvStatus demo_ext client_config client_state))
             \<and> StArtifactPath (rvStatus demo_ext client_config client_state) \<noteq> CfgStatePath client_config \<longrightarrow>
              names (disk s') (StArtifactPath (rvStatus demo_ext client_config client_state)) = Some i)"
    by blast
  have c: "StArtifactPath (rvStatus demo_ext client_config client_state) = client_path"
    "StInstallPending (rvStatus demo_ext client_config client_state)" "client_path \<noteq> ''/s/state.json''" "CHR ''.'' \<notin> set client_path"
    "ToLower (replicate 64 CHR ''a'') = replicate 64 CHR ''a''"
    "StArtifactSHA256 (rvStatus demo_ext client_config client_state) = replicate 64 CHR ''a''"
    by code_simp+
  have ne: "\<not> EqualFold (CommitSHA m) (CfgInstalledSHA client_config)" using rest c(2) by auto
  obtain a :: Artifact and i and n :: node where f: "StArtifactSHA256 (rvStatus demo_ext client_config client_state) = ToLower (SHA256 a)"
    "nodes (disk s') i = Some n" "NKind n = Regular" "EqualFold (sha256 demo_os (Content n)) (SHA256 a)"
    and named: "idle demo_os \<and> \<not> own_name client_path \<and> client_path \<noteq> ''/s/state.json'' \<longrightarrow> names (disk s') client_path = Some i"
    using rest unfolding if_not_P [OF ne] client_state_path c(1) by blast
  have "names (disk s') client_path = Some i" using named demo_os_polite(1) own_name_dot [of client_path] c(3,4) by blast
  moreover have "EqualFold (sha256 demo_os (Content n)) (replicate 64 CHR ''a'')"
    using f(1,4) c(5,6) unfolding EqualFold_def by simp
  ultimately show ?thesis using f(2,3) s by blast
qed

end
