(* ===== verification/NativeRequest.thy ===== *)
theory NativeRequest
  imports OvpnLayers NativeUpdateProps
begin

text \<open>
  The way into the updater of \<^verbatim>\<open>src/cmd/client/native_auto_update.go\<close>: the configuration that the environment of
  the process and a file of the package give, the requests of the local API with their guards, and the redirects
  that the two HTTP clients accept. Environment variables, the platform, the path of the executable and the
  configured files of the application are parameters (\<open>process\<close>). The handlers hold one mutex while an update
  runs; a request is one run of the model, with other processes acting before each of its system calls.
\<close>

section \<open>Configuration\<close>

record process =
  Getenv :: "string \<Rightarrow> string"
  GOOS :: string
  Executable :: "string res"

record app_files =
  StateFile :: string
  ProfilesFile :: string

definition rvEnv :: "process \<Rightarrow> string \<Rightarrow> string \<Rightarrow> string" where
  "rvEnv pr name fallback = (let value = TrimSpace (Getenv pr name) in if value \<noteq> [] then value else fallback)"

fun csv_values :: "string list \<Rightarrow> string list \<Rightarrow> string list" where
  "csv_values earlier [] = []"
| "csv_values earlier (v # vs) =
     (let value = ToLower (TrimSpace v) in
      if value \<noteq> [] \<and> value \<notin> set earlier then value # csv_values (value # earlier) vs else csv_values earlier vs)"

definition rvCSV :: "string \<Rightarrow> string list" where
  "rvCSV raw = csv_values [] (Split1 raw CHR '','')"

definition portable_names :: "string list" where
  "portable_names = [''HOMEVPN_PORTABLE'', ''ROUTER_VPN_PORTABLE'']"

definition rvNativeDefaultKind :: "process \<Rightarrow> string" where
  "rvNativeDefaultKind pr =
     (if list_ex (\<lambda>name. ToLower (TrimSpace (Getenv pr name)) \<in> {''1'', ''true'', ''yes'', ''on'', ''enabled''}) portable_names
      then ''portable'' else ''installed'')"

text \<open>A regular file that stays the same while it is read, or nothing.\<close>

definition read_regular :: "os \<Rightarrow> string \<Rightarrow> int \<Rightarrow> string io" where
  "read_regular os path limit =
     io_bind (Lstat os path) (\<lambda>before.
     io_bind (io_assert (plain before \<and> 0 < ISize before \<and> ISize before \<le> limit) []) (\<lambda>_.
     io_bind (Open os path) (\<lambda>f.
     io_bind (Fstat os f) (\<lambda>opened.
     io_bind (io_assert (SameFile before opened) []) (\<lambda>_.
     io_try (ReadAll os f) (\<lambda>data.
     io_bind (Lstat os path) (\<lambda>after.
     io_bind (io_of data) (\<lambda>data.
     let raw = take (nat (limit + 1)) data in
     io_bind (io_assert (raw \<noteq> [] \<and> int (length raw) \<le> limit \<and> SameFile opened after \<and> ISize after = int (length raw)) [])
       (\<lambda>_. io_return raw)))))))))"

definition rvReadRegular :: "os \<Rightarrow> string \<Rightarrow> int \<Rightarrow> string io" where
  "rvReadRegular os path limit =
     (if TrimSpace path = [] then io_return []
      else io_try (read_regular os path limit) (\<lambda>r. io_return (case r of Inl _ \<Rightarrow> [] | Inr raw \<Rightarrow> raw)))"

text \<open>The source of the package, as \<open>json.Unmarshal\<close> reads it into two fields.\<close>

definition set_source_field :: "string \<Rightarrow> json \<Rightarrow> string \<times> string \<Rightarrow> (string \<times> string) option" where
  "set_source_field name v s =
     (if name = ''repository'' then map_option (\<lambda>x. (x, snd s)) (string_member (fst s) v)
      else if name = ''source_sha'' then map_option (\<lambda>x. (fst s, x)) (string_member (snd s) v)
      else Some s)"

definition packaged_sha :: "string \<Rightarrow> string option" where
  "packaged_sha raw =
     (if raw = [] then None
      else case json_decode (to_valid (length raw) raw) of
        None \<Rightarrow> None
      | Some v \<Rightarrow>
          (case decode_struct set_source_field v ([], []) of
             None \<Rightarrow> None
           | Some (repository, sha) \<Rightarrow>
               if repository = ''Eabusham2/router-vpn'' \<and> rvExactSHA sha then Some (ToLower sha) else None))"

fun first_packaged :: "os \<Rightarrow> string list \<Rightarrow> string io" where
  "first_packaged os [] = io_return []"
| "first_packaged os (p # ps) =
     io_bind (rvReadRegular os (path_Clean p) 524288) (\<lambda>raw.
       case packaged_sha raw of Some sha \<Rightarrow> io_return sha | None \<Rightarrow> first_packaged os ps)"

definition source_name :: string where
  "source_name = ''ROUTER-VPN-SOURCE.json''"

definition package_paths :: "process \<Rightarrow> string \<Rightarrow> string list" where
  "package_paths pr base =
     (case Executable pr of
        Inl _ \<Rightarrow> []
      | Inr exe \<Rightarrow> let dir = path_Dir exe; up = path_Join dir ''..'' in
          [path_Join dir source_name, path_Join up source_name, path_Join (path_Join up ''..'') source_name])
     @ [path_Join base source_name]"

definition rvPackagedSourceSHA :: "os \<Rightarrow> process \<Rightarrow> string \<Rightarrow> string io" where
  "rvPackagedSourceSHA os pr base = first_packaged os (package_paths pr base)"

definition base_dir :: "app_files option \<Rightarrow> string" where
  "base_dir a =
     (case a of
        None \<Rightarrow> ''.''
      | Some files \<Rightarrow> if StateFile files \<noteq> [] then path_Dir (StateFile files)
          else if ProfilesFile files \<noteq> [] then path_Dir (ProfilesFile files) else ''.'')"

definition env_config :: "externals \<Rightarrow> process \<Rightarrow> string \<Rightarrow> string \<Rightarrow> update_config" where
  "env_config ext pr base mode =
     \<lparr>CfgMode = mode, CfgManifestURL = TrimSpace (Getenv pr ''ROUTER_VPN_UPDATE_MANIFEST_URL''), CfgPublicKey = [],
      CfgChannel = ToLower (rvEnv pr ''ROUTER_VPN_UPDATE_CHANNEL'' ''stable''),
      CfgPlatform = NormalizePlatform (rvEnv pr ''ROUTER_VPN_UPDATE_PLATFORM'' (GOOS pr)),
      CfgArch = NormalizeArch ext (rvEnv pr ''ROUTER_VPN_UPDATE_ARCH'' (goarch ext)),
      CfgKind = ToLower (rvEnv pr ''ROUTER_VPN_UPDATE_KIND'' (rvNativeDefaultKind pr)),
      CfgInstalledSHA = ToLower (TrimSpace (Getenv pr ''ROUTER_VPN_SOURCE_SHA'')),
      CfgStatePath = rvEnv pr ''ROUTER_VPN_NATIVE_UPDATE_STATE'' (path_Join base ''native-update.json''),
      CfgDownloadDir = rvEnv pr ''ROUTER_VPN_NATIVE_UPDATE_DIR'' (path_Join base ''updates''),
      CfgRequestTimeout = 120000000000, CfgAllowedHosts = rvCSV (Getenv pr ''ROUTER_VPN_UPDATE_ALLOWED_HOSTS'')\<rparr>"

text \<open>The configuration comes with an error if it is not usable; no other error is possible.\<close>

definition rvNativeUpdateConfigFromApp ::
  "externals \<Rightarrow> os \<Rightarrow> process \<Rightarrow> app_files option \<Rightarrow> string \<Rightarrow> (update_config \<times> unit res) io" where
  "rvNativeUpdateConfigFromApp ext os pr a mode =
     (let base = base_dir a; cfg = env_config ext pr base mode; key = TrimSpace (Getenv pr ''ROUTER_VPN_UPDATE_PUBLIC_KEY'') in
      io_bind (if CfgInstalledSHA cfg = [] then rvPackagedSourceSHA os pr base else io_return (CfgInstalledSHA cfg)) (\<lambda>sha.
      io_bind (if key = [] then rvReadRegular os (Getenv pr ''ROUTER_VPN_UPDATE_PUBLIC_KEY_FILE'') 4096 else io_return key) (\<lambda>key.
      let key = TrimSpace key; cfg = cfg\<lparr>CfgInstalledSHA := sha\<rparr> in
      if key = [] then io_return (cfg, rvValidateNativeUpdateConfig ext cfg)
      else case DecodeString key of
          Some decoded \<Rightarrow>
            if length decoded = 32
            then let cfg = cfg\<lparr>CfgPublicKey := decoded\<rparr> in io_return (cfg, rvValidateNativeUpdateConfig ext cfg)
            else io_return (cfg, fail ''a valid base64 Ed25519 update public key is required'')
        | None \<Rightarrow> io_return (cfg, fail ''a valid base64 Ed25519 update public key is required''))))"

section \<open>Requests\<close>

text \<open>The parts of a request that the handlers look at; the header is \<open>X-Router-VPN-Native-App\<close>.\<close>

record request =
  Method :: string
  RemoteAddr :: string
  NativeApp :: string

datatype reply = HttpError int string | StatusReply NativeStatus

definition rvNativeLoopbackRequest :: "request \<Rightarrow> bool" where
  "rvNativeLoopbackRequest r =
     (let host = (case SplitHostPort (TrimSpace (RemoteAddr r)) of Some (host, _) \<Rightarrow> host | None \<Rightarrow> TrimSpace (RemoteAddr r));
          ip = ParseIP (Trim host ''[]'')
      in EqualFold host ''localhost'' \<or> (case ip of None \<Rightarrow> False | Some ip \<Rightarrow> IsLoopback ip))"

definition rvNativeLoopbackMutation :: "request \<Rightarrow> bool" where
  "rvNativeLoopbackMutation r \<longleftrightarrow> NativeApp r = ''1'' \<and> rvNativeLoopbackRequest r"

definition status_route ::
  "externals \<Rightarrow> os \<Rightarrow> surroundings \<Rightarrow> process \<Rightarrow> app_files option \<Rightarrow> request \<Rightarrow> reply io" where
  "status_route ext os env pr a r =
     (if Method r \<noteq> ''GET'' then io_return (HttpError 405 ''GET only'')
      else if \<not> rvNativeLoopbackRequest r then io_return (HttpError 403 ''native update status is loopback-only'')
      else io_bind (rvNativeUpdateConfigFromApp ext os pr a ''check'') (\<lambda>(cfg, valid).
           io_bind (rvReadNativeUpdateStatus ext os env cfg) (\<lambda>status.
           io_return (StatusReply (case valid of Inr _ \<Rightarrow> status
             | Inl e \<Rightarrow> status\<lparr>Configured := False, StLastError := rvNativeErrorText e\<rparr>)))))"

definition update_route ::
  "externals \<Rightarrow> os \<Rightarrow> surroundings \<Rightarrow> process \<Rightarrow> app_files option \<Rightarrow> bool \<Rightarrow> request \<Rightarrow> reply io" where
  "update_route ext os env pr a download r =
     (if Method r \<noteq> ''POST'' then io_return (HttpError 405 ''POST only'')
      else if \<not> rvNativeLoopbackMutation r then
        io_return (HttpError 403 ''native update mutation requires the local native app'')
      else io_bind (rvNativeUpdateConfigFromApp ext os pr a (if download then ''download'' else ''check'')) (\<lambda>(cfg, valid).
        case valid of
          Inl e \<Rightarrow> io_return (HttpError 503 (error_text e))
        | Inr _ \<Rightarrow>
            io_try (native_update_request ext os env cfg download) (\<lambda>done.
              io_return (case done of Inl e \<Rightarrow> HttpError 502 (error_text e) | Inr status \<Rightarrow> StatusReply status))))"

section \<open>Redirects\<close>

text \<open>\<open>CheckRedirect\<close> of the two clients: what they say to a redirect, after so many requests.\<close>

definition manifest_redirect :: "unit res" where
  "manifest_redirect = fail ''native update manifest redirects are forbidden''"

definition artifact_redirect :: "string list \<Rightarrow> url option \<Rightarrow> nat \<Rightarrow> unit res" where
  "artifact_redirect allowedHosts u via =
     reject_if (via > 8) ''too many native update artifact redirects''
     (reject_if (case u of None \<Rightarrow> True | Some u \<Rightarrow> User u \<or> \<not> EqualFold (Scheme u) ''https'')
        ''native update artifact redirect must remain authenticated HTTPS''
     (reject_if (allowedHosts \<noteq> [] \<and> \<not> list_ex (\<lambda>host. EqualFold (TrimSpace host) (case u of None \<Rightarrow> [] | Some u \<Rightarrow> Hostname u)) allowedHosts)
        ''native update artifact redirect host is not allowlisted'' (Inr ())))"

section \<open>What a request can do\<close>

lemma touches_config [frame]: "touches os X S (rvNativeUpdateConfigFromApp ext os pr a mode)"
proof -
  have read: "touches os X S (rvReadRegular os path limit)" for path limit
    unfolding rvReadRegular_def read_regular_def Let_def by (intro touches_bind touches_try frame)
  have "touches os X S (first_packaged os ps)" for ps
    by (induction ps) (auto intro!: touches_bind read frame split: option.split)
  then show ?thesis
    unfolding rvNativeUpdateConfigFromApp_def rvPackagedSourceSHA_def Let_def
    by (intro touches_bind read frame) (auto intro!: frame split: option.split)
qed

text \<open>The environment alone decides where the state and the packages are.\<close>

definition same_places :: "update_config \<Rightarrow> update_config \<Rightarrow> bool" where
  "same_places c d \<longleftrightarrow> CfgStatePath c = CfgStatePath d \<and> CfgDownloadDir c = CfgDownloadDir d"

lemma same_effects: "same_places c d \<Longrightarrow> update_effect env c = update_effect env d"
  by (simp add: same_places_def update_effect_def update_dirs_def)

lemma config_places:
  assumes "rvNativeUpdateConfigFromApp ext os pr a mode s = (Inr (cfg, valid), s')"
  shows "same_places cfg (env_config ext pr (base_dir a) mode)"
  using assms unfolding rvNativeUpdateConfigFromApp_def Let_def
  by (auto simp: io_Inr same_places_def split: if_split_asm option.splits)

lemma touches_update_route:
  assumes "known_dir (Cwd env)" "plain_temp_names os"
  shows "touches os X (update_effect env (env_config ext pr (base_dir a) (if download then ''download'' else ''check'')))
    (update_route ext os env pr a download r)"
proof -
  have run: "touches os X (update_effect env (env_config ext pr (base_dir a) mode)) (native_update_request ext os env cfg d)"
    if "rvNativeUpdateConfigFromApp ext os pr a mode s = (Inr (cfg, v), s')" for mode d cfg v s s'
    using touches_request [OF assms, of X cfg ext d] same_effects [OF config_places [OF that]] by simp
  show ?thesis
    unfolding update_route_def
    by (intro touches_bind touches_if frame) (auto intro!: touches_try run frame)
qed

text \<open>
  C26. The update routes act for the local application only and only where the updater belongs. A request that is
  not a POST, lacks the application's header or does not come from a loopback address is refused and changes
  nothing at all. Any other request, with or without a download, successful or not, changes no directory entries but
  names of the updater's temporary files, the state file, names directly below the download directory that begin with a
  SHA-256 digest, and directories created on the way. This holds whatever the environment, a corrupt state file or the
  manifest say, whatever other processes do and whichever system calls fail.
\<close>

theorem native_api_confined:
  assumes "known_dir (Cwd env)" and "plain_temp_names os"
    and "update_route ext os env pr a download r s = (reply, s')"
  defines "cfg \<equiv> env_config ext pr (base_dir a) (if download then ''download'' else ''check'')"
  shows "if Method r \<noteq> ''POST'' \<or> NativeApp r \<noteq> ''1'' \<or> \<not> rvNativeLoopbackRequest r
    then s' = s \<and> (reply = Inr (HttpError 405 ''POST only'')
           \<or> reply = Inr (HttpError 403 ''native update mutation requires the local native app''))
    else \<exists>new. effects s' = effects s @ new \<and> (\<forall>(p, old, now) \<in> set new.
      own_name p \<or> p = CfgStatePath cfg
      \<or> (\<exists>base name digest. path_Abs (Cwd env) (path_Clean (CfgDownloadDir cfg)) = Inr base
           \<and> path_Abs (Cwd env) p = Inr (path_Join base name) \<and> normal_name name
           \<and> isHex digest 64 \<and> HasPrefix (ToLower name) (take 16 digest @ ''-''))
      \<or> (old = None \<and> p \<in> update_dirs cfg))"
proof (cases "Method r \<noteq> ''POST'' \<or> NativeApp r \<noteq> ''1'' \<or> \<not> rvNativeLoopbackRequest r")
  case True
  then show ?thesis
    using assms(3) by (auto simp: update_route_def rvNativeLoopbackMutation_def io_return_def split: if_split_asm)
next
  case False
  obtain new where new: "effects s' = effects s @ new" "\<forall>x \<in> set new. update_effect env cfg x"
    using touchesD [OF touches_update_route [OF assms(1,2), of "{}"] assms(3)] unfolding framed_def cfg_def by blast
  show ?thesis
    unfolding if_not_P [OF False]
    by (intro exI [of _ new] conjI new(1)) (use new(2) in \<open>unfold update_effect_def owned_child_def, fast\<close>)
qed

section \<open>What a configuration is worth\<close>

lemma csv_values_ok:
  "distinct (csv_values earlier vs) \<and> set (csv_values earlier vs) \<inter> set earlier = {}
   \<and> set (csv_values earlier vs) \<subseteq> (\<lambda>v. ToLower (TrimSpace v)) ` set vs - {[]}"
  by (induction earlier vs rule: csv_values.induct) (auto simp: Let_def)

lemma csv_values_all:
  "v \<in> set vs \<Longrightarrow> ToLower (TrimSpace v) \<noteq> [] \<Longrightarrow> ToLower (TrimSpace v) \<in> set (csv_values earlier vs) \<union> set earlier"
  by (induction earlier vs rule: csv_values.induct) (auto simp: Let_def)

lemma csv_values_set:
  "set (csv_values [] vs) = {ToLower (TrimSpace v) | v. v \<in> set vs \<and> TrimSpace v \<noteq> []}"
  using csv_values_ok [of "[]" vs] csv_values_all [of _ vs "[]"] by (auto simp: ToLower_def)

lemma lower_SHA: "rvExactSHA v \<Longrightarrow> rvExactSHA (ToLower v)" "ToLower (ToLower v) = ToLower v"
  using hex_char_cases by (auto simp: rvExactSHA_def ToLower_def list_all_iff lower_char_idem)

lemma packaged_ok: "packaged_sha raw = Some sha \<Longrightarrow> rvExactSHA sha \<and> ToLower sha = sha"
  by (auto simp: packaged_sha_def lower_SHA split: if_split_asm option.splits prod.splits)

lemma first_packaged_ok: "first_packaged os ps s = (Inr sha, s') \<Longrightarrow> sha = [] \<or> rvExactSHA sha \<and> ToLower sha = sha"
  by (induction ps arbitrary: s) (auto simp: io_Inr dest: packaged_ok split: option.splits)

lemma config_parts:
  assumes "rvNativeUpdateConfigFromApp ext os pr a mode s = (Inr (cfg, Inr ()), s')"
  defines "c \<equiv> env_config ext pr (base_dir a) mode" and "k \<equiv> TrimSpace (Getenv pr ''ROUTER_VPN_UPDATE_PUBLIC_KEY'')"
  obtains sha s1 key pk where
    "(if CfgInstalledSHA c = [] then rvPackagedSourceSHA os pr (base_dir a) else io_return (CfgInstalledSHA c)) s = (Inr sha, s1)"
    "(if k = [] then rvReadRegular os (Getenv pr ''ROUTER_VPN_UPDATE_PUBLIC_KEY_FILE'') 4096 else io_return k) s1 = (Inr key, s')"
    "cfg = c\<lparr>CfgInstalledSHA := sha, CfgPublicKey := pk\<rparr>" "TrimSpace key \<noteq> [] \<longrightarrow> DecodeString (TrimSpace key) = Some pk"
    "rvValidateNativeUpdateConfig ext cfg = Inr ()"
proof -
  obtain sha s1 key s2 where
    1: "(if CfgInstalledSHA c = [] then rvPackagedSourceSHA os pr (base_dir a) else io_return (CfgInstalledSHA c)) s = (Inr sha, s1)"
    and 2: "(if k = [] then rvReadRegular os (Getenv pr ''ROUTER_VPN_UPDATE_PUBLIC_KEY_FILE'') 4096 else io_return k) s1 = (Inr key, s2)"
    and rest: "(if TrimSpace key = []
        then io_return (c\<lparr>CfgInstalledSHA := sha\<rparr>, rvValidateNativeUpdateConfig ext (c\<lparr>CfgInstalledSHA := sha\<rparr>))
        else case DecodeString (TrimSpace key) of
          Some decoded \<Rightarrow> if length decoded = 32
            then io_return (c\<lparr>CfgInstalledSHA := sha, CfgPublicKey := decoded\<rparr>,
              rvValidateNativeUpdateConfig ext (c\<lparr>CfgInstalledSHA := sha, CfgPublicKey := decoded\<rparr>))
            else io_return (c\<lparr>CfgInstalledSHA := sha\<rparr>, fail ''a valid base64 Ed25519 update public key is required'')
        | None \<Rightarrow> io_return (c\<lparr>CfgInstalledSHA := sha\<rparr>, fail ''a valid base64 Ed25519 update public key is required'')) s2
      = (Inr (cfg, Inr ()), s')"
    using assms(1) unfolding rvNativeUpdateConfigFromApp_def Let_def c_def k_def by (simp only: io_bind_Inr) blast
  show thesis
  proof (cases "TrimSpace key = []")
    case True
    have "c\<lparr>CfgInstalledSHA := sha\<rparr> = c\<lparr>CfgInstalledSHA := sha, CfgPublicKey := CfgPublicKey c\<rparr>" by simp
    then show ?thesis using that [OF 1, of key "CfgPublicKey c"] 2 rest True by (simp add: io_return_Inr)
  next
    case False
    then show ?thesis using that [OF 1, of key] 2 rest by (auto simp: io_return_Inr split: option.splits if_split_asm)
  qed
qed

text \<open>
  C29. A configuration that is accepted is sound: a 32-byte key, the decoded text of the environment or of the
  bounded regular key file; a manifest URL with HTTPS, a host, no user, query or fragment and none of the moving names;
  the channel stable or beta; plain tokens for platform, architecture and kind; the lower-case SHA-1 of the package in
  use; usable paths; and exactly the hosts that the comma-separated list names, each once. Reading it changes nothing.
\<close>

theorem accepted_config_sound:
  assumes "rvNativeUpdateConfigFromApp ext os pr a mode s = (Inr (cfg, Inr ()), s')"
  shows "length (CfgPublicKey cfg) = 32
    \<and> (let key = TrimSpace (Getenv pr ''ROUTER_VPN_UPDATE_PUBLIC_KEY'') in key \<noteq> [] \<longrightarrow> DecodeString key = Some (CfgPublicKey cfg))
    \<and> (\<exists>u. url_parse ext (CfgManifestURL cfg) = Some u \<and> EqualFold (Scheme u) ''https'' \<and> Host u \<noteq> [] \<and> \<not> User u
         \<and> RawQuery u = [] \<and> Fragment u = [] \<and> (\<forall>name \<in> set moving_manifests. \<not> Contains (ToLower (escaped_path ext u)) name))
    \<and> CfgChannel cfg \<in> {''stable'', ''beta''} \<and> rvToken (CfgPlatform cfg) \<and> rvToken (CfgArch cfg) \<and> rvToken (CfgKind cfg)
    \<and> rvExactSHA (CfgInstalledSHA cfg) \<and> ToLower (CfgInstalledSHA cfg) = CfgInstalledSHA cfg
    \<and> CfgStatePath cfg \<noteq> [] \<and> CfgDownloadDir cfg \<noteq> [] \<and> distinct (CfgAllowedHosts cfg)
    \<and> set (CfgAllowedHosts cfg) = {ToLower (TrimSpace h) | h. h \<in> set (Split1 (Getenv pr ''ROUTER_VPN_UPDATE_ALLOWED_HOSTS'') CHR '','')
         \<and> TrimSpace h \<noteq> []}
    \<and> effects s' = effects s"
proof -
  let ?cfg = "env_config ext pr (base_dir a) mode"
  let ?key = "TrimSpace (Getenv pr ''ROUTER_VPN_UPDATE_PUBLIC_KEY'')"
  obtain sha s1 key pk where
    sha: "(if CfgInstalledSHA ?cfg = [] then rvPackagedSourceSHA os pr (base_dir a) else io_return (CfgInstalledSHA ?cfg)) s = (Inr sha, s1)"
    and key: "(if ?key = [] then rvReadRegular os (Getenv pr ''ROUTER_VPN_UPDATE_PUBLIC_KEY_FILE'') 4096 else io_return ?key) s1 = (Inr key, s')"
    and cfg: "cfg = ?cfg\<lparr>CfgInstalledSHA := sha, CfgPublicKey := pk\<rparr>"
      "TrimSpace key \<noteq> [] \<longrightarrow> DecodeString (TrimSpace key) = Some pk"
    and ok: "rvValidateNativeUpdateConfig ext cfg = Inr ()"
    by (rule config_parts [OF assms])
  have k: "?key \<noteq> [] \<longrightarrow> DecodeString ?key = Some (CfgPublicKey cfg)"
    using key cfg by (auto simp: io_return_Inr TrimSpace_idem)
  have sha_ok: "rvExactSHA sha \<Longrightarrow> ToLower sha = sha"
    using sha first_packaged_ok [of os "package_paths pr (base_dir a)" s sha s1]
    by (auto simp: rvPackagedSourceSHA_def io_return_Inr env_config_def lower_SHA rvExactSHA_def split: if_split_asm)
  obtain new where "effects s' = effects s @ new" "\<forall>x \<in> set new. (\<lambda>_. False) x"
    using touchesD [OF touches_config [where X = "{}" and S = "\<lambda>_. False"] assms] unfolding framed_def by blast
  then have "effects s' = effects s" by (cases new) auto
  moreover have "distinct (CfgAllowedHosts cfg)" "set (CfgAllowedHosts cfg) =
      {ToLower (TrimSpace h) | h. h \<in> set (Split1 (Getenv pr ''ROUTER_VPN_UPDATE_ALLOWED_HOSTS'') CHR '','') \<and> TrimSpace h \<noteq> []}"
    unfolding cfg(1) using csv_values_ok by (simp_all add: env_config_def rvCSV_def csv_values_set)
  moreover have "CfgManifestURL cfg = TrimSpace (CfgManifestURL cfg)" "CfgInstalledSHA cfg = sha"
    unfolding cfg(1) by (simp_all add: env_config_def TrimSpace_idem)
  ultimately show ?thesis
    using ok sha_ok k
    by (auto simp: rvValidateNativeUpdateConfig_def rvValidateManifestURL_def res_bind_def list_ex_iff split: if_split_asm option.splits sum.splits)
qed

section \<open>Redirects and loopback addresses\<close>

lemma redirect_stays_private:
  assumes "artifact_redirect hosts u via = Inr ()"
  obtains v where "u = Some v" "EqualFold (Scheme v) ''https''" "\<not> User v" "via \<le> 8"
    "hosts \<noteq> [] \<Longrightarrow> \<exists>h \<in> set hosts. EqualFold (TrimSpace h) (Hostname v)"
  using assms by (cases u) (auto simp: artifact_redirect_def list_ex_iff split: if_split_asm)

definition request_from :: "string \<Rightarrow> request" where
  "request_from addr = \<lparr>Method = ''POST'', RemoteAddr = addr, NativeApp = ''1''\<rparr>"

lemma loopback_examples:
  "list_all (\<lambda>a. rvNativeLoopbackRequest (request_from a)) [''127.0.0.1:5000'', ''[::1]:5000'', ''localhost:80'', ''::ffff:127.1.2.3'']"
  "list_ex (\<lambda>a. rvNativeLoopbackRequest (request_from a)) [''192.0.2.7:80'', ''[::2]:80'', ''127.0.0.1.example:80'', []] = False"
  by code_simp+

section \<open>A process\<close>

definition client_vars :: "(string \<times> string) list" where
  "client_vars = [(''ROUTER_VPN_UPDATE_MANIFEST_URL'', ''https://updates.example/m/1''),
     (''ROUTER_VPN_SOURCE_SHA'', replicate 40 CHR ''C''), (''ROUTER_VPN_UPDATE_PUBLIC_KEY'', b64_encode (replicate 32 CHR ''p'')),
     (''ROUTER_VPN_NATIVE_UPDATE_STATE'', ''/s/state.json''), (''ROUTER_VPN_NATIVE_UPDATE_DIR'', ''/u''),
     (''ROUTER_VPN_UPDATE_ALLOWED_HOSTS'', ''a.example, B.example,a.example'')]"

definition client_process :: process where
  "client_process = \<lparr>Getenv = (\<lambda>name. case map_of client_vars name of None \<Rightarrow> [] | Some v \<Rightarrow> v), GOOS = ''linux'', Executable = Inr ''/x/rv''\<rparr>"

definition client_read :: "(update_config \<times> unit res) res \<times> fsys" where
  "client_read = rvNativeUpdateConfigFromApp demo_ext demo_os client_process None ''check'' empty_fs"

definition client_given :: update_config where
  "client_given = (env_config demo_ext client_process ''.'' ''check'')\<lparr>CfgPublicKey := replicate 32 CHR ''p''\<rparr>"

lemma client_key:
  "TrimSpace (Getenv client_process ''ROUTER_VPN_UPDATE_PUBLIC_KEY'') = b64_encode (replicate 32 CHR ''p'')"
  "TrimSpace (b64_encode (replicate 32 CHR ''p'')) = b64_encode (replicate 32 CHR ''p'')" "b64_encode (replicate 32 CHR ''p'') \<noteq> []"
  "DecodeString (b64_encode (replicate 32 CHR ''p'')) = Some (replicate 32 CHR ''p'')"
  by code_simp+

lemma client_given_ok:
  "rvValidateNativeUpdateConfig demo_ext client_given = Inr ()" "CfgAllowedHosts client_given = [''a.example'', ''b.example'']"
  "CfgInstalledSHA (env_config demo_ext client_process ''.'' ''check'') \<noteq> []"
  by code_simp+

lemma client_read_ok: "client_read = (Inr (client_given, Inr ()), empty_fs)"
proof -
  let ?c = "env_config demo_ext client_process ''.'' ''check''"
  have b: "base_dir None = ''.''" by (simp add: base_dir_def)
  have g: "?c\<lparr>CfgInstalledSHA := CfgInstalledSHA ?c, CfgPublicKey := replicate 32 CHR ''p''\<rparr> = client_given"
    by (simp add: client_given_def)
  show ?thesis
    unfolding client_read_def rvNativeUpdateConfigFromApp_def Let_def b client_key(1) if_not_P [OF client_given_ok(3)]
      if_not_P [OF client_key(3)] io_bind_def io_return_def prod.case sum.case client_key(2) client_key(4) option.case length_replicate g
    by (simp add: client_given_ok)
qed

theorem accepted_config_sound_witness:
  "\<exists>cfg. fst client_read = Inr (cfg, Inr ()) \<and> CfgPublicKey cfg = replicate 32 CHR ''p'' \<and> set (CfgAllowedHosts cfg) = {''a.example'', ''b.example''}
     \<and> rvExactSHA (CfgInstalledSHA cfg) \<and> CfgChannel cfg \<in> {''stable'', ''beta''} \<and> effects (snd client_read) = []"
proof -
  note sound = accepted_config_sound [OF client_read_ok [unfolded client_read_def], unfolded Let_def client_key]
  have key: "CfgPublicKey client_given = replicate 32 CHR ''p''"
    using conjunct1 [OF conjunct2 [OF sound]] client_key(3,4) by simp
  have rest: "rvExactSHA (CfgInstalledSHA client_given)" "CfgChannel client_given \<in> {''stable'', ''beta''}" "effects empty_fs = effects empty_fs"
    using sound by blast+
  show ?thesis
    using key rest client_given_ok(2) by (intro exI [of _ client_given]) (simp add: client_read_ok empty_fs_def)
qed

theorem native_api_confined_witness:
  "\<exists>reply s'. update_route demo_ext demo_os client_env client_process None True (request_from ''127.0.0.1:5000'') (client_at 0) = (reply, s')
    \<and> (\<forall>(p, old, now) \<in> set (effects s'). own_name p \<or> p = ''/s/state.json''
       \<or> (\<exists>name digest. path_Abs (Inr ''/'') p = Inr (path_Join ''/u'' name) \<and> isHex digest 64
            \<and> HasPrefix (ToLower name) (take 16 digest @ ''-''))
       \<or> (old = None \<and> p \<in> {''/u'', ''/s''}))"
proof -
  let ?r = "request_from ''127.0.0.1:5000''"
  obtain reply s' where r: "update_route demo_ext demo_os client_env client_process None True ?r (client_at 0) = (reply, s')"
    by (rule prod.exhaust)
  let ?cfg = "env_config demo_ext client_process (base_dir None) ''download''"
  have c: "CfgStatePath ?cfg = ''/s/state.json''" "CfgDownloadDir ?cfg = ''/u''" "Cwd client_env = Inr ''/''"
    "path_Abs (Inr ''/'') (path_Clean ''/u'') = Inr ''/u''" "update_dirs ?cfg = {''/u'', ''/s''}"
    "Method ?r = ''POST''" "NativeApp ?r = ''1''" "rvNativeLoopbackRequest ?r"
    by code_simp+
  have e: "effects (client_at 0) = []" by (simp add: client_at_def)
  from native_api_confined [OF client_dir demo_os_polite(4) r] show ?thesis unfolding r c e by (auto simp: c)
qed

end
