(* ===== verification/DnsWire.thy ===== *)
theory DnsWire
  imports Netip "HOL-Library.Word"
begin

unbundle bit_operations_syntax

text \<open>
  \<^verbatim>\<open>src/internal/dnsmeasure/wire.go\<close>, \<^verbatim>\<open>addresses.go\<close>, \<^verbatim>\<open>response.go\<close>: the names, records and answers of
  DNS messages. Messages are lists of bytes; a read outside of the message is a panic of its own.
\<close>

section \<open>Reading bytes\<close>

type_synonym octet = "8 word"

definition maxDNSMessage :: int where
  "maxDNSMessage = 16384"

definition bounds_panic :: goerror where
  "bounds_panic = Panic ''slice bounds out of range''"

text \<open>\<open>xs[i:j]\<close> and the big-endian number at \<open>xs[i:i+2]\<close>.\<close>

definition slice :: "octet list \<Rightarrow> nat \<Rightarrow> nat \<Rightarrow> octet list res" where
  "slice xs i j = (if i \<le> j \<and> j \<le> length xs then Inr (take (j - i) (drop i xs)) else Inl bounds_panic)"

definition un16 :: "octet list \<Rightarrow> nat \<Rightarrow> int" where
  "un16 xs i = 256 * uint (xs ! i) + uint (xs ! Suc i)"

definition Uint16 :: "octet list \<Rightarrow> nat \<Rightarrow> int res" where
  "Uint16 xs i = (if i + 2 \<le> length xs then Inr (un16 xs i) else Inl bounds_panic)"

section \<open>Names\<close>

definition lower_octet :: "octet \<Rightarrow> octet" where
  "lower_octet b = (if 65 \<le> b \<and> b \<le> 90 then b + 32 else b)"

definition is_pointer :: "octet \<Rightarrow> bool" where
  "is_pointer b \<longleftrightarrow> b AND 0xc0 = 0xc0"

definition pointer_target :: "octet \<Rightarrow> octet \<Rightarrow> nat" where
  "pointer_target b c = nat (push_bit 8 (uint (b AND 63)) OR uint c)"

text \<open>The loop of \<open>wireName\<close>: the steps left, the offset, the end of the name once it is known, the name.\<close>

fun name_steps :: "nat \<Rightarrow> octet list \<Rightarrow> nat \<Rightarrow> nat option \<Rightarrow> octet list \<Rightarrow> (octet list \<times> nat) option" where
  "name_steps 0 packet offset next name = None"
| "name_steps (Suc n) packet offset next name =
     (if offset < 12 \<or> length packet \<le> offset then None
      else if is_pointer (packet ! offset) then
        (if length packet \<le> offset + 1 then None
         else
           (let p = pointer_target (packet ! offset) (packet ! (offset + 1)) in
            if p < 12 \<or> offset \<le> p then None
            else name_steps n packet p (Some (case next of None \<Rightarrow> offset + 2 | Some e \<Rightarrow> e)) name))
      else
        (let size = unat (packet ! offset) in
         if 63 < size \<or> length packet < offset + 1 + size \<or> 255 < int (length name + 1 + size) then None
         else
           (let label = take size (drop (offset + 1) packet);
                name = name @ packet ! offset # map lower_octet label
            in if size = 0 then Some (name, case next of None \<Rightarrow> offset + 1 | Some e \<Rightarrow> e)
               else name_steps n packet (offset + 1 + size) next name)))"

definition wireName :: "octet list \<Rightarrow> nat \<Rightarrow> (octet list \<times> nat) option" where
  "wireName packet offset = name_steps 256 packet offset None []"

section \<open>Answers\<close>

definition bad_answer :: goerror where
  "bad_answer = Err ''invalid matching DNS answer''"

definition public_address :: "octet list \<Rightarrow> bool" where
  "public_address ip =
     (let a = V4 (map uint ip) in IsGlobalUnicast a \<and> \<not> IsPrivate a \<and> \<not> IsLoopback a \<and> \<not> IsUnspecified a)"

text \<open>A map of names to names; an absent name gives the empty string.\<close>

type_synonym aliases = "(octet list \<times> octet list) list"

definition alias_of :: "aliases \<Rightarrow> octet list \<Rightarrow> octet list" where
  "alias_of m name = (case map_of m name of None \<Rightarrow> [] | Some target \<Rightarrow> target)"

text \<open>The loop over the records of all sections.\<close>

fun check_records ::
  "nat \<Rightarrow> octet list \<Rightarrow> int \<Rightarrow> int \<Rightarrow> nat \<Rightarrow> octet list list \<Rightarrow> aliases \<Rightarrow> (nat \<times> octet list list \<times> aliases) res" where
  "check_records 0 response answers index offset usable aliases = Inr (offset, usable, aliases)"
| "check_records (Suc n) response answers index offset usable aliases =
     (case wireName response offset of
        None \<Rightarrow> Inl bad_answer
      | Some (name, e) \<Rightarrow>
          if length response < e + 10 then Inl bad_answer
          else
            res_bind (Uint16 response e) (\<lambda>kind.
            res_bind (Uint16 response (e + 2)) (\<lambda>class.
            res_bind (Uint16 response (e + 8)) (\<lambda>size.
              let data = e + 10; offset = data + nat size in
              if length response < offset then Inl bad_answer
              else if index \<ge> answers \<or> class \<noteq> 1 then check_records n response answers (index + 1) offset usable aliases
              else if kind = 1 then
                (if size \<noteq> 4 then Inl bad_answer
                 else res_bind (slice response data offset) (\<lambda>ip.
                   check_records n response answers (index + 1) offset (if public_address ip then name # usable else usable) aliases))
              else if kind = 5 then
                (case wireName response data of
                   None \<Rightarrow> Inl bad_answer
                 | Some (target, next) \<Rightarrow>
                     if next \<noteq> offset \<or> alias_of aliases name \<noteq> [] \<and> alias_of aliases name \<noteq> target then Inl bad_answer
                     else check_records n response answers (index + 1) offset usable (map_put name target aliases))
              else check_records n response answers (index + 1) offset usable aliases))))"

text \<open>The walk along the aliases: the hops left, the current name, the names seen.\<close>

fun usable_chain :: "nat \<Rightarrow> octet list list \<Rightarrow> aliases \<Rightarrow> octet list \<Rightarrow> octet list list \<Rightarrow> bool" where
  "usable_chain 0 usable aliases name seen = False"
| "usable_chain (Suc n) usable aliases name seen =
     (if name = [] \<or> name \<in> set seen then False
      else if name \<in> set usable \<and> alias_of aliases name = [] then True
      else usable_chain n usable aliases (alias_of aliases name) (name # seen))"

definition header_ok :: "octet list \<Rightarrow> octet list \<Rightarrow> bool" where
  "header_ok query response \<longleftrightarrow> \<not> (length query < 12 \<or> length response < 12 \<or> int (length response) > maxDNSMessage
     \<or> take 2 query \<noteq> take 2 response \<or> response ! 2 AND 0xfa \<noteq> 0x80 \<or> response ! 3 AND 0x4f \<noteq> 0 \<or> un16 response 4 \<noteq> 1)"

definition validateAnswer :: "octet list \<Rightarrow> octet list \<Rightarrow> unit res" where
  "validateAnswer query response =
     (if \<not> header_ok query response then Inl bad_answer
      else case wireName query 12 of
        None \<Rightarrow> Inl bad_answer
      | Some (qname, qend) \<Rightarrow>
          if qend + 4 \<noteq> length query then Inl bad_answer
          else case wireName response 12 of
            None \<Rightarrow> Inl bad_answer
          | Some (rname, offset) \<Rightarrow>
              if length response < offset + 4 \<or> rname \<noteq> qname then Inl bad_answer
              else
                res_bind (slice query qend (length query)) (\<lambda>asked.
                res_bind (slice response offset (offset + 4)) (\<lambda>echoed.
                if asked \<noteq> echoed then Inl bad_answer
                else
                  (let answers = un16 response 6; total = answers + un16 response 8 + un16 response 10 in
                   if answers = 0 \<or> answers > 128 \<or> total > 256 then Inl bad_answer
                   else res_bind (check_records (nat total) response answers 0 (offset + 4) [] []) (\<lambda>(offset, usable, aliases).
                     if offset \<noteq> length response then Inl bad_answer
                     else if usable_chain 16 usable aliases qname [] then Inr ()
                     else Inl bad_answer)))))"

definition ValidateUsableDNSResponse :: "octet list \<Rightarrow> octet list \<Rightarrow> unit res" where
  "ValidateUsableDNSResponse query response = validateAnswer query response"

section \<open>The addresses of an answer\<close>

text \<open>An ignored error of \<open>wireName\<close> leaves the zero values.\<close>

definition name_or_zero :: "octet list \<Rightarrow> nat \<Rightarrow> octet list \<times> nat" where
  "name_or_zero packet offset = (case wireName packet offset of None \<Rightarrow> ([], 0) | Some x \<Rightarrow> x)"

text \<open>The addresses are the pairs of an owner and its address, in the order of the answer.\<close>

fun gather_records ::
  "nat \<Rightarrow> octet list \<Rightarrow> nat \<Rightarrow> (octet list \<times> octet list) list \<Rightarrow> aliases \<Rightarrow> ((octet list \<times> octet list) list \<times> aliases) res" where
  "gather_records 0 response offset addresses aliases = Inr (addresses, aliases)"
| "gather_records (Suc n) response offset addresses aliases =
     (let (owner, e) = name_or_zero response offset in
      res_bind (Uint16 response e) (\<lambda>kind.
      res_bind (Uint16 response (e + 2)) (\<lambda>class.
      res_bind (Uint16 response (e + 8)) (\<lambda>size.
        let data = e + 10; offset = data + nat size in
        if class \<noteq> 1 then gather_records n response offset addresses aliases
        else if kind = 1 then
          res_bind (slice response data offset) (\<lambda>ip.
            if int (length ip) < 4 then Inl (Panic ''slice to array conversion'')
            else gather_records n response offset (if public_address (take 4 ip) then addresses @ [(owner, take 4 ip)] else addresses) aliases)
        else if kind = 5 then gather_records n response offset addresses (map_put owner (fst (name_or_zero response data)) aliases)
        else gather_records n response offset addresses aliases))))"

text \<open>The addresses of a name without repetitions.\<close>

fun unseen :: "octet list list \<Rightarrow> octet list list \<Rightarrow> octet list list" where
  "unseen seen [] = []"
| "unseen seen (ip # ips) = (if ip \<in> set seen then unseen seen ips else ip # unseen (ip # seen) ips)"

definition addresses_of :: "(octet list \<times> octet list) list \<Rightarrow> octet list \<Rightarrow> octet list list" where
  "addresses_of addresses name = unseen [] (map snd (filter (\<lambda>x. fst x = name) addresses))"

fun follow_alias :: "nat \<Rightarrow> (octet list \<times> octet list) list \<Rightarrow> aliases \<Rightarrow> octet list \<Rightarrow> octet list list res" where
  "follow_alias 0 addresses aliases name = fail ''selected DNS alias chain exceeded its original bound''"
| "follow_alias (Suc n) addresses aliases name =
     (if alias_of aliases name \<noteq> [] then follow_alias n addresses aliases (alias_of aliases name)
      else
        (let result = addresses_of addresses name in
         if result = [] \<or> int (length result) > 16 then fail ''selected DNS returned no bounded public address set''
         else Inr result))"

definition PublicIPv4Answers :: "octet list \<Rightarrow> octet list \<Rightarrow> octet list list res" where
  "PublicIPv4Answers query response =
     res_bind (validateAnswer query response) (\<lambda>_.
       let (name, e) = name_or_zero query 12 in
       res_bind (Uint16 query e) (\<lambda>qtype.
       res_bind (Uint16 query (e + 2)) (\<lambda>qclass.
         if qtype \<noteq> 1 \<or> qclass \<noteq> 1 then fail ''public address extraction requires its original IN A question''
         else
           (let offset = snd (name_or_zero response 12) + 4 in
            res_bind (gather_records (nat (un16 response 6)) response offset [] []) (\<lambda>(addresses, aliases).
              follow_alias 16 addresses aliases name)))))"

end
