(* ===== verification/DnsWireProps.thy ===== *)
theory DnsWireProps
  imports DnsWire
begin

text \<open>
  What the DNS code of \<open>DnsWire\<close> guarantees: names against the name syntax of RFC 1035, answers against the
  record syntax, and the addresses taken from a validated answer.
\<close>

section \<open>Octets\<close>

lemma octet_all:
  assumes "list_all (\<lambda>n. P (word_of_int n)) [0..255]"
  shows "P (b :: octet)"
proof -
  have "uint b \<in> set [0..255]" using uint_range_size [of b] by (simp add: word_size)
  then have "P (word_of_int (uint b))" using assms unfolding list_all_iff by blast
  then show ?thesis by simp
qed

lemma octet_masks: "(is_pointer b \<longleftrightarrow> 192 \<le> uint b) \<and> uint (b AND 63) = uint b mod 64"
  by (rule octet_all) code_simp

lemma uint_octet: "0 \<le> uint (b :: octet)" "uint (b :: octet) < 256"
  using uint_range_size [of b] by (simp_all add: word_size)

lemma pointer_target_value: "int (pointer_target b c) = 256 * (uint b mod 64) + uint c"
proof -
  have "take_bit 8 (uint c) = uint c" using uint_octet [of c] by (simp add: take_bit_eq_mod)
  then have "push_bit 8 (uint (b AND 63)) OR uint c = uint c + push_bit 8 (uint (b AND 63))"
    using concat_bit_eq [of 8 "uint c" "uint (b AND 63)"] by (simp add: concat_bit_def or.commute)
  then show ?thesis
    using octet_masks [of b] uint_octet [of c] by (simp add: pointer_target_def push_bit_eq_mult)
qed

section \<open>Names\<close>

text \<open>
  The name syntax of a message: labels of at most 63 octets up to the empty root label, or up to a pointer to
  an earlier name. A name at \<open>off\<close> has the labels \<open>ls\<close> and is written in the octets before \<open>e\<close>.
\<close>

inductive dns_name :: "octet list \<Rightarrow> nat \<Rightarrow> octet list list \<Rightarrow> nat \<Rightarrow> bool" for packet where
  root: "off < length packet \<Longrightarrow> packet ! off = 0 \<Longrightarrow> dns_name packet off [] (off + 1)"
| label: "off + 1 + n \<le> length packet \<Longrightarrow> unat (packet ! off) = n \<Longrightarrow> 0 < n \<Longrightarrow> n \<le> 63 \<Longrightarrow>
    dns_name packet (off + 1 + n) ls e \<Longrightarrow> dns_name packet off (take n (drop (off + 1) packet) # ls) e"
| pointer: "off + 1 < length packet \<Longrightarrow> 192 \<le> uint (packet ! off) \<Longrightarrow> p < off \<Longrightarrow>
    int p = 256 * (uint (packet ! off) - 192) + uint (packet ! (off + 1)) \<Longrightarrow>
    dns_name packet p ls e \<Longrightarrow> dns_name packet off ls (off + 2)"

inductive_cases dns_nameE: "dns_name packet off ls e"

text \<open>The labels in lower case, each after its length, and the root label.\<close>

definition canonical_name :: "octet list list \<Rightarrow> octet list" where
  "canonical_name ls = concat (map (\<lambda>l. of_nat (length l) # map lower_octet l) ls) @ [0]"

lemma name_steps_sound:
  "name_steps n packet off nx name = Some (full, e) \<Longrightarrow>
   \<exists>ls e'. dns_name packet off ls e' \<and> full = name @ canonical_name ls \<and> e = (case nx of None \<Rightarrow> e' | Some x \<Rightarrow> x)
     \<and> int (length full) \<le> 255 \<and> 12 \<le> off \<and> off < e' \<and> e' \<le> length packet"
proof (induction n packet off nx name rule: name_steps.induct)
  case (2 n packet off nx name)
  let ?b = "packet ! off"
  have r: "12 \<le> off" "off < length packet" using 2(3) by (auto split: if_splits)
  show ?case
  proof (cases "is_pointer ?b")
    case True
    let ?p = "pointer_target ?b (packet ! (off + 1))"
    have p: "off + 1 < length packet" "?p < off"
      and s: "name_steps n packet ?p (Some (case nx of None \<Rightarrow> off + 2 | Some e \<Rightarrow> e)) name = Some (full, e)"
      using 2(3) r True by (auto simp: Let_def split: if_splits)
    have "\<not> (off < 12 \<or> length packet \<le> off)" "\<not> length packet \<le> off + 1" "\<not> (?p < 12 \<or> off \<le> ?p)"
      using 2(3) r p True by (auto simp: Let_def split: if_splits)
    from 2(1) [OF this(1) True this(2) refl this(3) s] obtain ls e' where
      ih: "dns_name packet ?p ls e'" "full = name @ canonical_name ls"
      "e = (case nx of None \<Rightarrow> off + 2 | Some e \<Rightarrow> e)" "int (length full) \<le> 255"
      by auto
    have b: "192 \<le> uint ?b" using True octet_masks by simp
    have "uint ?b mod 64 = uint ?b - 192" using b uint_octet(2) [of ?b] by presburger
    then have "int ?p = 256 * (uint ?b - 192) + uint (packet ! (off + 1))"
      by (simp add: pointer_target_value)
    then have "dns_name packet off ls (off + 2)" using dns_name.pointer [OF p(1) b p(2) _ ih(1)] by simp
    then show ?thesis using ih r p by (intro exI [of _ ls] exI [of _ "off + 2"]) auto
  next
    case False
    let ?n = "unat ?b"
    let ?l = "take ?n (drop (off + 1) packet)"
    have c: "?n \<le> 63" "off + 1 + ?n \<le> length packet" "int (length name + 1 + ?n) \<le> 255"
      using 2(3) r False by (auto simp: Let_def split: if_splits)
    show ?thesis
    proof (cases "?n = 0")
      case True
      then have "?b = 0" by (simp add: unat_eq_zero)
      then show ?thesis
        using 2(3) r False c True dns_name.root [OF r(2)]
        by (intro exI [of _ "[]"] exI [of _ "off + 1"]) (auto simp: Let_def canonical_name_def split: option.splits)
    next
      case pos: False
      have s: "name_steps n packet (off + 1 + ?n) nx (name @ ?b # map lower_octet ?l) = Some (full, e)"
        using 2(3) r False c pos by (simp add: Let_def)
      have "\<not> (off < 12 \<or> length packet \<le> off)" "\<not> (63 < ?n \<or> length packet < off + 1 + ?n \<or> 255 < int (length name + 1 + ?n))"
        using r c by auto
      from 2(2) [OF this(1) False refl this(2) refl refl pos s] obtain ls e' where
        ih: "dns_name packet (off + 1 + ?n) ls e'" "full = (name @ ?b # map lower_octet ?l) @ canonical_name ls"
        "e = (case nx of None \<Rightarrow> e' | Some x \<Rightarrow> x)" "int (length full) \<le> 255" "off + 1 + ?n < e'" "e' \<le> length packet"
        by blast
      have d: "dns_name packet off (?l # ls) e'" by (rule dns_name.label [OF c(2) refl _ c(1) ih(1)]) (use pos in simp)
      have "length ?l = ?n" using c(2) by simp
      then have "full = name @ canonical_name (?l # ls)" using ih(2) by (simp add: canonical_name_def)
      then show ?thesis using d ih r by (intro exI [of _ "?l # ls"] exI [of _ e']) auto
    qed
  qed
qed simp

lemma dns_name_fun: "dns_name packet off ls e \<Longrightarrow> dns_name packet off ls' e' \<Longrightarrow> ls' = ls \<and> e' = e"
proof (induction arbitrary: ls' e' rule: dns_name.induct)
  case (root off)
  from root(3) show ?case by (cases rule: dns_name.cases) (use root(2) in simp_all)
next
  case (label off n ls e)
  have u: "int n = uint (packet ! off)" using label(2) [symmetric] by simp
  from label(7) show ?case
  proof (cases rule: dns_name.cases)
    case (label m ms)
    have "m = n" using label(3) \<open>unat (packet ! off) = n\<close> by simp
    then show ?thesis using label(1,6) \<open>\<And>ls' e'. dns_name packet (off + 1 + n) ls' e' \<Longrightarrow> ls' = ls \<and> e' = e\<close> by blast
  qed (use label(2-4) u in simp_all)
next
  case (pointer off p ls e)
  from pointer(7) show ?case
  proof (cases rule: dns_name.cases)
    case (label m ms)
    have "int m = uint (packet ! off)" using label(3) [symmetric] by simp
    then show ?thesis using label(5) pointer(2) by simp
  next
    case (pointer q)
    have "int q = int p" using pointer(5) \<open>int p = _\<close> by simp
    then show ?thesis using pointer(1,6) \<open>\<And>ls' e'. dns_name packet p ls' e' \<Longrightarrow> ls' = ls \<and> e' = e\<close> by simp
  qed (use pointer(2) in simp)
qed

text \<open>
  C30. The name reader refines the name syntax of the protocol: a name it returns is the lower-case spelling of
  the labels that the syntax gives at that offset, uniquely, of at most 255 octets, following pointers only to
  earlier names; the end it returns is where that name ends in the message, inside the message.
\<close>

theorem wire_name_refines:
  assumes "wireName packet offset = Some (name, e)"
  shows "\<exists>ls. dns_name packet offset ls e \<and> (\<forall>ls' e'. dns_name packet offset ls' e' \<longrightarrow> ls' = ls \<and> e' = e)
    \<and> name = canonical_name ls \<and> int (length name) \<le> 255 \<and> offset < e \<and> e \<le> length packet"
proof -
  obtain ls e' where "dns_name packet offset ls e'" "name = canonical_name ls" "e = e'" "int (length name) \<le> 255"
    "offset < e'" "e' \<le> length packet"
    using name_steps_sound [OF assms [unfolded wireName_def]] by auto
  then show ?thesis using dns_name_fun by blast
qed

lemma wireName_ok:
  assumes "wireName packet offset = Some (name, e)"
  shows "\<exists>ls. dns_name packet offset ls e \<and> name = canonical_name ls" "offset < e" "e \<le> length packet" "name \<noteq> []"
  using name_steps_sound [OF assms [unfolded wireName_def]] by (auto simp: canonical_name_def)

section \<open>Records\<close>

record rr =
  owner :: "octet list"
  rtype :: int
  rclass :: int
  rdata :: nat
  rsize :: nat

text \<open>The records \<open>xs\<close> stand in the message from \<open>off\<close> up to \<open>f\<close>.\<close>

inductive rrs :: "octet list \<Rightarrow> nat \<Rightarrow> rr list \<Rightarrow> nat \<Rightarrow> bool" for packet where
  none: "rrs packet off [] off"
| more: "dns_name packet off ls e \<Longrightarrow> e + 10 \<le> length packet \<Longrightarrow> int n = un16 packet (e + 8) \<Longrightarrow> e + 10 + n \<le> length packet \<Longrightarrow>
    rrs packet (e + 10 + n) xs f \<Longrightarrow>
    rrs packet off (\<lparr>owner = canonical_name ls, rtype = un16 packet e, rclass = un16 packet (e + 2), rdata = e + 10, rsize = n\<rparr> # xs) f"

text \<open>An internet alias from \<open>n\<close> to \<open>t\<close>, and a public internet address of \<open>n\<close>, among some records.\<close>

definition cname :: "octet list \<Rightarrow> rr list \<Rightarrow> octet list \<Rightarrow> octet list \<Rightarrow> bool" where
  "cname packet xs n t \<longleftrightarrow> (\<exists>x \<in> set xs. rclass x = 1 \<and> rtype x = 5 \<and> owner x = n
     \<and> (\<exists>ls. dns_name packet (rdata x) ls (rdata x + rsize x) \<and> t = canonical_name ls))"

definition public_a :: "octet list \<Rightarrow> rr list \<Rightarrow> octet list \<Rightarrow> octet list \<Rightarrow> bool" where
  "public_a packet xs n ip \<longleftrightarrow> (\<exists>x \<in> set xs. rclass x = 1 \<and> rtype x = 1 \<and> owner x = n \<and> rsize x = 4
     \<and> ip = take 4 (drop (rdata x) packet) \<and> public_address ip)"

lemma no_records [simp]: "\<not> cname packet [] n t" "\<not> public_a packet [] n ip"
  by (simp_all add: cname_def public_a_def)

lemma un16_nonneg: "0 \<le> un16 xs i"
  by (simp add: un16_def)

text \<open>One turn of the loop: the record it read and what it did to its maps.\<close>

definition record_at :: "octet list \<Rightarrow> octet list \<Rightarrow> nat \<Rightarrow> rr" where
  "record_at packet name e = \<lparr>owner = name, rtype = un16 packet e, rclass = un16 packet (e + 2), rdata = e + 10,
     rsize = nat (un16 packet (e + 8))\<rparr>"

definition turn_ok :: "octet list \<Rightarrow> bool \<Rightarrow> rr \<Rightarrow> octet list list \<Rightarrow> aliases \<Rightarrow> octet list list \<Rightarrow> aliases \<Rightarrow> bool" where
  "turn_ok packet counted x us al us' al' \<longleftrightarrow>
     (if \<not> counted \<or> rclass x \<noteq> 1 then us' = us \<and> al' = al
      else if rtype x = 1 then rsize x = 4 \<and> al' = al
        \<and> us' = (if public_address (take 4 (drop (rdata x) packet)) then owner x # us else us)
      else if rtype x = 5 then us' = us \<and> (\<exists>t. wireName packet (rdata x) = Some (t, rdata x + rsize x)
        \<and> (alias_of al (owner x) = [] \<or> alias_of al (owner x) = t) \<and> al' = map_put (owner x) t al)
      else us' = us \<and> al' = al)"

lemma check_records_Suc:
  assumes "check_records (Suc n) packet answers index off us al = Inr r"
  shows "\<exists>name e us' al'. wireName packet off = Some (name, e) \<and> e + 10 \<le> length packet
    \<and> e + 10 + rsize (record_at packet name e) \<le> length packet
    \<and> turn_ok packet (index < answers) (record_at packet name e) us al us' al'
    \<and> check_records n packet answers (index + 1) (e + 10 + rsize (record_at packet name e)) us' al' = Inr r"
proof -
  obtain name e where w: "wireName packet off = Some (name, e)" using assms by (cases "wireName packet off") auto
  let ?x = "record_at packet name e"
  let ?f = "e + 10 + rsize ?x"
  have l: "e + 10 \<le> length packet" using assms w by (auto split: if_splits)
  have u: "Uint16 packet e = Inr (rtype ?x)" "Uint16 packet (e + 2) = Inr (rclass ?x)" "Uint16 packet (e + 8) = Inr (int (rsize ?x))"
    using l un16_nonneg by (simp_all add: Uint16_def record_at_def)
  have d: "rdata ?x = e + 10" "owner ?x = name" by (simp_all add: record_at_def)
  have f: "?f \<le> length packet" using assms w l u by (auto simp: Let_def split: if_splits)
  note rest = assms [unfolded check_records.simps, simplified w u l option.case prod.case res_bind_simps Let_def]
  consider (skip) "answers \<le> index \<or> rclass ?x \<noteq> 1" | (a) "\<not> (answers \<le> index \<or> rclass ?x \<noteq> 1)" "rtype ?x = 1"
    | (c) "\<not> (answers \<le> index \<or> rclass ?x \<noteq> 1)" "rtype ?x = 5"
    | (other) "\<not> (answers \<le> index \<or> rclass ?x \<noteq> 1)" "rtype ?x \<noteq> 1" "rtype ?x \<noteq> 5" by blast
  then show ?thesis
  proof cases
    case skip
    then have "turn_ok packet (index < answers) ?x us al us al" by (auto simp: turn_ok_def)
    moreover have "check_records n packet answers (index + 1) ?f us al = Inr r" using rest skip f l by (auto split: if_splits)
    ultimately show ?thesis using w l f by blast
  next
    case a
    let ?us = "if public_address (take 4 (drop (e + 10) packet)) then name # us else us"
    have z: "rsize ?x = 4" using rest a f l by (auto split: if_splits)
    then have "slice packet (e + 10) ?f = Inr (take 4 (drop (e + 10) packet))" using f by (simp add: slice_def)
    then have "check_records n packet answers (index + 1) ?f ?us al = Inr r" using rest a f l z by (auto split: if_splits)
    moreover have "turn_ok packet (index < answers) ?x us al ?us al" using a z d by (auto simp: turn_ok_def)
    ultimately show ?thesis using w l f by blast
  next
    case c
    obtain t where t: "wireName packet (e + 10) = Some (t, ?f)" "alias_of al name = [] \<or> alias_of al name = t"
      "check_records n packet answers (index + 1) ?f us (map_put name t al) = Inr r"
      using rest c f l by (auto split: if_splits option.splits)
    then have "turn_ok packet (index < answers) ?x us al us (map_put name t al)" using c d by (auto simp: turn_ok_def)
    then show ?thesis using w l f t(3) by blast
  next
    case other
    then have "turn_ok packet (index < answers) ?x us al us al" by (auto simp: turn_ok_def)
    moreover have "check_records n packet answers (index + 1) ?f us al = Inr r" using rest other f l by (auto split: if_splits)
    ultimately show ?thesis using w l f by blast
  qed
qed

lemma turn_alias:
  assumes "turn_ok packet counted x us al us' al'" "t \<noteq> []"
  shows "alias_of al' n = t \<longleftrightarrow> alias_of al n = t \<or> (counted \<and> cname packet [x] n t)"
proof (cases "counted \<and> rclass x = 1 \<and> rtype x = 5")
  case True
  then obtain t' where t': "wireName packet (rdata x) = Some (t', rdata x + rsize x)"
    "alias_of al (owner x) = [] \<or> alias_of al (owner x) = t'" "al' = map_put (owner x) t' al"
    using assms(1) by (auto simp: turn_ok_def)
  obtain ls where ls: "dns_name packet (rdata x) ls (rdata x + rsize x)" "t' = canonical_name ls"
    using wireName_ok(1) [OF t'(1)] by blast
  have "cname packet [x] n t \<longleftrightarrow> owner x = n \<and> t = t'"
  proof -
    have "dns_name packet (rdata x) ms (rdata x + rsize x) \<longleftrightarrow> ms = ls" for ms using dns_name_fun [OF ls(1)] ls(1) by blast
    then show ?thesis using True by (auto simp: cname_def ls(2))
  qed
  then show ?thesis using t'(2,3) True assms(2) by (auto simp: alias_of_def)
next
  case False
  then have "al' = al" "\<not> (counted \<and> cname packet [x] n t)" using assms(1) by (auto simp: turn_ok_def cname_def split: if_splits)
  then show ?thesis by blast
qed

lemma turn_usable:
  assumes "turn_ok packet counted x us al us' al'"
  shows "n \<in> set us' \<longleftrightarrow> n \<in> set us \<or> (counted \<and> (\<exists>ip. public_a packet [x] n ip))"
  using assms by (auto simp: turn_ok_def public_a_def split: if_splits)

lemma no_alias:
  assumes "alias_of al m = []" and "\<And>m t. t \<noteq> [] \<Longrightarrow> alias_of al m = t \<longleftrightarrow> cname packet ans m t"
  shows "\<not> cname packet ans m t"
proof
  assume a: "cname packet ans m t"
  then have "t \<noteq> []" by (auto simp: cname_def canonical_name_def)
  then show False using assms a by metis
qed

lemma cname_Cons: "cname packet (x # xs) n t \<longleftrightarrow> cname packet [x] n t \<or> cname packet xs n t"
  by (auto simp: cname_def)

lemma public_a_Cons: "public_a packet (x # xs) n ip \<longleftrightarrow> public_a packet [x] n ip \<or> public_a packet xs n ip"
  by (auto simp: public_a_def)

lemma rrs_more:
  assumes "wireName packet off = Some (name, e)" "e + 10 \<le> length packet"
    and "e + 10 + rsize (record_at packet name e) \<le> length packet" "rrs packet (e + 10 + rsize (record_at packet name e)) xs f"
  shows "rrs packet off (record_at packet name e # xs) f"
proof -
  obtain ls where ls: "dns_name packet off ls e" "name = canonical_name ls" using wireName_ok(1) [OF assms(1)] by blast
  have "int (rsize (record_at packet name e)) = un16 packet (e + 8)" using un16_nonneg by (simp add: record_at_def)
  from rrs.more [OF ls(1) assms(2) this assms(3,4)] show ?thesis using ls(2) by (simp add: record_at_def)
qed

lemma take_answers: "index < answers \<Longrightarrow> take (nat (answers - index)) (x # xs) = x # take (nat (answers - (index + 1))) xs"
proof -
  assume "index < answers"
  then have "nat (answers - index) = Suc (nat (answers - (index + 1)))" by simp
  then show ?thesis by simp
qed

lemma check_records_sound:
  "check_records n packet answers index off us al = Inr (f, us', al') \<Longrightarrow>
   \<exists>xs. rrs packet off xs f \<and> length xs = n
     \<and> (\<forall>m. m \<in> set us' \<longleftrightarrow> m \<in> set us \<or> (\<exists>ip. public_a packet (take (nat (answers - index)) xs) m ip))
     \<and> (\<forall>m t. t \<noteq> [] \<longrightarrow> (alias_of al' m = t \<longleftrightarrow> alias_of al m = t \<or> cname packet (take (nat (answers - index)) xs) m t))"
proof (induction n arbitrary: index off us al)
  case 0
  then show ?case by (intro exI [of _ "[]"]) (auto intro: rrs.none)
next
  case (Suc n)
  obtain name e us1 al1 where w: "wireName packet off = Some (name, e)" "e + 10 \<le> length packet"
    "e + 10 + rsize (record_at packet name e) \<le> length packet"
    and turn: "turn_ok packet (index < answers) (record_at packet name e) us al us1 al1"
    and rest: "check_records n packet answers (index + 1) (e + 10 + rsize (record_at packet name e)) us1 al1 = Inr (f, us', al')"
    using check_records_Suc [OF Suc(2)] by blast
  let ?x = "record_at packet name e"
  obtain xs where xs: "rrs packet (e + 10 + rsize ?x) xs f" "length xs = n"
    "\<And>m. m \<in> set us' \<longleftrightarrow> m \<in> set us1 \<or> (\<exists>ip. public_a packet (take (nat (answers - (index + 1))) xs) m ip)"
    "\<And>m t. t \<noteq> [] \<Longrightarrow> alias_of al' m = t \<longleftrightarrow> alias_of al1 m = t \<or> cname packet (take (nat (answers - (index + 1))) xs) m t"
    using Suc(1) [OF rest] by blast
  have p: "public_a packet (take (nat (answers - index)) (?x # xs)) m ip
      \<longleftrightarrow> (index < answers \<and> public_a packet [?x] m ip) \<or> public_a packet (take (nat (answers - (index + 1))) xs) m ip" for m ip
  proof (cases "index < answers")
    case True
    show ?thesis unfolding take_answers [OF True] using True public_a_Cons by blast
  qed simp
  have c: "cname packet (take (nat (answers - index)) (?x # xs)) m t
      \<longleftrightarrow> (index < answers \<and> cname packet [?x] m t) \<or> cname packet (take (nat (answers - (index + 1))) xs) m t" for m t
  proof (cases "index < answers")
    case True
    show ?thesis unfolding take_answers [OF True] using True cname_Cons by blast
  qed simp
  show ?case
    using rrs_more [OF w xs(1)] xs(2-4) turn_usable [OF turn] turn_alias [OF turn]
    by (intro exI [of _ "?x # xs"]) (auto simp: p c simp del: take_Suc_Cons)
qed

text \<open>The walk along the aliases.\<close>

lemma usable_chain_sound:
  "usable_chain n us al name seen \<Longrightarrow>
   \<exists>path. path \<noteq> [] \<and> hd path = name \<and> length path \<le> n \<and> last path \<in> set us \<and> alias_of al (last path) = []
     \<and> (\<forall>i. Suc i < length path \<longrightarrow> path ! Suc i \<noteq> [] \<and> alias_of al (path ! i) = path ! Suc i)"
proof (induction n us al name seen rule: usable_chain.induct)
  case (2 n us al name seen)
  show ?case
  proof (cases "name \<in> set us \<and> alias_of al name = []")
    case True
    then show ?thesis by (intro exI [of _ "[name]"]) auto
  next
    case False
    then have u: "usable_chain n us al (alias_of al name) (name # seen)" "\<not> (name = [] \<or> name \<in> set seen)"
      using 2(2) by (auto split: if_splits)
    then have ne: "alias_of al name \<noteq> []" by (cases n) auto
    from 2(1) [OF u(2) False u(1)] obtain path where p: "path \<noteq> []" "hd path = alias_of al name" "length path \<le> n"
      "last path \<in> set us" "alias_of al (last path) = []"
      "\<And>i. Suc i < length path \<Longrightarrow> path ! Suc i \<noteq> [] \<and> alias_of al (path ! i) = path ! Suc i" by blast
    have "(name # path) ! Suc i \<noteq> [] \<and> alias_of al ((name # path) ! i) = (name # path) ! Suc i" if "Suc i < length (name # path)" for i
      using that p(1,2,6) ne by (cases i) (auto simp: hd_conv_nth)
    then show ?thesis using p by (intro exI [of _ "name # path"]) auto
  qed
qed simp

section \<open>Validated answers\<close>

lemma validateAnswer_parts:
  assumes "validateAnswer query response = Inr ()"
  shows "\<exists>qname qend rname off us al. header_ok query response \<and> wireName query 12 = Some (qname, qend) \<and> qend + 4 = length query
    \<and> wireName response 12 = Some (rname, off) \<and> off + 4 \<le> length response \<and> rname = qname
    \<and> drop qend query = take 4 (drop off response) \<and> un16 response 6 \<noteq> 0
    \<and> un16 response 6 + un16 response 8 + un16 response 10 \<le> 256
    \<and> check_records (nat (un16 response 6 + un16 response 8 + un16 response 10)) response (un16 response 6) 0 (off + 4) [] []
        = Inr (length response, us, al)
    \<and> usable_chain 16 us al qname []"
proof -
  let ?a = "un16 response 6"
  let ?total = "?a + un16 response 8 + un16 response 10"
  obtain qname qend rname off where w: "header_ok query response" "wireName query 12 = Some (qname, qend)" "qend + 4 = length query"
    "wireName response 12 = Some (rname, off)" "off + 4 \<le> length response" "rname = qname"
    using assms by (auto simp: validateAnswer_def split: if_splits option.splits)
  have s: "slice query qend (length query) = Inr (drop qend query)" "slice response off (off + 4) = Inr (take 4 (drop off response))"
    using w(3,5) by (simp_all add: slice_def)
  note rest = assms [unfolded validateAnswer_def, simplified w s option.case prod.case res_bind_simps if_True if_False simp_thms Let_def]
  have q: "drop qend query = take 4 (drop off response)" "?a \<noteq> 0" "?total \<le> 256"
    using rest w(3,5) by (auto split: if_splits)
  have c: "res_bind (check_records (nat ?total) response ?a 0 (off + 4) [] []) (\<lambda>(offset, usable, aliases).
      if offset \<noteq> length response then Inl bad_answer else if usable_chain 16 usable aliases qname [] then Inr () else Inl bad_answer) = Inr ()"
    using rest w(3,5) q by (auto split: if_splits)
  obtain f us al where r: "check_records (nat ?total) response ?a 0 (off + 4) [] [] = Inr (f, us, al)"
    using c by (cases "check_records (nat ?total) response ?a 0 (off + 4) [] []") auto
  have "f = length response" "usable_chain 16 us al qname []" using c by (auto simp: r split: if_splits)
  then show ?thesis using w q r by blast
qed

text \<open>
  C31. An answer is accepted only when the whole message is one question, the one that was asked, followed by
  exactly the announced records up to its last octet, and a chain of at most sixteen names leads from the asked name
  over alias records of the answer section to a name without an alias that has a public address record there.
\<close>

theorem accepted_answer_is_usable:
  assumes "validateAnswer query response = Inr ()"
  shows "\<exists>ls qend off xs path ip. dns_name query 12 ls qend \<and> qend + 4 = length query
    \<and> (\<exists>ms. dns_name response 12 ms off \<and> canonical_name ms = canonical_name ls)
    \<and> drop qend query = take 4 (drop off response) \<and> take 2 response = take 2 query \<and> response ! 2 AND 0xfa = 0x80
    \<and> response ! 3 AND 0x4f = 0 \<and> un16 response 4 = 1
    \<and> rrs response (off + 4) xs (length response) \<and> int (length xs) = un16 response 6 + un16 response 8 + un16 response 10
    \<and> path \<noteq> [] \<and> hd path = canonical_name ls \<and> int (length path) \<le> 16
    \<and> (\<forall>i. Suc i < length path \<longrightarrow> cname response (take (nat (un16 response 6)) xs) (path ! i) (path ! Suc i))
    \<and> public_a response (take (nat (un16 response 6)) xs) (last path) ip
    \<and> (\<forall>t. \<not> cname response (take (nat (un16 response 6)) xs) (last path) t)"
proof -
  obtain qname qend rname off us al where v: "header_ok query response" "wireName query 12 = Some (qname, qend)"
    "qend + 4 = length query" "wireName response 12 = Some (rname, off)" "rname = qname"
    "drop qend query = take 4 (drop off response)"
    and c: "check_records (nat (un16 response 6 + un16 response 8 + un16 response 10)) response (un16 response 6) 0 (off + 4) [] []
        = Inr (length response, us, al)"
    and chain: "usable_chain 16 us al qname []"
    using validateAnswer_parts [OF assms] by blast
  obtain ls where ls: "dns_name query 12 ls qend" "qname = canonical_name ls" using wireName_ok(1) [OF v(2)] by blast
  obtain ms where ms: "dns_name response 12 ms off" "rname = canonical_name ms" using wireName_ok(1) [OF v(4)] by blast
  let ?ans = "\<lambda>xs. take (nat (un16 response 6)) xs"
  obtain xs where xs: "rrs response (off + 4) xs (length response)"
    "length xs = nat (un16 response 6 + un16 response 8 + un16 response 10)"
    "\<And>m. m \<in> set us \<longleftrightarrow> (\<exists>ip. public_a response (?ans xs) m ip)"
    "\<And>m t. t \<noteq> [] \<Longrightarrow> alias_of al m = t \<longleftrightarrow> cname response (?ans xs) m t"
    using check_records_sound [OF c] by (auto simp: alias_of_def)
  obtain path where p: "path \<noteq> []" "hd path = qname" "length path \<le> 16" "last path \<in> set us" "alias_of al (last path) = []"
    "\<And>i. Suc i < length path \<Longrightarrow> path ! Suc i \<noteq> [] \<and> alias_of al (path ! i) = path ! Suc i"
    using usable_chain_sound [OF chain] by blast
  obtain ip where ip: "public_a response (?ans xs) (last path) ip" using p(4) xs(3) by blast
  have no: "\<not> cname response (?ans xs) (last path) t" for t by (rule no_alias [OF p(5) xs(4)])
  have len: "int (length xs) = un16 response 6 + un16 response 8 + un16 response 10" using xs(2) un16_nonneg by simp
  have "take 2 response = take 2 query" "response ! 2 AND 0xfa = 0x80" "response ! 3 AND 0x4f = 0" "un16 response 4 = 1"
    using v(1) by (auto simp: header_ok_def)
  moreover have "\<forall>i. Suc i < length path \<longrightarrow> cname response (?ans xs) (path ! i) (path ! Suc i)" using p(6) xs(4) by metis
  moreover have "canonical_name ms = canonical_name ls" using ls(2) ms(2) v(5) by simp
  moreover have "hd path = canonical_name ls" "int (length path) \<le> 16" using p(2,3) ls(2) by simp_all
  ultimately show ?thesis
    using ls(1) v(3,6) ms(1) xs(1) len p(1) ip no by blast
qed

section \<open>The addresses of an answer\<close>

lemma rrs_fun: "rrs packet off xs f \<Longrightarrow> rrs packet off ys g \<Longrightarrow> length ys = length xs \<Longrightarrow> ys = xs"
proof (induction arbitrary: ys rule: rrs.induct)
  case (more off ls e n xs f)
  from more(7) show ?case
  proof (cases rule: rrs.cases)
    case (more ms e' n' zs)
    have "ms = ls \<and> e' = e" using dns_name_fun [OF \<open>dns_name packet off ls e\<close> more(2)] .
    moreover from this have "n' = n" using more(4) \<open>int n = un16 packet (e + 8)\<close> by simp
    ultimately show ?thesis using more(1,6) more.prems \<open>length ys = _\<close>
        \<open>\<And>ys. rrs packet (e + 10 + n) ys g \<Longrightarrow> length ys = length xs \<Longrightarrow> ys = xs\<close> by simp
  qed (use \<open>length ys = _\<close> in simp)
qed simp

lemma unseen_set: "set (unseen seen ips) = set ips - set seen \<and> distinct (unseen seen ips)"
  by (induction seen ips rule: unseen.induct) auto

lemma set_addresses_of: "set (addresses_of ads name) = {ip. (name, ip) \<in> set ads}" "distinct (addresses_of ads name)"
  using unseen_set [of "[]"] by (force simp: addresses_of_def)+

lemma uncounted_aliases: "check_records n packet answers index off us al = Inr (f, us', al') \<Longrightarrow> answers \<le> index \<Longrightarrow> al' = al"
proof (induction n arbitrary: index off us al)
  case (Suc n)
  from check_records_Suc [OF Suc(2)] obtain x us1 al1 off1 where "turn_ok packet (index < answers) x us al us1 al1"
    "check_records n packet answers (index + 1) off1 us1 al1 = Inr (f, us', al')" by blast
  then show ?case using Suc(1,3) by (fastforce simp: turn_ok_def)
qed simp

lemma gather_turn:
  assumes "wireName packet off = Some (name, e)" "e + 10 \<le> length packet"
    and "e + 10 + rsize (record_at packet name e) \<le> length packet"
    and "turn_ok packet True (record_at packet name e) us al us' al'"
  shows "\<exists>ads'. gather_records (Suc k) packet off ads al = gather_records k packet (e + 10 + rsize (record_at packet name e)) ads' al'
    \<and> (\<forall>n ip. (n, ip) \<in> set ads' \<longleftrightarrow> (n, ip) \<in> set ads \<or> public_a packet [record_at packet name e] n ip)"
proof -
  let ?x = "record_at packet name e"
  let ?f = "e + 10 + rsize ?x"
  have u: "Uint16 packet e = Inr (rtype ?x)" "Uint16 packet (e + 2) = Inr (rclass ?x)" "Uint16 packet (e + 8) = Inr (int (rsize ?x))"
    using assms(2) un16_nonneg by (simp_all add: Uint16_def record_at_def)
  have d: "rdata ?x = e + 10" "owner ?x = name" by (simp_all add: record_at_def)
  have z: "name_or_zero packet off = (name, e)" using assms(1) by (simp add: name_or_zero_def)
  note g = gather_records.simps(2) [of k packet off ads al, unfolded z Let_def prod.case u res_bind_simps nat_int]
  consider (a) "rclass ?x = 1" "rtype ?x = 1" | (c) "rclass ?x = 1" "rtype ?x = 5"
    | (other) "rclass ?x \<noteq> 1 \<or> (rtype ?x \<noteq> 1 \<and> rtype ?x \<noteq> 5)" by blast
  then show ?thesis
  proof cases
    case a
    let ?ip = "take 4 (drop (e + 10) packet)"
    have t: "rsize ?x = 4" "al' = al" using assms(4) a by (auto simp: turn_ok_def)
    have sl: "slice packet (e + 10) ?f = Inr ?ip" using assms(3) t(1) by (simp add: slice_def)
    have "length ?ip = 4" using assms(3) t(1) by simp
    then have "gather_records (Suc k) packet off ads al
        = gather_records k packet ?f (if public_address ?ip then ads @ [(name, ?ip)] else ads) al'"
      unfolding g using a sl t(2) by simp
    then show ?thesis
      by (intro exI [of _ "if public_address ?ip then ads @ [(name, ?ip)] else ads"])
        (use a t d in \<open>auto simp: public_a_def simp del: gather_records.simps\<close>)
  next
    case c
    obtain t where t: "wireName packet (e + 10) = Some (t, ?f)" "al' = map_put name t al"
      using assms(4) c d by (auto simp: turn_ok_def)
    then have "gather_records (Suc k) packet off ads al = gather_records k packet ?f ads al'"
      unfolding g using c by (simp add: name_or_zero_def)
    then show ?thesis by (intro exI [of _ ads]) (use c in \<open>auto simp: public_a_def simp del: gather_records.simps\<close>)
  next
    case other
    then have "al' = al" using assms(4) by (auto simp: turn_ok_def split: if_splits)
    then have "gather_records (Suc k) packet off ads al = gather_records k packet ?f ads al'"
      unfolding g using other by auto
    then show ?thesis by (intro exI [of _ ads]) (use other in \<open>auto simp: public_a_def simp del: gather_records.simps\<close>)
  qed
qed

lemma gather_records_ok:
  "check_records (k + m) packet answers index off us al = Inr (f, us', al') \<Longrightarrow> int k = answers - index \<Longrightarrow>
   \<exists>xs ads'. rrs packet off xs f \<and> length xs = k + m \<and> gather_records k packet off ads al = Inr (ads', al')
     \<and> (\<forall>n ip. (n, ip) \<in> set ads' \<longleftrightarrow> (n, ip) \<in> set ads \<or> public_a packet (take k xs) n ip)"
proof (induction k arbitrary: index off us al ads)
  case 0
  then show ?case using check_records_sound [of m] uncounted_aliases [of m packet answers index off us al] by fastforce
next
  case (Suc k)
  obtain name e us1 al1 where w: "wireName packet off = Some (name, e)" "e + 10 \<le> length packet"
    "e + 10 + rsize (record_at packet name e) \<le> length packet"
    and turn: "turn_ok packet True (record_at packet name e) us al us1 al1"
    and rest: "check_records (k + m) packet answers (index + 1) (e + 10 + rsize (record_at packet name e)) us1 al1 = Inr (f, us', al')"
    using check_records_Suc [of "k + m"] Suc(2,3) by fastforce
  let ?x = "record_at packet name e"
  obtain ads1 where a: "gather_records (Suc k) packet off ads al = gather_records k packet (e + 10 + rsize ?x) ads1 al1"
    "\<And>n ip. (n, ip) \<in> set ads1 \<longleftrightarrow> (n, ip) \<in> set ads \<or> public_a packet [?x] n ip"
    using gather_turn [OF w turn] by blast
  obtain xs ads' where xs: "rrs packet (e + 10 + rsize ?x) xs f" "length xs = k + m"
    "gather_records k packet (e + 10 + rsize ?x) ads1 al1 = Inr (ads', al')"
    "\<And>n ip. (n, ip) \<in> set ads' \<longleftrightarrow> (n, ip) \<in> set ads1 \<or> public_a packet (take k xs) n ip"
    using Suc(1) [OF rest, of ads1] Suc(3) by auto
  have "public_a packet (take (Suc k) (?x # xs)) n ip \<longleftrightarrow> public_a packet [?x] n ip \<or> public_a packet (take k xs) n ip" for n ip
    unfolding take_Suc_Cons by (rule public_a_Cons)
  then show ?case
    using rrs_more [OF w xs(1)] xs(2-4) a by (intro exI [of _ "?x # xs"] exI [of _ ads']) auto
qed

lemma follow_chain:
  "usable_chain n us al name seen \<Longrightarrow>
   \<exists>final. (\<lambda>a b. b \<noteq> [] \<and> alias_of al a = b)\<^sup>*\<^sup>* name final \<and> final \<in> set us \<and> alias_of al final = []
     \<and> follow_alias n ads al name = follow_alias 1 ads al final"
proof (induction n us al name seen rule: usable_chain.induct)
  case (2 n us al name seen)
  show ?case
  proof (cases "name \<in> set us \<and> alias_of al name = []")
    case False
    then have u: "usable_chain n us al (alias_of al name) (name # seen)" "\<not> (name = [] \<or> name \<in> set seen)"
      using 2(2) by (auto split: if_splits)
    then have ne: "alias_of al name \<noteq> []" by (cases n) auto
    from 2(1) [OF u(2) False u(1)] show ?thesis
      using ne by (auto intro: converse_rtranclp_into_rtranclp [of _ name "alias_of al name"])
  qed auto
qed simp

lemma cname_path:
  assumes "(\<lambda>a b. b \<noteq> [] \<and> alias_of al a = b)\<^sup>*\<^sup>* name final"
    and "\<And>m t. t \<noteq> [] \<Longrightarrow> alias_of al m = t \<longleftrightarrow> cname packet ans m t"
  shows "(cname packet ans)\<^sup>*\<^sup>* name final"
  using assms(1) by (rule rtranclp_mono [THEN predicate2D, rotated]) (use assms(2) in blast)

text \<open>The result once the final name is known.\<close>

lemma follow_one:
  assumes "alias_of al final = []" "final \<in> set us" "\<And>m. m \<in> set us \<longleftrightarrow> (\<exists>ip. P m ip)" "\<And>m ip. (m, ip) \<in> set ads \<longleftrightarrow> P m ip"
  shows "(\<exists>ips. follow_alias 1 ads al final = Inr ips \<and> set ips = {ip. P final ip} \<and> distinct ips \<and> ips \<noteq> [] \<and> int (length ips) \<le> 16)
    \<or> (16 < card {ip. P final ip} \<and> (\<exists>msg. follow_alias 1 ads al final = Inl (Err msg)))"
proof -
  let ?ips = "addresses_of ads final"
  have s: "set ?ips = {ip. P final ip}" "distinct ?ips" using set_addresses_of [of ads final] assms(4) by simp_all
  have ne: "?ips \<noteq> []" using s(1) assms(2,3) by auto
  have c: "card {ip. P final ip} = length ?ips" using distinct_card [OF s(2)] s(1) by simp
  have f: "follow_alias 1 ads al final = (if int (length ?ips) > 16 then fail ''selected DNS returned no bounded public address set'' else Inr ?ips)"
    using assms(1) ne by (simp add: Let_def One_nat_def)
  show ?thesis
  proof (cases "int (length ?ips) > 16")
    case True
    then show ?thesis unfolding f using c by auto
  next
    case False
    then show ?thesis unfolding f using s ne by auto
  qed
qed

lemma ask_of_validated:
  assumes "validateAnswer query response = Inr ()" "wireName query 12 = Some (qname, qend)" "qend + 4 = length query"
    "wireName response 12 = Some (rname, off)"
  shows "PublicIPv4Answers query response =
    (if un16 query qend = 1 \<and> un16 query (qend + 2) = 1
     then res_bind (gather_records (nat (un16 response 6)) response (off + 4) [] []) (\<lambda>(ads, al). follow_alias 16 ads al qname)
     else fail ''public address extraction requires its original IN A question'')"
proof -
  have "Uint16 query qend = Inr (un16 query qend)" "Uint16 query (qend + 2) = Inr (un16 query (qend + 2))"
    using assms(3) by (simp_all add: Uint16_def)
  then show ?thesis using assms by (simp add: PublicIPv4Answers_def name_or_zero_def)
qed

lemma validated_addresses:
  assumes "validateAnswer query response = Inr ()" "wireName query 12 = Some (qname, qend)" "qend + 4 = length query"
    "wireName response 12 = Some (rname, off)"
    and "check_records (nat (un16 response 6 + un16 response 8 + un16 response 10)) response (un16 response 6) 0 (off + 4) [] []
        = Inr (length response, us, al)"
    and "usable_chain 16 us al qname []"
  shows "\<exists>xs final. rrs response (off + 4) xs (length response)
    \<and> (cname response (take (nat (un16 response 6)) xs))\<^sup>*\<^sup>* qname final
    \<and> (\<forall>t. \<not> cname response (take (nat (un16 response 6)) xs) final t)
    \<and> (un16 query qend = 1 \<and> un16 query (qend + 2) = 1 \<longrightarrow>
        (\<exists>ips. PublicIPv4Answers query response = Inr ips
           \<and> set ips = {ip. public_a response (take (nat (un16 response 6)) xs) final ip}
           \<and> distinct ips \<and> ips \<noteq> [] \<and> int (length ips) \<le> 16)
        \<or> (16 < card {ip. public_a response (take (nat (un16 response 6)) xs) final ip}
           \<and> (\<exists>msg. PublicIPv4Answers query response = Inl (Err msg))))"
proof -
  let ?a = "un16 response 6"
  let ?rest = "nat (un16 response 8 + un16 response 10)"
  have n: "nat (?a + un16 response 8 + un16 response 10) = nat ?a + ?rest"
    using un16_nonneg [of response 6] un16_nonneg [of response 8] un16_nonneg [of response 10] by (simp add: nat_add_distrib)
  have k: "int (nat ?a) = ?a - 0" using un16_nonneg by simp
  obtain xs ads where xs: "rrs response (off + 4) xs (length response)" "length xs = nat ?a + ?rest"
    "gather_records (nat ?a) response (off + 4) [] [] = Inr (ads, al)"
    "\<And>m ip. (m, ip) \<in> set ads \<longleftrightarrow> public_a response (take (nat ?a) xs) m ip"
    using gather_records_ok [OF assms(5) [unfolded n] k, of "[]"] by auto
  obtain ys where ys: "rrs response (off + 4) ys (length response)" "length ys = nat ?a + ?rest"
    "\<And>m. m \<in> set us \<longleftrightarrow> (\<exists>ip. public_a response (take (nat ?a) ys) m ip)"
    "\<And>m t. t \<noteq> [] \<Longrightarrow> alias_of al m = t \<longleftrightarrow> cname response (take (nat ?a) ys) m t"
    using check_records_sound [OF assms(5)] unfolding n by (auto simp: alias_of_def)
  have e: "ys = xs" using rrs_fun [OF xs(1) ys(1)] xs(2) ys(2) by simp
  obtain final where fin: "(\<lambda>a b. b \<noteq> [] \<and> alias_of al a = b)\<^sup>*\<^sup>* qname final" "final \<in> set us" "alias_of al final = []"
    "follow_alias 16 ads al qname = follow_alias 1 ads al final"
    using follow_chain [OF assms(6), of ads] by blast
  note path = cname_path [OF fin(1) ys(4), unfolded e]
  note last = no_alias [OF fin(3) ys(4), unfolded e]
  note one = follow_one [OF fin(3,2) ys(3) xs(4) [folded e], unfolded e]
  have "PublicIPv4Answers query response = follow_alias 1 ads al final" if "un16 query qend = 1 \<and> un16 query (qend + 2) = 1"
    using ask_of_validated [OF assms(1-4)] that xs(3) fin(4) by simp
  then show ?thesis using xs(1) path last one by metis
qed

text \<open>
  C32. For a validated answer the extraction of addresses never reads outside of the message and gives exactly the
  distinct public addresses that the answer section has for the name at the end of the alias chain of the question,
  the one that has no further alias: all of them when there are at most sixteen, an error when there are more or when the question was not for
  internet addresses.
\<close>

theorem public_addresses_exact:
  assumes "validateAnswer query response = Inr ()"
  shows "\<exists>ls qend. dns_name query 12 ls qend \<and> qend + 4 = length query
    \<and> (if un16 query qend = 1 \<and> un16 query (qend + 2) = 1 then
         (\<exists>ms off xs final. dns_name response 12 ms off \<and> rrs response (off + 4) xs (length response)
            \<and> (cname response (take (nat (un16 response 6)) xs))\<^sup>*\<^sup>* (canonical_name ls) final
            \<and> (\<forall>t. \<not> cname response (take (nat (un16 response 6)) xs) final t)
            \<and> ((\<exists>ips. PublicIPv4Answers query response = Inr ips
                   \<and> set ips = {ip. public_a response (take (nat (un16 response 6)) xs) final ip}
                   \<and> distinct ips \<and> ips \<noteq> [] \<and> int (length ips) \<le> 16)
               \<or> (16 < card {ip. public_a response (take (nat (un16 response 6)) xs) final ip}
                   \<and> (\<exists>msg. PublicIPv4Answers query response = Inl (Err msg)))))
       else (\<exists>msg. PublicIPv4Answers query response = Inl (Err msg)))"
proof -
  obtain qname qend rname off us al where v: "wireName query 12 = Some (qname, qend)"
    "qend + 4 = length query" "wireName response 12 = Some (rname, off)"
    and c: "check_records (nat (un16 response 6 + un16 response 8 + un16 response 10)) response (un16 response 6) 0 (off + 4) [] []
        = Inr (length response, us, al)" "usable_chain 16 us al qname []"
    using validateAnswer_parts [OF assms] by blast
  obtain ls where ls: "dns_name query 12 ls qend" "qname = canonical_name ls" using wireName_ok(1) [OF v(1)] by blast
  obtain ms where ms: "dns_name response 12 ms off" using wireName_ok(1) [OF v(3)] by blast
  show ?thesis
  proof (cases "un16 query qend = 1 \<and> un16 query (qend + 2) = 1")
    case True
    show ?thesis
      by (intro exI [of _ ls] exI [of _ qend] conjI ls(1) v(2), unfold if_P [OF True])
        (use validated_addresses [OF assms v c] ls(2) ms True in blast)
  next
    case False
    have "PublicIPv4Answers query response = Inl (Err ''public address extraction requires its original IN A question'')"
      using ask_of_validated [OF assms v] unfolding if_not_P [OF False] .
    then show ?thesis
      by (intro exI [of _ ls] exI [of _ qend] conjI ls(1) v(2), unfold if_not_P [OF False]) blast
  qed
qed

section \<open>A concrete answer\<close>

definition demo_query :: "octet list" where
  "demo_query = [0, 7, 1, 0, 0, 1, 0, 0, 0, 0, 0, 0, 1, 65, 0, 0, 1, 0, 1]"

text \<open>The name \<open>a\<close> is an alias of \<open>b\<close>, which has the address 8.8.8.8.\<close>

definition demo_response :: "octet list" where
  "demo_response = [0, 7, 0x81, 0x80, 0, 1, 0, 2, 0, 0, 0, 0, 1, 97, 0, 0, 1, 0, 1,
     0xc0, 12, 0, 5, 0, 1, 0, 0, 0, 9, 0, 3, 1, 66, 0,
     1, 98, 0, 0, 1, 0, 1, 0, 0, 0, 9, 0, 4, 8, 8, 8, 8]"

lemma demo_names: "wireName demo_query 12 = Some ([1, 97, 0], 15)" "wireName demo_response 12 = Some ([1, 97, 0], 15)"
  "wireName demo_response 19 = Some ([1, 97, 0], 21)"
  by code_simp+

lemma demo_answer: "validateAnswer demo_query demo_response = Inr ()"
  by code_simp

lemma demo_asked: "un16 demo_query 15 = 1 \<and> un16 demo_query (15 + 2) = 1" "nat (un16 demo_response 6) = 2" "15 + 4 = length demo_query"
  by code_simp+

lemma demo_gathered: "gather_records 2 demo_response (15 + 4) [] [] = Inr ([([1, 98, 0], [8, 8, 8, 8])], [([1, 97, 0], [1, 98, 0])])"
  by code_simp

lemma demo_followed: "follow_alias 16 [([1, 98, 0], [8, 8, 8, 8])] [([1, 97, 0], [1, 98, 0])] [1, 97, 0] = Inr [[8, 8, 8, 8]]"
  by code_simp

lemma demo_addresses: "PublicIPv4Answers demo_query demo_response = Inr [[8, 8, 8, 8]]"
  unfolding ask_of_validated [OF demo_answer demo_names(1) demo_asked(3) demo_names(2)] if_P [OF demo_asked(1)] demo_asked(2)
    demo_gathered res_bind_simps prod.case by (rule demo_followed)

theorem wire_name_refines_witness:
  "\<exists>ls. dns_name demo_response 19 ls 21 \<and> canonical_name ls = [1, 97, 0]"
proof -
  obtain ls where ls: "dns_name demo_response 19 ls 21" "[1, 97, 0] = canonical_name ls"
    using wire_name_refines [OF demo_names(3)] by blast
  show ?thesis by (intro exI [of _ ls] conjI, rule ls(1), rule ls(2) [symmetric])
qed

theorem accepted_answer_is_usable_witness:
  "\<exists>off xs. rrs demo_response (off + 4) xs (length demo_response)
    \<and> int (length xs) = un16 demo_response 6 + un16 demo_response 8 + un16 demo_response 10"
  using accepted_answer_is_usable [OF demo_answer] by blast

theorem public_addresses_exact_witness:
  "(\<exists>ls qend. dns_name demo_query 12 ls qend \<and> qend + 4 = length demo_query)
   \<and> PublicIPv4Answers demo_query demo_response = Inr [[8, 8, 8, 8]]"
  using public_addresses_exact [OF demo_answer] demo_addresses by blast

end
