(* ===== verification/Whitening.thy ===== *)
theory Whitening
  imports GoPrelude "HOL-Library.Word"
begin

unbundle bit_operations_syntax

text \<open>
  \<^verbatim>\<open>src/internal/startwhitening/conn.go\<close> and the adoption and closing of authenticated wrappers
  (\<^verbatim>\<open>authenticated.go\<close>): the reversible whitening of a connection and the owner that bounds, resets and
  closes connections. The socket is a parameter. The history \<open>sent\<close> of the octets a socket took is not in the code.
\<close>

section \<open>Whitening\<close>

type_synonym byte8 = "8 word"

definition Method :: string where
  "Method = ''2022-blake3-aes-256-gcm''"

definition label :: string where
  "label = ''router-vpn-xor-whitening-v1'' @ [CHR 0x00]"

definition Key :: "(string \<Rightarrow> byte8 list) \<Rightarrow> string \<Rightarrow> string \<Rightarrow> byte8 list res" where
  "Key sha256 meth password =
     (if ToLower (TrimSpace meth) \<noteq> Method \<or> int (length password) < 16 \<or> int (length password) > 4096
         \<or> CHR 0x00 \<in> set password
      then fail ''whitening requires an authenticated Shadowsocks 2022 AES-256-GCM profile''
      else Inr (sha256 (label @ password)))"

text \<open>The offset is a \<open>uint64\<close> that wraps around; the key has 32 octets.\<close>

fun whiten :: "byte8 list \<Rightarrow> byte8 list \<Rightarrow> 64 word \<Rightarrow> byte8 list" where
  "whiten [] key offset = []"
| "whiten (b # bs) key offset = (b XOR key ! unat (offset mod 32)) # whiten bs key (offset + 1)"

record conn =
  ckey :: "byte8 list"
  datagram :: bool
  readOffset :: "64 word"
  writeOffset :: "64 word"

text \<open>What the socket's \<open>Read\<close> gave: a count, an error, and the octets it put into the buffer of \<open>room\<close> octets.\<close>

definition Read :: "conn \<Rightarrow> int \<Rightarrow> int \<Rightarrow> byte8 list \<Rightarrow> goerror option \<Rightarrow> ((byte8 list \<times> goerror option) res) \<times> conn" where
  "Read c room n got err =
     (if n < 0 \<or> n > room then (fail ''native whitening read violated the socket contract'', c)
      else
        (let plain = whiten (take (nat n) got) (ckey c) (readOffset c) in
         (Inr (plain, err), if datagram c then c else c\<lparr>readOffset := readOffset c + of_int n\<rparr>)))"

text \<open>A socket with the state \<open>world\<close>, and the octets it has taken.\<close>

record 'w link =
  world :: 'w
  sent :: "byte8 list"

type_synonym 'w socket = "'w \<Rightarrow> byte8 list \<Rightarrow> (int \<times> goerror option) \<times> 'w"

definition raw_write :: "'w socket \<Rightarrow> byte8 list \<Rightarrow> 'w link \<Rightarrow> (int \<times> goerror option) \<times> 'w link" where
  "raw_write sock out l =
     (let ((n, err), w) = sock (world l) out in ((n, err), l\<lparr>world := w, sent := sent l @ take (nat n) out\<rparr>))"

definition chunkSize :: int where
  "chunkSize = 32768"

definition ErrShortWrite :: goerror where
  "ErrShortWrite = Err ''short write''"

definition ErrShortBuffer :: goerror where
  "ErrShortBuffer = Err ''short buffer''"

text \<open>The octets of the next write: the whole rest of a datagram, one chunk of a stream.\<close>

definition next_chunk :: "conn \<Rightarrow> byte8 list \<Rightarrow> byte8 list" where
  "next_chunk c rest = (if \<not> datagram c \<and> int (length rest) > chunkSize then take (nat chunkSize) rest else rest)"

lemma length_whiten [simp]: "length (whiten bs key off) = length bs"
  by (induction bs arbitrary: off) auto

lemma next_chunk_Nil: "next_chunk c rest = [] \<longleftrightarrow> rest = []"
  by (simp add: next_chunk_def chunkSize_def)

text \<open>
  The loop of \<open>Write\<close> over the octets left, with the number written so far. A stream that has nothing left
  stops; a datagram is written once, even when it is empty.
\<close>

function write_loop ::
  "'w socket \<Rightarrow> byte8 list \<Rightarrow> int \<Rightarrow> conn \<Rightarrow> 'w link \<Rightarrow> (int \<times> goerror option) \<times> conn \<times> 'w link" where
  "write_loop sock rest count c l =
     (if rest = [] \<and> \<not> (datagram c \<and> count = 0) then ((count, None), c, l)
      else
        (let out = whiten (next_chunk c rest) (ckey c) (writeOffset c);
             ((n, err), l) = raw_write sock out l
         in if n < 0 \<or> n > int (length out)
            then ((count, Some (Err ''native whitening write violated the socket contract'')), c, l)
            else
              (let c = (if datagram c then c else c\<lparr>writeOffset := writeOffset c + of_int n\<rparr>) in
               if err \<noteq> None then ((count + n, err), c, l)
               else if n \<noteq> int (length out) then ((count + n, Some ErrShortWrite), c, l)
               else if datagram c then ((count + n, None), c, l)
               else write_loop sock (drop (nat n) rest) (count + n) c l)))"
  by pat_completeness auto

termination
  by (relation "measure (\<lambda>(sock, rest, count, c, l). length rest)") (auto simp: next_chunk_Nil split: if_splits)

definition Write :: "'w socket \<Rightarrow> byte8 list \<Rightarrow> conn \<Rightarrow> 'w link \<Rightarrow> (int \<times> goerror option) \<times> conn \<times> 'w link" where
  "Write sock b c l =
     (if datagram c \<and> int (length b) > 65535 then ((0, Some ErrShortBuffer), c, l) else write_loop sock b 0 c l)"

section \<open>The owner of the connections\<close>

text \<open>
  Connections and ciphers are numbers. A registered connection is closed through itself or, once an
  authenticated wrapper adopted it, through that wrapper.
\<close>

datatype closer = Plain nat | Cipher nat nat

fun socket_of :: "closer \<Rightarrow> nat" where
  "socket_of (Plain i) = i"
| "socket_of (Cipher i k) = i"

definition MaxConnections :: int where
  "MaxConnections = 256"

text \<open>
  \<open>parent_done\<close> is the error of the parent context; the context of the owner and of its generation end with it, with
  \<open>closed\<close> and with the next generation. \<open>dials\<close> are the calls of \<open>Open\<close> inside \<open>dial\<close>, each with its
  generation; \<open>gens\<close> are the generations of the connections. A teardown is a run of \<open>finish\<close>: the closers it has not
  joined yet and whether it closes the owner. \<open>sockets\<close>, \<open>shut\<close> and \<open>cipher_shut\<close> are histories: the sockets that
  dials returned, the closed ones and the closed ciphers.
\<close>

record owner =
  closed :: bool
  close_done :: bool
  parent_done :: bool
  generation :: nat
  pending :: int
  conns :: "(nat \<times> closer) list"
  gens :: "nat \<Rightarrow> nat"
  dials :: "(nat \<times> nat) list"
  next_id :: nat
  teardowns :: "(nat \<times> closer list \<times> bool) list"
  sockets :: "nat list"
  shut :: "nat list"
  cipher_shut :: "nat list"

definition NewOwner :: owner where
  "NewOwner = \<lparr>closed = False, close_done = False, parent_done = False, generation = 0, pending = 0, conns = [],
     gens = (\<lambda>_. 0), dials = [], next_id = 0, teardowns = [], sockets = [], shut = [], cipher_shut = []\<rparr>"

definition ctx_done :: "owner \<Rightarrow> bool" where
  "ctx_done w \<longleftrightarrow> closed w \<or> parent_done w"

text \<open>
  The two critical sections of \<open>Open\<close>; the first gives the number of the dial, the second tells whether a connection
  was registered. A socket that comes late, or with an error, is never registered; \<open>Open\<close> closes it right after it
  has unlocked the mutex, and here this close belongs to the step that records the socket. What is stated of the
  recorded sockets therefore holds of such a socket once its \<open>Open\<close> has returned.
\<close>

definition open_begin :: "owner \<Rightarrow> nat option \<times> owner" where
  "open_begin w =
     (if closed w \<or> ctx_done w \<or> pending w + int (length (conns w)) \<ge> MaxConnections then (None, w)
      else (Some (next_id w), w\<lparr>pending := pending w + 1, dials := (next_id w, generation w) # dials w, next_id := next_id w + 1\<rparr>))"

definition open_finish :: "nat \<Rightarrow> nat \<Rightarrow> bool \<Rightarrow> bool \<Rightarrow> bool \<Rightarrow> owner \<Rightarrow> bool \<times> owner" where
  "open_finish i g got err expired w =
     (let w = w\<lparr>pending := pending w - 1, dials := map_del i (dials w), sockets := (if got then i # sockets w else sockets w)\<rparr> in
      if err \<or> expired \<or> closed w \<or> generation w \<noteq> g \<or> ctx_done w
      then (False, if got then w\<lparr>shut := i # shut w\<rparr> else w)
      else if \<not> got then (False, w)
      else (True, w\<lparr>conns := map_put i (Plain i) (conns w), gens := (gens w)(i := g)\<rparr>))"

text \<open>The first critical section of \<open>finish\<close>; a closed owner only waits for \<open>close_done\<close>.\<close>

definition finish_begin :: "bool \<Rightarrow> owner \<Rightarrow> owner" where
  "finish_begin closeOwner w =
     (if closed w then w
      else
        (let all = map snd (conns w);
             w = (if closeOwner then w\<lparr>closed := True\<rparr> else w\<lparr>generation := generation w + 1\<rparr>)
         in w\<lparr>teardowns := (next_id w, all, closeOwner) # teardowns w, next_id := next_id w + 1\<rparr>))"

text \<open>The close of a closer has returned once its socket is closed and its own entry is gone.\<close>

definition close_returned :: "closer \<Rightarrow> owner \<Rightarrow> bool" where
  "close_returned x w \<longleftrightarrow> socket_of x \<in> set (shut w) \<and> map_of (conns w) (socket_of x) \<noteq> Some x"

text \<open>\<open>finish\<close> joins its closers one after the other and then, when it closes the owner, announces the end.\<close>

definition finish_join :: "nat \<Rightarrow> closer list \<Rightarrow> bool \<Rightarrow> owner \<Rightarrow> owner" where
  "finish_join t xs closeOwner w = w\<lparr>teardowns := map_put t (tl xs, closeOwner) (teardowns w)\<rparr>"

definition finish_end :: "nat \<Rightarrow> bool \<Rightarrow> owner \<Rightarrow> owner" where
  "finish_end t closeOwner w =
     (let w = w\<lparr>teardowns := map_del t (teardowns w)\<rparr> in if closeOwner then w\<lparr>close_done := True\<rparr> else w)"

text \<open>
  The parts of the closing of a connection and of its wrapper. Between the close of the socket and the removal of the
  entry \<open>Conn.Close\<close> also clears the key under the locks of the offsets, which touches nothing of the owner; the
  keys are not part of this state.
\<close>

definition close_raw :: "nat \<Rightarrow> owner \<Rightarrow> owner" where
  "close_raw i w = w\<lparr>shut := i # shut w\<rparr>"

definition close_cipher :: "nat \<Rightarrow> owner \<Rightarrow> owner" where
  "close_cipher k w = w\<lparr>cipher_shut := k # cipher_shut w\<rparr>"

definition drop_entry :: "closer \<Rightarrow> owner \<Rightarrow> owner" where
  "drop_entry x w = (if map_of (conns w) (socket_of x) = Some x then w\<lparr>conns := map_del (socket_of x) (conns w)\<rparr> else w)"

definition adopt :: "nat \<Rightarrow> nat \<Rightarrow> owner \<Rightarrow> bool \<times> owner" where
  "adopt i k w =
     (if \<not> closed w \<and> \<not> ctx_done w \<and> generation w = gens w i \<and> map_of (conns w) i = Some (Plain i)
      then (True, w\<lparr>conns := map_put i (Cipher i k) (conns w)\<rparr>)
      else (False, w))"

text \<open>
  The goroutines of a program: each step is one critical section, or the close of a socket or cipher. A socket is
  closed at any time, its entry is dropped only after that, the entry of a wrapper only after its cipher.
\<close>

inductive owner_step :: "owner \<Rightarrow> owner \<Rightarrow> bool" where
  begin_open: "owner_step w (snd (open_begin w))"
| end_open: "(i, g) \<in> set (dials w) \<Longrightarrow> owner_step w (snd (open_finish i g got err expired w))"
| begin_finish: "owner_step w (finish_begin closeOwner w)"
| join: "(t, x # xs, closeOwner) \<in> set (teardowns w) \<Longrightarrow> close_returned x w \<Longrightarrow> owner_step w (finish_join t (x # xs) closeOwner w)"
| end_finish: "(t, [], closeOwner) \<in> set (teardowns w) \<Longrightarrow> owner_step w (finish_end t closeOwner w)"
| cancel: "owner_step w (w\<lparr>parent_done := True\<rparr>)"
| raw: "i \<in> set (sockets w) \<Longrightarrow> owner_step w (close_raw i w)"
| cipher: "owner_step w (close_cipher k w)"
| drop_plain: "i \<in> set (shut w) \<Longrightarrow> owner_step w (drop_entry (Plain i) w)"
| drop_cipher: "i \<in> set (shut w) \<Longrightarrow> k \<in> set (cipher_shut w) \<Longrightarrow> owner_step w (drop_entry (Cipher i k) w)"
| adoption: "owner_step w (snd (adopt i k w))"

inductive reachable :: "owner \<Rightarrow> bool" where
  new: "reachable NewOwner"
| step: "reachable w \<Longrightarrow> owner_step w w' \<Longrightarrow> reachable w'"

inductive_cases owner_stepE: "owner_step w w'"

end
