(* ===== verification/WhiteningProps.thy ===== *)
theory WhiteningProps
  imports Whitening
begin

text \<open>
  Properties of \<open>Whitening\<close>: what one end writes the other end reads back, whatever the socket cuts short, and
  what holds of the owner of the connections in every reachable state.
\<close>

section \<open>Streams\<close>

lemma whiten_whiten [simp]: "whiten (whiten bs key off) key off = bs"
  by (induction bs arbitrary: off) (auto simp: xor.assoc)

lemma whiten_append: "whiten (xs @ ys) key off = whiten xs key off @ whiten ys key (off + of_nat (length xs))"
  by (induction xs arbitrary: off) (auto simp: algebra_simps)

lemma take_whiten: "take n (whiten bs key off) = whiten (take n bs) key off"
  by (induction bs arbitrary: n off) (auto simp: take_Cons split: nat.splits)

text \<open>The contract of a socket: it takes a part of what it is given.\<close>

definition obedient :: "'w socket \<Rightarrow> bool" where
  "obedient sock \<longleftrightarrow> (\<forall>w out n err w'. sock w out = ((n, err), w') \<longrightarrow> 0 \<le> n \<and> n \<le> int (length out))"

text \<open>What a write did on a stream: it sent the whitened first \<open>m\<close> octets.\<close>

definition wrote :: "byte8 list \<Rightarrow> int \<Rightarrow> conn \<Rightarrow> 'w link \<Rightarrow> conn \<Rightarrow> 'w link \<Rightarrow> bool" where
  "wrote rest m c l c' l' \<longleftrightarrow> 0 \<le> m \<and> m \<le> int (length rest)
     \<and> sent l' = sent l @ whiten (take (nat m) rest) (ckey c) (writeOffset c)
     \<and> c' = c\<lparr>writeOffset := writeOffset c + of_int m\<rparr>"

lemma next_chunk_stream: "\<not> datagram c \<Longrightarrow> next_chunk c rest = take (length (next_chunk c rest)) rest"
  by (simp add: next_chunk_def)

lemma wrote_step:
  assumes "n = int (length (next_chunk c rest))" "\<not> datagram c"
    and "sent l1 = sent l @ whiten (take (nat n) rest) (ckey c) (writeOffset c)"
    and "wrote (drop (nat n) rest) m (c\<lparr>writeOffset := writeOffset c + of_int n\<rparr>) l1 c' l'"
  shows "wrote rest (n + m) c l c' l'"
proof -
  have le: "nat n \<le> length rest" using assms(1,2) by (auto simp: next_chunk_def)
  have "take (nat (n + m)) rest = take (nat n) rest @ take (nat m) (drop (nat n) rest)"
    using assms(1,4) by (simp add: wrote_def nat_add_distrib take_add)
  moreover have "of_nat (length (take (nat n) rest)) = (of_int n :: 64 word)"
    using le assms(1) by (simp add: of_nat_nat)
  ultimately show ?thesis
    using assms le by (auto simp: wrote_def whiten_append)
qed

lemma write_loop_stream:
  "write_loop sock rest count c l = ((m, err), c', l') \<Longrightarrow> obedient sock \<Longrightarrow> \<not> datagram c \<Longrightarrow>
   wrote rest (m - count) c l c' l' \<and> (err = None \<longrightarrow> m - count = int (length rest))"
proof (induction sock rest count c l rule: write_loop.induct)
  case (1 sock rest count c l)
  let ?out = "whiten (next_chunk c rest) (ckey c) (writeOffset c)"
  show ?case
  proof (cases "rest = []")
    case True
    then show ?thesis using 1(2,4) by (auto simp: wrote_def write_loop.simps [of sock "[]"])
  next
    case False
    obtain n e w where s: "sock (world l) ?out = ((n, e), w)" by (metis prod_cases3 prod.collapse)
    define l1 where "l1 = l\<lparr>world := w, sent := sent l @ take (nat n) ?out\<rparr>"
    have r: "raw_write sock ?out l = ((n, e), l1)" by (simp add: raw_write_def s l1_def)
    have n: "0 \<le> n" "n \<le> int (length ?out)" using 1(3) s unfolding obedient_def by blast+
    have le: "length (next_chunk c rest) \<le> length rest" by (simp add: next_chunk_def)
    have "take (nat n) (next_chunk c rest) = take (nat n) rest"
      using next_chunk_stream [OF 1(4), of rest] n by (metis length_whiten min.absorb1 nat_le_iff take_take)
    then have l1: "sent l1 = sent l @ whiten (take (nat n) rest) (ckey c) (writeOffset c)"
      by (simp add: l1_def take_whiten)
    let ?c = "c\<lparr>writeOffset := writeOffset c + of_int n\<rparr>"
    have w: "wrote rest n c l ?c l1" using l1 n le by (simp add: wrote_def)
    have eq: "write_loop sock rest count c l = (if e \<noteq> None then ((count + n, e), ?c, l1)
        else if n \<noteq> int (length ?out) then ((count + n, Some ErrShortWrite), ?c, l1)
        else write_loop sock (drop (nat n) rest) (count + n) ?c l1)"
      using False r n 1(4) by (subst write_loop.simps) (simp add: Let_def)
    show ?thesis
    proof (cases "e = None \<and> n = int (length ?out)")
      case False
      then show ?thesis using 1(2) w unfolding eq by (auto split: if_splits)
    next
      case True
      then have rec: "write_loop sock (drop (nat n) rest) (count + n) ?c l1 = ((m, err), c', l')"
        using 1(2) unfolding eq by simp
      have "wrote (drop (nat n) rest) (m - (count + n)) ?c l1 c' l' \<and> (err = None \<longrightarrow> m - (count + n) = int (length (drop (nat n) rest)))"
      proof (rule 1(1) [OF _ refl r [symmetric] refl refl _ if_not_P [OF 1(4), symmetric] _ _ _ rec 1(3)])
      qed (use False True n 1(4) in auto)
      then show ?thesis
        using wrote_step [of n c rest l1 l "m - (count + n)" c' l'] True 1(4) l1 n le by auto
    qed
  qed
qed

text \<open>A sequence of writes, and a sequence of reads of the given chunks.\<close>

fun writes :: "'w socket \<Rightarrow> byte8 list list \<Rightarrow> conn \<Rightarrow> 'w link \<Rightarrow> (int \<times> goerror option) list \<times> conn \<times> 'w link" where
  "writes sock [] c l = ([], c, l)"
| "writes sock (b # bs) c l =
     (let (r, c, l) = Write sock b c l; (rs, c, l) = writes sock bs c l in (r # rs, c, l))"

fun reads :: "byte8 list list \<Rightarrow> conn \<Rightarrow> byte8 list list \<times> conn" where
  "reads [] d = ([], d)"
| "reads (ch # chs) d =
     (case Read d (int (length ch)) (int (length ch)) ch None of
        (Inl _, d) \<Rightarrow> ([], d)
      | (Inr (plain, _), d) \<Rightarrow> (let (ps, d) = reads chs d in (plain # ps, d)))"

text \<open>The octets that the results say were written.\<close>

definition written :: "byte8 list list \<Rightarrow> (int \<times> goerror option) list \<Rightarrow> byte8 list" where
  "written bs rs = concat (map (\<lambda>(b, r). take (nat (fst r)) b) (zip bs rs))"

lemma of_int_length: "0 \<le> m \<Longrightarrow> m \<le> int (length b) \<Longrightarrow> (of_nat (length (take (nat m) b)) :: 64 word) = of_int m"
  by (simp add: of_nat_nat)

lemma writes_sent:
  "writes sock bs c l = (rs, c', l') \<Longrightarrow> obedient sock \<Longrightarrow> \<not> datagram c \<Longrightarrow>
   sent l' = sent l @ whiten (written bs rs) (ckey c) (writeOffset c) \<and> length rs = length bs
   \<and> (\<forall>i < length bs. snd (rs ! i) = None \<longrightarrow> fst (rs ! i) = int (length (bs ! i)))"
proof (induction bs arbitrary: c l rs)
  case (Cons b bs)
  obtain m err c1 l1 where w: "Write sock b c l = ((m, err), c1, l1)" by (metis prod_cases3 prod.collapse)
  obtain rs1 where r: "writes sock bs c1 l1 = (rs1, c', l')" "rs = (m, err) # rs1"
    using Cons(2) by (auto simp: w split: prod.splits)
  have "write_loop sock b 0 c l = ((m, err), c1, l1)" using w Cons(4) by (simp add: Write_def)
  from write_loop_stream [OF this Cons(3,4)]
  have h: "0 \<le> m" "m \<le> int (length b)" "sent l1 = sent l @ whiten (take (nat m) b) (ckey c) (writeOffset c)"
    "c1 = c\<lparr>writeOffset := writeOffset c + of_int m\<rparr>" "err = None \<longrightarrow> m = int (length b)"
    by (simp_all add: wrote_def)
  have d: "\<not> datagram c1" using h(4) Cons(4) by simp
  note ih = Cons(1) [OF r(1) Cons(3) d]
  have "sent l' = sent l @ whiten (written (b # bs) rs) (ckey c) (writeOffset c)"
    using ih h(3,4) r(2) of_int_length [OF h(1,2)] by (simp add: written_def whiten_append)
  moreover have "snd (rs ! i) = None \<longrightarrow> fst (rs ! i) = int (length ((b # bs) ! i))" if "i < length (b # bs)" for i
    using that ih h(5) r(2) by (cases i) auto
  ultimately show ?case using ih r(2) by simp
qed (simp add: written_def)

lemma reads_plain:
  "\<not> datagram d \<Longrightarrow> concat (fst (reads chs d)) = whiten (concat chs) (ckey d) (readOffset d)"
proof (induction chs arbitrary: d)
  case (Cons ch chs)
  let ?d = "d\<lparr>readOffset := readOffset d + of_int (int (length ch))\<rparr>"
  have r: "Read d (int (length ch)) (int (length ch)) ch None = (Inr (whiten ch (ckey d) (readOffset d), None), ?d)"
    using Cons(2) by (simp add: Read_def)
  have "concat (fst (reads chs ?d)) = whiten (concat chs) (ckey d) (readOffset d + of_nat (length ch))"
    using Cons(1) [of ?d] Cons(2) by simp
  moreover have "fst (reads (ch # chs) d) = whiten ch (ckey d) (readOffset d) # fst (reads chs ?d)"
    by (simp add: r split: prod.split)
  ultimately show ?case by (simp add: whiten_append)
qed simp

text \<open>
  C33. Whitening is transparent: when two ends of a stream share the key and their offsets agree, then whatever the
  writer's socket cuts short or fails, and however the octets it took are cut into reads, the reader obtains exactly
  the octets that the results of the writes count as written, in order; a write without an error counts all of
  its octets.
\<close>

theorem whitening_transparent:
  assumes "obedient sock" "\<not> datagram c" "\<not> datagram d" "ckey d = ckey c" "readOffset d = writeOffset c"
    and "writes sock bs c l = (rs, c', l')" and "sent l' = sent l @ concat chunks @ rest"
  shows "\<exists>later. written bs rs = concat (fst (reads chunks d)) @ later \<and> length later = length rest
    \<and> length rs = length bs \<and> (\<forall>i < length bs. snd (rs ! i) = None \<longrightarrow> fst (rs ! i) = int (length (bs ! i)))"
proof -
  note w = writes_sent [OF assms(6,1,2)]
  have e: "whiten (written bs rs) (ckey c) (writeOffset c) = concat chunks @ rest" using w assms(7) by simp
  have "written bs rs = whiten (concat chunks @ rest) (ckey c) (writeOffset c)"
    using e whiten_whiten by metis
  also have "\<dots> = concat (fst (reads chunks d)) @ whiten rest (ckey c) (writeOffset c + of_nat (length (concat chunks)))"
    using reads_plain [OF assms(3), of chunks] assms(4,5) by (simp add: whiten_append)
  finally show ?thesis
    using w by (intro exI [of _ "whiten rest (ckey c) (writeOffset c + of_nat (length (concat chunks)))"]) simp
qed

section \<open>A write comes to an end\<close>

text \<open>A socket that also counts how often it is used; it need not obey its contract.\<close>

definition counted :: "'w socket \<Rightarrow> ('w \<times> int) socket" where
  "counted sock wk out = (let (r, w) = sock (fst wk) out in (r, (w, snd wk + 1)))"

abbreviation calls :: "('w \<times> int) link \<Rightarrow> int" where
  "calls l \<equiv> snd (world l)"

definition chunks :: "conn \<Rightarrow> int \<Rightarrow> int" where
  "chunks c len = (if datagram c then 1 else (len + 32767) div 32768)"

lemma counted_write: "raw_write (counted sock) out l = (r, l') \<Longrightarrow> calls l' = calls l + 1"
  by (auto simp: raw_write_def counted_def split: prod.splits)

lemma chunks_step:
  assumes "\<not> datagram c" "rest \<noteq> []"
  shows "chunks c (int (length (drop (length (next_chunk c rest)) rest))) + 1 = chunks c (int (length rest))"
proof (cases "int (length rest) > 32768")
  case True
  have "int (length rest) + 32767 = (int (length rest) - 32768 + 32767) + 1 * 32768" by simp
  then show ?thesis using True assms(1) by (simp add: chunks_def next_chunk_def chunkSize_def of_nat_diff)
next
  case False
  have "0 < int (length rest)" using assms(2) by simp
  then have "(int (length rest) + 32767) div 32768 = 1" using False by (intro int_div_pos_eq [of _ _ _ "int (length rest) - 1"]) simp_all
  then show ?thesis using False assms(1) by (simp add: chunks_def next_chunk_def chunkSize_def)
qed

lemma write_loop_ends:
  "write_loop (counted sock) rest count c l = ((m, err), c', l') \<Longrightarrow>
   calls l' \<le> calls l + (if rest = [] \<and> \<not> datagram c then 0 else chunks c (int (length rest)))
   \<and> count \<le> m \<and> m \<le> count + int (length rest) \<and> (err = None \<longrightarrow> m = count + int (length rest))"
proof (induction "counted sock" rest count c l rule: write_loop.induct)
  case (1 rest count c l)
  show ?case
  proof (cases "rest = [] \<and> \<not> (datagram c \<and> count = 0)")
    case True
    then show ?thesis using 1(2) by (auto simp: chunks_def)
  next
    case False
    let ?out = "whiten (next_chunk c rest) (ckey c) (writeOffset c)"
    obtain n e l1 where r: "raw_write (counted sock) ?out l = ((n, e), l1)" by (metis prod.exhaust)
    note k = counted_write [OF r]
    have out: "int (length ?out) = int (length (next_chunk c rest))" by simp
    have pos: "1 \<le> (if rest = [] \<and> \<not> datagram c then 0 else chunks c (int (length rest)))"
      using False zdiv_mono1 [of 32768 "int (length rest) + 32767" 32768] by (cases rest) (auto simp: chunks_def)
    have small: "length (next_chunk c rest) \<le> length rest" by (simp add: next_chunk_def)
    let ?c = "if datagram c then c else c\<lparr>writeOffset := writeOffset c + of_int n\<rparr>"
    show ?thesis
    proof (cases "n < 0 \<or> n > int (length ?out) \<or> e \<noteq> None \<or> n \<noteq> int (length ?out) \<or> datagram c")
      case True
      then show ?thesis
        using 1(2) False r k pos small by (subst (asm) write_loop.simps) (auto simp: Let_def next_chunk_def ErrShortWrite_def split: if_split_asm)
    next
      case go: False
      then have rec: "write_loop (counted sock) (drop (nat n) rest) (count + n) ?c l1 = ((m, err), c', l')"
        using 1(2) False r by (subst (asm) write_loop.simps) (simp add: Let_def)
      have ih: "calls l' \<le> calls l1 + (if drop (nat n) rest = [] \<and> \<not> datagram ?c then 0 else chunks ?c (int (length (drop (nat n) rest))))
        \<and> count + n \<le> m \<and> m \<le> count + n + int (length (drop (nat n) rest))
        \<and> (err = None \<longrightarrow> m = count + n + int (length (drop (nat n) rest)))"
        by (rule 1(1) [OF False refl r [symmetric] refl]) (use go rec in auto)
      have n: "nat n = length (next_chunk c rest)" "0 \<le> n" using go by auto
      have "rest \<noteq> []" using False go by auto
      then show ?thesis
        using ih chunks_step [of c rest] go n small k by (auto simp: chunks_def of_nat_diff split: if_split_asm)
    qed
  qed
qed

text \<open>
  C34. Every \<open>Write\<close> comes to an end, whatever the socket does: it hands the socket at most one piece per 32 KiB of
  the text, a datagram in one piece even when it is empty, and the number it returns is between zero and the
  length of the text and is the length if there is no error, as \<open>io.Writer\<close> demands.
\<close>

theorem write_terminates:
  assumes "Write (counted sock) b c l = ((m, err), c', l')"
  shows "calls l' \<le> calls l + (if datagram c then 1 else (int (length b) + 32767) div 32768)
    \<and> 0 \<le> m \<and> m \<le> int (length b) \<and> (err = None \<longrightarrow> m = int (length b))"
proof (cases "datagram c \<and> int (length b) > 65535")
  case True
  then show ?thesis using assms by (auto simp: Write_def ErrShortBuffer_def)
next
  case False
  then show ?thesis using assms write_loop_ends [of sock b 0 c l m err c' l'] by (auto simp: Write_def chunks_def split: if_split_asm)
qed

section \<open>The owner\<close>

definition owner_ok :: "owner \<Rightarrow> bool" where
  "owner_ok w \<longleftrightarrow> pending w = int (length (dials w)) \<and> pending w + int (length (conns w)) \<le> 256
     \<and> distinct (map fst (conns w)) \<and> distinct (map fst (dials w)) \<and> distinct (map fst (teardowns w))
     \<and> (\<forall>(i, g) \<in> set (dials w). i < next_id w \<and> i \<notin> set (sockets w))
     \<and> (\<forall>(t, xs, b) \<in> set (teardowns w). t < next_id w)
     \<and> (\<forall>i \<in> set (sockets w). i < next_id w)
     \<and> (\<forall>(i, x) \<in> set (conns w). socket_of x = i \<and> i \<in> set (sockets w))"

text \<open>Every connection is one of the current generation, or some teardown still has to join its closing.\<close>

definition current_or_owed :: "owner \<Rightarrow> bool" where
  "current_or_owed w \<longleftrightarrow> (\<forall>(i, x) \<in> set (conns w).
     (gens w i = generation w \<and> \<not> closed w) \<or> (\<exists>(t, xs, b) \<in> set (teardowns w). x \<in> set xs))"

text \<open>The teardown that closes the owner has to join every connection that is left; when it is done none is.\<close>

definition closing_ok :: "owner \<Rightarrow> bool" where
  "closing_ok w \<longleftrightarrow> (closed w \<longrightarrow> (if close_done w then conns w = [] \<and> (\<forall>(t, xs, b) \<in> set (teardowns w). \<not> b)
       else \<exists>t xs. (\<forall>(i, x) \<in> set (conns w). x \<in> set xs) \<and> (\<forall>(t', xs', b) \<in> set (teardowns w). b \<longrightarrow> t' = t \<and> xs' = xs)
              \<and> (t, xs, True) \<in> set (teardowns w)))
     \<and> (\<not> closed w \<longrightarrow> \<not> close_done w \<and> (\<forall>(t, xs, b) \<in> set (teardowns w). \<not> b))"

text \<open>No socket is forgotten.\<close>

definition sockets_ok :: "owner \<Rightarrow> bool" where
  "sockets_ok w \<longleftrightarrow> (\<forall>i \<in> set (sockets w). i \<in> set (shut w) \<or> i \<in> set (map fst (conns w)))"

lemma map_put_set: "set (map_put k v m) = insert (k, v) {x \<in> set m. fst x \<noteq> k}"
  by (auto simp: map_put_def)

lemma map_del_set: "set (map_del k m) = {x \<in> set m. fst x \<noteq> k}"
  by (auto simp: map_del_def)

lemma length_map_del: "length (map_del k m) \<le> length m"
  by (simp add: map_del_def)

lemma length_map_del_present: "distinct (map fst m) \<Longrightarrow> (k, v) \<in> set m \<Longrightarrow> length m = Suc (length (map_del k m))"
proof (induction m)
  case (Cons a m)
  show ?case
  proof (cases "fst a = k")
    case True
    then have "filter (\<lambda>kv. fst kv \<noteq> k) m = m" using Cons(2) by (intro filter_True) (auto simp: rev_image_eqI)
    then show ?thesis using True by (simp add: map_del_def)
  next
    case False
    then show ?thesis using Cons by (auto simp: map_del_def)
  qed
qed simp

lemma length_map_put: "length (map_put k v m) \<le> Suc (length m)"
  by (simp add: map_put_def le_SucI)

lemma registered:
  "owner_ok w \<Longrightarrow> (i, x) \<in> set (conns w) \<Longrightarrow> map_of (conns w) i = Some x \<and> socket_of x = i \<and> i \<in> set (sockets w)"
  by (auto simp: owner_ok_def)

lemma ok_begin: "owner_ok w \<Longrightarrow> owner_ok (snd (open_begin w))"
  by (auto simp: open_begin_def owner_ok_def MaxConnections_def)

lemma ok_end:
  assumes "owner_ok w" "(i, g) \<in> set (dials w)"
  shows "owner_ok (snd (open_finish i g got err expired w))"
proof -
  have n: "i < next_id w" "i \<notin> set (sockets w)" using assms by (auto simp: owner_ok_def)
  have l: "length (dials w) = Suc (length (map_del i (dials w)))"
    using assms by (intro length_map_del_present) (auto simp: owner_ok_def)
  have "i \<notin> fst ` set (conns w)" using n(2) assms(1) by (auto simp: owner_ok_def)
  then have "map_of (conns w) i = None" by (simp add: map_of_eq_None_iff)
  then have p: "length (map_put i (Plain i) (conns w)) = Suc (length (conns w))" by (rule length_map_put_absent)
  show ?thesis
    using assms(1) n l p
    by (auto simp: open_finish_def owner_ok_def Let_def map_put_set map_del_set)
qed

lemma ok_finish_begin: "owner_ok w \<Longrightarrow> owner_ok (finish_begin b w)"
  by (auto simp: finish_begin_def owner_ok_def Let_def)

lemma ok_teardowns:
  assumes "owner_ok w" "distinct (map fst ts)" "\<And>t. t \<in> set ts \<Longrightarrow> fst t < next_id w"
  shows "owner_ok (w\<lparr>teardowns := ts\<rparr>)"
  using assms by (auto simp: owner_ok_def)

lemma ok_join: "owner_ok w \<Longrightarrow> (t, xs, b) \<in> set (teardowns w) \<Longrightarrow> owner_ok (finish_join t xs b w)"
  unfolding finish_join_def by (rule ok_teardowns) (auto simp: owner_ok_def map_put_set)

lemma ok_finish_end: "owner_ok w \<Longrightarrow> owner_ok (finish_end t b w)"
  using ok_teardowns [of w "map_del t (teardowns w)"]
  by (auto simp: finish_end_def owner_ok_def map_del_set Let_def)

lemma ok_drop: "owner_ok w \<Longrightarrow> owner_ok (drop_entry x w)"
  using length_map_del [of "socket_of x" "conns w"] by (auto simp: drop_entry_def owner_ok_def map_del_set)

lemma ok_adopt: "owner_ok w \<Longrightarrow> owner_ok (snd (adopt i k w))"
proof -
  assume w: "owner_ok w"
  show ?thesis
  proof (cases "map_of (conns w) i = Some (Plain i)")
    case True
    then have "length (map_put i (Cipher i k) (conns w)) \<le> length (conns w)" by (intro length_map_put_present) simp
    moreover have "(i, Plain i) \<in> set (conns w)" using True by (rule map_of_SomeD)
    ultimately show ?thesis using w by (fastforce simp: adopt_def owner_ok_def map_put_set)
  qed (use w in \<open>simp add: adopt_def\<close>)
qed

lemma owner_ok_step: "owner_step w w' \<Longrightarrow> owner_ok w \<Longrightarrow> owner_ok w'"
proof (induction rule: owner_step.induct)
  case (cancel w)
  then show ?case by (simp add: owner_ok_def)
next
  case (raw i w)
  then show ?case by (simp add: owner_ok_def close_raw_def)
next
  case (cipher w k)
  then show ?case by (simp add: owner_ok_def close_cipher_def)
qed (auto intro: ok_begin ok_end ok_finish_begin ok_join ok_finish_end ok_drop ok_adopt)

lemma owner_ok_reachable: "reachable w \<Longrightarrow> owner_ok w"
proof (induction rule: reachable.induct)
  case new
  show ?case by (simp add: owner_ok_def NewOwner_def)
qed (rule owner_ok_step)

lemma current_step:
  assumes "owner_step w w'" "owner_ok w" "current_or_owed w"
  shows "current_or_owed w'"
  using assms
proof (induction rule: owner_step.induct)
  case (begin_open w)
  then show ?case by (auto simp: open_begin_def current_or_owed_def)
next
  case (end_open i g w got err expired)
  then show ?case by (auto simp: open_finish_def current_or_owed_def Let_def map_put_set)
next
  case (begin_finish w b)
  then show ?case
    by (auto simp: finish_begin_def current_or_owed_def Let_def image_iff; force)
next
  case (join t x xs b w)
  show ?case
    unfolding current_or_owed_def
  proof safe
    fix i y
    assume y: "(i, y) \<in> set (conns (finish_join t (x # xs) b w))"
      and no: "\<not> (\<exists>(t', ys, b') \<in> set (teardowns (finish_join t (x # xs) b w)). y \<in> set ys)"
    have c: "(i, y) \<in> set (conns w)" using y by (simp add: finish_join_def)
    have "y \<noteq> x" using join(2) registered [OF join(3) c] by (auto simp: close_returned_def)
    moreover have u: "xs' = x # xs \<and> b' = b" if "(t, xs', b') \<in> set (teardowns w)" for xs' b'
      using join(1,3) that by (auto simp: owner_ok_def dest: eq_key_imp_eq_value)
    ultimately have "\<not> (\<exists>(t', ys, b') \<in> set (teardowns w). y \<in> set ys)"
      using no by (fastforce simp: finish_join_def map_put_set)
    then show "gens (finish_join t (x # xs) b w) i = generation (finish_join t (x # xs) b w)"
      "closed (finish_join t (x # xs) b w) \<Longrightarrow> False"
      using join(4) c by (auto simp: current_or_owed_def finish_join_def)
  qed
next
  case (end_finish t b w)
  have "ys = []" if "(t, ys, b') \<in> set (teardowns w)" for ys b'
    using end_finish(1,2) that by (auto simp: owner_ok_def dest: eq_key_imp_eq_value)
  then show ?case
    using end_finish(3) by (fastforce simp: current_or_owed_def finish_end_def Let_def map_del_set)
next
  case (drop_plain i w)
  then show ?case by (auto simp: drop_entry_def current_or_owed_def map_del_set)
next
  case (drop_cipher i w k)
  then show ?case by (auto simp: drop_entry_def current_or_owed_def map_del_set)
next
  case (adoption w i k)
  then show ?case by (auto simp: adopt_def current_or_owed_def map_put_set)
qed (auto simp: current_or_owed_def close_raw_def close_cipher_def)

lemma sockets_step: "owner_step w w' \<Longrightarrow> owner_ok w \<Longrightarrow> sockets_ok w \<Longrightarrow> sockets_ok w'"
proof (induction rule: owner_step.induct)
  case (end_open i g w got err expired)
  then show ?case by (force simp: open_finish_def sockets_ok_def Let_def map_put_set)
next
  case (adoption w i k)
  then show ?case by (force simp: adopt_def sockets_ok_def map_put_set)
next
  case (begin_finish w b)
  then show ?case by (simp add: finish_begin_def sockets_ok_def Let_def)
next
  case (drop_plain i w)
  then show ?case by (force simp: drop_entry_def sockets_ok_def map_del_set)
next
  case (drop_cipher i w k)
  then show ?case by (force simp: drop_entry_def sockets_ok_def map_del_set)
qed (auto simp: sockets_ok_def close_raw_def close_cipher_def open_begin_def finish_join_def finish_end_def Let_def)

lemma teardown_unique: "owner_ok w \<Longrightarrow> (t, x) \<in> set (teardowns w) \<Longrightarrow> (t, y) \<in> set (teardowns w) \<Longrightarrow> x = y"
  by (auto simp: owner_ok_def dest: eq_key_imp_eq_value)

lemma closingI:
  assumes "closed w" "\<not> close_done w" "\<And>i y. (i, y) \<in> set (conns w) \<Longrightarrow> y \<in> set xs"
    "\<And>t' xs'. (t', xs', True) \<in> set (teardowns w) \<Longrightarrow> t' = t \<and> xs' = xs" "(t, xs, True) \<in> set (teardowns w)"
  shows "closing_ok w"
proof -
  have "\<forall>(t', xs', b) \<in> set (teardowns w). b \<longrightarrow> t' = t \<and> xs' = xs" using assms(4) by auto
  moreover have "\<forall>(i, x) \<in> set (conns w). x \<in> set xs" using assms(3) by blast
  ultimately show ?thesis unfolding closing_ok_def using assms(1,2,5) by (simp only: simp_thms if_False) blast
qed

lemma closing_idle:
  "\<not> (closed w \<and> \<not> close_done w) \<Longrightarrow>
   closing_ok w \<longleftrightarrow> close_done w = closed w \<and> (closed w \<longrightarrow> conns w = []) \<and> (\<forall>t xs. (t, xs, True) \<notin> set (teardowns w))"
  unfolding closing_ok_def by (cases "closed w") auto

lemma closing_step:
  assumes "owner_step w w'" "owner_ok w" "closing_ok w"
  shows "closing_ok w'"
  using assms
proof (induction rule: owner_step.induct)
  case (begin_open w)
  then show ?case unfolding closing_ok_def by (auto simp: open_begin_def)
next
  case (end_open i g w got err expired)
  then show ?case by (auto simp: open_finish_def closing_ok_def Let_def)
next
  case (begin_finish w b)
  show ?case
  proof (cases "closed w")
    case True
    then show ?thesis using begin_finish by (simp add: finish_begin_def)
  next
    case False
    have "x \<in> set (map snd (conns w))" if "(i, x) \<in> set (conns w)" for i x using that by force
    then show ?thesis using begin_finish False by (fastforce simp: finish_begin_def closing_ok_def Let_def)
  qed
next
  case (join t x xs b w)
  let ?w = "finish_join t (x # xs) b w"
  have f: "closed ?w = closed w" "close_done ?w = close_done w" "conns ?w = conns w" by (simp_all add: finish_join_def)
  have ts: "set (teardowns ?w) = insert (t, xs, b) {y \<in> set (teardowns w). fst y \<noteq> t}" by (simp add: finish_join_def map_put_set)
  show ?case
  proof (cases "closed w \<and> \<not> close_done w")
    case True
    then obtain t0 xs0 where c: "\<And>i y. (i, y) \<in> set (conns w) \<Longrightarrow> y \<in> set xs0" "(t0, xs0, True) \<in> set (teardowns w)"
      "\<And>t' xs'. (t', xs', True) \<in> set (teardowns w) \<Longrightarrow> t' = t0 \<and> xs' = xs0"
      using join(4) by (fastforce simp: closing_ok_def)
    show ?thesis
    proof (cases "t = t0")
      case True2: True
      have e: "xs0 = x # xs" "b" using teardown_unique [OF join(3)] join(1) c(2) True2 by blast+
      have "y \<in> set xs" if "(i, y) \<in> set (conns w)" for i y
        using c(1) [OF that] join(2) registered [OF join(3) that] e(1) by (auto simp: close_returned_def)
      then show ?thesis by (intro closingI [of ?w xs t]; unfold f ts) (use True e(2) True2 in \<open>auto dest: c(3)\<close>)
    next
      case False
      then have "\<not> b" using c(3) join(1) by (cases b) auto
      then show ?thesis by (intro closingI [of ?w xs0 t0]; unfold f ts) (use True c(1,2) False in \<open>auto dest: c(3)\<close>)
    qed
  next
    case False
    then have "closing_ok ?w \<longleftrightarrow> close_done w = closed w \<and> (closed w \<longrightarrow> conns w = []) \<and> (\<forall>t xs. (t, xs, True) \<notin> set (teardowns ?w))"
      using closing_idle [of ?w] f by simp
    then show ?thesis using join(1,4) closing_idle [OF False] unfolding ts by (cases b) auto
  qed
next
  case (end_finish t b w)
  let ?w = "finish_end t b w"
  have ts: "set (teardowns ?w) = {y \<in> set (teardowns w). fst y \<noteq> t}" by (simp add: finish_end_def map_del_set Let_def)
  have f: "closed ?w = closed w" "conns ?w = conns w" "close_done ?w = (close_done w \<or> b)" by (simp_all add: finish_end_def Let_def)
  show ?case
  proof (cases "closed w \<and> \<not> close_done w")
    case True
    then obtain t0 xs0 where c: "\<And>i y. (i, y) \<in> set (conns w) \<Longrightarrow> y \<in> set xs0" "(t0, xs0, True) \<in> set (teardowns w)"
      "\<And>t' xs'. (t', xs', True) \<in> set (teardowns w) \<Longrightarrow> t' = t0 \<and> xs' = xs0"
      using end_finish(3) by (fastforce simp: closing_ok_def)
    show ?thesis
    proof (cases b)
      case b: True
      then have "t = t0" "xs0 = []" using c(3) end_finish(1) by auto
      moreover have "conns w = []" using c(1) calculation(2) by (cases "conns w") auto
      ultimately show ?thesis using True b c(3) unfolding closing_ok_def f ts by auto
    next
      case False
      then have "t \<noteq> t0" using teardown_unique [OF end_finish(2,1)] c(2) by blast
      then show ?thesis by (intro closingI [of ?w xs0 t0]; unfold f ts) (use True c(1,2) False in \<open>auto dest: c(3)\<close>)
    qed
  next
    case False
    have n: "close_done w = closed w" "closed w \<longrightarrow> conns w = []" "\<forall>t xs. (t, xs, True) \<notin> set (teardowns w)"
      using end_finish(3) closing_idle [OF False] by simp_all
    then have "\<not> b" using end_finish(1) by (cases b) auto
    then show ?thesis using n False closing_idle [of ?w] unfolding f ts by simp
  qed
next
  case (drop_plain i w)
  then show ?case by (fastforce simp: drop_entry_def closing_ok_def map_del_set map_del_def)
next
  case (drop_cipher i w k)
  then show ?case by (fastforce simp: drop_entry_def closing_ok_def map_del_set map_del_def)
next
  case (adoption w i k)
  then show ?case by (auto simp: adopt_def closing_ok_def)
qed (auto simp: closing_ok_def close_raw_def close_cipher_def)

lemma reachable_inv: "reachable w \<Longrightarrow> owner_ok w \<and> current_or_owed w \<and> closing_ok w \<and> sockets_ok w"
proof (induction rule: reachable.induct)
  case new
  show ?case by (simp add: owner_ok_def current_or_owed_def closing_ok_def sockets_ok_def NewOwner_def)
next
  case (step w w')
  then show ?case using owner_ok_step current_step closing_step sockets_step by blast
qed

text \<open>
  C35. In every reachable state of an owner, with any number of goroutines that open, adopt, reset and close, at
  most 256 connections are registered or being dialled, and every registered connection belongs to the current
  generation of an owner that is not closed, unless a teardown still waits for its closing: no connection of
  an earlier generation is adopted or stays registered unnoticed.
\<close>

theorem owner_bounded_and_current:
  assumes "reachable w"
  shows "int (length (dials w)) + int (length (conns w)) \<le> 256 \<and> pending w = int (length (dials w))
    \<and> (\<forall>(i, x) \<in> set (conns w). (gens w i = generation w \<and> \<not> closed w) \<or> (\<exists>(t, xs, b) \<in> set (teardowns w). x \<in> set xs))"
  using reachable_inv [OF assms] by (simp add: owner_ok_def current_or_owed_def)

lemma done_step: "owner_step v v' \<Longrightarrow> close_done v \<Longrightarrow> close_done v'"
  by (induction rule: owner_step.induct)
    (auto simp: open_begin_def open_finish_def finish_begin_def finish_join_def finish_end_def close_raw_def close_cipher_def
      drop_entry_def adopt_def Let_def)

text \<open>
  C36. When the close of an owner has returned, no connection is registered, every socket that a dial ever
  returned has been closed, and this stays so: a dial that is still running then, and every later step, registers
  nothing and leaves no socket open.
\<close>

theorem close_leaves_nothing_open:
  assumes "reachable w" "close_done w" "owner_step\<^sup>*\<^sup>* w w'"
  shows "close_done w' \<and> conns w' = [] \<and> set (sockets w') \<subseteq> set (shut w')"
proof -
  have r: "reachable w'" using assms(3,1) by (induction rule: rtranclp_induct) (auto intro: reachable.step)
  have d: "close_done w'" using assms(3,2) by (induction rule: rtranclp_induct) (auto intro: done_step)
  then show ?thesis using reachable_inv [OF r] by (auto simp: closing_ok_def sockets_ok_def)
qed

section \<open>Concrete runs\<close>

text \<open>A socket that takes at most three octets of each write.\<close>

definition stingy :: "unit socket" where
  "stingy w out = ((min 3 (int (length out)), None), w)"

definition demo_conn :: conn where
  "demo_conn = \<lparr>ckey = map word_of_int [0..31], datagram = False, readOffset = 0, writeOffset = 0\<rparr>"

definition demo_link :: "unit link" where
  "demo_link = \<lparr>world = (), sent = []\<rparr>"

lemma demo_writes: "writes stingy [[1, 2], [3, 4, 5, 6]] demo_conn demo_link
    = ([(2, None), (3, Some ErrShortWrite)], demo_conn\<lparr>writeOffset := 5\<rparr>, \<lparr>world = (), sent = [1, 3, 1, 7, 1]\<rparr>)"
proof -
  have "stingy () out = ((min 3 (int (length out)), None), ())" for out by (simp add: stingy_def)
  then show ?thesis
    by (simp add: Write_def write_loop.simps [of _ _ 0] write_loop.simps [of _ "[]"] raw_write_def demo_conn_def demo_link_def
        next_chunk_def chunkSize_def upto.simps Let_def)
qed

theorem whitening_transparent_witness:
  "\<exists>later. [1, 2, 3, 4, 5] = concat (fst (reads [[1], [3, 1]] demo_conn)) @ later \<and> length later = 2"
proof -
  have o: "obedient stingy" by (auto simp: obedient_def stingy_def)
  have s: "sent \<lparr>world = (), sent = [1, 3, 1, 7, 1]\<rparr> = sent demo_link @ concat [[1], [3, 1]] @ [7, 1 :: byte8]"
    by (simp add: demo_link_def)
  have c: "\<not> datagram demo_conn" "readOffset demo_conn = writeOffset demo_conn" by (simp_all add: demo_conn_def)
  from whitening_transparent [OF o c(1) c(1) refl c(2) demo_writes s]
  show ?thesis by (auto simp: written_def)
qed

theorem write_terminates_witness:
  "\<exists>m err c' l'. Write (counted stingy) [3, 4, 5, 6] demo_conn \<lparr>world = ((), 0), sent = []\<rparr> = ((m, err), c', l')
     \<and> calls l' \<le> 1 \<and> m \<le> 4 \<and> (err = None \<longrightarrow> m = 4)"
proof -
  obtain m err c' l' where w: "Write (counted stingy) [3, 4, 5, 6] demo_conn \<lparr>world = ((), 0), sent = []\<rparr> = ((m, err), c', l')"
    by (metis prod.exhaust)
  from write_terminates [OF w] show ?thesis using w by (simp add: demo_conn_def)
qed

text \<open>One connection is opened, and the owner is closed and joins it.\<close>

definition demo_open :: owner where
  "demo_open = snd (open_finish 0 0 True False False (snd (open_begin NewOwner)))"

definition demo_closed :: owner where
  "demo_closed = finish_end 1 True (finish_join 1 [Plain 0] True
     (drop_entry (Plain 0) (close_raw 0 (finish_begin True demo_open))))"

lemma demo_open_reach: "reachable demo_open" "conns demo_open = [(0, Plain 0)]"
proof -
  have "reachable (snd (open_begin NewOwner))" by (rule reachable.step [OF reachable.new owner_step.begin_open])
  moreover have "(0, 0) \<in> set (dials (snd (open_begin NewOwner)))"
    by (simp add: open_begin_def NewOwner_def ctx_done_def MaxConnections_def)
  ultimately show "reachable demo_open" unfolding demo_open_def by (rule reachable.step [OF _ owner_step.end_open])
  show "conns demo_open = [(0, Plain 0)]" by code_simp
qed

lemma demo_closed_reach: "reachable demo_closed" "close_done demo_closed" "sockets demo_closed = [0]"
proof -
  let ?a = "finish_begin True demo_open"
  let ?b = "close_raw 0 ?a"
  let ?c = "drop_entry (Plain 0) ?b"
  have "0 \<in> set (sockets ?a)" "0 \<in> set (shut ?b)" by code_simp+
  moreover have "reachable ?a" by (rule reachable.step [OF demo_open_reach(1) owner_step.begin_finish])
  ultimately have c: "reachable ?c" by (meson reachable.step owner_step.raw owner_step.drop_plain)
  have "(1, [Plain 0], True) \<in> set (teardowns ?c)" "close_returned (Plain 0) ?c" by code_simp+
  then have d: "reachable (finish_join 1 [Plain 0] True ?c)" by (meson c reachable.step owner_step.join)
  have "(1, [], True) \<in> set (teardowns (finish_join 1 [Plain 0] True ?c))" by code_simp
  then show "reachable demo_closed" unfolding demo_closed_def by (meson d reachable.step owner_step.end_finish)
  show "close_done demo_closed" "sockets demo_closed = [0]" by code_simp+
qed

theorem owner_bounded_and_current_witness:
  "int (length (conns demo_open)) \<le> 256 \<and> conns demo_open = [(0, Plain 0)]"
  using owner_bounded_and_current [OF demo_open_reach(1)] demo_open_reach(2) by simp

theorem close_leaves_nothing_open_witness:
  "conns demo_closed = [] \<and> set (sockets demo_closed) \<subseteq> set (shut demo_closed) \<and> sockets demo_closed = [0]"
  using close_leaves_nothing_open [OF demo_closed_reach(1,2) rtranclp.rtrancl_refl] demo_closed_reach(3) by blast

end
