(* ===== verification/NetipText.thy ===== *)
theory NetipText
  imports Netip
begin

text \<open>
  Addresses and their text: what \<open>net.ParseIP\<close> accepts is a proper address, and the text of a proper address
  without a zone is read back as that address.
\<close>

section \<open>What is parsed\<close>

definition byte_list :: "int list \<Rightarrow> bool" where
  "byte_list bs \<longleftrightarrow> list_all (\<lambda>b. 0 \<le> b \<and> b < 256) bs"

text \<open>A \<open>net.IP\<close>: four bytes, or sixteen that do not map an IPv4 address; no zone.\<close>

fun proper_ip :: "addr \<Rightarrow> bool" where
  "proper_ip (V4 bs) = (length bs = 4 \<and> byte_list bs)"
| "proper_ip (V6 bs z) = (length bs = 16 \<and> byte_list bs \<and> take 12 bs \<noteq> mapped_prefix \<and> z = [])"

lemma byte_list_simps [simp]:
  "byte_list []" "byte_list (b # bs) \<longleftrightarrow> 0 \<le> b \<and> b < 256 \<and> byte_list bs" "byte_list (xs @ ys) \<longleftrightarrow> byte_list xs \<and> byte_list ys"
  by (auto simp: byte_list_def)

lemma byte_list_sub: "byte_list xs \<Longrightarrow> byte_list (take n xs)" "byte_list xs \<Longrightarrow> byte_list (drop n xs)"
  "byte_list (replicate n 0)"
  by (auto simp: byte_list_def list_all_iff dest: in_set_takeD in_set_dropD)

lemma v4_fields_bytes: "parse_v4_fields s = Some q \<Longrightarrow> length q = 4 \<and> byte_list q"
proof -
  have f: "v4_field t = Some b \<Longrightarrow> 0 \<le> b \<and> b < 256" for t b
    using digits_val_nonneg [of 0 t] by (auto simp: v4_field_def all_digits_def split: if_splits)
  show "parse_v4_fields s = Some q \<Longrightarrow> length q = 4 \<and> byte_list q"
    by (auto simp: parse_v4_fields_def map_eq_Cons_conv f split: list.splits option.splits)
qed

lemma hex_digit_bounds: "hex_digit c = Some d \<Longrightarrow> 0 \<le> d \<and> d < 16"
  by (auto simp: hex_digit_def Let_def split: if_splits)

lemma hex_val_bounds: "0 \<le> acc \<Longrightarrow> 0 \<le> hex_val acc s \<and> hex_val acc s < (acc + 1) * 16 ^ length s"
proof (induction s arbitrary: acc)
  case (Cons c s)
  show ?case
  proof (cases "hex_digit c")
    case None
    have "(1 :: int) \<le> 16 ^ length (c # s)" by (rule one_le_power) simp
    then have "(acc + 1) * 1 \<le> (acc + 1) * 16 ^ length (c # s)" using Cons(2) by (intro mult_left_mono) simp_all
    then have "acc < (acc + 1) * 16 ^ length (c # s)" by (rule less_le_trans [rotated]) simp
    moreover have "hex_val acc (c # s) = acc" using None by simp
    ultimately show ?thesis using Cons(2) by (simp only:)
  next
    case (Some d)
    note d = hex_digit_bounds [OF Some]
    have "hex_val (acc * 16 + d) s < (acc * 16 + d + 1) * 16 ^ length s" using Cons(1) [of "acc * 16 + d"] Cons(2) d by simp
    also have "\<dots> \<le> ((acc + 1) * 16) * 16 ^ length s" using d by (intro mult_right_mono) simp_all
    finally have "hex_val (acc * 16 + d) s < (acc + 1) * 16 ^ length (c # s)" by (simp only: list.size add_0_right power_Suc mult.assoc plus_1_eq_Suc add_Suc_right)
    then show ?thesis using Cons(1) [of "acc * 16 + d"] Cons(2) d Some by (simp only: hex_val.simps option.case) simp
  qed
qed simp

lemma hex_val_group: "length h \<le> 4 \<Longrightarrow> 0 \<le> hex_val 0 h \<and> hex_val 0 h < 65536"
proof -
  assume "length h \<le> 4"
  then have "(16 :: int) ^ length h \<le> 16 ^ 4" by (intro power_increasing) simp_all
  then show ?thesis using hex_val_bounds [of 0 h] by simp
qed

lemma v6_loop_step:
  assumes "v6_loop ip ell s = Some r" "length ip < 16"
  obtains (v4) q where "r = (ip @ q, ell, [])" "length ip + 4 \<le> 16" "parse_v4_fields s = Some q"
  | (last) x e where "r = (ip @ [x div 256, x mod 256], e, [])" "0 \<le> x" "x < 65536"
  | (more) x e t where "v6_loop (ip @ [x div 256, x mod 256]) e t = Some r" "0 \<le> x" "x < 65536"
  using assms hex_val_group [of "hex_prefix s"]
  by (subst (asm) (2) v6_loop.simps) (force simp: Let_def split: if_split_asm option.splits)

lemma v6_loop_bytes:
  "v6_loop ip ell s = Some (bs, e, rest) \<Longrightarrow> byte_list ip \<Longrightarrow> even (length ip) \<Longrightarrow> length ip \<le> 16 \<Longrightarrow>
   byte_list bs \<and> length bs \<le> 16"
proof (induction "16 - length ip" arbitrary: ip ell s rule: less_induct)
  case less
  have grown: "byte_list (ip @ [x div 256, x mod 256])" "length (ip @ [x div 256, x mod 256]) \<le> 16"
    "even (length (ip @ [x div 256, x mod 256]))" if "length ip < 16" "0 \<le> x" "x < 65536" for x
    using that less(3,4) by (auto elim!: evenE)
  show ?case
  proof (cases "length ip < 16")
    case False
    then show ?thesis using less(2-5) by (simp add: v6_loop.simps [of ip])
  next
    case True
    from less(2) True show ?thesis
    proof (cases rule: v6_loop_step)
      case (v4 q)
      then show ?thesis using v4_fields_bytes less(3) by auto
    next
      case (last x e)
      then show ?thesis using grown [OF True, of x] by simp
    next
      case (more x e t)
      show ?thesis by (rule less(1) [OF _ more(1)]) (use grown [OF True more(2,3)] True in simp_all)
    qed
  qed
qed

lemma finish_v6_proper:
  assumes "finish_v6 z r = Some ip" "\<And>bs e rest. r = Some (bs, e, rest) \<Longrightarrow> byte_list bs \<and> length bs \<le> 16"
  shows "\<exists>bs. ip = V6 bs z \<and> length bs = 16 \<and> byte_list bs"
  using assms by (auto simp: finish_v6_def byte_list_sub split: option.splits if_split_asm)

lemma parse_v6_proper: "parse_v6 s = Some ip \<Longrightarrow> \<exists>bs z. ip = V6 bs z \<and> length bs = 16 \<and> byte_list bs"
  using finish_v6_proper v6_loop_bytes [of "[]"]
  by (fastforce simp: parse_v6_def Let_def byte_list_sub split: if_split_asm)

lemma ParseAddr_scan_proper:
  "ParseAddr_scan w s = Some ip \<Longrightarrow> (\<exists>bs. ip = V4 bs \<and> length bs = 4 \<and> byte_list bs) \<or> (\<exists>bs z. ip = V6 bs z \<and> length bs = 16 \<and> byte_list bs)"
  by (induction w s rule: ParseAddr_scan.induct) (auto dest: v4_fields_bytes parse_v6_proper split: if_split_asm)

lemma ParseIP_proper: "ParseIP s = Some ip \<Longrightarrow> proper_ip ip"
  using ParseAddr_scan_proper [of s s]
  by (fastforce simp: ParseIP_def ParseAddr_def byte_list_sub split: option.splits if_split_asm)

section \<open>What is printed\<close>

lemma hex_low_digit: "0 \<le> d \<Longrightarrow> d < 16 \<Longrightarrow> hex_digit (hex_low d) = Some d"
  by (auto simp: hex_low_def hex_digit_def Let_def)

definition group_ok :: "int \<Rightarrow> bool" where
  "group_ok x \<longleftrightarrow> 0 \<le> x \<and> x < 65536"

definition hex_list :: "int \<Rightarrow> int list \<Rightarrow> bool" where
  "hex_list x ds \<longleftrightarrow> ds \<noteq> [] \<and> length ds \<le> 4 \<and> list_all (\<lambda>d. 0 \<le> d \<and> d < 16) ds \<and> foldl (\<lambda>a d. a * 16 + d) 0 ds = x"

lemma hex_lists:
  "0 \<le> d \<and> d < 16 \<Longrightarrow> d = x \<Longrightarrow> hex_list x [d]"
  "0 \<le> c \<and> c < 16 \<Longrightarrow> 0 \<le> d \<and> d < 16 \<Longrightarrow> c * 16 + d = x \<Longrightarrow> hex_list x [c, d]"
  "0 \<le> b \<and> b < 16 \<Longrightarrow> 0 \<le> c \<and> c < 16 \<Longrightarrow> 0 \<le> d \<and> d < 16 \<Longrightarrow> (b * 16 + c) * 16 + d = x \<Longrightarrow> hex_list x [b, c, d]"
  "0 \<le> a \<and> a < 16 \<Longrightarrow> 0 \<le> b \<and> b < 16 \<Longrightarrow> 0 \<le> c \<and> c < 16 \<Longrightarrow> 0 \<le> d \<and> d < 16 \<Longrightarrow>
   ((a * 16 + b) * 16 + c) * 16 + d = x \<Longrightarrow> hex_list x [a, b, c, d]"
  by (simp_all add: hex_list_def)

lemma hex_group_digits:
  assumes "group_ok x"
  obtains ds where "hex_group x = map hex_low ds" "hex_list x ds"
proof -
  have r: "0 \<le> x" "x < 65536" using assms by (auto simp: group_ok_def)
  have d: "0 \<le> x mod 16 \<and> x mod 16 < 16" "0 \<le> x div 16 mod 16 \<and> x div 16 mod 16 < 16"
    "0 \<le> x div 256 mod 16 \<and> x div 256 mod 16 < 16" by simp_all
  have a: "x div 256 = x div 16 div 16" "x div 4096 = x div 16 div 16 div 16" by (simp_all add: zdiv_zmult2_eq [symmetric])
  have v: "x div 16 * 16 + x mod 16 = x" "(x div 256 * 16 + x div 16 mod 16) * 16 + x mod 16 = x"
    "((x div 4096 * 16 + x div 256 mod 16) * 16 + x div 16 mod 16) * 16 + x mod 16 = x"
    by (simp_all only: a div_mult_mod_eq)
  consider "x < 16" | "16 \<le> x" "x < 256" | "256 \<le> x" "x < 4096" | "4096 \<le> x" by linarith
  then show thesis
  proof cases
    case 1
    have "0 \<le> x \<and> x < 16" using 1 r by simp
    note l = hex_lists(1) [OF this refl]
    show ?thesis by (rule that [OF _ l]) (simp add: hex_group_def 1)
  next
    case 2
    then have "0 \<le> x div 16 \<and> x div 16 < 16" by auto
    note l = hex_lists(2) [OF this d(1) v(1)]
    show ?thesis by (rule that [OF _ l]) (simp add: hex_group_def 2 leD)
  next
    case 3
    then have "0 \<le> x div 256 \<and> x div 256 < 16" by auto
    note l = hex_lists(3) [OF this d(2,1) v(2)]
    show ?thesis by (rule that [OF _ l]) (use 3 in \<open>simp add: hex_group_def\<close>)
  next
    case 4
    then have "0 \<le> x div 4096 \<and> x div 4096 < 16" using r by auto
    note l = hex_lists(4) [OF this d(3,2,1) v(3)]
    show ?thesis by (rule that [OF _ l]) (use 4 in \<open>simp add: hex_group_def\<close>)
  qed
qed

lemma hex_val_digits:
  "list_all (\<lambda>d. 0 \<le> d \<and> d < 16) ds \<Longrightarrow> hex_val acc (map hex_low ds) = foldl (\<lambda>a d. a * 16 + d) acc ds
   \<and> (\<forall>c \<in> set (map hex_low ds). hex_digit c \<noteq> None)"
  by (induction ds arbitrary: acc) (auto simp: hex_low_digit)

lemma hex_group_text:
  assumes "group_ok x"
  shows "hex_val 0 (hex_group x) = x" "hex_group x \<noteq> []" "length (hex_group x) \<le> 4" "\<forall>c \<in> set (hex_group x). hex_digit c \<noteq> None"
proof -
  obtain ds where ds: "hex_group x = map hex_low ds" "hex_list x ds" by (rule hex_group_digits [OF assms])
  then show "hex_val 0 (hex_group x) = x" "hex_group x \<noteq> []" "length (hex_group x) \<le> 4"
    "\<forall>c \<in> set (hex_group x). hex_digit c \<noteq> None"
    using hex_val_digits [of ds 0] unfolding ds(1) by (simp_all add: hex_list_def)
qed

lemma hex_prefix_group:
  "group_ok x \<Longrightarrow> rest = [] \<or> hex_digit (hd rest) = None \<Longrightarrow> hex_prefix (hex_group x @ rest) = hex_group x"
  using hex_group_text(4) [of x] by (cases rest) (auto simp: hex_prefix_def takeWhile_append)

lemma colon_hex [simp]: "hex_digit CHR '':'' = None" "hex_digit CHR ''.'' = None" "hex_digit CHR ''%'' = None"
  by code_simp+

abbreviation split_group :: "int \<Rightarrow> int list" where
  "split_group x \<equiv> [x div 256, x mod 256]"

lemma loop_group:
  "group_ok x \<Longrightarrow> length ip < 16 \<Longrightarrow> v6_loop ip ell (hex_group x) = Some (ip @ split_group x, ell, [])"
  using hex_prefix_group [of x "[]"] hex_group_text [of x] by (subst v6_loop.simps) (simp add: Let_def)

lemma loop_colon:
  "group_ok x \<Longrightarrow> length ip < 16 \<Longrightarrow> t \<noteq> [] \<Longrightarrow> hd t \<noteq> CHR '':'' \<Longrightarrow>
   v6_loop ip ell (hex_group x @ CHR '':'' # t) = v6_loop (ip @ split_group x) ell t"
  using hex_prefix_group [of x "CHR '':'' # t"] hex_group_text [of x] by (subst v6_loop.simps) (simp add: Let_def)

lemma loop_gap:
  "group_ok x \<Longrightarrow> length ip < 16 \<Longrightarrow> v6_loop ip None (hex_group x @ CHR '':'' # CHR '':'' # t) =
     (if t = [] then Some (ip @ split_group x, Some (length ip + 2), [])
      else v6_loop (ip @ split_group x) (Some (length ip + 2)) t)"
  using hex_prefix_group [of x "CHR '':'' # CHR '':'' # t"] hex_group_text [of x] by (subst v6_loop.simps) (simp add: Let_def)

definition group_bytes :: "int list \<Rightarrow> int list" where
  "group_bytes gs = concat (map split_group gs)"

lemma length_group_bytes [simp]: "length (group_bytes gs) = 2 * length gs"
  by (induction gs) (auto simp: group_bytes_def)

lemma group_bytes_simps [simp]: "group_bytes [] = []" "group_bytes (x # gs) = split_group x @ group_bytes gs"
  "group_bytes (xs @ ys) = group_bytes xs @ group_bytes ys"
  by (simp_all add: group_bytes_def)

definition groups_text :: "int list \<Rightarrow> string" where
  "groups_text gs = join1 (map hex_group gs) CHR '':''"

lemma groups_text_Cons: "groups_text (x # gs) = (if gs = [] then hex_group x else hex_group x @ CHR '':'' # groups_text gs)"
  by (cases gs) (simp_all add: groups_text_def)

lemma groups_text_head:
  assumes "list_all group_ok gs" "gs \<noteq> []"
  shows "groups_text gs \<noteq> []" "hd (groups_text gs @ t) \<noteq> CHR '':''" "hex_digit (hd (groups_text gs @ t)) \<noteq> None"
proof -
  obtain x xs where gs: "gs = x # xs" using assms(2) by (cases gs) auto
  note h = hex_group_text [of x]
  have "group_ok x" using assms(1) gs by simp
  then have "hex_group x \<noteq> []" "hex_digit (hd (hex_group x)) \<noteq> None" using h(2,4) by simp_all
  then show "groups_text gs \<noteq> []" "hd (groups_text gs @ t) \<noteq> CHR '':''" "hex_digit (hd (groups_text gs @ t)) \<noteq> None"
    unfolding gs groups_text_Cons by (auto simp: hd_append)
qed

lemma loop_groups:
  "list_all group_ok gs \<Longrightarrow> gs \<noteq> [] \<Longrightarrow> length ip + 2 * length gs \<le> 16 \<Longrightarrow>
   v6_loop ip ell (groups_text gs) = Some (ip @ group_bytes gs, ell, [])"
proof (induction gs arbitrary: ip)
  case (Cons x gs)
  then show ?case
    using groups_text_head(1) [of gs] groups_text_head(2) [of gs "[]"] loop_group [of x ip] loop_colon [of x ip "groups_text gs"]
    by (cases "gs = []") (simp_all add: groups_text_Cons)
qed simp

lemma loop_groups_gap:
  "list_all group_ok gs \<Longrightarrow> gs \<noteq> [] \<Longrightarrow> length ip + 2 * length gs \<le> 16 \<Longrightarrow>
   v6_loop ip None (groups_text gs @ CHR '':'' # CHR '':'' # t) =
     (if t = [] then Some (ip @ group_bytes gs, Some (length ip + 2 * length gs), [])
      else v6_loop (ip @ group_bytes gs) (Some (length ip + 2 * length gs)) t)"
proof (induction gs arbitrary: ip)
  case (Cons x gs)
  then show ?case
    using groups_text_head(1) [of gs] groups_text_head(2) [of gs "CHR '':'' # CHR '':'' # t"] loop_gap [of x ip t]
      loop_colon [of x ip "groups_text gs @ CHR '':'' # CHR '':'' # t"]
    by (cases "gs = []") (simp_all add: groups_text_Cons algebra_simps)
qed simp

section \<open>The longest run of zeros\<close>

definition zero_span :: "int list \<Rightarrow> nat \<times> nat \<Rightarrow> bool" where
  "zero_span gs = (\<lambda>(s, e). s = 255 \<and> e = 255 \<or> s + 2 \<le> e \<and> e \<le> length gs \<and> take (e - s) (drop s gs) = replicate (e - s) 0)"

lemma zeros_replicate: "takeWhile (\<lambda>x. x = 0) xs = replicate (length (takeWhile (\<lambda>x. x = 0) xs)) (0 :: int)"
  by (induction xs) auto

lemma zero_run_span: "zero_span gs (zero_run gs)"
proof -
  let ?f = "\<lambda>(s, e) i. let l = length (takeWhile (\<lambda>x. x = 0) (drop i gs)) in if l \<ge> 2 \<and> l > e - s then (i, i + l) else (s, e)"
  have step: "zero_span gs (?f p i)" if p: "zero_span gs p" for p i
  proof -
    let ?z = "takeWhile (\<lambda>x. x = 0) (drop i gs)"
    have "take (length ?z) (drop i gs) = ?z" by (metis takeWhile_eq_take)
    then have "take (length ?z) (drop i gs) = replicate (length ?z) 0" using zeros_replicate [of "drop i gs"] by simp
    moreover have "length ?z \<le> length gs - i" using length_takeWhile_le [of "\<lambda>x. x = 0" "drop i gs"] by simp
    ultimately show ?thesis using p by (cases p) (auto simp: zero_span_def Let_def)
  qed
  have "zero_span gs p \<Longrightarrow> zero_span gs (foldl ?f p is)" for p "is"
    by (induction "is" arbitrary: p) (use step in auto)
  from this [of "(255, 255)"] show ?thesis by (simp add: zero_run_def zero_span_def)
qed

section \<open>Fields between dots\<close>

lemma Split1_join: "\<forall>w \<in> set ws. sep \<notin> set w \<Longrightarrow> ws \<noteq> [] \<Longrightarrow> Split1 (join1 ws sep) sep = ws"
proof (induction ws sep rule: join1.induct)
  case (2 w sep)
  then show ?case by (induction w) auto
next
  case (3 w v vs sep)
  have "Split1 (w @ sep # t) sep = w # Split1 t sep" if "sep \<notin> set w" for w t using that by (induction w) auto
  then show ?case using 3 by simp
qed simp

lemma Itoa_pos_length: "0 \<le> n \<Longrightarrow> n < 10 ^ Suc k \<Longrightarrow> length (Itoa_pos n) \<le> Suc k"
proof (induction k arbitrary: n)
  case 0
  then show ?case using Itoa_pos_digits [of n] by simp
next
  case (Suc k)
  have "n < 10 * x \<Longrightarrow> n div 10 < x" for x :: int by presburger
  then have "n div 10 < 10 ^ Suc k" using Suc(3) by simp
  then show ?case using Suc(1) [of "n div 10"] Suc(2) by (subst Itoa_pos.simps) simp
qed

lemma v4_field_Itoa:
  assumes "0 \<le> b" "b < 256"
  shows "v4_field (Itoa b) = Some b" "\<forall>c \<in> set (Itoa b). is_digit_char c"
proof -
  have i: "Itoa b = Itoa_pos b" using assms by (simp add: Itoa_def)
  note d = Itoa_pos_digits [OF assms(1)]
  have l: "length (Itoa_pos b) \<le> 3" using Itoa_pos_length [of b 2] assms by simp
  have "\<not> (length (Itoa_pos b) > 1 \<and> hd (Itoa_pos b) = CHR ''0'')"
    using d by (cases "b = 0") (auto simp: digit_of_def Itoa_pos.simps [of 0])
  then show "v4_field (Itoa b) = Some b" unfolding i using d l assms by (auto simp: v4_field_def all_digits_def)
  show "\<forall>c \<in> set (Itoa b). is_digit_char c" unfolding i using d by (simp add: list_all_iff)
qed

section \<open>The round trip\<close>

lemma scan_v6:
  "\<forall>c \<in> set t. hex_digit c \<noteq> None \<or> c = CHR '':'' \<Longrightarrow> CHR '':'' \<in> set t \<Longrightarrow> ParseAddr_scan w t = parse_v6 w"
  by (induction t) auto

lemma groups_text_chars: "list_all group_ok gs \<Longrightarrow> c \<in> set (groups_text gs) \<Longrightarrow> hex_digit c \<noteq> None \<or> c = CHR '':''"
proof (induction gs)
  case (Cons x gs)
  then show ?case using hex_group_text(4) [of x] by (auto simp: groups_text_Cons split: if_split_asm)
qed (simp add: groups_text_def)

lemma groups_text_colon: "2 \<le> length gs \<Longrightarrow> CHR '':'' \<in> set (groups_text gs)"
  by (cases gs; cases "tl gs") (auto simp: groups_text_Cons)

lemma group_bytes_zero: "group_bytes (replicate n 0) = replicate (2 * n) 0"
  by (induction n) auto

lemma group_bytes_pairs: "even (length bs) \<Longrightarrow> byte_list bs \<Longrightarrow> group_bytes (pair_groups bs) = bs \<and> list_all group_ok (pair_groups bs)"
  by (induction bs rule: pair_groups.induct) (auto simp: group_ok_def)

lemma length_pair_groups: "length (pair_groups bs) = length bs div 2"
  by (induction bs rule: pair_groups.induct) auto

lemma parse_v6_plain:
  assumes "CHR ''%'' \<notin> set t"
  shows "parse_v6 t = (if take 2 t = ''::'' then (if length t = 2 then Some (V6 (replicate 16 0) []) else finish_v6 [] (v6_loop [] (Some 0) (drop 2 t)))
    else finish_v6 [] (v6_loop [] None t))"
proof -
  have z: "takeWhile (\<lambda>c. c \<noteq> CHR ''%'') t = t" using assms by (intro takeWhile_eq_all_conv [THEN iffD2]) auto
  show ?thesis using assms by (simp add: parse_v6_def z)
qed

lemma finish_gap:
  "length xs + length ys \<le> 6 \<Longrightarrow> finish_v6 [] (Some (group_bytes xs @ group_bytes ys, Some (2 * length xs), []))
     = Some (V6 (group_bytes (xs @ replicate (8 - length xs - length ys) 0 @ ys)) [])"
proof -
  assume "length xs + length ys \<le> 6"
  then have "16 - length (group_bytes xs @ group_bytes ys) = 2 * (8 - length xs - length ys)" "length (group_bytes xs @ group_bytes ys) < 16" by simp_all
  then show ?thesis by (simp add: finish_v6_def group_bytes_zero)
qed

lemma parse_full:
  assumes "list_all group_ok gs" "length gs = 8"
  shows "ParseAddr (groups_text gs) = Some (V6 (group_bytes gs) [])"
proof -
  have ne: "gs \<noteq> []" using assms(2) by auto
  let ?t = "groups_text gs"
  have "CHR ''%'' \<notin> set ?t" using groups_text_chars [OF assms(1), of "CHR ''%''"] by auto
  moreover have "take 2 ?t \<noteq> ''::''"
    using groups_text_head(1) [OF assms(1) ne] groups_text_head(2) [OF assms(1) ne, of "[]"] by (cases ?t) auto
  ultimately have "parse_v6 ?t = Some (V6 (group_bytes gs) [])"
    using loop_groups [OF assms(1) ne, of "[]" None] assms(2) by (simp add: parse_v6_plain finish_v6_def)
  then show ?thesis
    unfolding ParseAddr_def using scan_v6 [of ?t] groups_text_chars [OF assms(1)] groups_text_colon [of gs] assms(2) by auto
qed

lemma parse_gap:
  assumes "list_all group_ok xs" "list_all group_ok ys" "length xs + length ys \<le> 6"
  shows "ParseAddr (groups_text xs @ ''::'' @ groups_text ys) = Some (V6 (group_bytes (xs @ replicate (8 - length xs - length ys) 0 @ ys)) [])"
proof -
  let ?t = "groups_text xs @ ''::'' @ groups_text ys"
  have ch: "\<forall>c \<in> set ?t. hex_digit c \<noteq> None \<or> c = CHR '':''" using groups_text_chars assms(1,2) by auto
  have "CHR ''%'' \<notin> set ?t"
  proof (rule notI)
    assume "CHR ''%'' \<in> set ?t"
    then have "hex_digit CHR ''%'' \<noteq> None \<or> CHR ''%'' = CHR '':''" using ch by blast
    then show False by simp
  qed
  note plain = parse_v6_plain [OF this]
  have e: "groups_text [] = []" by (simp add: groups_text_def)
  have "parse_v6 ?t = Some (V6 (group_bytes (xs @ replicate (8 - length xs - length ys) 0 @ ys)) [])"
  proof (cases "xs = []")
    case xs: True
    have p: "take 2 ?t = ''::''" "drop 2 ?t = groups_text ys" "length ?t = 2 \<longleftrightarrow> groups_text ys = []" by (simp_all add: xs e)
    show ?thesis
    proof (cases "ys = []")
      case True
      then show ?thesis unfolding plain p by (simp add: xs e group_bytes_zero)
    next
      case False
      then show ?thesis
        unfolding plain p using loop_groups [OF assms(2) False, of "[]" "Some 0"] groups_text_head(1) [OF assms(2) False]
          finish_gap [of xs ys] assms(3) xs by simp
    qed
  next
    case xs: False
    have p: "take 2 ?t \<noteq> ''::''"
      using groups_text_head(1) [OF assms(1) xs] groups_text_head(2) [OF assms(1) xs, of "[]"] by (cases "groups_text xs") auto
    note l = loop_groups_gap [OF assms(1) xs, of "[]" "groups_text ys"]
    show ?thesis
    proof (cases "ys = []")
      case True
      then show ?thesis unfolding plain if_not_P [OF p] using l finish_gap [of xs ys] assms(3) by (simp add: e)
    next
      case False
      then show ?thesis
        unfolding plain if_not_P [OF p] using l finish_gap [of xs ys] assms(3) groups_text_head(1) [OF assms(2) False]
          loop_groups [OF assms(2) False, of "group_bytes xs" "Some (2 * length xs)"] by simp
    qed
  qed
  then show ?thesis unfolding ParseAddr_def using scan_v6 [OF ch] by simp
qed

text \<open>The text of an address is read back as that address.\<close>

lemma v4_text_parsed:
  assumes "length bs = 4" "byte_list bs"
  shows "ParseAddr (v4_text bs) = Some (V4 bs)"
proof -
  obtain a b c d where bs: "bs = [a, b, c, d]" using assms(1) by (auto simp: numeral_eq_Suc length_Suc_conv)
  have f: "v4_field (Itoa x) = Some x" "\<forall>c \<in> set (Itoa x). is_digit_char c" if "x \<in> set bs" for x
    using that assms(2) v4_field_Itoa [of x] by (auto simp: byte_list_def list_all_iff)
  have sp: "Split1 (v4_text bs) CHR ''.'' = map Itoa bs"
    unfolding v4_text_def
  proof (rule Split1_join)
    have "\<not> is_digit_char CHR ''.''" by code_simp
    then show "\<forall>w \<in> set (map Itoa bs). CHR ''.'' \<notin> set w" using f(2) by auto
  qed (simp add: bs)
  have q: "parse_v4_fields (v4_text bs) = Some bs" unfolding parse_v4_fields_def sp using f(1) by (simp add: bs)
  have "ParseAddr_scan w (u @ CHR ''.'' # t) = map_option V4 (parse_v4_fields w)" if "\<forall>c \<in> set u. is_digit_char c" for w u t
    using that by (induction u) (auto simp: is_digit_char_def less_eq_char_def)
  then show ?thesis using f(2) [of a] q by (simp add: ParseAddr_def v4_text_def bs)
qed

lemma v6_text_parsed:
  assumes "length bs = 16" "byte_list bs"
  shows "ParseAddr (v6_text (pair_groups bs)) = Some (V6 bs [])"
proof -
  let ?gs = "pair_groups bs"
  have g: "group_bytes ?gs = bs" "list_all group_ok ?gs" "length ?gs = 8"
    using group_bytes_pairs [of bs] length_pair_groups [of bs] assms by simp_all
  obtain s e where r: "zero_run ?gs = (s, e)" by (rule prod.exhaust)
  show ?thesis
  proof (cases "s = 255")
    case True
    then show ?thesis using parse_full [OF g(2,3)] g(1) by (simp add: v6_text_def r groups_text_def)
  next
    case False
    then have z: "s + 2 \<le> e" "e \<le> 8" "take (e - s) (drop s ?gs) = replicate (e - s) 0"
      using zero_run_span [of ?gs] g(3) by (auto simp: r zero_span_def)
    have "take s ?gs @ take (e - s) (drop s ?gs) @ drop (e - s) (drop s ?gs) = ?gs" by (metis append_take_drop_id)
    then have split: "take s ?gs @ replicate (e - s) 0 @ drop e ?gs = ?gs" using z by (simp add: drop_drop)
    have len: "8 - length (take s ?gs) - length (drop e ?gs) = e - s" "length (take s ?gs) + length (drop e ?gs) \<le> 6" using z g(3) by auto
    have ok: "list_all group_ok (take s ?gs)" "list_all group_ok (drop e ?gs)"
      using g(2) by (auto simp: list_all_iff dest: in_set_takeD in_set_dropD)
    show ?thesis using parse_gap [OF ok len(2)] False unfolding len(1) split g(1) by (simp add: v6_text_def r groups_text_def)
  qed
qed

lemma ParseIP_text: "proper_ip ip \<Longrightarrow> ParseIP (addr_String ip) = Some ip"
  by (cases ip) (auto simp: ParseIP_def v4_text_parsed v6_text_parsed)

end
