(* ===== verification/TorBridge.thy ===== *)
theory TorBridge
  imports OvpnLayers NetipText
begin

text \<open>
  \<^verbatim>\<open>src/internal/common/tor_bridge.go\<close>: the bridge lines of a Tor node. A profile is normalised whenever it is saved
  and whenever it is loaded, and the lines end up in the configuration file of Tor, one option per line. Text is a
  list of bytes. White space and lower case are those of Unicode as far as a comparison can tell: a letter that is
  not ASCII and whose lower case is not ASCII either is left alone. \<open>url.Parse\<close> is the parameter \<open>url_parse\<close>.
\<close>

section \<open>Unicode white space and lower case\<close>

definition wide_spaces :: "string list" where
  "wide_spaces = [[CHR 0xE1, CHR 0x9A, CHR 0x80], [CHR 0xE2, CHR 0x80, CHR 0xA8], [CHR 0xE2, CHR 0x80, CHR 0xA9],
     [CHR 0xE2, CHR 0x80, CHR 0xAF], [CHR 0xE2, CHR 0x81, CHR 0x9F], [CHR 0xE3, CHR 0x80, CHR 0x80],
     [CHR 0xE2, CHR 0x80, CHR 0x80], [CHR 0xE2, CHR 0x80, CHR 0x81], [CHR 0xE2, CHR 0x80, CHR 0x82], [CHR 0xE2, CHR 0x80, CHR 0x83],
     [CHR 0xE2, CHR 0x80, CHR 0x84], [CHR 0xE2, CHR 0x80, CHR 0x85], [CHR 0xE2, CHR 0x80, CHR 0x86], [CHR 0xE2, CHR 0x80, CHR 0x87],
     [CHR 0xE2, CHR 0x80, CHR 0x88], [CHR 0xE2, CHR 0x80, CHR 0x89], [CHR 0xE2, CHR 0x80, CHR 0x8A]]"

text \<open>How many bytes the white space at the start takes, and at the end.\<close>

definition space_width :: "string \<Rightarrow> nat" where
  "space_width s =
     (if s \<noteq> [] \<and> is_space_char (hd s) then 1
      else if take 2 s \<in> {[CHR 0xC2, CHR 0x85], [CHR 0xC2, CHR 0xA0]} then 2
      else if take 3 s \<in> set wide_spaces then 3 else 0)"

definition last_space :: "string \<Rightarrow> nat" where
  "last_space s =
     (if s \<noteq> [] \<and> is_space_char (last s) then 1
      else if 2 \<le> length s \<and> space_width (drop (length s - 2) s) = 2 then 2
      else if 3 \<le> length s \<and> space_width (drop (length s - 3) s) = 3 then 3 else 0)"

lemma space_width_Nil [simp]: "space_width [] = 0"
  by (simp add: space_width_def wide_spaces_def)

lemma space_width_bounds: "0 < space_width s \<Longrightarrow> s \<noteq> []" "0 < last_space s \<Longrightarrow> s \<noteq> []"
  by (auto simp: last_space_def)

text \<open>\<open>strings.TrimSpace\<close> and \<open>strings.Fields\<close>.\<close>

function trim_front :: "string \<Rightarrow> string" where
  "trim_front s = (if space_width s = 0 then s else trim_front (drop (space_width s) s))"
  by pat_completeness auto
termination
  by (relation "measure length") (use space_width_bounds in \<open>auto intro!: diff_less\<close>)

function trim_back :: "string \<Rightarrow> string" where
  "trim_back s = (if last_space s = 0 then s else trim_back (take (length s - last_space s) s))"
  by pat_completeness auto
termination
  by (relation "measure length") (use space_width_bounds in \<open>auto intro!: diff_less\<close>)

declare trim_front.simps [simp del] trim_back.simps [simp del]

definition TrimWide :: "string \<Rightarrow> string" where
  "TrimWide s = trim_back (trim_front s)"

function fields_after :: "string \<Rightarrow> string \<Rightarrow> string list" where
  "fields_after cur [] = (if cur = [] then [] else [cur])"
| "fields_after cur (c # s) =
     (if space_width (c # s) = 0 then fields_after (cur @ [c]) s
      else (if cur = [] then [] else [cur]) @ fields_after [] (drop (space_width (c # s)) (c # s)))"
  by pat_completeness auto
termination
  by (relation "measure (\<lambda>(cur, s). length s)") auto

declare fields_after.simps(2) [simp del]

definition Fields :: "string \<Rightarrow> string list" where
  "Fields s = fields_after [] s"

text \<open>\<open>strings.ToLower\<close>: U+212A and U+0130 are the characters outside of ASCII with a lower case in it.\<close>

fun LowerWide :: "string \<Rightarrow> string" where
  "LowerWide (a # b # c # s) =
     (if a = CHR 0xE2 \<and> b = CHR 0x84 \<and> c = CHR 0xAA then CHR ''k'' # LowerWide s
      else if a = CHR 0xC4 \<and> b = CHR 0xB0 then CHR ''i'' # LowerWide (c # s)
      else lower_char a # LowerWide (b # c # s))"
| "LowerWide [a, b] = (if a = CHR 0xC4 \<and> b = CHR 0xB0 then ''i'' else [lower_char a, lower_char b])"
| "LowerWide [a] = [lower_char a]"
| "LowerWide [] = []"

definition upper_char :: "char \<Rightarrow> char" where
  "upper_char c = (if CHR ''a'' \<le> c \<and> c \<le> CHR ''z'' then char_of (of_char c - 32 :: nat) else c)"

definition ContainsAny :: "string \<Rightarrow> string \<Rightarrow> bool" where
  "ContainsAny s chars \<longleftrightarrow> list_ex (\<lambda>c. c \<in> set chars) s"

text \<open>\<open>strings.Cut\<close> at an equals sign, and \<open>net.JoinHostPort\<close>.\<close>

definition cut_equals :: "string \<Rightarrow> (string \<times> string) option" where
  "cut_equals s =
     (if CHR ''='' \<in> set s then Some (takeWhile (\<lambda>c. c \<noteq> CHR ''='') s, tl (dropWhile (\<lambda>c. c \<noteq> CHR ''='') s)) else None)"

definition JoinHostPort :: "string \<Rightarrow> string \<Rightarrow> string" where
  "JoinHostPort host port = (if CHR '':'' \<in> set host then CHR ''['' # host @ '']:'' @ port else host @ CHR '':'' # port)"

section \<open>Parts of a line\<close>

definition line_breaks :: string where
  "line_breaks = [CHR 0x0D, CHR 0x0A, CHR 0x00]"

definition validTorFingerprint :: "string \<Rightarrow> bool" where
  "validTorFingerprint value \<longleftrightarrow> (let v = TrimWide value in length v = 40 \<and> list_all (\<lambda>c. hex_digit c \<noteq> None) v)"

definition normalizeTorTransport :: "string \<Rightarrow> string res" where
  "normalizeTorTransport value =
     (let v = LowerWide (TrimWide value) in
      if v \<in> {''obfs'', ''obfs4''} then Inr ''obfs4''
      else if v \<in> {''meek'', ''meek-azure'', ''meek_lite'', ''meek-lite''} then Inr ''meek_lite''
      else if v = ''snowflake'' then Inr ''snowflake''
      else if v \<in> {''webtunnel'', ''web-tunnel'', ''web_tunnel''} then Inr ''webtunnel''
      else if v \<in> {''auto'', ''custom''} then Inr ''custom''
      else fail ''unsupported Tor pluggable transport'')"

definition validTorHTTPSURL :: "url_parser \<Rightarrow> string \<Rightarrow> bool" where
  "validTorHTTPSURL url_parse value \<longleftrightarrow>
     (if length value > 2048 \<or> ContainsAny value line_breaks then False
      else case url_parse value of
        None \<Rightarrow> False
      | Some u \<Rightarrow> EqualFold (Scheme u) ''https'' \<and> Hostname u \<noteq> [] \<and> \<not> User u \<and> Fragment u = [])"

definition validTorFrontList :: "string \<Rightarrow> bool" where
  "validTorFrontList value \<longleftrightarrow>
     (if value = [] \<or> length value > 1024 \<or> ContainsAny value (line_breaks @ ''/'' @ [CHR 0x5C] @ ''?#@'') then False
      else list_all (\<lambda>w. let w = TrimWide w in \<not> (w = [] \<or> length w > 253 \<or> ContainsAny w [CHR '' '', CHR 0x09])) (Split1 value CHR '',''))"

definition validTorICEList :: "string \<Rightarrow> bool" where
  "validTorICEList value \<longleftrightarrow>
     (if value = [] \<or> length value > 4096 \<or> ContainsAny value line_breaks then False
      else list_all (\<lambda>w. let w = TrimWide w in
        \<not> (w = [] \<or> (\<not> HasPrefix w ''stun:'' \<and> \<not> HasPrefix w ''stuns:'') \<or> ContainsAny w [CHR '' '', CHR 0x09])) (Split1 value CHR '',''))"

definition validTorUTLS :: "string \<Rightarrow> bool" where
  "validTorUTLS value \<longleftrightarrow> value \<noteq> [] \<and> length value \<le> 128
     \<and> \<not> ContainsAny value (line_breaks @ '' /'' @ [CHR 0x5C] @ ''?#@'' @ [CHR 0x22, CHR 0x27, CHR 0x60] @ '';$|&<>'')"

text \<open>The address and port of the bridge.\<close>

definition bridge_endpoint :: "string \<Rightarrow> string \<Rightarrow> (addr \<times> int) res" where
  "bridge_endpoint transport field =
     (case SplitHostPort field of
        None \<Rightarrow> fail ''bridge endpoint must be IP:port''
      | Some (host, portText) \<Rightarrow>
          (case ParseIP (Trim host ''[]'') of
             None \<Rightarrow> fail ''bridge endpoint must be a literal IP address''
           | Some ip \<Rightarrow>
               reject_if (IsLoopback ip \<or> IsLinkLocalUnicast ip \<or> IsUnspecified ip) ''bridge endpoint must be a literal IP address''
               (reject_if (transport = ''obfs4'' \<and> IsPrivate ip) ''Tor obfs4 bridge endpoint must be a public literal IP address''
               (case Atoi portText of
                  None \<Rightarrow> fail ''bridge endpoint has an invalid port''
                | Some port \<Rightarrow> reject_if (port < 1 \<or> port > 65535) ''bridge endpoint has an invalid port'' (Inr (ip, port))))))"

text \<open>The fingerprint in upper case, or nothing for a meek line that goes on with an option.\<close>

definition bridge_identity :: "string \<Rightarrow> string \<Rightarrow> string res" where
  "bridge_identity transport field =
     (if transport \<noteq> ''meek_lite'' \<or> \<not> Contains field ''='' then
        reject_if (\<not> validTorFingerprint field) ''bridge fingerprint must be exactly 40 hexadecimal characters'' (Inr (map upper_char field))
      else Inr [])"

text \<open>The options in their order, with their names in lower case and none twice.\<close>

fun bridge_options :: "(string \<times> string) list \<Rightarrow> string list \<Rightarrow> (string \<times> string) list res" where
  "bridge_options options [] = Inr options"
| "bridge_options options (field # others) =
     (case cut_equals field of
        None \<Rightarrow> fail ''bridge option is malformed''
      | Some (k, val) \<Rightarrow>
          let key = LowerWide (TrimWide k) in
          reject_if (key = [] \<or> val = [] \<or> ContainsAny (key @ val) line_breaks) ''bridge option is malformed''
          (reject_if (key \<in> fst ` set options) ''bridge option is duplicated''
          (bridge_options (options @ [(key, val)]) others)))"

definition option_of :: "(string \<times> string) list \<Rightarrow> string \<Rightarrow> string" where
  "option_of options key = (case map_of options key of None \<Rightarrow> [] | Some v \<Rightarrow> v)"

text \<open>Nothing, or a value that is fine.\<close>

definition optional :: "(string \<Rightarrow> bool) \<Rightarrow> string \<Rightarrow> bool" where
  "optional ok val \<longleftrightarrow> val = [] \<or> ok val"

definition known_options :: "string list \<Rightarrow> (string \<times> string) list \<Rightarrow> bool" where
  "known_options names options \<longleftrightarrow> list_all (\<lambda>kv. fst kv \<in> set names) options"

definition obfs4_options :: "(string \<times> string) list \<Rightarrow> unit res" where
  "obfs4_options options =
     reject_if (option_of options ''cert'' = [] \<or> length (option_of options ''cert'') > 1024) ''Tor obfs4 bridge requires a bounded cert= option''
     (reject_if (map_of options ''iat-mode'' \<notin> {None, Some ''0'', Some ''1'', Some ''2''}) ''Tor obfs4 iat-mode must be 0, 1, or 2''
     (reject_if (\<not> known_options [''cert'', ''iat-mode''] options) ''unsupported Tor obfs4 bridge option'' (Inr ())))"

definition meek_options :: "url_parser \<Rightarrow> (string \<times> string) list \<Rightarrow> unit res" where
  "meek_options url_parse options =
     reject_if (\<not> validTorHTTPSURL url_parse (option_of options ''url'') \<or> \<not> validTorFrontList (option_of options ''front''))
       ''Tor meek_lite requires safe url and front options''
     (reject_if (\<not> optional validTorUTLS (option_of options ''utls'')) ''Tor meek_lite utls option is unsafe''
     (reject_if (\<not> optional validTorUTLS (option_of options ''utls-imitate'')) ''Tor meek_lite utls-imitate option is unsafe''
     (reject_if (\<not> known_options [''url'', ''front'', ''utls'', ''utls-imitate''] options) ''unsupported Tor meek_lite bridge option'' (Inr ()))))"

definition snowflake_options :: "url_parser \<Rightarrow> string \<Rightarrow> (string \<times> string) list \<Rightarrow> unit res" where
  "snowflake_options url_parse fingerprint options =
     reject_if (\<not> validTorFingerprint (option_of options ''fingerprint'') \<or> \<not> EqualFold (option_of options ''fingerprint'') fingerprint)
       ''Tor Snowflake requires fingerprint= matching the bridge fingerprint''
     (reject_if (\<not> validTorHTTPSURL url_parse (option_of options ''url'') \<or> \<not> validTorFrontList (option_of options ''front'')
         \<or> \<not> validTorICEList (option_of options ''ice'')) ''Tor Snowflake requires safe url, front and ice options''
     (reject_if (\<not> optional validTorUTLS (option_of options ''utls-imitate'')) ''Tor Snowflake utls-imitate option is unsafe''
     (reject_if (\<not> known_options [''fingerprint'', ''url'', ''front'', ''ice'', ''utls-imitate''] options)
       ''unsupported Tor Snowflake bridge option'' (Inr ()))))"

definition webtunnel_options :: "url_parser \<Rightarrow> (string \<times> string) list \<Rightarrow> unit res" where
  "webtunnel_options url_parse options =
     reject_if (\<not> validTorHTTPSURL url_parse (option_of options ''url'')) ''Tor WebTunnel requires a safe url''
     (reject_if (length (option_of options ''ver'') > 64) ''Tor WebTunnel ver option is oversized''
     (reject_if (\<not> known_options [''url'', ''ver''] options) ''unsupported Tor WebTunnel bridge option'' (Inr ())))"

definition check_options :: "url_parser \<Rightarrow> string \<Rightarrow> string \<Rightarrow> (string \<times> string) list \<Rightarrow> unit res" where
  "check_options url_parse transport fingerprint options =
     (if transport = ''obfs4'' then obfs4_options options
      else if transport = ''meek_lite'' then meek_options url_parse options
      else if transport = ''snowflake'' then snowflake_options url_parse fingerprint options
      else if transport = ''webtunnel'' then webtunnel_options url_parse options else Inr ())"

section \<open>A line\<close>

definition drop_keyword :: "string list \<Rightarrow> string list" where
  "drop_keyword words = (if words \<noteq> [] \<and> EqualFold (hd words) ''Bridge'' then tl words else words)"

text \<open>The parts of a line, read and checked.\<close>

record bridge =
  BTransport :: string
  BAddress :: addr
  BPort :: int
  BFingerprint :: string
  BOptions :: "(string \<times> string) list"

definition read_bridge :: "url_parser \<Rightarrow> string \<Rightarrow> bridge res" where
  "read_bridge url_parse value0 =
     (let value = TrimWide value0 in
      reject_if (value = [] \<or> length value > 8192 \<or> ContainsAny value line_breaks)
        ''Tor bridge line is empty, oversized, or contains a control character''
      (let fields = drop_keyword (Fields value) in
       reject_if (length fields < 3) ''Tor bridge line is incomplete''
       (case normalizeTorTransport (fields ! 0) of
          Inl _ \<Rightarrow> fail ''Tor bridge line uses an unsupported pluggable transport''
        | Inr transport \<Rightarrow>
            reject_if (transport = ''custom'') ''Tor bridge line uses an unsupported pluggable transport''
            (res_bind (bridge_endpoint transport (fields ! 1)) (\<lambda>(ip, port).
             res_bind (bridge_identity transport (fields ! 2)) (\<lambda>fingerprint.
             res_bind (bridge_options [] (drop (if fingerprint = [] then 2 else 3) fields)) (\<lambda>options.
             res_bind (check_options url_parse transport fingerprint options) (\<lambda>_.
             Inr \<lparr>BTransport = transport, BAddress = ip, BPort = port, BFingerprint = fingerprint, BOptions = options\<rparr>))))))))"

definition option_text :: "string \<times> string \<Rightarrow> string" where
  "option_text kv = fst kv @ CHR ''='' # snd kv"

definition bridge_fields :: "bridge \<Rightarrow> string list" where
  "bridge_fields b =
     [BTransport b, JoinHostPort (addr_String (BAddress b)) (Itoa (BPort b))]
     @ (if BFingerprint b = [] then [] else [BFingerprint b]) @ map option_text (BOptions b)"

definition normalizeTorBridgeLine :: "url_parser \<Rightarrow> string \<Rightarrow> (string \<times> string \<times> string) res" where
  "normalizeTorBridgeLine url_parse value =
     res_bind (read_bridge url_parse value) (\<lambda>b. Inr (join1 (bridge_fields b) CHR '' '', addr_String (BAddress b), BTransport b))"

section \<open>The configuration of a node\<close>

record tor_config =
  TorTransport :: string
  TorBridges :: "string list"
  TorSocksPort :: int

definition ExternalTorDefaultSocksPort :: int where
  "ExternalTorDefaultSocksPort = 19050"

definition TorBridgeTransport :: "tor_config option \<Rightarrow> string res" where
  "TorBridgeTransport c =
     (case c of
        None \<Rightarrow> fail ''external Tor bridge configuration is missing''
      | Some c \<Rightarrow>
          if TorBridges c = [] then fail ''external Tor bridge configuration is missing''
          else res_bind (if TrimWide (TorTransport c) \<noteq> [] then normalizeTorTransport (TorTransport c) else Inr []) (\<lambda>transport.
            if transport = ''custom'' then Inr ''custom''
            else let fields = drop_keyword (Fields (TrimWide (hd (TorBridges c)))) in
              reject_if (fields = []) ''Tor bridge line is empty'' (normalizeTorTransport (hd fields))))"

text \<open>What the loop over the lines knows: the lines so far, their transports and the first address.\<close>

record lines_read =
  LDone :: "string list"
  LTransport :: string
  LTransports :: "string list"
  LHost :: string

fun bridge_lines :: "url_parser \<Rightarrow> string \<Rightarrow> lines_read \<Rightarrow> string list \<Rightarrow> lines_read res" where
  "bridge_lines url_parse configured st [] = Inr st"
| "bridge_lines url_parse configured st (raw # raws) =
     res_bind (normalizeTorBridgeLine url_parse raw) (\<lambda>(line, host, transport).
     reject_if (configured \<noteq> [] \<and> configured \<noteq> ''custom'' \<and> configured \<noteq> transport) ''transport does not match configured transport''
     (reject_if (configured \<noteq> ''custom'' \<and> LTransport st \<noteq> [] \<and> LTransport st \<noteq> transport)
        ''Tor profile cannot mix pluggable transports unless transport=custom''
     (reject_if (line \<in> set (LDone st)) ''duplicate Tor bridge line''
     (bridge_lines url_parse configured
        \<lparr>LDone = LDone st @ [line], LTransport = (if LTransport st = [] then transport else LTransport st),
         LTransports = List.insert transport (LTransports st), LHost = (if LHost st = [] then host else LHost st)\<rparr> raws))))"

definition no_lines :: lines_read where
  "no_lines = \<lparr>LDone = [], LTransport = [], LTransports = [], LHost = []\<rparr>"

definition reserved_ports :: "int list" where
  "reserved_ports = [1098, 1099, 8788]"

text \<open>The address of the first bridge and the normalised configuration; after an error every caller drops what is left of it.\<close>

definition normalizeExternalTorBridge :: "url_parser \<Rightarrow> tor_config option \<Rightarrow> (string \<times> tor_config) res" where
  "normalizeExternalTorBridge url_parse c =
     (case c of
        None \<Rightarrow> fail ''external Tor bridge configuration is missing''
      | Some c \<Rightarrow>
          reject_if (length (TorBridges c) < 1 \<or> length (TorBridges c) > 8)
            ''external Tor bridge requires between 1 and 8 pluggable-transport bridge lines''
          (res_bind (if TrimWide (TorTransport c) \<noteq> [] then normalizeTorTransport (TorTransport c) else Inr []) (\<lambda>configured.
           res_bind (bridge_lines url_parse configured no_lines (TorBridges c)) (\<lambda>st.
           res_bind (if configured \<noteq> [] then Inr configured
             else if length (LTransports st) = 1 then Inr (LTransport st)
             else fail ''mixed Tor pluggable transports require transport=custom'') (\<lambda>transport.
           let port = (if TorSocksPort c = 0 then ExternalTorDefaultSocksPort else TorSocksPort c) in
           reject_if (port < 1024 \<or> port > 65535 \<or> port \<in> set reserved_ports) ''Tor local SOCKS port is unsafe or reserved''
           (Inr (LHost st, \<lparr>TorTransport = transport, TorBridges = LDone st, TorSocksPort = port\<rparr>)))))))"

end
