(* ===== verification/TorBridgeText.thy ===== *)
theory TorBridgeText
  imports TorBridge
begin

text \<open>
  White space, fields and trimming on text in UTF-8: fields that are joined by spaces are the fields that are read back,
  a field holds no white space, and a line that ends in a field is not trimmed.
\<close>

section \<open>White space\<close>

lemma wide_chars: "w \<in> set wide_spaces \<Longrightarrow> length w = 3 \<and> CHR '' '' \<notin> set w"
  by (auto simp: wide_spaces_def)

lemma space_width_cases:
  "space_width s \<noteq> 0 \<longleftrightarrow> (s \<noteq> [] \<and> is_space_char (hd s)) \<or> take 2 s \<in> {[CHR 0xC2, CHR 0x85], [CHR 0xC2, CHR 0xA0]} \<or> take 3 s \<in> set wide_spaces"
  by (simp add: space_width_def)

text \<open>Bytes that belong to no white space, and text without white space anywhere.\<close>

definition plain_char :: "char \<Rightarrow> bool" where
  "plain_char c \<longleftrightarrow> of_char c < (128 :: nat) \<and> \<not> is_space_char c"

definition solid :: "string \<Rightarrow> bool" where
  "solid s \<longleftrightarrow> (\<forall>i < length s. space_width (drop i s) = 0)"

lemma space_char: "is_space_char CHR '' ''"
  by code_simp

lemma wide_heads: "w \<in> set wide_spaces \<Longrightarrow> \<not> plain_char (hd w)"
  unfolding wide_spaces_def by (auto simp: plain_char_def)

lemma plain_no_space: "s \<noteq> [] \<Longrightarrow> plain_char (hd s) \<Longrightarrow> space_width s = 0"
proof (rule ccontr)
  assume s: "s \<noteq> []" "plain_char (hd s)" "space_width s \<noteq> 0"
  then have "take 2 s \<in> {[CHR 0xC2, CHR 0x85], [CHR 0xC2, CHR 0xA0]} \<or> take 3 s \<in> set wide_spaces"
    unfolding space_width_cases plain_char_def by blast
  then show False
  proof
    assume "take 2 s \<in> {[CHR 0xC2, CHR 0x85], [CHR 0xC2, CHR 0xA0]}"
    then have "hd s = CHR 0xC2" using s(1) by (cases s) auto
    then show False using s(2) by (simp add: plain_char_def)
  next
    assume "take 3 s \<in> set wide_spaces"
    moreover have "hd (take 3 s) = hd s" using s(1) by (cases s) auto
    ultimately show False using wide_heads s(2) by metis
  qed
qed

text \<open>A space ends whatever stands before it.\<close>

lemma space_width_before:
  assumes "s \<noteq> []"
  shows "space_width (s @ CHR '' '' # r) = space_width s"
proof -
  have same: "take n (s @ CHR '' '' # r) = w \<longleftrightarrow> take n s = w" if "length w = n" "CHR '' '' \<notin> set w" for n w
  proof (cases "length s < n")
    case True
    then have "CHR '' '' \<in> set (take n (s @ CHR '' '' # r))" "length (take n s) \<noteq> n" by (cases "n - length s"; simp)+
    then show ?thesis using that by metis
  qed simp
  have "take 3 (s @ CHR '' '' # r) \<in> set wide_spaces \<longleftrightarrow> take 3 s \<in> set wide_spaces"
    using same [of _ 3] wide_chars by metis
  moreover have "take 2 (s @ CHR '' '' # r) \<in> {[CHR 0xC2, CHR 0x85], [CHR 0xC2, CHR 0xA0]}
      \<longleftrightarrow> take 2 s \<in> {[CHR 0xC2, CHR 0x85], [CHR 0xC2, CHR 0xA0]}"
    using same [of "[CHR 0xC2, CHR 0x85]" 2] same [of "[CHR 0xC2, CHR 0xA0]" 2] by simp
  ultimately show ?thesis using assms by (simp add: space_width_def)
qed

lemma solid_plain: "list_all plain_char s \<Longrightarrow> solid s"
  by (auto simp: solid_def list_all_length plain_no_space hd_drop_conv_nth)

lemma solid_drop: "solid s \<Longrightarrow> solid (drop n s)"
  by (auto simp: solid_def)

lemma solid_after: "list_all plain_char p \<Longrightarrow> solid s \<Longrightarrow> solid (p @ s)"
  unfolding solid_def
proof (intro allI impI)
  fix i assume a: "list_all plain_char p" "\<forall>i < length s. space_width (drop i s) = 0" "i < length (p @ s)"
  show "space_width (drop i (p @ s)) = 0"
  proof (cases "i < length p")
    case True
    then show ?thesis using a(1) by (intro plain_no_space) (auto simp: list_all_length hd_append hd_drop_conv_nth)
  qed (use a in auto)
qed

section \<open>Fields\<close>

lemma fields_after_solid:
  "solid s \<Longrightarrow> fields_after cur (s @ CHR '' '' # r) = (if cur @ s = [] then [] else [cur @ s]) @ fields_after [] r"
proof (induction s arbitrary: cur)
  case Nil
  have "space_width (CHR '' '' # r) = 1" by (simp add: space_width_def space_char)
  then show ?case by (simp add: fields_after.simps(2))
next
  case (Cons c s)
  have "space_width (c # s) = 0" using Cons(2) by (force simp: solid_def)
  then have "space_width ((c # s) @ CHR '' '' # r) = 0" by (subst space_width_before) simp_all
  then show ?case using Cons(1) [of "cur @ [c]"] solid_drop [OF Cons(2), of 1] by (simp add: fields_after.simps(2))
qed

lemma fields_after_end: "solid s \<Longrightarrow> fields_after cur s = (if cur @ s = [] then [] else [cur @ s])"
proof (induction s arbitrary: cur)
  case (Cons c s)
  have "space_width (c # s) = 0" using Cons(2) by (force simp: solid_def)
  then show ?case using Cons(1) [of "cur @ [c]"] solid_drop [OF Cons(2), of 1] by (simp add: fields_after.simps(2))
qed simp

lemma Fields_join: "\<forall>f \<in> set fs. solid f \<and> f \<noteq> [] \<Longrightarrow> Fields (join1 fs CHR '' '') = fs"
proof (induction fs "CHR '' ''" rule: join1.induct)
  case (2 w)
  then show ?case by (simp add: Fields_def fields_after_end)
next
  case (3 w v vs)
  then show ?case by (simp add: Fields_def fields_after_solid)
qed (simp add: Fields_def)

text \<open>What \<open>Fields\<close> gives back is solid: white space in a part is white space in the whole.\<close>

lemma space_width_longer: "space_width t \<noteq> 0 \<Longrightarrow> space_width (t @ r) \<noteq> 0"
proof -
  have same: "take n (t @ r) = w" if "take n t = w" "length w = n" for n w using that by auto
  assume "space_width t \<noteq> 0"
  then consider (space) "t \<noteq> []" "is_space_char (hd t)" | (two) w where "w \<in> {[CHR 0xC2, CHR 0x85], [CHR 0xC2, CHR 0xA0]}" "take 2 t = w"
    | (three) "take 3 t \<in> set wide_spaces" unfolding space_width_cases by blast
  then show ?thesis
  proof cases
    case space
    then show ?thesis unfolding space_width_cases by simp
  next
    case (two w)
    then have "take 2 (t @ r) = w" by (intro same) auto
    then show ?thesis using two(1) unfolding space_width_cases by blast
  next
    case three
    then have "take 3 (t @ r) = take 3 t" using wide_chars [OF three] by (intro same) (rule refl, blast)
    then show ?thesis using three unfolding space_width_cases by metis
  qed
qed

lemma fields_after_out:
  "\<forall>i < length cur. space_width (drop i cur @ s) = 0 \<Longrightarrow> f \<in> set (fields_after cur s) \<Longrightarrow> solid f \<and> f \<noteq> []"
proof (induction cur s rule: fields_after.induct)
  case (1 cur)
  then show ?case by (auto simp: solid_def split: if_split_asm)
next
  case (2 cur c s)
  have cur: "solid cur" unfolding solid_def using 2(3) space_width_longer by blast
  show ?case
  proof (cases "space_width (c # s) = 0")
    case True
    have "\<forall>i < length (cur @ [c]). space_width (drop i (cur @ [c]) @ s) = 0"
    proof (intro allI impI)
      fix i assume "i < length (cur @ [c])"
      then show "space_width (drop i (cur @ [c]) @ s) = 0" using 2(3) True by (cases "i < length cur") auto
    qed
    then show ?thesis using 2(1) [OF True] 2(4) True by (simp add: fields_after.simps(2))
  next
    case False
    then show ?thesis using 2(2) [OF False] 2(4) cur by (auto simp: fields_after.simps(2) split: if_split_asm)
  qed
qed

lemma Fields_solid: "f \<in> set (Fields s) \<Longrightarrow> solid f \<and> f \<noteq> []"
  unfolding Fields_def by (rule fields_after_out [of "[]"]) simp_all

text \<open>Every character of a field comes from the text.\<close>

lemma fields_after_chars: "f \<in> set (fields_after cur s) \<Longrightarrow> set f \<subseteq> set cur \<union> set s"
proof (induction cur s rule: fields_after.induct)
  case (2 cur c s)
  have d: "set (drop n (c # s)) \<subseteq> set (c # s)" for n by (rule set_drop_subset)
  show ?case
  proof (cases "space_width (c # s) = 0")
    case True
    then show ?thesis using 2(1) [OF True] 2(3) by (auto simp: fields_after.simps(2))
  next
    case False
    then show ?thesis using 2(2) [OF False] 2(3) d [of "space_width (c # s)"] by (auto simp: fields_after.simps(2) split: if_split_asm)
  qed
qed (simp split: if_split_asm)

section \<open>Trimming\<close>

lemma trim_front_none: "space_width s = 0 \<Longrightarrow> trim_front s = s"
  by (subst trim_front.simps) simp

lemma trim_back_none: "last_space s = 0 \<Longrightarrow> trim_back s = s"
  by (subst trim_back.simps) simp

lemma width_chars: "space_width t = n \<Longrightarrow> n = 2 \<or> n = 3 \<Longrightarrow> CHR '' '' \<notin> set (take n t)"
proof -
  assume w: "space_width t = n" "n = 2 \<or> n = 3"
  show ?thesis
  proof (cases "n = 2")
    case True
    then have "take 2 t \<in> {[CHR 0xC2, CHR 0x85], [CHR 0xC2, CHR 0xA0]}" using w(1) by (simp add: space_width_def split: if_split_asm)
    then show ?thesis unfolding True by auto
  next
    case False
    then have "n = 3" using w(2) by simp
    then have "take 3 t \<in> set wide_spaces" using w(1) by (simp add: space_width_def split: if_split_asm)
    then show ?thesis using wide_chars \<open>n = 3\<close> by blast
  qed
qed

text \<open>A solid text does not end in white space, also behind a space.\<close>

lemma solid_last:
  assumes "solid f" "f \<noteq> []"
  shows "last_space (p @ CHR '' '' # f) = 0" "last_space f = 0"
proof -
  let ?s = "p @ CHR '' '' # f"
  have short: "space_width (drop (length t - n) t) = 0" if "t = ?s \<or> t = f" "n \<le> length f" "0 < n" for t n
  proof -
    have "drop (length t - n) t = drop (length f - n) f" using that by (auto simp: Suc_diff_le)
    then show ?thesis using assms(1) that unfolding solid_def by auto
  qed
  have one: "\<not> is_space_char (last t)" if "t = ?s \<or> t = f" for t
  proof
    assume a: "is_space_char (last t)"
    have "t \<noteq> []" using that assms(2) by auto
    then have "drop (length t - 1) t = [last t]" by (metis append_butlast_last_id append_eq_conv_conj length_butlast)
    moreover have "space_width (drop (length t - 1) t) = 0" by (rule short [OF that]) (use assms(2) in \<open>cases f; simp\<close>)+
    ultimately show False using a by (simp add: space_width_def)
  qed
  have long: "space_width (drop (length ?s - n) ?s) \<noteq> n" if "length f < n" "n = 2 \<or> n = 3" for n
  proof
    assume w: "space_width (drop (length ?s - n) ?s) = n"
    let ?t = "drop (length ?s - n) ?s"
    have "CHR '' '' \<in> set ?t" using that(1) by (cases "n - Suc (length f)") (auto simp: drop_Cons' not_less)
    moreover have "take n ?t = ?t" using that by (intro take_all) simp
    moreover have "CHR '' '' \<notin> set (take n ?t)"
      by (rule width_chars [OF w that(2)])
    ultimately show False by simp
  qed
  have "space_width (drop (length ?s - n) ?s) \<noteq> n" if "n = 2 \<or> n = 3" for n
    using short [of ?s n] long [of n] that by (cases "n \<le> length f") auto
  then have "space_width (drop (length ?s - 2) ?s) \<noteq> 2" "space_width (drop (length ?s - 3) ?s) \<noteq> 3" by blast+
  then show "last_space ?s = 0" unfolding last_space_def using one [of ?s] by (simp only: simp_thms if_False refl)
  show "last_space f = 0" using one [of f] short [of f 2] short [of f 3] by (simp add: last_space_def)
qed

lemma solid_trimmed: "solid f \<Longrightarrow> TrimWide f = f"
proof (cases "f = []")
  case True
  then show ?thesis by (simp add: TrimWide_def trim_front_none trim_back_none last_space_def)
next
  case False
  assume s: "solid f"
  have "space_width (drop 0 f) = 0" using s False unfolding solid_def by blast
  then show ?thesis using solid_last(2) [OF s False] by (simp add: TrimWide_def trim_front_none trim_back_none)
qed

end
