(* ===== verification/TorBridgeProps.thy ===== *)
theory TorBridgeProps
  imports TorBridgeText
begin

text \<open>
  What the normalisation of bridge lines guarantees. A bridge that was read and checked is safe (\<open>safe_bridge\<close>); the
  line of a safe bridge is short enough, splits into its parts and is read back as that bridge. Hence an accepted line
  or configuration is a fixed point of the normalisation, and a saved profile can always be loaded.
\<close>

section \<open>The parts of a line\<close>

definition line_transports :: "string list" where
  "line_transports = [''obfs4'', ''meek_lite'', ''snowflake'', ''webtunnel'']"

lemma transport_cases:
  assumes "normalizeTorTransport v = Inr t"
  shows "t = ''custom'' \<or> t \<in> set line_transports"
  using assms unfolding normalizeTorTransport_def Let_def line_transports_def
  by (auto split: if_split_asm simp del: char.inject)

lemma transport_facts:
  "list_all (\<lambda>t. normalizeTorTransport t = Inr t \<and> t \<noteq> [] \<and> t \<noteq> ''custom'' \<and> list_all plain_char t \<and> \<not> EqualFold t ''Bridge''
     \<and> length t \<le> 9 \<and> TrimWide t \<noteq> []) line_transports"
  by code_simp

lemma custom_transport: "normalizeTorTransport ''custom'' = Inr ''custom''"
  by code_simp

lemma custom_trimmed: "TrimWide ''custom'' \<noteq> []"
  by code_simp

lemma Contains_char: "Contains s [c] \<longleftrightarrow> c \<in> set s"
proof
  assume "Contains s [c]"
  then obtain i where "take 1 (drop i s) = [c]" by (auto simp: Contains_def)
  then show "c \<in> set s" by (metis in_set_dropD in_set_takeD list.set_intros(1))
next
  assume "c \<in> set s"
  then obtain i where i: "i < length s" "s ! i = c" by (auto simp: in_set_conv_nth)
  then have "take 1 (drop i s) = [c]" by (simp add: take_Suc hd_drop_conv_nth)
  then show "Contains s [c]" using i(1) by (auto simp: Contains_def)
qed

definition addr_char :: "char \<Rightarrow> bool" where
  "addr_char c \<longleftrightarrow> hex_digit c \<noteq> None \<or> c = CHR '':'' \<or> c = CHR ''.''"

lemma addr_chars: "addr_char c \<Longrightarrow> plain_char c \<and> c \<notin> set ''[]='' \<and> c \<notin> set line_breaks"
  by (auto simp: addr_char_def hex_digit_def plain_char_def is_space_char_def line_breaks_def Let_def split: if_split_asm)

lemma digit_addr_char: "is_digit_char c \<Longrightarrow> addr_char c \<and> c \<noteq> CHR '':'' \<and> c \<noteq> CHR ''.''"
  by (auto simp: addr_char_def is_digit_char_def hex_digit_def less_eq_char_def Let_def)

lemma length_join1: "\<forall>w \<in> set ws. length w \<le> n \<Longrightarrow> length (join1 ws c) \<le> Suc n * length ws"
  by (induction ws c rule: join1.induct) auto

lemma join1_chars: "set (join1 ws c) \<subseteq> insert c (\<Union> (set ` set ws))"
  by (induction ws c rule: join1.induct) auto

lemma v4_text_facts:
  assumes "length bs = 4" "byte_list bs"
  shows "list_all addr_char (v4_text bs)" "length (v4_text bs) \<le> 16" "v4_text bs \<noteq> []"
proof -
  have d: "\<forall>c \<in> set (Itoa b). is_digit_char c" "length (Itoa b) \<le> 3" if "b \<in> set bs" for b
    using that assms(2) v4_field_Itoa [of b] Itoa_pos_length [of b 2]
    by (auto simp: byte_list_def list_all_iff Itoa_def)
  have "c \<in> set (v4_text bs) \<Longrightarrow> addr_char c" for c
    using join1_chars [of "map Itoa bs" "CHR ''.''"] d(1) digit_addr_char by (auto simp: v4_text_def addr_char_def)
  then show "list_all addr_char (v4_text bs)" by (simp add: list_all_iff)
  show "length (v4_text bs) \<le> 16" using length_join1 [of "map Itoa bs" 3] d(2) assms(1) by (simp add: v4_text_def)
  show "v4_text bs \<noteq> []" using assms(1) by (cases bs; cases "tl bs") (simp_all add: v4_text_def)
qed

lemma groups_text_facts:
  assumes "list_all group_ok gs"
  shows "list_all addr_char (groups_text gs)" "length (groups_text gs) \<le> 5 * length gs"
proof -
  show "list_all addr_char (groups_text gs)"
    using groups_text_chars [OF assms] by (auto simp: list_all_iff addr_char_def)
  have "\<forall>w \<in> set (map hex_group gs). length w \<le> 4" using assms hex_group_text(3) by (auto simp: list_all_iff)
  then show "length (groups_text gs) \<le> 5 * length gs" using length_join1 [of "map hex_group gs" 4] by (simp add: groups_text_def)
qed

lemma v6_text_facts:
  assumes "length bs = 16" "byte_list bs"
  shows "list_all addr_char (v6_text (pair_groups bs))" "length (v6_text (pair_groups bs)) \<le> 42"
    "v6_text (pair_groups bs) \<noteq> []" "CHR '':'' \<in> set (v6_text (pair_groups bs))"
proof -
  let ?gs = "pair_groups bs"
  have g: "list_all group_ok ?gs" "length ?gs = 8" using group_bytes_pairs [of bs] length_pair_groups [of bs] assms by simp_all
  obtain s e where r: "zero_run ?gs = (s, e)" by (rule prod.exhaust)
  have t: "v6_text ?gs = (if s = 255 then groups_text ?gs else groups_text (take s ?gs) @ ''::'' @ groups_text (drop e ?gs))"
    by (simp add: v6_text_def r groups_text_def)
  have ok: "list_all group_ok (take s ?gs)" "list_all group_ok (drop e ?gs)"
    using g(1) by (auto simp: list_all_iff dest: in_set_takeD in_set_dropD)
  have len: "length (take s ?gs) + length (drop e ?gs) \<le> 8 \<or> s = 255"
    using zero_run_span [of ?gs] g(2) by (auto simp: r zero_span_def)
  show "list_all addr_char (v6_text ?gs)"
    unfolding t using groups_text_facts(1) [OF g(1)] groups_text_facts(1) [OF ok(1)] groups_text_facts(1) [OF ok(2)]
    by (simp add: addr_char_def)
  show "length (v6_text ?gs) \<le> 42"
    unfolding t using groups_text_facts(2) [OF g(1)] groups_text_facts(2) [OF ok(1)] groups_text_facts(2) [OF ok(2)] g(2) len by auto
  show "CHR '':'' \<in> set (v6_text ?gs)" unfolding t using groups_text_colon [of ?gs] g(2) by simp
  then show "v6_text ?gs \<noteq> []" by auto
qed

lemma addr_text_facts:
  assumes "proper_ip ip"
  shows "list_all addr_char (addr_String ip)" "length (addr_String ip) \<le> 42" "addr_String ip \<noteq> []"
  using assms v4_text_facts v6_text_facts by (cases ip; fastforce)+

lemma no_trim: "\<forall>c \<in> set s. c \<notin> set cs \<Longrightarrow> Trim s cs = s"
proof -
  assume "\<forall>c \<in> set s. c \<notin> set cs"
  then have "dropWhile (\<lambda>c. c \<in> set cs) xs = xs" if "set xs \<subseteq> set s" for xs using that by (cases xs) auto
  then show ?thesis by (simp add: Trim_def trim_by_def)
qed

lemma last_colon_at:
  "\<forall>c \<in> set p. c \<noteq> CHR '':'' \<Longrightarrow> last_colon (h @ CHR '':'' # p) = Some (length h)"
proof -
  let ?s = "h @ CHR '':'' # p"
  assume p: "\<forall>c \<in> set p. c \<noteq> CHR '':''"
  have "takeWhile (\<lambda>c. c \<noteq> CHR '':'') (rev p @ CHR '':'' # rev h) = rev p"
    using p by (subst takeWhile_append2) simp_all
  then have "length (takeWhile (\<lambda>c. c \<noteq> CHR '':'') (rev ?s)) = length p" by simp
  then show ?thesis unfolding last_colon_def by simp
qed

lemma split_joined:
  assumes "\<forall>c \<in> set host. c \<notin> set ''[]''" "\<forall>c \<in> set port. c \<notin> set '':[]''"
  shows "SplitHostPort (JoinHostPort host port) = Some (host, port)"
proof (cases "CHR '':'' \<in> set host")
  case True
  let ?s = "CHR ''['' # host @ '']:'' @ port"
  have "takeWhile (\<lambda>c. c \<noteq> CHR '']'') (host @ CHR '']'' # CHR '':'' # port) = host"
    using assms(1) by (subst takeWhile_append2) auto
  then have e: "takeWhile (\<lambda>c. c \<noteq> CHR '']'') ?s = CHR ''['' # host" by simp
  have l: "last_colon ?s = Some (Suc (Suc (length host)))"
    using last_colon_at [of port "CHR ''['' # host @ '']''"] assms(2) by simp
  have n: "CHR ''['' \<notin> set (tl ?s)" "CHR '']'' \<notin> set (drop (Suc (Suc (length host))) ?s)"
    using assms by auto
  have "SplitHostPort ?s = Some (host, port)"
    unfolding SplitHostPort_def l e Let_def using n by simp
  then show ?thesis using True by (simp add: JoinHostPort_def)
next
  case False
  let ?s = "host @ CHR '':'' # port"
  have l: "last_colon ?s = Some (length host)" using last_colon_at [of port host] assms(2) by auto
  have "hd ?s \<noteq> CHR ''[''" using assms(1) by (cases host) auto
  then show ?thesis using assms False by (auto simp: SplitHostPort_def JoinHostPort_def l Let_def)
qed

lemma port_text:
  assumes "1 \<le> port" "port \<le> 65535"
  shows "Atoi (Itoa port) = Some port" "\<forall>c \<in> set (Itoa port). is_digit_char c" "length (Itoa port) \<le> 5" "Itoa port \<noteq> []"
  using Itoa_pos_digits [of port] Itoa_pos_length [of port 4] assms
  by (auto simp: Itoa_def Atoi_digits all_digits_def list_all_iff max_int64_def)

definition endpoint_ok :: "string \<Rightarrow> addr \<Rightarrow> int \<Rightarrow> bool" where
  "endpoint_ok t ip port \<longleftrightarrow> proper_ip ip \<and> \<not> IsLoopback ip \<and> \<not> IsLinkLocalUnicast ip \<and> \<not> IsUnspecified ip
     \<and> (t = ''obfs4'' \<longrightarrow> \<not> IsPrivate ip) \<and> 1 \<le> port \<and> port \<le> 65535"

lemma endpoint_read: "bridge_endpoint t f = Inr (ip, port) \<Longrightarrow> endpoint_ok t ip port"
  unfolding bridge_endpoint_def endpoint_ok_def
  by (auto dest: ParseIP_proper split: option.splits prod.splits if_split_asm)

lemma endpoint_text:
  assumes "endpoint_ok t ip port"
  shows "bridge_endpoint t (JoinHostPort (addr_String ip) (Itoa port)) = Inr (ip, port)"
    "list_all plain_char (JoinHostPort (addr_String ip) (Itoa port))"
    "\<forall>c \<in> set (JoinHostPort (addr_String ip) (Itoa port)). c \<notin> set line_breaks"
    "length (JoinHostPort (addr_String ip) (Itoa port)) \<le> 50"
    "JoinHostPort (addr_String ip) (Itoa port) \<noteq> []"
proof -
  have ip: "proper_ip ip" and port: "1 \<le> port" "port \<le> 65535" using assms by (simp_all add: endpoint_ok_def)
  note a = addr_text_facts [OF ip] and p = port_text [OF port]
  have h: "\<forall>c \<in> set (addr_String ip). c \<notin> set ''[]''" using a(1) addr_chars by (fastforce simp: list_all_iff)
  have d: "\<forall>c \<in> set (Itoa port). c \<notin> set '':[]''" using p(2) digit_addr_char addr_chars by fastforce
  show "bridge_endpoint t (JoinHostPort (addr_String ip) (Itoa port)) = Inr (ip, port)"
    using assms split_joined [OF h d] no_trim [OF h] ParseIP_text [OF ip] p(1) by (simp add: bridge_endpoint_def endpoint_ok_def)
  have brackets: "plain_char CHR ''[''" "plain_char CHR '']''" "plain_char CHR '':''" by code_simp+
  have chars: "plain_char c \<and> c \<notin> set line_breaks" if "c \<in> set (addr_String ip) \<union> set (Itoa port)" for c
    using that a(1) p(2) digit_addr_char addr_chars unfolding list_all_iff by blast
  then show "list_all plain_char (JoinHostPort (addr_String ip) (Itoa port))"
    by (auto simp: JoinHostPort_def list_all_iff brackets)
  show "\<forall>c \<in> set (JoinHostPort (addr_String ip) (Itoa port)). c \<notin> set line_breaks"
    using chars by (auto simp: JoinHostPort_def line_breaks_def)
  show "length (JoinHostPort (addr_String ip) (Itoa port)) \<le> 50" "JoinHostPort (addr_String ip) (Itoa port) \<noteq> []"
    using a(2) p(3) by (auto simp: JoinHostPort_def)
qed

section \<open>The fingerprint\<close>

definition upper_hex :: "char \<Rightarrow> bool" where
  "upper_hex c \<longleftrightarrow> hex_digit c \<noteq> None \<and> upper_char c = c"

lemma hex_upper:
  assumes "hex_digit c \<noteq> None"
  shows "upper_hex (upper_char c)"
proof (cases "CHR ''a'' \<le> c \<and> c \<le> CHR ''z''")
  case True
  let ?n = "of_char c :: nat"
  have n: "97 \<le> ?n" "?n \<le> 102" using assms True by (auto simp: hex_digit_def less_eq_char_def Let_def split: if_split_asm)
  have d: "of_char (char_of (?n - 32) :: char) = ?n - 32" using n by simp
  then have "\<not> CHR ''a'' \<le> (char_of (?n - 32) :: char)" using n by (simp add: less_eq_char_def)
  moreover have "hex_digit (char_of (?n - 32)) \<noteq> None" using n d by (simp add: hex_digit_def Let_def)
  ultimately show ?thesis using True by (simp add: upper_hex_def upper_char_def)
next
  case False
  then have "upper_char c = c" by (auto simp: upper_char_def)
  then show ?thesis using assms by (simp only: upper_hex_def simp_thms)
qed

lemma upper_hex_digits:
  assumes "upper_hex c"
  shows "c \<in> set ''0123456789ABCDEF''"
proof -
  let ?n = "of_char c :: nat"
  have "\<not> (97 \<le> ?n \<and> ?n \<le> 122)"
  proof
    assume n: "97 \<le> ?n \<and> ?n \<le> 122"
    then have "char_of (?n - 32) = c" using assms by (simp add: upper_hex_def upper_char_def less_eq_char_def)
    then have same: "of_char (char_of (?n - 32) :: char) = ?n" by simp
    have "?n - 32 < 256" using n by linarith
    then have "?n - 32 = ?n" using same by (simp add: of_char_of)
    then show False using n by linarith
  qed
  then have "?n \<in> {48..57} \<or> ?n \<in> {65..70}"
    using assms by (auto simp: upper_hex_def hex_digit_def Let_def split: if_split_asm)
  then have "?n \<in> set ([48..<58] @ [65..<71])"
    by (simp only: set_append set_upt Un_iff atLeastLessThan_iff atLeastAtMost_iff) linarith
  moreover have "map of_char ''0123456789ABCDEF'' = [48..<58] @ [65..<71 :: nat]" by simp
  ultimately have "?n \<in> set (map of_char ''0123456789ABCDEF'')" by (simp only:)
  then have "?n \<in> of_char ` set ''0123456789ABCDEF''" by (simp only: set_map)
  then show ?thesis by (rule imageE) (simp only: of_char_eq_iff)
qed

lemma upper_hex_chars: "upper_hex c \<Longrightarrow> plain_char c \<and> c \<noteq> CHR ''='' \<and> c \<notin> set line_breaks"
  using addr_chars [of c] by (auto simp: upper_hex_def addr_char_def)

definition fingerprint_ok :: "string \<Rightarrow> bool" where
  "fingerprint_ok fp \<longleftrightarrow> length fp = 40 \<and> list_all upper_hex fp"

lemma identity_read:
  assumes "bridge_identity t f = Inr fp" "solid f"
  shows "(fp = [] \<and> t = ''meek_lite'' \<and> CHR ''='' \<in> set f) \<or> fingerprint_ok fp"
proof (cases "t \<noteq> ''meek_lite'' \<or> \<not> Contains f ''=''")
  case True
  then have "validTorFingerprint f" "fp = map upper_char f" using assms(1) by (auto simp: bridge_identity_def split: if_split_asm)
  then have "length fp = 40" "list_all upper_hex fp"
    using hex_upper solid_trimmed [OF assms(2)] by (auto simp: validTorFingerprint_def list_all_iff)
  then show ?thesis by (simp add: fingerprint_ok_def)
qed (use assms(1) in \<open>auto simp: bridge_identity_def Contains_char\<close>)

lemma fingerprint_text:
  assumes "fingerprint_ok fp"
  shows "bridge_identity t fp = Inr fp" "list_all plain_char fp" "\<forall>c \<in> set fp. c \<notin> set line_breaks" "length fp = 40" "fp \<noteq> []"
proof -
  have u: "\<forall>c \<in> set fp. upper_hex c" and l: "length fp = 40" using assms by (auto simp: fingerprint_ok_def list_all_iff)
  show p: "list_all plain_char fp" "\<forall>c \<in> set fp. c \<notin> set line_breaks" using u upper_hex_chars by (auto simp: list_all_iff)
  have "CHR ''='' \<notin> set fp" using u upper_hex_chars by blast
  moreover have "map upper_char fp = fp" using u by (intro map_idI) (simp add: upper_hex_def)
  moreover have "validTorFingerprint fp"
    using solid_trimmed [OF solid_plain [OF p(1)]] u l by (simp add: validTorFingerprint_def list_all_iff upper_hex_def)
  ultimately show "bridge_identity t fp = Inr fp" by (simp add: bridge_identity_def Contains_char)
  show "length fp = 40" "fp \<noteq> []" using l by auto
qed

section \<open>The options\<close>

definition option_names :: "string list" where
  "option_names = [''cert'', ''iat-mode'', ''url'', ''front'', ''utls'', ''utls-imitate'', ''fingerprint'', ''ice'', ''ver'']"

lemma name_facts:
  "list_all (\<lambda>k. k \<noteq> [] \<and> LowerWide (TrimWide k) = k \<and> CHR ''='' \<notin> set k \<and> list_all plain_char k
     \<and> \<not> ContainsAny k line_breaks \<and> length k \<le> 12) option_names"
  by code_simp

definition option_value :: "string \<Rightarrow> bool" where
  "option_value v \<longleftrightarrow> v \<noteq> [] \<and> solid v \<and> \<not> ContainsAny v line_breaks"

lemma ContainsAny_iff: "ContainsAny s cs \<longleftrightarrow> (\<exists>c \<in> set s. c \<in> set cs)"
  by (simp add: ContainsAny_def list_ex_iff)

lemma cut_joined: "CHR ''='' \<notin> set k \<Longrightarrow> cut_equals (k @ CHR ''='' # v) = Some (k, v)"
proof -
  assume "CHR ''='' \<notin> set k"
  then have "takeWhile (\<lambda>c. c \<noteq> CHR ''='') (k @ CHR ''='' # v) = k" "dropWhile (\<lambda>c. c \<noteq> CHR ''='') (k @ CHR ''='' # v) = CHR ''='' # v"
    by (subst takeWhile_append2 dropWhile_append2; auto)+
  then show ?thesis by (simp add: cut_equals_def)
qed

lemma cut_value: "cut_equals f = Some (k, v) \<Longrightarrow> solid f \<Longrightarrow> solid v"
proof -
  assume "cut_equals f = Some (k, v)" "solid f"
  then have "v = drop (Suc (length (takeWhile (\<lambda>c. c \<noteq> CHR ''='') f))) f"
    by (auto simp: cut_equals_def dropWhile_eq_drop tl_drop drop_Suc split: if_split_asm)
  then show ?thesis using solid_drop \<open>solid f\<close> by simp
qed

lemma options_read:
  "bridge_options os fs = Inr os' \<Longrightarrow> \<forall>f \<in> set fs. solid f \<Longrightarrow> distinct (map fst os) \<Longrightarrow> \<forall>kv \<in> set os. option_value (snd kv) \<Longrightarrow>
   distinct (map fst os') \<and> (\<forall>kv \<in> set os'. option_value (snd kv)) \<and> length os' = length os + length fs"
proof (induction os fs rule: bridge_options.induct)
  case (2 os f fs)
  obtain k v where c: "cut_equals f = Some (k, v)" using 2(2) by (cases "cut_equals f") auto
  let ?k = "LowerWide (TrimWide k)"
  have ok: "v \<noteq> []" "\<not> ContainsAny (?k @ v) line_breaks" "?k \<notin> fst ` set os" "bridge_options (os @ [(?k, v)]) fs = Inr os'"
    using 2(2) by (auto simp: c Let_def split: if_split_asm)
  have "option_value v" using ok(1,2) cut_value [OF c] 2(3) by (auto simp: option_value_def ContainsAny_iff)
  then show ?case using 2(1) [OF c refl refl _ _ ok(4)] 2(2-5) ok(3,4) c by (auto simp: Let_def split: if_split_asm)
qed auto

lemma options_text:
  "set (map fst new) \<subseteq> set option_names \<Longrightarrow> distinct (map fst (os @ new)) \<Longrightarrow> \<forall>kv \<in> set new. option_value (snd kv) \<Longrightarrow>
   bridge_options os (map option_text new) = Inr (os @ new)"
proof (induction new arbitrary: os)
  case (Cons kv new)
  obtain k v where kv: "kv = (k, v)" by (rule prod.exhaust)
  have k: "k \<noteq> []" "LowerWide (TrimWide k) = k" "CHR ''='' \<notin> set k" "\<not> ContainsAny k line_breaks"
    using Cons(2) name_facts by (auto simp: kv list_all_iff)
  have v: "v \<noteq> []" "\<not> ContainsAny v line_breaks" using Cons(4) by (simp_all add: kv option_value_def)
  have "\<not> ContainsAny (k @ v) line_breaks" using k(4) v(2) by (auto simp: ContainsAny_iff)
  moreover have "k \<notin> fst ` set os" using Cons(3) by (auto simp: kv)
  moreover have "bridge_options (os @ [(k, v)]) (map option_text new) = Inr ((os @ [(k, v)]) @ new)"
    by (rule Cons(1)) (use Cons(2-4) in \<open>auto simp: kv\<close>)
  moreover have "cut_equals (option_text kv) = Some (k, v)" using cut_joined [OF k(3), of v] by (simp add: kv option_text_def)
  ultimately show ?case using k(1,2) v(1) by (simp add: kv Let_def)
qed simp

lemma option_part:
  assumes "fst kv \<in> set option_names" "option_value (snd kv)"
  shows "solid (option_text kv)" "option_text kv \<noteq> []" "CHR ''='' \<in> set (option_text kv)"
    "\<forall>c \<in> set (option_text kv). c \<notin> set line_breaks" "length (option_text kv) \<le> 13 + length (snd kv)"
proof -
  have k: "list_all plain_char (fst kv)" "\<not> ContainsAny (fst kv) line_breaks" "length (fst kv) \<le> 12"
    using assms(1) name_facts by (auto simp: list_all_iff)
  have "plain_char CHR ''=''" by code_simp
  then have "list_all plain_char (fst kv @ ''='')" using k(1) by simp
  then have "solid ((fst kv @ ''='') @ snd kv)" using assms(2) by (intro solid_after) (auto simp: option_value_def)
  then show "solid (option_text kv)" by (simp add: option_text_def)
  show "option_text kv \<noteq> []" "CHR ''='' \<in> set (option_text kv)" "length (option_text kv) \<le> 13 + length (snd kv)"
    using k(3) by (simp_all add: option_text_def)
  show "\<forall>c \<in> set (option_text kv). c \<notin> set line_breaks"
    using k(2) assms(2) by (auto simp: option_text_def option_value_def ContainsAny_iff line_breaks_def)
qed

definition transport_options :: "string \<Rightarrow> string list" where
  "transport_options t =
     (if t = ''obfs4'' then [''cert'', ''iat-mode'']
      else if t = ''meek_lite'' then [''url'', ''front'', ''utls'', ''utls-imitate'']
      else if t = ''snowflake'' then [''fingerprint'', ''url'', ''front'', ''ice'', ''utls-imitate'']
      else [''url'', ''ver''])"

definition option_limit :: "string \<Rightarrow> nat" where
  "option_limit k =
     (if k = ''cert'' then 1024 else if k = ''iat-mode'' then 1 else if k = ''url'' then 2048 else if k = ''front'' then 1024
      else if k = ''ice'' then 4096 else if k = ''fingerprint'' then 40 else if k = ''ver'' then 64 else 128)"

lemma transport_options_facts:
  "list_all (\<lambda>t. list_all (\<lambda>k. k \<in> set option_names) (transport_options t) \<and> distinct (transport_options t)
     \<and> sum_list (map (\<lambda>k. 14 + option_limit k) (transport_options t)) \<le> 8000) line_transports"
  by code_simp

lemma option_of_member: "distinct (map fst os) \<Longrightarrow> kv \<in> set os \<Longrightarrow> option_of os (fst kv) = snd kv"
  by (cases kv) (simp add: option_of_def)

lemma value_bounds:
  "validTorHTTPSURL u v \<Longrightarrow> length v \<le> 2048" "validTorFrontList v \<Longrightarrow> length v \<le> 1024" "validTorICEList v \<Longrightarrow> length v \<le> 4096"
  "optional validTorUTLS v \<Longrightarrow> length v \<le> 128" "solid v \<Longrightarrow> validTorFingerprint v \<Longrightarrow> length v \<le> 40"
  by (auto simp: validTorHTTPSURL_def validTorFrontList_def validTorICEList_def validTorUTLS_def optional_def validTorFingerprint_def
      solid_trimmed split: if_split_asm)

lemma snowflake_bounds:
  assumes "snowflake_options u fp os = Inr ()" "solid (option_of os ''fingerprint'')"
  shows "list_all (\<lambda>k. length (option_of os k) \<le> option_limit k) (transport_options ''snowflake'')"
proof -
  have v: "validTorHTTPSURL u (option_of os ''url'')" "validTorFrontList (option_of os ''front'')" "validTorICEList (option_of os ''ice'')"
    "optional validTorUTLS (option_of os ''utls-imitate'')" "validTorFingerprint (option_of os ''fingerprint'')"
    using assms unfolding snowflake_options_def by (simp_all split: if_split_asm)
  note l = value_bounds(1) [OF v(1)] value_bounds(2) [OF v(2)] value_bounds(3) [OF v(3)] value_bounds(4) [OF v(4)]
    value_bounds(5) [OF assms(2) v(5)]
  show ?thesis using l by (simp add: transport_options_def option_limit_def)
qed

lemma meek_bounds:
  assumes "meek_options u os = Inr ()"
  shows "list_all (\<lambda>k. length (option_of os k) \<le> option_limit k) (transport_options ''meek_lite'')"
proof -
  have v: "validTorHTTPSURL u (option_of os ''url'')" "validTorFrontList (option_of os ''front'')"
    "optional validTorUTLS (option_of os ''utls'')" "optional validTorUTLS (option_of os ''utls-imitate'')"
    using assms unfolding meek_options_def by (simp_all split: if_split_asm)
  note l = value_bounds(1) [OF v(1)] value_bounds(2) [OF v(2)] value_bounds(4) [OF v(3)] value_bounds(4) [OF v(4)]
  show ?thesis using l by (simp add: transport_options_def option_limit_def)
qed

lemma webtunnel_bounds:
  assumes "webtunnel_options u os = Inr ()"
  shows "list_all (\<lambda>k. length (option_of os k) \<le> option_limit k) (transport_options ''webtunnel'')"
proof -
  have v: "validTorHTTPSURL u (option_of os ''url'')" "length (option_of os ''ver'') \<le> 64"
    using assms unfolding webtunnel_options_def by (simp_all split: if_split_asm)
  show ?thesis using value_bounds(1) [OF v(1)] v(2) by (simp add: transport_options_def option_limit_def)
qed

lemma obfs4_bounds:
  assumes "obfs4_options os = Inr ()"
  shows "list_all (\<lambda>k. length (option_of os k) \<le> option_limit k) (transport_options ''obfs4'')"
proof -
  have v: "length (option_of os ''cert'') \<le> 1024" "map_of os ''iat-mode'' \<in> {None, Some ''0'', Some ''1'', Some ''2''}"
    using assms unfolding obfs4_options_def by (simp_all split: if_split_asm)
  from v(2) have "length (option_of os ''iat-mode'') \<le> 1"
    by (elim insertE emptyE) (simp_all add: option_of_def)
  then show ?thesis using v(1) by (simp add: transport_options_def option_limit_def)
qed

lemma option_ofs_bounded:
  assumes "check_options u t fp os = Inr ()" "t \<in> set line_transports" "\<forall>k. solid (option_of os k)"
  shows "list_all (\<lambda>k. length (option_of os k) \<le> option_limit k) (transport_options t)"
proof -
  consider "t = ''obfs4''" | "t = ''meek_lite''" | "t = ''snowflake''" | "t = ''webtunnel''"
    using assms(2) by (auto simp: line_transports_def)
  then show ?thesis
  proof cases
    case 1
    then have "obfs4_options os = Inr ()" using assms(1) by (simp add: check_options_def)
    then show ?thesis unfolding 1 by (rule obfs4_bounds)
  next
    case 2
    then have "meek_options u os = Inr ()" using assms(1) by (simp add: check_options_def)
    then show ?thesis unfolding 2 by (rule meek_bounds)
  next
    case 3
    then have "snowflake_options u fp os = Inr ()" using assms(1) by (simp add: check_options_def)
    then show ?thesis unfolding 3 using assms(3) by (intro snowflake_bounds) simp_all
  next
    case 4
    then have "webtunnel_options u os = Inr ()" using assms(1) by (simp add: check_options_def)
    then show ?thesis unfolding 4 by (rule webtunnel_bounds)
  qed
qed

lemma option_of_solid: "\<forall>kv \<in> set os. option_value (snd kv) \<Longrightarrow> solid (option_of os k)"
  by (cases "map_of os k") (force simp: option_of_def option_value_def solid_plain dest: map_of_SomeD)+

lemma option_names_known:
  assumes "check_options u t fp os = Inr ()" "t \<in> set line_transports"
  shows "set (map fst os) \<subseteq> set (transport_options t)"
proof -
  have "known_options (transport_options t) os"
    using assms unfolding check_options_def obfs4_options_def meek_options_def snowflake_options_def webtunnel_options_def
    by (auto simp: transport_options_def line_transports_def split: if_split_asm)
  then show ?thesis by (auto simp: known_options_def list_all_iff)
qed

lemma sum_over_names:
  fixes f :: "'a \<Rightarrow> nat"
  assumes "distinct ks" "distinct names" "set ks \<subseteq> set names"
  shows "sum_list (map f ks) \<le> sum_list (map f names)"
  using assms by (simp add: sum_list_distinct_conv_sum_set sum_mono2)

lemma options_length:
  assumes "check_options u t fp os = Inr ()" "t \<in> set line_transports" "distinct (map fst os)" "\<forall>kv \<in> set os. option_value (snd kv)"
  shows "sum_list (map (\<lambda>kv. Suc (length (option_text kv))) os) \<le> 8000"
proof -
  note names = option_names_known [OF assms(1,2)]
  have t: "list_all (\<lambda>k. k \<in> set option_names) (transport_options t)" "distinct (transport_options t)"
    "sum_list (map (\<lambda>k. 14 + option_limit k) (transport_options t)) \<le> 8000"
    using transport_options_facts assms(2) by (simp_all add: list_all_iff)
  have limit: "list_all (\<lambda>k. length (option_of os k) \<le> option_limit k) (transport_options t)"
    by (rule option_ofs_bounded [OF assms(1,2)]) (use option_of_solid [OF assms(4)] in blast)
  have "Suc (length (option_text kv)) \<le> 14 + option_limit (fst kv)" if kv: "kv \<in> set os" for kv
  proof -
    have k: "fst kv \<in> set (transport_options t)" using names kv by auto
    then have "fst kv \<in> set option_names" using t(1) by (simp add: list_all_iff)
    moreover have "option_value (snd kv)" using assms(4) kv by blast
    moreover have "length (snd kv) \<le> option_limit (fst kv)"
      using limit [unfolded list_all_iff, rule_format, OF k] unfolding option_of_member [OF assms(3) kv] .
    ultimately show ?thesis using option_part(5) [of kv] by simp
  qed
  then have "sum_list (map (\<lambda>kv. Suc (length (option_text kv))) os) \<le> sum_list (map (\<lambda>kv. 14 + option_limit (fst kv)) os)"
    by (intro sum_list_mono) simp
  also have "\<dots> = sum_list (map (\<lambda>k. 14 + option_limit k) (map fst os))" by (simp add: comp_def)
  also have "\<dots> \<le> sum_list (map (\<lambda>k. 14 + option_limit k) (transport_options t))" by (rule sum_over_names [OF assms(3) t(2) names])
  finally show ?thesis using t(3) by simp
qed

section \<open>Accepted lines\<close>

definition safe_bridge :: "url_parser \<Rightarrow> bridge \<Rightarrow> bool" where
  "safe_bridge url_parse b \<longleftrightarrow>
     BTransport b \<in> set line_transports \<and> endpoint_ok (BTransport b) (BAddress b) (BPort b)
     \<and> (BFingerprint b = [] \<and> BTransport b = ''meek_lite'' \<and> BOptions b \<noteq> [] \<or> fingerprint_ok (BFingerprint b))
     \<and> distinct (map fst (BOptions b)) \<and> (\<forall>kv \<in> set (BOptions b). option_value (snd kv))
     \<and> check_options url_parse (BTransport b) (BFingerprint b) (BOptions b) = Inr ()"

lemma read_bridge_safe:
  assumes "read_bridge url_parse v = Inr b"
  shows "safe_bridge url_parse b"
proof -
  define fs where "fs = drop_keyword (Fields (TrimWide v))"
  from assms obtain t ip port fp os where r: "\<not> length fs < 3" "normalizeTorTransport (fs ! 0) = Inr t" "t \<noteq> ''custom''"
    "bridge_endpoint t (fs ! 1) = Inr (ip, port)" "bridge_identity t (fs ! 2) = Inr fp"
    "bridge_options [] (drop (if fp = [] then 2 else 3) fs) = Inr os" "check_options url_parse t fp os = Inr ()"
    "b = \<lparr>BTransport = t, BAddress = ip, BPort = port, BFingerprint = fp, BOptions = os\<rparr>"
    unfolding read_bridge_def Let_def fs_def [symmetric]
    by (auto simp: res_bind_Inr_iff split: if_split_asm sum.split_asm)
  have sub: "set fs \<subseteq> set (Fields (TrimWide v))"
    by (auto simp: fs_def drop_keyword_def dest: list.set_sel(2) split: if_split_asm)
  have solid: "\<forall>f \<in> set fs. solid f" using sub Fields_solid by blast
  have "fs ! 2 \<in> set fs" using r(1) by simp
  then have id: "(fp = [] \<and> t = ''meek_lite'' \<and> CHR ''='' \<in> set (fs ! 2)) \<or> fingerprint_ok fp"
    by (intro identity_read [OF r(5)]) (use solid in blast)
  have "\<forall>f \<in> set (drop (if fp = [] then 2 else 3) fs). solid f" using solid by (auto dest: in_set_dropD)
  note os = options_read [OF r(6) this, simplified]
  have "fp = [] \<Longrightarrow> os \<noteq> []" using os r(1) by auto
  moreover have "t \<in> set line_transports" using transport_cases [OF r(2)] r(3) by blast
  ultimately show ?thesis using endpoint_read [OF r(4)] id os r(7) unfolding safe_bridge_def r(8) by auto
qed

lemma safe_parts:
  assumes "safe_bridge u b"
  shows "\<forall>f \<in> set (bridge_fields b). solid f \<and> f \<noteq> [] \<and> (\<forall>c \<in> set f. c \<notin> set line_breaks)"
    "set (map fst (BOptions b)) \<subseteq> set option_names" "3 \<le> length (bridge_fields b)"
proof -
  have t: "BTransport b \<in> set line_transports" and ep: "endpoint_ok (BTransport b) (BAddress b) (BPort b)"
    and fp: "BFingerprint b = [] \<or> fingerprint_ok (BFingerprint b)"
    and os: "\<forall>kv \<in> set (BOptions b). option_value (snd kv)" "check_options u (BTransport b) (BFingerprint b) (BOptions b) = Inr ()"
    using assms by (auto simp: safe_bridge_def)
  have "set (transport_options (BTransport b)) \<subseteq> set option_names"
    using transport_options_facts t by (auto simp: list_all_iff)
  then show names: "set (map fst (BOptions b)) \<subseteq> set option_names" using option_names_known [OF os(2) t] by blast
  have "\<forall>t \<in> set line_transports. \<forall>c \<in> set t. c \<notin> set line_breaks" by code_simp
  then have p1: "solid (BTransport b) \<and> BTransport b \<noteq> [] \<and> (\<forall>c \<in> set (BTransport b). c \<notin> set line_breaks)"
    using transport_facts t solid_plain by (auto simp: list_all_iff)
  have p4: "solid (option_text kv) \<and> option_text kv \<noteq> [] \<and> (\<forall>c \<in> set (option_text kv). c \<notin> set line_breaks)"
    if "kv \<in> set (BOptions b)" for kv
    using option_part(1,2,4) [of kv] names os(1) that by auto
  show "\<forall>f \<in> set (bridge_fields b). solid f \<and> f \<noteq> [] \<and> (\<forall>c \<in> set f. c \<notin> set line_breaks)"
    using p1 p4 endpoint_text(2,3,5) [OF ep] fingerprint_text(2,3,5) [of "BFingerprint b"] fp solid_plain
    unfolding bridge_fields_def by auto
  show "3 \<le> length (bridge_fields b)" using assms by (auto simp: safe_bridge_def bridge_fields_def Suc_le_eq fingerprint_ok_def)
qed

lemma joined_length: "length (join1 ws c) \<le> sum_list (map (\<lambda>w. Suc (length w)) ws)"
  by (induction ws c rule: join1.induct) auto

lemma safe_length:
  assumes "safe_bridge u b"
  shows "length (join1 (bridge_fields b) CHR '' '') \<le> 8192"
proof -
  have s: "BTransport b \<in> set line_transports" "endpoint_ok (BTransport b) (BAddress b) (BPort b)"
    "BFingerprint b = [] \<or> fingerprint_ok (BFingerprint b)"
    using assms by (auto simp: safe_bridge_def)
  have o: "sum_list (map (\<lambda>kv. Suc (length (option_text kv))) (BOptions b)) \<le> 8000"
    by (rule options_length) (use assms in \<open>auto simp: safe_bridge_def\<close>)
  have t: "length (BTransport b) \<le> 9" using transport_facts s(1) by (auto simp: list_all_iff)
  have f: "length (BFingerprint b) \<le> 40" using s(3) by (auto simp: fingerprint_ok_def)
  have "sum_list (map (\<lambda>w. Suc (length w)) (bridge_fields b)) \<le> 8192"
    using o t f endpoint_text(4) [OF s(2)] by (simp add: bridge_fields_def comp_def)
  then show ?thesis using joined_length [of "bridge_fields b" "CHR '' ''"] by simp
qed

lemma join1_last: "2 \<le> length ws \<Longrightarrow> \<exists>p. join1 ws c = p @ c # last ws"
proof (induction ws c rule: join1.induct)
  case (3 w v vs c)
  show ?case
  proof (cases vs)
    case (Cons x xs)
    then obtain p where "join1 (v # vs) c = p @ c # last (v # vs)" using 3 by auto
    then have "join1 (w # v # vs) c = (w @ c # p) @ c # last (w # v # vs)" by simp
    then show ?thesis by blast
  qed auto
qed simp_all

lemma joined_trimmed:
  assumes "\<forall>f \<in> set fs. solid f \<and> f \<noteq> []" "2 \<le> length fs"
  shows "TrimWide (join1 fs CHR '' '') = join1 fs CHR '' ''"
proof -
  obtain f gs where fs: "fs = f # gs" "gs \<noteq> []" using assms(2) by (cases fs; cases "tl fs") auto
  then have j: "join1 fs CHR '' '' = f @ CHR '' '' # join1 gs CHR '' ''" by (cases gs) auto
  have f: "f \<noteq> []" "space_width f = 0" using assms(1) fs(1) unfolding solid_def by force+
  have front: "space_width (join1 fs CHR '' '') = 0" unfolding j using space_width_before [OF f(1)] f(2) by simp
  obtain p where p: "join1 fs CHR '' '' = p @ CHR '' '' # last fs" using join1_last [OF assms(2)] by blast
  have "last fs \<in> set fs" using fs(1) by simp
  then have "last_space (join1 fs CHR '' '') = 0" unfolding p using assms(1) by (intro solid_last(1)) auto
  then show ?thesis using front by (simp add: TrimWide_def trim_front_none trim_back_none)
qed

lemma space_no_break: "CHR '' '' \<notin> set line_breaks"
  by (simp add: line_breaks_def)

lemma safe_line:
  assumes "safe_bridge u b"
  shows "TrimWide (join1 (bridge_fields b) CHR '' '') = join1 (bridge_fields b) CHR '' ''"
    "Fields (join1 (bridge_fields b) CHR '' '') = bridge_fields b"
    "\<not> ContainsAny (join1 (bridge_fields b) CHR '' '') line_breaks"
    "join1 (bridge_fields b) CHR '' '' \<noteq> []"
    "drop_keyword (bridge_fields b) = bridge_fields b"
proof -
  note p = safe_parts [OF assms]
  have solid: "\<forall>f \<in> set (bridge_fields b). solid f \<and> f \<noteq> []" using p(1) by blast
  show "TrimWide (join1 (bridge_fields b) CHR '' '') = join1 (bridge_fields b) CHR '' ''"
    by (rule joined_trimmed [OF solid]) (use p(3) in simp)
  show F: "Fields (join1 (bridge_fields b) CHR '' '') = bridge_fields b" by (rule Fields_join [OF solid])
  show "\<not> ContainsAny (join1 (bridge_fields b) CHR '' '') line_breaks"
    using join1_chars [of "bridge_fields b" "CHR '' ''"] p(1) space_no_break unfolding ContainsAny_iff by blast
  show "join1 (bridge_fields b) CHR '' '' \<noteq> []" using F p(3) by (auto simp: Fields_def)
  have "\<not> EqualFold (BTransport b) ''Bridge''"
    using transport_facts assms unfolding safe_bridge_def list_all_iff by blast
  moreover have "hd (bridge_fields b) = BTransport b" by (simp add: bridge_fields_def)
  ultimately show "drop_keyword (bridge_fields b) = bridge_fields b" by (simp only: drop_keyword_def if_False simp_thms)
qed

text \<open>A safe bridge is read back from its line.\<close>

lemma safe_bridge_read:
  assumes "safe_bridge u b"
  shows "read_bridge u (join1 (bridge_fields b) CHR '' '') = Inr b"
proof -
  let ?t = "BTransport b" and ?fs = "bridge_fields b" and ?fp = "BFingerprint b"
  note l = safe_line [OF assms] and len = safe_length [OF assms] and p = safe_parts [OF assms]
  have s: "?t \<in> set line_transports" "endpoint_ok ?t (BAddress b) (BPort b)" "distinct (map fst (BOptions b))"
    "\<forall>kv \<in> set (BOptions b). option_value (snd kv)" "check_options u ?t ?fp (BOptions b) = Inr ()"
    "?fp = [] \<and> ?t = ''meek_lite'' \<and> BOptions b \<noteq> [] \<or> fingerprint_ok ?fp"
    using assms by (auto simp: safe_bridge_def)
  have t: "normalizeTorTransport ?t = Inr ?t" "?t \<noteq> ''custom''" using transport_facts s(1) by (simp_all add: list_all_iff)
  have f: "?fs ! 0 = ?t" "?fs ! 1 = JoinHostPort (addr_String (BAddress b)) (Itoa (BPort b))"
    "drop (if ?fp = [] then 2 else 3) ?fs = map option_text (BOptions b)" by (simp_all add: bridge_fields_def)
  have id: "bridge_identity ?t (?fs ! 2) = Inr ?fp"
  proof (cases "?fp = []")
    case True
    then obtain kv os where o: "BOptions b = kv # os" "?t = ''meek_lite''" using s(6) by (cases "BOptions b") (auto simp: fingerprint_ok_def)
    then have "?fs ! 2 = option_text kv" "CHR ''='' \<in> set (option_text kv)" using True by (simp_all add: bridge_fields_def option_text_def)
    then show ?thesis using True o(2) by (simp add: bridge_identity_def Contains_char)
  next
    case False
    then have "fingerprint_ok ?fp" "?fs ! 2 = ?fp" using s(6) by (simp_all add: bridge_fields_def)
    then show ?thesis using fingerprint_text(1) by simp
  qed
  have os: "bridge_options [] (map option_text (BOptions b)) = Inr (BOptions b)"
    using options_text [OF p(2), of "[]"] s(3,4) by simp
  have n: "\<not> length ?fs < 3" "\<not> 8192 < length (join1 ?fs CHR '' '')" using p(3) len by simp_all
  show ?thesis
    unfolding read_bridge_def Let_def l(1,2,5)
    using l(3,4) n by (simp only: f id os endpoint_text(1) [OF s(2)] t s(5) sum.case res_bind_simps prod.case simp_thms if_False) simp
qed

lemma line_of_bridge:
  "normalizeTorBridgeLine u v = Inr (line, host, t) \<longleftrightarrow>
   (\<exists>b. read_bridge u v = Inr b \<and> line = join1 (bridge_fields b) CHR '' '' \<and> host = addr_String (BAddress b) \<and> t = BTransport b)"
  unfolding normalizeTorBridgeLine_def res_bind_Inr_iff by auto

section \<open>An example\<close>

definition sample_bridge :: string where
  "sample_bridge = ''Bridge OBFS4 [::ffff:198.51.100.7]:0443 89abcdef0123456789abcdef0123456789abcdef Cert=+/aZ iat-mode=1 ''"

definition sample_line :: string where
  "sample_line = ''obfs4 198.51.100.7:443 89ABCDEF0123456789ABCDEF0123456789ABCDEF cert=+/aZ iat-mode=1''"

lemma sample_normalized: "normalizeTorBridgeLine (\<lambda>_. None) sample_bridge = Inr (sample_line, ''198.51.100.7'', ''obfs4'')"
  by code_simp

definition sample_config :: tor_config where
  "sample_config = \<lparr>TorTransport = ''obfs4'', TorBridges = [sample_line], TorSocksPort = 19050\<rparr>"

lemma sample_config_normalized:
  "normalizeExternalTorBridge (\<lambda>_. None) (Some \<lparr>TorTransport = '' obfs'', TorBridges = [sample_bridge], TorSocksPort = 0\<rparr>)
     = Inr (''198.51.100.7'', sample_config)"
proof -
  have "TrimWide '' obfs'' \<noteq> []" "normalizeTorTransport '' obfs'' = Inr ''obfs4''" by code_simp+
  then show ?thesis
    by (simp add: normalizeExternalTorBridge_def sample_normalized sample_config_def no_lines_def reserved_ports_def
      ExternalTorDefaultSocksPort_def)
qed

section \<open>Lines\<close>

text \<open>
  C37. An accepted bridge line is a single line of at most 8192 bytes without control characters that end a line. Split
  at white space it is the transport, a literal address with its port, the fingerprint in upper case and options. The
  address is its canonical text and neither loopback, link-local nor unspecified, for obfs4 not private; only meek may
  leave the fingerprint out; every option is known for the transport and none stands twice.
\<close>

theorem tor_line_safe:
  assumes "normalizeTorBridgeLine url_parse value = Inr (line, host, t)"
  shows "\<exists>ip port fp os. Fields line = [t, JoinHostPort host (Itoa port)] @ (if fp = [] then [] else [fp]) @ map option_text os
      \<and> length line \<le> 8192 \<and> \<not> ContainsAny line line_breaks \<and> t \<in> {''obfs4'', ''meek_lite'', ''snowflake'', ''webtunnel''}
      \<and> host = addr_String ip \<and> ParseIP host = Some ip \<and> \<not> IsLoopback ip \<and> \<not> IsLinkLocalUnicast ip \<and> \<not> IsUnspecified ip
      \<and> (t = ''obfs4'' \<longrightarrow> \<not> IsPrivate ip) \<and> 1 \<le> port \<and> port \<le> 65535
      \<and> (fp = [] \<longrightarrow> t = ''meek_lite'') \<and> (fp \<noteq> [] \<longrightarrow> length fp = 40 \<and> (\<forall>c \<in> set fp. c \<in> set ''0123456789ABCDEF''))
      \<and> distinct (map fst os) \<and> set (map fst os) \<subseteq> set (transport_options t)"
proof -
  obtain b where b: "read_bridge url_parse value = Inr b" "line = join1 (bridge_fields b) CHR '' ''" "host = addr_String (BAddress b)"
    "t = BTransport b" using assms by (auto simp: line_of_bridge)
  have s: "safe_bridge url_parse b" by (rule read_bridge_safe [OF b(1)])
  then have p: "t \<in> set line_transports" "endpoint_ok t (BAddress b) (BPort b)"
    "BFingerprint b = [] \<and> t = ''meek_lite'' \<and> BOptions b \<noteq> [] \<or> fingerprint_ok (BFingerprint b)"
    "distinct (map fst (BOptions b))" "check_options url_parse t (BFingerprint b) (BOptions b) = Inr ()"
    by (simp_all add: safe_bridge_def b(4))
  have fields: "Fields line = [t, JoinHostPort host (Itoa (BPort b))] @ (if BFingerprint b = [] then [] else [BFingerprint b]) @ map option_text (BOptions b)"
    unfolding b(2) safe_line(2) [OF s] by (simp add: bridge_fields_def b)
  have fp: "BFingerprint b \<noteq> [] \<longrightarrow> length (BFingerprint b) = 40 \<and> (\<forall>c \<in> set (BFingerprint b). c \<in> set ''0123456789ABCDEF'')"
  proof
    assume "BFingerprint b \<noteq> []"
    then have "fingerprint_ok (BFingerprint b)" using p(3) by blast
    then show "length (BFingerprint b) = 40 \<and> (\<forall>c \<in> set (BFingerprint b). c \<in> set ''0123456789ABCDEF'')"
      unfolding fingerprint_ok_def list_all_iff using upper_hex_digits by blast
  qed
  have names: "set (map fst (BOptions b)) \<subseteq> set (transport_options t)" by (rule option_names_known [OF p(5,1)])
  have ip: "ParseIP host = Some (BAddress b)" using p(2) ParseIP_text b(3) by (simp add: endpoint_ok_def)
  have t: "t \<in> {''obfs4'', ''meek_lite'', ''snowflake'', ''webtunnel''}" using p(1) by (simp only: line_transports_def list.set)
  have meek: "BFingerprint b = [] \<longrightarrow> t = ''meek_lite''" using p(3) by (auto simp: fingerprint_ok_def)
  have e: "\<not> IsLoopback (BAddress b)" "\<not> IsLinkLocalUnicast (BAddress b)" "\<not> IsUnspecified (BAddress b)"
    "t = ''obfs4'' \<longrightarrow> \<not> IsPrivate (BAddress b)" "1 \<le> BPort b" "BPort b \<le> 65535"
    using p(2) unfolding endpoint_ok_def by blast+
  show ?thesis
    by (rule exI [of _ "BAddress b"], rule exI [of _ "BPort b"], rule exI [of _ "BFingerprint b"], rule exI [of _ "BOptions b"],
        intro conjI)
      (rule fields safe_length [OF s, folded b(2)] safe_line(3) [OF s, folded b(2)] t b(3) ip e meek fp p(4) names)+
qed

theorem tor_line_safe_witness:
  "length (Fields sample_line) = 5 \<and> \<not> ContainsAny sample_line line_breaks
     \<and> (\<exists>ip. ParseIP ''198.51.100.7'' = Some ip \<and> \<not> IsLoopback ip \<and> \<not> IsPrivate ip)"
proof -
  have "length (Fields sample_line) = 5" by code_simp
  then show ?thesis using tor_line_safe [OF sample_normalized] by blast
qed

text \<open>
  C38. A bridge line that was accepted is accepted again, unchanged, with the same address and transport, whatever the
  URL parser does: a profile is normalised when it is saved and again whenever it is loaded.
\<close>

theorem tor_line_stable:
  assumes "normalizeTorBridgeLine url_parse value = Inr (line, host, t)"
  shows "normalizeTorBridgeLine url_parse line = Inr (line, host, t)"
proof -
  obtain b where b: "read_bridge url_parse value = Inr b" "line = join1 (bridge_fields b) CHR '' ''" "host = addr_String (BAddress b)"
    "t = BTransport b" using assms by (auto simp: line_of_bridge)
  have "read_bridge url_parse line = Inr b" unfolding b(2) by (rule safe_bridge_read [OF read_bridge_safe [OF b(1)]])
  then show ?thesis using b(2-4) by (auto simp: line_of_bridge)
qed

theorem tor_line_stable_witness:
  "normalizeTorBridgeLine (\<lambda>_. None) sample_line = Inr (sample_line, ''198.51.100.7'', ''obfs4'')"
  by (rule tor_line_stable [OF sample_normalized])

section \<open>The configuration of a node\<close>

text \<open>A line as the normalisation leaves it: it is read as a safe bridge and printed as it is.\<close>

definition normal_line :: "url_parser \<Rightarrow> string \<Rightarrow> string \<Rightarrow> string \<Rightarrow> bool" where
  "normal_line u l host t \<longleftrightarrow>
     (\<exists>b. safe_bridge u b \<and> l = join1 (bridge_fields b) CHR '' '' \<and> host = addr_String (BAddress b) \<and> t = BTransport b)"

lemma normal_line_made: "normalizeTorBridgeLine u v = Inr (l, host, t) \<Longrightarrow> normal_line u l host t"
  using read_bridge_safe by (auto simp: line_of_bridge normal_line_def)

lemma normal_line_again: "normal_line u l host t \<Longrightarrow> normalizeTorBridgeLine u l = Inr (l, host, t)"
  using safe_bridge_read by (auto simp: line_of_bridge normal_line_def)

lemma normal_line_facts:
  assumes "normal_line u l host t"
  shows "t \<in> set line_transports" "t \<noteq> []" "t \<noteq> ''custom''" "host \<noteq> []" "TorBridgeTransport (Some \<lparr>TorTransport = t, TorBridges = l # ls, TorSocksPort = p\<rparr>) = Inr t"
proof -
  obtain b where b: "safe_bridge u b" "l = join1 (bridge_fields b) CHR '' ''" "host = addr_String (BAddress b)" "t = BTransport b"
    using assms by (auto simp: normal_line_def)
  show t: "t \<in> set line_transports" using b(1,4) by (simp add: safe_bridge_def)
  then have n: "normalizeTorTransport t = Inr t" "t \<noteq> []" "t \<noteq> ''custom''" "TrimWide t \<noteq> []"
    using transport_facts by (simp_all add: list_all_iff)
  then show "t \<noteq> []" "t \<noteq> ''custom''" by blast+
  show "host \<noteq> []" using b(1,3) addr_text_facts(3) by (simp add: safe_bridge_def endpoint_ok_def)
  have "bridge_fields b \<noteq> []" "hd (bridge_fields b) = t" by (simp_all add: bridge_fields_def b(4))
  then show "TorBridgeTransport (Some \<lparr>TorTransport = t, TorBridges = l # ls, TorSocksPort = p\<rparr>) = Inr t"
    unfolding TorBridgeTransport_def
    using n safe_line(1,2,5) [OF b(1), folded b(2)] by (simp add: Let_def)
qed

lemma bridge_lines_step:
  assumes "bridge_lines u cfg st (raw # raws) = Inr st'"
  obtains l h t where "normalizeTorBridgeLine u raw = Inr (l, h, t)" "cfg = [] \<or> cfg = ''custom'' \<or> cfg = t"
    "cfg = ''custom'' \<or> LTransport st = [] \<or> LTransport st = t" "l \<notin> set (LDone st)"
    "bridge_lines u cfg \<lparr>LDone = LDone st @ [l], LTransport = (if LTransport st = [] then t else LTransport st),
       LTransports = List.insert t (LTransports st), LHost = (if LHost st = [] then h else LHost st)\<rparr> raws = Inr st'"
  using assms by (auto simp: res_bind_Inr_iff split: if_split_asm)

text \<open>Without a configured transport all lines have the transport of the first, which could have been configured.\<close>

lemma bridge_lines_configured:
  "bridge_lines u [] st raws = Inr st' \<Longrightarrow> (LTransport st \<noteq> [] \<longrightarrow> LTransport st' = LTransport st)
     \<and> bridge_lines u (LTransport st') st raws = Inr st' \<and> (raws \<noteq> [] \<longrightarrow> LTransport st' \<in> set line_transports)"
proof (induction raws arbitrary: st)
  case (Cons raw raws)
  from Cons(2) show ?case
  proof (cases rule: bridge_lines_step)
    case (1 l h t)
    note t = normal_line_facts(1,2,3) [OF normal_line_made [OF 1(1)]]
    have same: "LTransport st = [] \<or> LTransport st = t" using 1(3) by simp
    then have "LTransport st' = t" using Cons(1) [OF 1(5)] t(2) by (auto split: if_split_asm)
    then show ?thesis using Cons(1) [OF 1(5)] 1(1,4) same t by auto
  qed
qed simp

text \<open>The lines that come out of the loop go through it unchanged.\<close>

lemma bridge_lines_normal:
  "bridge_lines u cfg st raws = Inr st' \<Longrightarrow> distinct (LDone st) \<Longrightarrow>
   distinct (LDone st') \<and> (LHost st \<noteq> [] \<longrightarrow> LHost st' = LHost st)
   \<and> (\<exists>ls. LDone st' = LDone st @ ls \<and> length ls = length raws \<and> bridge_lines u cfg st ls = Inr st'
        \<and> (\<forall>l \<in> set ls. \<exists>h t. normal_line u l h t \<and> (cfg = [] \<or> cfg = ''custom'' \<or> t = cfg))
        \<and> (LHost st = [] \<and> ls \<noteq> [] \<longrightarrow> (\<exists>t. normal_line u (hd ls) (LHost st') t)))"
proof (induction raws arbitrary: st)
  case (Cons raw raws)
  from Cons(2) show ?case
  proof (cases rule: bridge_lines_step)
    case (1 l h t)
    note n = normal_line_made [OF 1(1)]
    let ?st = "\<lparr>LDone = LDone st @ [l], LTransport = (if LTransport st = [] then t else LTransport st),
       LTransports = List.insert t (LTransports st), LHost = (if LHost st = [] then h else LHost st)\<rparr>"
    have "distinct (LDone ?st)" using Cons(3) 1(4) by simp
    from Cons(1) [OF 1(5) this] obtain ls where ih: "distinct (LDone st')" "LHost ?st \<noteq> [] \<longrightarrow> LHost st' = LHost ?st"
      "LDone st' = LDone ?st @ ls" "length ls = length raws" "bridge_lines u cfg ?st ls = Inr st'"
      "\<forall>l \<in> set ls. \<exists>h t. normal_line u l h t \<and> (cfg = [] \<or> cfg = ''custom'' \<or> t = cfg)" by blast
    have host: "LHost ?st \<noteq> []" using normal_line_facts(4) [OF n] by simp
    have "bridge_lines u cfg st (l # ls) = Inr st'" using normal_line_again [OF n] 1(2-4) ih(5) by auto
    moreover have "\<forall>l' \<in> set (l # ls). \<exists>h t. normal_line u l' h t \<and> (cfg = [] \<or> cfg = ''custom'' \<or> t = cfg)" using ih(6) n 1(2) by auto
    moreover have "LHost st = [] \<longrightarrow> normal_line u l (LHost st') t" using ih(2) host n by simp
    ultimately show ?thesis using ih(1-4) host
      by (intro conjI exI [of _ "l # ls"]) auto
  qed
qed auto

definition safe_port :: "int \<Rightarrow> bool" where
  "safe_port p \<longleftrightarrow> 1024 \<le> p \<and> p \<le> 65535 \<and> p \<notin> set reserved_ports"

lemma config_lines:
  assumes "normalizeExternalTorBridge u c = Inr (host, c')"
  obtains st raws where "1 \<le> length raws" "length raws \<le> 8" "bridge_lines u (TorTransport c') no_lines raws = Inr st"
    "host = LHost st" "TorBridges c' = LDone st" "safe_port (TorSocksPort c')"
    "TorTransport c' = ''custom'' \<or> TorTransport c' \<in> set line_transports"
proof -
  obtain d where c: "c = Some d" using assms by (cases c) (auto simp: normalizeExternalTorBridge_def)
  define port where "port = (if TorSocksPort d = 0 then ExternalTorDefaultSocksPort else TorSocksPort d)"
  from assms obtain cfg st t where r: "\<not> (length (TorBridges d) < 1 \<or> length (TorBridges d) > 8)"
    "(if TrimWide (TorTransport d) \<noteq> [] then normalizeTorTransport (TorTransport d) else Inr []) = Inr cfg"
    "bridge_lines u cfg no_lines (TorBridges d) = Inr st" "t = (if cfg \<noteq> [] then cfg else LTransport st)"
    "\<not> (port < 1024 \<or> port > 65535 \<or> port \<in> set reserved_ports)"
    "host = LHost st" "c' = \<lparr>TorTransport = t, TorBridges = LDone st, TorSocksPort = port\<rparr>"
    unfolding normalizeExternalTorBridge_def c option.case Let_def port_def [symmetric]
    by (auto simp: res_bind_Inr_iff split: if_split_asm)
  have cfg: "cfg = [] \<or> cfg = ''custom'' \<or> cfg \<in> set line_transports"
    using r(2) transport_cases [of "TorTransport d" cfg] by (auto split: if_split_asm)
  have "bridge_lines u t no_lines (TorBridges d) = Inr st \<and> (t = ''custom'' \<or> t \<in> set line_transports)"
  proof (cases "cfg = []")
    case True
    have "TorBridges d \<noteq> []" using r(1) by auto
    then show ?thesis using bridge_lines_configured [of u no_lines "TorBridges d" st] r(3,4) True by simp
  qed (use r(3,4) cfg in simp)
  then show thesis using r(1,5,6,7) by (intro that [of "TorBridges d" st]) (auto simp: safe_port_def Suc_le_eq)
qed

text \<open>
  C39. An accepted configuration has one to eight different bridge lines, each accepted unchanged on its own and all of
  the configured transport unless that is custom; the address handed out is that of the first line, and the local port is
  neither privileged nor one of the ports the client reserves.
\<close>

theorem tor_config_sound:
  assumes "normalizeExternalTorBridge url_parse c = Inr (host, c')"
  shows "1 \<le> length (TorBridges c') \<and> length (TorBridges c') \<le> 8 \<and> distinct (TorBridges c')
     \<and> (\<forall>l \<in> set (TorBridges c'). \<exists>h t. normalizeTorBridgeLine url_parse l = Inr (l, h, t)
          \<and> (TorTransport c' = ''custom'' \<or> TorTransport c' = t))
     \<and> (\<exists>t. normalizeTorBridgeLine url_parse (hd (TorBridges c')) = Inr (hd (TorBridges c'), host, t))
     \<and> 1024 \<le> TorSocksPort c' \<and> TorSocksPort c' \<le> 65535 \<and> TorSocksPort c' \<notin> {1098, 1099, 8788}"
proof -
  obtain st raws where r: "1 \<le> length raws" "length raws \<le> 8" "bridge_lines url_parse (TorTransport c') no_lines raws = Inr st"
    "host = LHost st" "TorBridges c' = LDone st" "safe_port (TorSocksPort c')"
    "TorTransport c' = ''custom'' \<or> TorTransport c' \<in> set line_transports" by (rule config_lines [OF assms])
  have "TorTransport c' \<noteq> []" using r(7) transport_facts by (auto simp: list_all_iff)
  moreover have "distinct (LDone no_lines)" "LHost no_lines = []" "LDone no_lines = []" by (simp_all add: no_lines_def)
  moreover note bridge_lines_normal [OF r(3) this(1)]
  ultimately obtain ls where ls: "LDone st = ls" "distinct ls" "length ls = length raws"
    "\<forall>l \<in> set ls. \<exists>h t. normal_line url_parse l h t \<and> (TorTransport c' = ''custom'' \<or> t = TorTransport c')"
    "\<exists>t. normal_line url_parse (hd ls) (LHost st) t" using r(1) by fastforce
  then show ?thesis
    using r(1,2,4,5,6) normal_line_again by (fastforce simp: safe_port_def reserved_ports_def)
qed

theorem tor_config_sound_witness:
  "distinct (TorBridges sample_config) \<and> TorSocksPort sample_config \<notin> {1098, 1099, 8788}
     \<and> (\<exists>t. normalizeTorBridgeLine (\<lambda>_. None) (hd (TorBridges sample_config)) = Inr (hd (TorBridges sample_config), ''198.51.100.7'', t))"
  using tor_config_sound [OF sample_config_normalized] by blast

text \<open>
  C40. The normalised configuration is a fixed point: it is accepted again with the same address and result, and the
  transport that is read from it without normalisation is its own.
\<close>

theorem tor_config_stable:
  assumes "normalizeExternalTorBridge url_parse c = Inr (host, c')"
  shows "normalizeExternalTorBridge url_parse (Some c') = Inr (host, c') \<and> TorBridgeTransport (Some c') = Inr (TorTransport c')"
proof -
  obtain st raws where r: "1 \<le> length raws" "length raws \<le> 8" "bridge_lines url_parse (TorTransport c') no_lines raws = Inr st"
    "host = LHost st" "TorBridges c' = LDone st" "safe_port (TorSocksPort c')"
    "TorTransport c' = ''custom'' \<or> TorTransport c' \<in> set line_transports" by (rule config_lines [OF assms])
  have d: "distinct (LDone no_lines)" "LDone no_lines = []" by (simp_all add: no_lines_def)
  note n = bridge_lines_normal [OF r(3) d(1), unfolded d(2) append_Nil]
  then have again: "bridge_lines url_parse (TorTransport c') no_lines (TorBridges c') = Inr st" using r(5) by auto
  have len: "1 \<le> length (TorBridges c')" "length (TorBridges c') \<le> 8" using n r(1,2,5) by auto
  have t: "TrimWide (TorTransport c') \<noteq> []" "normalizeTorTransport (TorTransport c') = Inr (TorTransport c')" "TorTransport c' \<noteq> []"
    using r(7) transport_facts custom_transport custom_trimmed by (auto simp: list_all_iff)
  have port: "TorSocksPort c' \<noteq> 0" "\<not> (TorSocksPort c' < 1024 \<or> TorSocksPort c' > 65535 \<or> TorSocksPort c' \<in> set reserved_ports)"
    using r(6) by (auto simp: safe_port_def)
  have "normalizeExternalTorBridge url_parse (Some c') = Inr (host, c')"
    using len t port again r(4,5) by (simp add: normalizeExternalTorBridge_def Let_def Suc_le_eq)
  moreover have "TorBridgeTransport (Some c') = Inr (TorTransport c')"
  proof (cases "TorTransport c' = ''custom''")
    case True
    have "TorBridges c' \<noteq> []" using len(1) by auto
    then show ?thesis using t True by (simp add: TorBridgeTransport_def)
  next
    case False
    obtain l ls where l: "TorBridges c' = l # ls" using len(1) by (cases "TorBridges c'") auto
    then obtain h where "normal_line url_parse l h (TorTransport c')" using n r(5) False t(3) by fastforce
    then show ?thesis using normal_line_facts(5) [of url_parse l h "TorTransport c'" ls "TorSocksPort c'"] l by (cases c') simp
  qed
  ultimately show ?thesis ..
qed

theorem tor_config_stable_witness:
  "normalizeExternalTorBridge (\<lambda>_. None) (Some sample_config) = Inr (''198.51.100.7'', sample_config)
     \<and> TorBridgeTransport (Some sample_config) = Inr (TorTransport sample_config)"
  by (rule tor_config_stable [OF sample_config_normalized])

end
