(* ===== verification/Spec2Isabelle.thy ===== *)
theory Spec2Isabelle
  imports AwgPolicy AgentSink RouteChoice OvpnLayers MtuPolicy MtuCache MtuChoose MtuControlProps NativeRequest
    DnsWireProps WhiteningProps TorBridgeProps
begin

text \<open>
  Verification of the policy, measurement, update and transport core of Router VPN, the Go packages of
  \<^verbatim>\<open>src/internal\<close> that decide what a client does and that every platform shares.

  \<^bold>\<open>The program.\<close> A client runs tunnels through entry and exit nodes. \<^verbatim>\<open>awgpolicy\<close> checks the parameters of AmneziaWG
  and computes how large a nested tunnel may be. \<^verbatim>\<open>mobilemtu\<close> plans, measures, adopts and caches the MTU of a running
  session, with the probe packets of \<^verbatim>\<open>mtuprobe\<close>, which the
  datagram sink of \<^verbatim>\<open>cmd/router-agent\<close> answers, and the compiled OpenVPN layers of \<^verbatim>\<open>nativeopenvpn\<close>.
  \<^verbatim>\<open>routechoice\<close> compares the routes of a multihop selection by opening them one after the other.
  \<^verbatim>\<open>dnsmeasure\<close> checks the DNS answers that come back through a tunnel. \<^verbatim>\<open>startwhitening\<close> owns the whitened
  connections of the start layers. \<^verbatim>\<open>common\<close> normalises the Tor bridges of a node. \<^verbatim>\<open>updatepolicy\<close> verifies signed manifests and downloads and removes packages, and the
  desktop client composes it in \<^verbatim>\<open>cmd/client/native_auto_update.go\<close> into the update requests of its local API.

  \<^bold>\<open>Theories.\<close>
  \<^item> \<open>GoPrelude\<close>: errors and panics as values, Go division, strings, association-list maps, decimal numbers, stable
    sorting with its interface \<open>strict_weak_less\<close>, JSON values. \<open>Netip\<close>: \<^verbatim>\<open>net/netip\<close> addresses. \<open>Json\<close>: the
    decoder and encoder of \<^verbatim>\<open>encoding/json\<close> that several packages use, with their round trip.
  \<^item> \<open>AwgPolicy\<close> (\<^verbatim>\<open>awgpolicy/parameters.go, packet_envelope.go, packet_graph.go\<close>): parameter validation and UAPI
    text, the packet envelope and its capacity. Lemmas: accepted headers are unambiguous, the text reads back, a
    granted MTU fits and is maximal, nested tunnels compose.
  \<^item> \<open>MtuProbe\<close> (\<^verbatim>\<open>mtuprobe/packet.go\<close>): probe packets and the token bucket per peer. Lemmas: an exchange
    completes, replies need authentication and do not amplify, the rate bound over any run of calls for a float
    arithmetic whose operations have a relative error \<open>e\<close> and an absolute error \<open>d\<close>. \<open>AgentSink\<close>
    (\<^verbatim>\<open>cmd/router-agent/mtu_probe.go\<close>, \<open>servePrivateDatagrams\<close> of \<^verbatim>\<open>main.go\<close>): the loop that answers datagrams
    under this limiter; the replies and the bytes that a peer can draw from it.
  \<^item> \<open>RouteChoice\<close> (\<^verbatim>\<open>routechoice/choice.go\<close>): the whole comparison. Lemmas: one session at a time, ownership of the
    session that is returned, optimality of the winner, which was probed again on the session that is handed out.
  \<^item> \<open>OvpnLayers\<close> (\<^verbatim>\<open>nativeopenvpn\<close>: remotes, receipts, Start Layers, layer maps, pairing keys). Lemmas: canonical
    keys are below the prime, a map covers its remotes, the overhead is the exact maximum.
  \<^item> \<open>MtuPolicy\<close>, \<open>MtuCache\<close>, \<open>MtuChoose\<close> (\<^verbatim>\<open>mobilemtu/policy.go, openvpn_layers.go, cache.go, controller.go\<close>): the
    plan with its bounds, the preference cache, the choice. The cache is specified twice: the round trip over a
    faultless store that nobody else writes (\<open>atomic_store\<close>), and the result of a save over a store that other
    processes write, whose reads and swaps may fail or report a failure after they took effect, with the history of
    the swaps that took effect (\<open>store_contract\<close>).
  \<^item> \<open>MtuControl\<close>, \<open>MtuControlSafe\<close>, \<open>MtuControlProps\<close> (\<^verbatim>\<open>mobilemtu/controller.go, async.go, external.go\<close>): the life of
    a controller; the invariants of its steps; the properties over its reachable states. An operation runs to its
    end in one step of the reachable states, so the state carries two histories: the calls of the owner that the
    operation made, and the moments inside of operations at which others got to act, in which a running operation
    can be seen. What the controller promises while it measures is stated of all moments.
  \<^item> \<open>UpdateManifest\<close> (\<^verbatim>\<open>updatepolicy/manifest.go, package_provenance.go\<close>): validation, signing, verification and
    selection. \<open>UpdateStore\<close>, \<open>UpdateStoreSafe\<close>, \<open>UpdateStoreProps\<close> (\<^verbatim>\<open>updatepolicy/store.go\<close>): the operations on a
    model of the file system; a Hoare logic for them; the guarantees of download, save and removal.
  \<^item> \<open>ArtifactDir\<close> (\<^verbatim>\<open>updatepolicy/artifact_directory.go\<close>): the private directory and the ownership of saved paths.
    Lemmas: the check is exact, the paths of downloads pass it.
  \<^item> \<open>NativeUpdate\<close>, \<open>NativeUpdateProps\<close>, \<open>NativeRequest\<close> (\<^verbatim>\<open>cmd/client/native_auto_update.go\<close>): a run of the updater
    with its state file; a frame logic for it, whose interface \<open>own_frame\<close> states which directory entries a frame must
    allow and is interpreted on the frame of an update and on that of saving the state; the configuration from the
    environment and the routes of the local API. Lemmas: no rollback, what is staged was signed, a request touches only what
    belongs to the updater, an accepted configuration is sound.
  \<^item> \<open>DnsWire\<close>, \<open>DnsWireProps\<close> (\<^verbatim>\<open>dnsmeasure/wire.go, addresses.go, response.go\<close>): names, records and answers; their
    refinement of the message syntax of RFC 1035.
  \<^item> \<open>Whitening\<close>, \<open>WhiteningProps\<close> (\<^verbatim>\<open>startwhitening/conn.go\<close>, adoption and closing in \<^verbatim>\<open>authenticated.go\<close>): the
    whitened stream, whose writes end after a bounded number of pieces; the owner of the connections as a step relation
    with its invariants.
  \<^item> \<open>TorBridge\<close>, \<open>TorBridgeText\<close>, \<open>TorBridgeProps\<close> (\<^verbatim>\<open>common/tor_bridge.go\<close>): the normalisation of the bridge lines
    and of the bridge configuration of a Tor node; Unicode white space and fields; what is accepted is safe, and what is
    normalised is a fixed point. \<open>NetipText\<close>: addresses are read back from their text.

  \<^bold>\<open>Correspondence.\<close> Definitions carry the names of the Go functions, methods as \<open>Type_Method\<close>; a loop or a critical
  section of a long function is a definition of its own. Structs are records, Go errors are the left side of a sum,
  with texts that identify the failing check; where the code stores or compares an error text, labels of
  wrapping errors are kept. Integers are unbounded where the code bounds them before use, and
  words where they wrap around; floating point numbers are rationals with a rounding function as a parameter.

  \<^bold>\<open>Parameters.\<close> HMAC, Ed25519, SHA-256, random sources, clocks, \<^verbatim>\<open>net/url\<close>, the text of times, sockets, HTTP clients,
  environment variables, the working directory, the session drivers and the owner of the tunnel interface are arguments of the definitions. What is assumed
  of them stands in the hypotheses of the theorems and each witness instantiates them with concrete functions.

  \<^bold>\<open>Concurrency.\<close> A controller, the update store and the connection owner run among other goroutines or processes.
  In \<open>MtuControl\<close> others act at every lock and at every call that leaves the controller; in \<open>UpdateStore\<close> other
  processes change the disk before every system call and every call may fail; in \<open>Whitening\<close> each critical section is
  one step and steps interleave freely.

  \<^bold>\<open>Bounds.\<close> Recursion is structural or has a measure. Where the code itself counts, the model counts the same: a DNS name
  has 256 steps, an alias chain 16 hops, a plan at most five candidates. The JSON decoder gets the length of its input
  as fuel and is proved to need no more for every encoded value; the replacement of invalid UTF-8 gets the length of
  the text and consumes at least one byte in each step.

  \<^bold>\<open>Findings.\<close> A layer map with a single host passes validation but can never be planned over (\<open>MtuPolicy\<close>); artifacts
  whose platform names are aliases pass validation but can never be selected (\<open>UpdateManifest\<close>); on Windows the
  adoption of a download replaces a file that appeared in the meantime, against its comment (\<open>UpdateStoreProps\<close>);
  a saved package path is bound to the configured directory with its white space, while the directory is checked without
  (\<open>ArtifactDir\<close>).

  \<^bold>\<open>Not modelled.\<close> The rest of the desktop client and its platform glue (\<^verbatim>\<open>cmd/client\<close>), protection and process
  owners, native applications and deployment scripts, because they are calls of operating system interfaces or other
  languages; generated configurations of third-party engines; vendored transports under \<^verbatim>\<open>mobile/torpt\<close>. Within the
  modelled packages: the agent beyond its datagram sink, the OpenVPN profile compiler and the pairing exchange, the measurement services of \<^verbatim>\<open>dnsmeasure\<close>,
  the cleanup authority of an MTU operation beyond its grant, and the read and write locks of the authenticated wrappers.
  Not modelled either are \<^verbatim>\<open>hopmeasure\<close> and \<^verbatim>\<open>mobileperf\<close>, whose logic is the timing of real transfers.
\<close>

end
